(* ===== verification/Prelude.thy ===== *)
theory Prelude
  imports Main "HOL-Library.Code_Target_Numeral"
begin

text \<open>
  Shared vocabulary of the development: results with errors as values, the list
  operations that SQL statements on a table become (first row of a query, conditional
  update, conditional delete), the relay's clock, and the generic lemmas about them that
  every component theory uses.

  A Go function that returns \<open>(x, err)\<close> is modelled with the sum type \<open>'e + 'a\<close>:
  \<open>Inl e\<close> is the error return, \<open>Inr x\<close> the normal one.
\<close>

named_theorems sql_simps \<open>rewrite rules for the table operations\<close>

section \<open>Results\<close>

definition rbind :: "'e + 'a \<Rightarrow> ('a \<Rightarrow> 'e + 'b) \<Rightarrow> 'e + 'b" where
  "rbind m f = (case m of Inl e \<Rightarrow> Inl e | Inr x \<Rightarrow> f x)"

lemma rbind_simps [simp]:
  "rbind (Inl e) f = Inl e"
  "rbind (Inr x) f = f x"
  by (simp_all add: rbind_def)

lemma rbind_Inr_iff: "rbind m f = Inr y \<longleftrightarrow> (\<exists>x. m = Inr x \<and> f x = Inr y)"
  by (cases m) simp_all

lemma rbind_Inl_iff: "rbind m f = Inl e \<longleftrightarrow> m = Inl e \<or> (\<exists>x. m = Inr x \<and> f x = Inl e)"
  by (cases m) auto

lemma rbind_InrE:
  assumes "rbind m f = Inr y"
  obtains x where "m = Inr x" and "f x = Inr y"
  using assms by (auto simp: rbind_Inr_iff)

text \<open>A guard: the early error return of an \<open>if\<close> statement.\<close>

definition guard_err :: "bool \<Rightarrow> 'e \<Rightarrow> 'e + unit" where
  "guard_err ok e = (if ok then Inr () else Inl e)"

lemma guard_err_simps [simp]:
  "guard_err True e = Inr ()"
  "guard_err False e = Inl e"
  "guard_err ok e = Inr u \<longleftrightarrow> ok"
  "guard_err ok e = Inl e' \<longleftrightarrow> \<not> ok \<and> e' = e"
  by (auto simp: guard_err_def)

section \<open>Tables as lists of rows\<close>

text \<open>
  A table is the list of its rows in insertion order. \<open>select_first\<close> is
  \<open>QueryRow(...).Scan(...)\<close>: the first matching row, \<open>None\<close> for
  \<open>sql.ErrNoRows\<close>.
\<close>

definition select_first :: "('r \<Rightarrow> bool) \<Rightarrow> 'r list \<Rightarrow> 'r option" where
  "select_first P rows = find P rows"

definition update_where :: "('r \<Rightarrow> bool) \<Rightarrow> ('r \<Rightarrow> 'r) \<Rightarrow> 'r list \<Rightarrow> 'r list" where
  "update_where P f rows = map (\<lambda>r. if P r then f r else r) rows"

definition delete_where :: "('r \<Rightarrow> bool) \<Rightarrow> 'r list \<Rightarrow> 'r list" where
  "delete_where P rows = filter (\<lambda>r. \<not> P r) rows"

definition rows_affected :: "('r \<Rightarrow> bool) \<Rightarrow> 'r list \<Rightarrow> nat" where
  "rows_affected P rows = length (filter P rows)"

definition exists_row :: "('r \<Rightarrow> bool) \<Rightarrow> 'r list \<Rightarrow> bool" where
  "exists_row P rows = list_ex P rows"

lemma select_first_Some:
  "select_first P rows = Some r \<Longrightarrow> r \<in> set rows \<and> P r"
  by (auto simp: select_first_def find_Some_iff)

lemma select_first_None:
  "select_first P rows = None \<longleftrightarrow> (\<forall>r \<in> set rows. \<not> P r)"
  by (auto simp: select_first_def find_None_iff)

lemma select_first_not_None:
  "select_first P rows \<noteq> None \<longleftrightarrow> (\<exists>r \<in> set rows. P r)"
  by (simp add: select_first_None)

lemma select_first_exists:
  "r \<in> set rows \<Longrightarrow> P r \<Longrightarrow> \<exists>r'. select_first P rows = Some r'"
  using select_first_not_None [of P rows] by auto

lemma select_first_simps [sql_simps]:
  "select_first P [] = None"
  "select_first P (r # rows) = (if P r then Some r else select_first P rows)"
  by (simp_all add: select_first_def)

lemma select_first_append:
  "select_first P (xs @ ys) =
     (case select_first P xs of None \<Rightarrow> select_first P ys | Some r \<Rightarrow> Some r)"
  by (induction xs) (auto simp: sql_simps)

text \<open>When a key is unique, the first row with that key is the only one.\<close>

lemma distinct_key_unique:
  assumes "distinct (map key rows)" "r \<in> set rows" "r' \<in> set rows" "key r = key r'"
  shows "r = r'"
  using assms by (auto simp: distinct_map inj_on_def)

lemma select_first_unique:
  assumes "distinct (map key rows)" "r \<in> set rows" "key r = k"
    and "\<And>x. P x \<Longrightarrow> key x = k" and "P r"
  shows "select_first P rows = Some r"
proof -
  obtain r' where r': "select_first P rows = Some r'"
    using select_first_exists [of r rows P] assms(2,5) by blast
  then have "r' \<in> set rows" "P r'" by (auto dest: select_first_Some)
  with assms have "r' = r" by (auto intro: distinct_key_unique [of key rows])
  with r' show ?thesis by simp
qed

lemma select_first_key:
  assumes "distinct (map key rows)" "r \<in> set rows"
  shows "select_first (\<lambda>x. key x = key r) rows = Some r"
  using assms by (intro select_first_unique [where key = key and k = "key r"]) auto

lemma update_where_simps [sql_simps]:
  "update_where P f [] = []"
  "update_where P f (r # rows) = (if P r then f r else r) # update_where P f rows"
  by (simp_all add: update_where_def)

lemma length_update_where [simp]: "length (update_where P f rows) = length rows"
  by (simp add: update_where_def)

lemma set_update_where:
  "set (update_where P f rows) = {r. r \<in> set rows \<and> \<not> P r} \<union> f ` {r. r \<in> set rows \<and> P r}"
  by (auto simp: update_where_def image_iff)

lemma in_update_whereE:
  assumes "r' \<in> set (update_where P f rows)"
  obtains r where "r \<in> set rows" and "r' = (if P r then f r else r)"
  using assms by (auto simp: update_where_def)

lemma in_update_whereI:
  "r \<in> set rows \<Longrightarrow> (if P r then f r else r) \<in> set (update_where P f rows)"
  by (auto simp: update_where_def)

lemma map_update_where_key:
  "(\<And>r. P r \<Longrightarrow> key (f r) = key r) \<Longrightarrow> map key (update_where P f rows) = map key rows"
  by (auto simp: update_where_def)

lemma list_all_update_where:
  "list_all Q rows \<Longrightarrow> (\<And>r. P r \<Longrightarrow> Q r \<Longrightarrow> Q (f r)) \<Longrightarrow> list_all Q (update_where P f rows)"
  by (induction rows) (auto simp: sql_simps)

lemma list_all_delete_where: "list_all Q rows \<Longrightarrow> list_all Q (delete_where P rows)"
  by (simp add: delete_where_def list_all_iff)

lemma update_where_idle: "(\<And>r. r \<in> set rows \<Longrightarrow> \<not> P r) \<Longrightarrow> update_where P f rows = rows"
  by (induction rows) (auto simp: sql_simps)

lemma select_first_update_where_other:
  assumes "\<And>r. P r \<Longrightarrow> Q (f r) = Q r" and "\<And>r. P r \<Longrightarrow> \<not> Q r"
  shows "select_first Q (update_where P f rows) = select_first Q rows"
  using assms by (induction rows) (auto simp: sql_simps)

lemma select_first_update_where:
  assumes "\<And>r. P r \<Longrightarrow> Q (f r) = Q r"
  shows "select_first Q (update_where P f rows) =
           map_option (\<lambda>r. if P r then f r else r) (select_first Q rows)"
  using assms by (induction rows) (auto simp: sql_simps)

lemma set_delete_where [simp]: "set (delete_where P rows) = {r \<in> set rows. \<not> P r}"
  by (auto simp: delete_where_def)

lemma delete_where_simps [sql_simps]:
  "delete_where P [] = []"
  "delete_where P (r # rows) = (if P r then delete_where P rows else r # delete_where P rows)"
  by (simp_all add: delete_where_def)

lemma distinct_map_filter_key: "distinct (map key rows) \<Longrightarrow> distinct (map key (filter P rows))"
  by (induction rows) auto

lemma distinct_delete_where: "distinct (map key rows) \<Longrightarrow> distinct (map key (delete_where P rows))"
  by (simp add: delete_where_def distinct_map_filter_key)

lemma rows_affected_simps [sql_simps]:
  "rows_affected P [] = 0"
  "rows_affected P (r # rows) = (if P r then Suc (rows_affected P rows) else rows_affected P rows)"
  by (simp_all add: rows_affected_def)

lemma rows_affected_0: "rows_affected P rows = 0 \<longleftrightarrow> (\<forall>r \<in> set rows. \<not> P r)"
  by (auto simp: rows_affected_def filter_empty_conv)

lemma rows_affected_pos: "0 < rows_affected P rows \<longleftrightarrow> (\<exists>r \<in> set rows. P r)"
  using rows_affected_0 [of P rows] by auto

lemma exists_row_iff [simp]: "exists_row P rows \<longleftrightarrow> (\<exists>r \<in> set rows. P r)"
  by (simp add: exists_row_def list_ex_iff)

section \<open>The clock\<close>

text \<open>
  Instants and durations are nanosecond counts (\<open>time.Time\<close> as the instant since the
  Unix epoch, \<open>time.Duration\<close>). \<open>unix_sec\<close> is \<open>Time.Unix()\<close>: seconds, rounded
  towards minus infinity.
\<close>

type_synonym instant = int
type_synonym duration = int

definition unix_sec :: "instant \<Rightarrow> int" where
  "unix_sec t = t div 1000000000"

definition from_unix :: "int \<Rightarrow> instant" where
  "from_unix s = s * 1000000000"

lemma unix_sec_mono: "s \<le> t \<Longrightarrow> unix_sec s \<le> unix_sec t"
  by (simp add: unix_sec_def zdiv_mono1)

lemma unix_sec_less: "unix_sec s < unix_sec t \<Longrightarrow> s < t"
  using unix_sec_mono [of t s] by linarith

lemma unix_sec_from_unix [simp]: "unix_sec (from_unix s) = s"
  by (simp add: unix_sec_def from_unix_def)

end
