(* ===== verification/Codec.thy ===== *)
theory Codec
  imports Prelude
begin

text \<open>
  The byte-level standard-library routines the relay uses. A Go string is its byte
  sequence: \<open>string\<close> is a list of 8-bit characters. Code points (Go runes) are natural
  numbers. \<open>decode_rune\<close> is \<open>utf8.DecodeRuneInString\<close> (the loop
  \<open>for _, r := range s\<close>), \<open>append_rune\<close> is \<open>utf8.AppendRune\<close>,
  \<open>utf16_encode\<close> is \<open>utf16.Encode\<close>; \<open>itoa\<close>, hexadecimal and base64 are
  \<open>strconv\<close>, \<open>encoding/hex\<close> and \<open>encoding/base64\<close>.
\<close>

section \<open>Bytes\<close>

definition byte_of :: "char \<Rightarrow> nat" where
  "byte_of c = of_char c"

definition to_byte :: "nat \<Rightarrow> char" where
  "to_byte n = char_of n"

lemma byte_of_to_byte [simp]: "byte_of (to_byte n) = n mod 256"
  by (simp add: byte_of_def to_byte_def)

lemma to_byte_byte_of [simp]: "to_byte (byte_of c) = c"
  by (simp add: byte_of_def to_byte_def)

lemma byte_of_less [simp]: "byte_of c < 256"
proof -
  have "byte_of (to_byte (byte_of c)) = byte_of c mod 256" by (rule byte_of_to_byte)
  then have "byte_of c = byte_of c mod 256" by simp
  then show ?thesis by (metis mod_less_divisor zero_less_numeral)
qed

lemma byte_of_inject [simp]: "byte_of c = byte_of d \<longleftrightarrow> c = d"
  by (metis to_byte_byte_of)

section \<open>Decimal and hexadecimal\<close>

definition digit_char :: "nat \<Rightarrow> char" where
  "digit_char d = to_byte (48 + d)"

fun digits_nat :: "nat \<Rightarrow> string" where
  "digits_nat n = (if n < 10 then [digit_char n] else digits_nat (n div 10) @ [digit_char (n mod 10)])"

declare digits_nat.simps [simp del]

definition itoa :: "int \<Rightarrow> string" where
  "itoa i = (if i < 0 then ''-'' @ digits_nat (nat (- i)) else digits_nat (nat i))"

definition is_digit :: "char \<Rightarrow> bool" where
  "is_digit c \<longleftrightarrow> 48 \<le> byte_of c \<and> byte_of c \<le> 57"

definition digit_val :: "char \<Rightarrow> nat" where
  "digit_val c = byte_of c - 48"

fun nat_of_digits :: "nat \<Rightarrow> string \<Rightarrow> nat" where
  "nat_of_digits acc [] = acc"
| "nat_of_digits acc (c # cs) = nat_of_digits (10 * acc + digit_val c) cs"

text \<open>\<open>strconv.Atoi\<close> / \<open>ParseInt(s, 10, 64)\<close>: an optional sign, at least one digit, in the
  range of a 64-bit integer.\<close>

definition atoi :: "string \<Rightarrow> int option" where
  "atoi s =
     (let neg = (s \<noteq> [] \<and> hd s = CHR ''-'');
          body = (if s \<noteq> [] \<and> (hd s = CHR ''-'' \<or> hd s = CHR ''+'') then tl s else s);
          v = (if neg then - int (nat_of_digits 0 body) else int (nat_of_digits 0 body))
      in if body \<noteq> [] \<and> list_all is_digit body \<and> - (2 ^ 63) \<le> v \<and> v < 2 ^ 63 then Some v else None)"

definition hexdigits :: string where
  "hexdigits = ''0123456789abcdef''"

definition hex_digit :: "nat \<Rightarrow> char" where
  "hex_digit d = hexdigits ! (d mod 16)"

definition hex_encode :: "string \<Rightarrow> string" where
  "hex_encode bs = concat (map (\<lambda>c. [hex_digit (byte_of c div 16), hex_digit (byte_of c mod 16)]) bs)"

definition hex_val :: "nat \<Rightarrow> nat option" where
  "hex_val r =
     (if 48 \<le> r \<and> r \<le> 57 then Some (r - 48)
      else if 97 \<le> r \<and> r \<le> 102 then Some (r - 87)
      else if 65 \<le> r \<and> r \<le> 70 then Some (r - 55)
      else None)"

section \<open>UTF-8\<close>

definition RuneError :: nat where
  "RuneError = 65533"

definition cont :: "nat \<Rightarrow> bool" where
  "cont b \<longleftrightarrow> 128 \<le> b \<and> b \<le> 191"

text \<open>The accept range of the second byte, by the first (the table \<open>acceptRanges\<close> of unicode/utf8).\<close>

definition accept2 :: "nat \<Rightarrow> nat \<Rightarrow> bool" where
  "accept2 b0 b1 \<longleftrightarrow>
     (if b0 = 224 then 160 \<le> b1 \<and> b1 \<le> 191
      else if b0 = 237 then 128 \<le> b1 \<and> b1 \<le> 159
      else if b0 = 240 then 144 \<le> b1 \<and> b1 \<le> 191
      else if b0 = 244 then 128 \<le> b1 \<and> b1 \<le> 143
      else cont b1)"

text \<open>The rune at the head of a non-empty byte sequence, and its width.\<close>

fun decode_rune :: "nat list \<Rightarrow> nat \<times> nat" where
  "decode_rune [] = (RuneError, 0)"
| "decode_rune (b0 # bs) =
     (if b0 < 128 then (b0, 1)
      else if 194 \<le> b0 \<and> b0 \<le> 223 then
        (case bs of b1 # _ \<Rightarrow>
             if accept2 b0 b1 then ((b0 - 192) * 64 + (b1 - 128), 2) else (RuneError, 1)
           | [] \<Rightarrow> (RuneError, 1))
      else if 224 \<le> b0 \<and> b0 \<le> 239 then
        (case bs of b1 # b2 # _ \<Rightarrow>
             if accept2 b0 b1 \<and> cont b2
             then ((b0 - 224) * 4096 + (b1 - 128) * 64 + (b2 - 128), 3) else (RuneError, 1)
           | _ \<Rightarrow> (RuneError, 1))
      else if 240 \<le> b0 \<and> b0 \<le> 244 then
        (case bs of b1 # b2 # b3 # _ \<Rightarrow>
             if accept2 b0 b1 \<and> cont b2 \<and> cont b3
             then ((b0 - 240) * 262144 + (b1 - 128) * 4096 + (b2 - 128) * 64 + (b3 - 128), 4)
             else (RuneError, 1)
           | _ \<Rightarrow> (RuneError, 1))
      else (RuneError, 1))"

lemma decode_rune_size: "bs \<noteq> [] \<Longrightarrow> 1 \<le> snd (decode_rune bs)"
  by (cases bs) (auto split: list.splits)

text \<open>All runes of a byte sequence with their widths; width 1 with \<open>RuneError\<close> is an invalid byte.\<close>

function rune_widths :: "nat list \<Rightarrow> (nat \<times> nat) list" where
  "rune_widths bs = (if bs = [] then []
     else decode_rune bs # rune_widths (drop (snd (decode_rune bs)) bs))"
  by pat_completeness auto
termination
proof (relation "measure length")
  fix bs :: "nat list"
  assume "bs \<noteq> []"
  with decode_rune_size [of bs] show "(drop (snd (decode_rune bs)) bs, bs) \<in> measure length"
    by (cases bs) auto
qed simp

declare rune_widths.simps [simp del]

definition runes :: "string \<Rightarrow> nat list" where
  "runes s = map fst (rune_widths (map byte_of s))"

definition scalar :: "nat \<Rightarrow> bool" where
  "scalar r \<longleftrightarrow> r \<le> 1114111 \<and> \<not> (55296 \<le> r \<and> r \<le> 57343)"

definition append_rune_bytes :: "nat \<Rightarrow> nat list" where
  "append_rune_bytes r =
     (if r < 128 then [r]
      else if r < 2048 then [192 + r div 64, 128 + r mod 64]
      else if \<not> scalar r then [239, 191, 189]
      else if r < 65536 then [224 + r div 4096, 128 + r div 64 mod 64, 128 + r mod 64]
      else [240 + r div 262144, 128 + r div 4096 mod 64, 128 + r div 64 mod 64, 128 + r mod 64])"

definition append_rune :: "nat \<Rightarrow> string" where
  "append_rune r = map to_byte (append_rune_bytes r)"

definition utf8_encode :: "nat list \<Rightarrow> string" where
  "utf8_encode rs = concat (map append_rune rs)"

text \<open>A string with every invalid byte replaced by U+FFFD; the identity on valid UTF-8.\<close>

definition to_valid :: "string \<Rightarrow> string" where
  "to_valid s = utf8_encode (runes s)"

section \<open>UTF-16\<close>

definition utf16_of_rune :: "nat \<Rightarrow> nat list" where
  "utf16_of_rune r =
     (if \<not> scalar r then [RuneError]
      else if r < 65536 then [r]
      else [55296 + (r - 65536) div 1024, 56320 + (r - 65536) mod 1024])"

definition utf16_encode :: "nat list \<Rightarrow> nat list" where
  "utf16_encode rs = concat (map utf16_of_rune rs)"

section \<open>Base64\<close>

definition b64_std :: string where
  "b64_std = ''ABCDEFGHIJKLMNOPQRSTUVWXYZabcdefghijklmnopqrstuvwxyz0123456789+/''"

definition b64_url :: string where
  "b64_url = ''ABCDEFGHIJKLMNOPQRSTUVWXYZabcdefghijklmnopqrstuvwxyz0123456789-_''"

definition b64_char :: "string \<Rightarrow> nat \<Rightarrow> char" where
  "b64_char alphabet i = alphabet ! (i mod 64)"

text \<open>Encoding by groups of three bytes; \<open>pad\<close> is the padding (\<open>''=''\<close> or none).\<close>

fun b64_encode :: "string \<Rightarrow> string \<Rightarrow> nat list \<Rightarrow> string" where
  "b64_encode al pad [] = []"
| "b64_encode al pad [a] = [b64_char al (a div 4), b64_char al (a * 16)] @ pad @ pad"
| "b64_encode al pad [a, b] =
     [b64_char al (a div 4), b64_char al (a * 16 + b div 16), b64_char al (b * 4)] @ pad"
| "b64_encode al pad (a # b # c # bs) =
     [b64_char al (a div 4), b64_char al (a * 16 + b div 16),
      b64_char al (b * 4 + c div 64), b64_char al c] @ b64_encode al pad bs"

definition StdEncoding_Encode :: "string \<Rightarrow> string" where
  "StdEncoding_Encode bs = b64_encode b64_std ''='' (map byte_of bs)"

definition RawURLEncoding_Encode :: "string \<Rightarrow> string" where
  "RawURLEncoding_Encode bs = b64_encode b64_url [] (map byte_of bs)"

fun index_of :: "'a \<Rightarrow> 'a list \<Rightarrow> nat option" where
  "index_of x [] = None"
| "index_of x (y # ys) = (if x = y then Some 0 else map_option Suc (index_of x ys))"

text \<open>\<open>StdEncoding.DecodeString\<close>: padded groups of four; carriage returns and newlines are
  skipped; bits beyond the last byte are ignored (the encoding is not \<open>Strict\<close>).\<close>

fun b64_groups :: "nat option list \<Rightarrow> nat list option" where
  "b64_groups [] = Some []"
| "b64_groups [Some a, Some b, None, None] = Some [(a * 4 + b div 16) mod 256]"
| "b64_groups [Some a, Some b, Some c, None] =
     Some [(a * 4 + b div 16) mod 256, (b * 16 + c div 4) mod 256]"
| "b64_groups (Some a # Some b # Some c # Some d # rest) =
     map_option (\<lambda>bs. [(a * 4 + b div 16) mod 256, (b * 16 + c div 4) mod 256, (c * 64 + d) mod 256] @ bs)
       (b64_groups rest)"
| "b64_groups _ = None"

definition b64_symbols :: "string \<Rightarrow> string \<Rightarrow> nat option list option" where
  "b64_symbols al s =
     (let cs = filter (\<lambda>c. c \<noteq> CHR 0x0A \<and> c \<noteq> CHR 0x0D) s
      in if list_all (\<lambda>c. c = CHR ''='' \<or> c \<in> set al) cs
         then Some (map (\<lambda>c. if c = CHR ''='' then None else index_of c al) cs) else None)"

definition StdEncoding_Decode :: "string \<Rightarrow> string option" where
  "StdEncoding_Decode s =
     (case b64_symbols b64_std s of None \<Rightarrow> None
      | Some syms \<Rightarrow> map_option (map to_byte) (b64_groups syms))"

section \<open>Lemmas on UTF-8\<close>

lemma append_rune_bytes_bound: "b \<in> set (append_rune_bytes r) \<Longrightarrow> b < 256"
  by (auto simp: append_rune_bytes_def scalar_def split: if_splits)

lemma map_byte_of_append_rune [simp]: "map byte_of (append_rune r) = append_rune_bytes r"
proof -
  have "map byte_of (append_rune r) = map (\<lambda>b. b mod 256) (append_rune_bytes r)"
    by (simp add: append_rune_def)
  also have "\<dots> = map (\<lambda>b. b) (append_rune_bytes r)"
    by (rule map_cong) (auto dest: append_rune_bytes_bound)
  finally show ?thesis by simp
qed

lemma append_rune_bytes_nonempty [simp]: "append_rune_bytes r \<noteq> []"
  by (simp add: append_rune_bytes_def)

lemma digits3:
  fixes r :: nat
  assumes "a = r div 4096" "b = r div 64 mod 64" "c = r mod 64"
  shows "r = a * 4096 + b * 64 + c"
proof -
  have "r div 4096 = r div 64 div 64" by (simp add: div_mult2_eq [symmetric])
  moreover have "r div 64 = r div 64 div 64 * 64 + r div 64 mod 64" by simp
  moreover have "r = r div 64 * 64 + r mod 64" by simp
  ultimately show ?thesis unfolding assms by linarith
qed

lemma digits4:
  fixes r :: nat
  assumes "a = r div 262144" "b = r div 4096 mod 64" "c = r div 64 mod 64" "d = r mod 64"
  shows "r = a * 262144 + b * 4096 + c * 64 + d"
proof -
  have "r div 262144 = r div 4096 div 64" by (simp add: div_mult2_eq [symmetric])
  moreover have "r div 4096 = r div 4096 div 64 * 64 + r div 4096 mod 64" by simp
  ultimately show ?thesis
    using digits3 [of "r div 4096" r, OF refl refl refl] unfolding assms by linarith
qed

lemma decode_append_rune:
  assumes "scalar r"
  shows "decode_rune (append_rune_bytes r @ bs) = (r, length (append_rune_bytes r))"
proof -
  consider "r < 128" | "128 \<le> r" "r < 2048" | "2048 \<le> r" "r < 65536" | "65536 \<le> r" "r \<le> 1114111"
    using assms [unfolded scalar_def] by linarith
  then show ?thesis
  proof cases
    case 1
    then show ?thesis by (simp add: append_rune_bytes_def)
  next
    case 2
    obtain a b where ab: "a = r div 64" "b = r mod 64" by blast
    then have b: "b < 64" and eq: "r = a * 64 + b" by simp_all
    have r: "append_rune_bytes r = [192 + a, 128 + b]" using 2 by (simp add: append_rune_bytes_def ab)
    have "2 \<le> a" "a \<le> 31" using 2 eq b by linarith+
    with b show ?thesis unfolding r by (simp add: accept2_def cont_def eq)
  next
    case 3
    obtain a b c where abc: "a = r div 4096" "b = r div 64 mod 64" "c = r mod 64" by blast
    then have eq: "r = a * 4096 + b * 64 + c" and b: "b < 64" and c: "c < 64"
      by (rule digits3) (simp_all add: abc)
    have r: "append_rune_bytes r = [224 + a, 128 + b, 128 + c]"
      using 3 assms by (simp add: append_rune_bytes_def abc)
    have a: "a \<le> 15" using 3 eq by linarith
    have sur: "\<not> (55296 \<le> r \<and> r \<le> 57343)" using assms by (simp add: scalar_def)
    have low: "a = 0 \<Longrightarrow> 32 \<le> b" and high: "a = 13 \<Longrightarrow> b < 32" using eq 3 c sur b by linarith+
    from a b c low high show ?thesis unfolding r by (auto simp: accept2_def cont_def eq)
  next
    case 4
    obtain a b c d where abcd: "a = r div 262144" "b = r div 4096 mod 64" "c = r div 64 mod 64" "d = r mod 64"
      by blast
    then have eq: "r = a * 262144 + b * 4096 + c * 64 + d" and b: "b < 64" and c: "c < 64" and d: "d < 64"
      by (rule digits4) (simp_all add: abcd)
    have r: "append_rune_bytes r = [240 + a, 128 + b, 128 + c, 128 + d]"
      using 4 assms by (simp add: append_rune_bytes_def abcd)
    have a: "a \<le> 4" using 4 eq by linarith
    have low: "a = 0 \<Longrightarrow> 16 \<le> b" and high: "a = 4 \<Longrightarrow> b < 16" using eq 4 c d b by linarith+
    from a b c d low high show ?thesis unfolding r by (auto simp: accept2_def cont_def eq)
  qed
qed

lemma scalar_three:
  assumes "224 \<le> b0" "b0 \<le> 239" "accept2 b0 b1" "cont b2"
  shows "scalar ((b0 - 224) * 4096 + (b1 - 128) * 64 + (b2 - 128))"
proof -
  have b1: "128 \<le> b1" "b1 \<le> 191" and b2: "128 \<le> b2" "b2 \<le> 191"
    using assms(3,4) by (auto simp: accept2_def cont_def split: if_splits)
  have "b0 = 237 \<Longrightarrow> b1 \<le> 159" using assms(3) by (simp add: accept2_def)
  then consider "b0 \<le> 236" | "b0 = 237" "b1 \<le> 159" | "238 \<le> b0"
    by linarith
  then show ?thesis
    unfolding scalar_def using assms(1,2) b1 b2 by cases auto
qed

lemma scalar_four:
  assumes "240 \<le> b0" "b0 \<le> 244" "accept2 b0 b1" "cont b2" "cont b3"
  shows "scalar ((b0 - 240) * 262144 + (b1 - 128) * 4096 + (b2 - 128) * 64 + (b3 - 128))"
proof -
  have b1: "128 \<le> b1" "b1 \<le> 191" and b2: "128 \<le> b2" "b2 \<le> 191" and b3: "128 \<le> b3" "b3 \<le> 191"
    using assms(3-5) by (auto simp: accept2_def cont_def split: if_splits)
  have "b0 = 240 \<Longrightarrow> 144 \<le> b1" "b0 = 244 \<Longrightarrow> b1 \<le> 143" using assms(3) by (simp_all add: accept2_def)
  then consider "b0 = 240" "144 \<le> b1" | "241 \<le> b0" "b0 \<le> 243" | "b0 = 244" "b1 \<le> 143"
    using assms(1,2) by linarith
  then show ?thesis
    unfolding scalar_def using b1 b2 b3 by cases auto
qed

lemma scalar_RuneError [simp]: "scalar RuneError"
  by (simp add: scalar_def RuneError_def)

lemma scalar_two: "b0 \<le> 223 \<Longrightarrow> accept2 b0 b1 \<Longrightarrow> scalar ((b0 - 192) * 64 + (b1 - 128))"
  by (auto simp: scalar_def accept2_def cont_def split: if_splits)

lemma scalar_decode_rune: "scalar (fst (decode_rune bs))"
proof (cases bs)
  case Nil
  then show ?thesis by simp
next
  case (Cons b0 t)
  then show ?thesis
    by (auto intro: scalar_two scalar_three scalar_four split: list.split)
      (simp_all add: scalar_def)
qed

lemma rune_widths_Nil [simp]: "rune_widths [] = []"
  by (subst rune_widths.simps) simp

lemma rune_widths_append_rune:
  "scalar r \<Longrightarrow> rune_widths (append_rune_bytes r @ bs) = (r, length (append_rune_bytes r)) # rune_widths bs"
  by (subst rune_widths.simps) (simp add: decode_append_rune)

lemma map_byte_of_utf8_encode: "map byte_of (utf8_encode rs) = concat (map append_rune_bytes rs)"
  by (induction rs) (simp_all add: utf8_encode_def)

lemma runes_utf8_encode [simp]: "list_all scalar rs \<Longrightarrow> runes (utf8_encode rs) = rs"
  unfolding runes_def map_byte_of_utf8_encode
  by (induction rs) (simp_all add: rune_widths_append_rune)

lemma scalar_rune_widths: "(r, w) \<in> set (rune_widths bs) \<Longrightarrow> scalar r"
proof (induction bs rule: rune_widths.induct)
  case (1 bs)
  show ?case
  proof (cases "bs = [] \<or> (r, w) = decode_rune bs")
    case True
    with "1.prems" show ?thesis by (metis rune_widths_Nil empty_iff fst_conv list.set(1) scalar_decode_rune)
  next
    case False
    with "1.prems" have "(r, w) \<in> set (rune_widths (drop (snd (decode_rune bs)) bs))"
      by (subst (asm) rune_widths.simps) simp
    with False "1.IH" show ?thesis by blast
  qed
qed

lemma scalar_runes [simp]: "list_all scalar (runes s)"
  by (auto simp: runes_def list_all_iff intro: scalar_rune_widths)

lemma runes_to_valid [simp]: "runes (to_valid s) = runes s"
  by (simp add: to_valid_def)

lemma to_valid_idem [simp]: "to_valid (to_valid s) = to_valid s"
  by (simp add: to_valid_def)

lemma runes_ascii: "list_all (\<lambda>c. byte_of c < 128) s \<Longrightarrow> runes s = map byte_of s"
proof (induction s)
  case Nil
  then show ?case by (simp add: runes_def)
next
  case (Cons c s)
  then have "rune_widths (map byte_of (c # s)) = (byte_of c, 1) # rune_widths (map byte_of s)"
    by (subst rune_widths.simps) simp
  with Cons show ?case by (simp add: runes_def)
qed

lemma utf8_encode_ascii: "list_all (\<lambda>c. byte_of c < 128) s \<Longrightarrow> utf8_encode (map byte_of s) = s"
  by (induction s) (simp_all add: utf8_encode_def append_rune_def append_rune_bytes_def)

lemma to_valid_ascii: "list_all (\<lambda>c. byte_of c < 128) s \<Longrightarrow> to_valid s = s"
  by (simp add: to_valid_def runes_ascii utf8_encode_ascii)

lemma utf8_encode_append [simp]: "utf8_encode (xs @ ys) = utf8_encode xs @ utf8_encode ys"
  by (simp add: utf8_encode_def)

lemma utf8_encode_Nil [simp]: "utf8_encode [] = []"
  by (simp add: utf8_encode_def)

lemma utf8_encode_inject:
  "list_all scalar xs \<Longrightarrow> list_all scalar ys \<Longrightarrow> utf8_encode xs = utf8_encode ys \<longleftrightarrow> xs = ys"
  by (metis runes_utf8_encode)

end
