(* ===== verification/Json.thy ===== *)
theory Json
  imports Codec "HOL-Library.AList"
begin

text \<open>
  The part of \<open>encoding/json\<close> the relay relies on. JSON text is a sequence of code
  points: \<open>runes\<close> turns bytes into it (an invalid byte reads as U+FFFD, as the package
  coerces it), \<open>utf8_encode\<close> turns it back. ASCII bytes are always runes of their own,
  so scanning runes and scanning bytes agree.

  The type parameter of \<open>json\<close> is the type of string tokens: the parser keeps the raw
  text between the quotes (\<open>jtext json\<close>), \<open>unquote\<close> decodes it, and
  \<open>any_of\<close> is decoding into an \<open>interface{}\<close> with \<open>UseNumber\<close>
  (\<open>string json\<close>). A Go map built from an object keeps the last value of a repeated key.
\<close>

type_synonym jtext = "nat list"

datatype 's json =
    JNull
  | JBool bool
  | JNum string
  | JStr 's
  | JArr "'s json list"
  | JObj "('s \<times> 's json) list"

section \<open>String tokens\<close>

text \<open>The escaping of \<open>json.Marshal\<close> (HTML escaping on); the argument is a rune with its width.\<close>

definition hex_rune :: "nat \<Rightarrow> nat" where
  "hex_rune d = byte_of (hex_digit d)"

definition marshal_rune :: "nat \<times> nat \<Rightarrow> jtext" where
  "marshal_rune rw = (case rw of (r, w) \<Rightarrow>
     if r = 34 \<or> r = 92 then [92, r]
     else if r = 8 then [92, 98]
     else if r = 12 then [92, 102]
     else if r = 10 then [92, 110]
     else if r = 13 then [92, 114]
     else if r = 9 then [92, 116]
     else if r < 32 \<or> r = 60 \<or> r = 62 \<or> r = 38 then
       [92, 117, 48, 48, hex_rune (r div 16), hex_rune (r mod 16)]
     else if r = RuneError \<and> w = 1 then [92, 117, 102, 102, 102, 100]
     else if r = 8232 \<or> r = 8233 then [92, 117, 50, 48, 50, hex_rune (r mod 16)]
     else [r])"

definition quote :: "string \<Rightarrow> jtext" where
  "quote s = concat (map marshal_rune (rune_widths (map byte_of s)))"

definition u4 :: "nat \<Rightarrow> nat \<Rightarrow> nat \<Rightarrow> nat \<Rightarrow> nat option" where
  "u4 a b c d = (case (hex_val a, hex_val b, hex_val c, hex_val d) of
     (Some x, Some y, Some z, Some t) \<Rightarrow> Some (x * 4096 + y * 256 + z * 16 + t)
   | _ \<Rightarrow> None)"

text \<open>The raw body of a string token and the text after its closing quote.\<close>

fun scan_str :: "jtext \<Rightarrow> (jtext \<times> jtext) option" where
  "scan_str [] = None"
| "scan_str (c # cs) =
     (if c = 34 then Some ([], cs)
      else if c < 32 then None
      else if c = 92 then
        (case cs of
           [] \<Rightarrow> None
         | e # r \<Rightarrow>
             if e \<in> {34, 92, 47, 98, 102, 110, 114, 116}
             then map_option (\<lambda>(raw, rest). (92 # e # raw, rest)) (scan_str r)
             else if e = 117 then
               (case r of
                  h1 # h2 # h3 # h4 # r' \<Rightarrow>
                    if u4 h1 h2 h3 h4 = None then None
                    else map_option (\<lambda>(raw, rest). (92 # 117 # h1 # h2 # h3 # h4 # raw, rest)) (scan_str r')
                | _ \<Rightarrow> None)
             else None)
      else map_option (\<lambda>(raw, rest). (c # raw, rest)) (scan_str cs))"

definition surrogate :: "nat \<Rightarrow> bool" where
  "surrogate r \<longleftrightarrow> 55296 \<le> r \<and> r \<le> 57343"

definition utf16_pair :: "nat \<Rightarrow> nat \<Rightarrow> nat option" where
  "utf16_pair r1 r2 =
     (if 55296 \<le> r1 \<and> r1 < 56320 \<and> 56320 \<le> r2 \<and> r2 < 57344
      then Some ((r1 - 55296) * 1024 + (r2 - 56320) + 65536) else None)"

text \<open>The \<open>\u\<close> escape at the head of a text, as \<open>getu4\<close> reads it.\<close>

fun getu4 :: "jtext \<Rightarrow> nat option" where
  "getu4 (a # b # h1 # h2 # h3 # h4 # r) = (if a = 92 \<and> b = 117 then u4 h1 h2 h3 h4 else None)"
| "getu4 _ = None"

definition unescape :: "nat \<Rightarrow> nat" where
  "unescape e =
     (if e = 98 then 8 else if e = 102 then 12 else if e = 110 then 10
      else if e = 114 then 13 else if e = 116 then 9 else e)"

function unquote :: "jtext \<Rightarrow> jtext" where
  "unquote [] = []"
| "unquote (c # cs) =
     (if c \<noteq> 92 then c # unquote cs
      else (case getu4 (c # cs) of
              Some rr \<Rightarrow>
                if surrogate rr then
                  (case Option.bind (getu4 (drop 5 cs)) (utf16_pair rr) of
                     Some r \<Rightarrow> r # unquote (drop 11 cs)
                   | None \<Rightarrow> RuneError # unquote (drop 5 cs))
                else rr # unquote (drop 5 cs)
            | None \<Rightarrow> (case cs of [] \<Rightarrow> [] | e # r \<Rightarrow> unescape e # unquote r)))"
  by pat_completeness auto
termination
  by (relation "measure length") auto

definition str_val :: "jtext \<Rightarrow> string" where
  "str_val raw = utf8_encode (unquote raw)"

section \<open>Printing\<close>

fun join_with :: "nat \<Rightarrow> jtext list \<Rightarrow> jtext" where
  "join_with c [] = []"
| "join_with c [x] = x"
| "join_with c (x # y # ys) = x @ c # join_with c (y # ys)"

definition ascii :: "string \<Rightarrow> jtext" where
  "ascii s = map byte_of s"

fun print_json :: "jtext json \<Rightarrow> jtext"
and print_elems :: "jtext json list \<Rightarrow> jtext list"
and print_members :: "(jtext \<times> jtext json) list \<Rightarrow> jtext list" where
  "print_json JNull = ascii ''null''"
| "print_json (JBool b) = ascii (if b then ''true'' else ''false'')"
| "print_json (JNum n) = ascii n"
| "print_json (JStr raw) = 34 # raw @ [34]"
| "print_json (JArr vs) = 91 # join_with 44 (print_elems vs) @ [93]"
| "print_json (JObj ms) = 123 # join_with 44 (print_members ms) @ [125]"
| "print_elems [] = []"
| "print_elems (v # vs) = print_json v # print_elems vs"
| "print_members [] = []"
| "print_members ((k, v) # ms) = (34 # k @ [34, 58] @ print_json v) # print_members ms"

section \<open>Parsing\<close>

definition is_ws :: "nat \<Rightarrow> bool" where
  "is_ws r \<longleftrightarrow> r = 32 \<or> r = 9 \<or> r = 10 \<or> r = 13"

definition skip_ws :: "jtext \<Rightarrow> jtext" where
  "skip_ws s = dropWhile is_ws s"

definition dig :: "nat \<Rightarrow> bool" where
  "dig r \<longleftrightarrow> 48 \<le> r \<and> r \<le> 57"

definition scan_int :: "jtext \<Rightarrow> (jtext \<times> jtext) option" where
  "scan_int s = (case s of [] \<Rightarrow> None
     | c # r \<Rightarrow> if c = 48 then Some ([48], r)
               else if dig c then Some (c # takeWhile dig r, dropWhile dig r) else None)"

definition scan_frac :: "jtext \<Rightarrow> (jtext \<times> jtext) option" where
  "scan_frac s = (case s of
       c # r \<Rightarrow> if c = 46 then
                 (if takeWhile dig r = [] then None else Some (46 # takeWhile dig r, dropWhile dig r))
               else Some ([], s)
     | [] \<Rightarrow> Some ([], s))"

definition scan_exp :: "jtext \<Rightarrow> (jtext \<times> jtext) option" where
  "scan_exp s = (case s of
       c # r \<Rightarrow> if c = 101 \<or> c = 69 then
                 (let sg = takeWhile (\<lambda>x. x = 43 \<or> x = 45) (take 1 r); r' = drop (length sg) r
                  in if takeWhile dig r' = [] then None
                     else Some (c # sg @ takeWhile dig r', dropWhile dig r'))
               else Some ([], s)
     | [] \<Rightarrow> Some ([], s))"

definition scan_number :: "jtext \<Rightarrow> (string \<times> jtext) option" where
  "scan_number s =
     (let sg = takeWhile (\<lambda>x. x = 45) (take 1 s); s0 = drop (length sg) s
      in Option.bind (scan_int s0) (\<lambda>(i, s1).
         Option.bind (scan_frac s1) (\<lambda>(f, s2).
         Option.bind (scan_exp s2) (\<lambda>(e, s3).
           Some (map to_byte (sg @ i @ f @ e), s3)))))"

definition strip :: "jtext \<Rightarrow> jtext \<Rightarrow> jtext option" where
  "strip p s = (if take (length p) s = p then Some (drop (length p) s) else None)"

definition scan_literal :: "jtext \<Rightarrow> (jtext json \<times> jtext) option" where
  "scan_literal s =
     (case strip (ascii ''null'') s of Some r \<Rightarrow> Some (JNull, r)
      | None \<Rightarrow> (case strip (ascii ''true'') s of Some r \<Rightarrow> Some (JBool True, r)
      | None \<Rightarrow> (case strip (ascii ''false'') s of Some r \<Rightarrow> Some (JBool False, r)
      | None \<Rightarrow> map_option (\<lambda>(n, r). (JNum n, r)) (scan_number s))))"

text \<open>
  One value, a comma-separated list of array elements up to the bracket, or of object members
  up to the brace. \<open>n\<close> is fuel, spent by every call; \<open>d\<close> is how many more
  levels of nesting the scanner accepts (\<open>maxNestingDepth\<close> is 10000).
\<close>

fun parse_value :: "nat \<Rightarrow> nat \<Rightarrow> jtext \<Rightarrow> (jtext json \<times> jtext) option"
and parse_elems :: "nat \<Rightarrow> nat \<Rightarrow> jtext \<Rightarrow> (jtext json list \<times> jtext) option"
and parse_members :: "nat \<Rightarrow> nat \<Rightarrow> jtext \<Rightarrow> ((jtext \<times> jtext json) list \<times> jtext) option" where
  "parse_value 0 d s = None"
| "parse_value (Suc n) d s =
     (case skip_ws s of
        [] \<Rightarrow> None
      | c # r \<Rightarrow>
          if c = 34 then map_option (\<lambda>(raw, rest). (JStr raw, rest)) (scan_str r)
          else if c = 91 then
            (if d = 0 then None
             else (case skip_ws r of
                     [] \<Rightarrow> None
                   | c' # r' \<Rightarrow> if c' = 93 then Some (JArr [], r')
                       else map_option (\<lambda>(vs, rest). (JArr vs, rest)) (parse_elems n (d - 1) (c' # r'))))
          else if c = 123 then
            (if d = 0 then None
             else (case skip_ws r of
                     [] \<Rightarrow> None
                   | c' # r' \<Rightarrow> if c' = 125 then Some (JObj [], r')
                       else map_option (\<lambda>(ms, rest). (JObj ms, rest)) (parse_members n (d - 1) (c' # r'))))
          else scan_literal (c # r))"
| "parse_elems 0 d s = None"
| "parse_elems (Suc n) d s =
     Option.bind (parse_value n d s) (\<lambda>(v, s1).
       case skip_ws s1 of
         [] \<Rightarrow> None
       | c # r \<Rightarrow> if c = 93 then Some ([v], r)
                  else if c = 44 then map_option (\<lambda>(vs, rest). (v # vs, rest)) (parse_elems n d r)
                  else None)"
| "parse_members 0 d s = None"
| "parse_members (Suc n) d s =
     (case skip_ws s of
        [] \<Rightarrow> None
      | q # r0 \<Rightarrow> if q \<noteq> 34 then None else
     Option.bind (scan_str r0) (\<lambda>(k, s1).
       case skip_ws s1 of
         [] \<Rightarrow> None
       | c # r \<Rightarrow> if c \<noteq> 58 then None else
     Option.bind (parse_value n d r) (\<lambda>(v, s2).
       case skip_ws s2 of
         [] \<Rightarrow> None
       | c' # r' \<Rightarrow> if c' = 125 then Some ([(k, v)], r')
                    else if c' = 44 then map_option (\<lambda>(ms, rest). ((k, v) # ms, rest)) (parse_members n d r')
                    else None)))"

definition maxNestingDepth :: nat where
  "maxNestingDepth = 10000"

text \<open>
  \<open>dec.Decode(&v)\<close> followed by the check that a second \<open>Decode\<close> reports
  \<open>io.EOF\<close>: exactly one value with nothing but white space after it. Every call of the
  parser consumes a code point or returns, so twice the length is enough fuel.
\<close>

definition parse_document :: "string \<Rightarrow> jtext json option" where
  "parse_document data =
     (let s = runes data
      in case parse_value (2 * length s + 2) maxNestingDepth s of
           Some (v, rest) \<Rightarrow> (if skip_ws rest = [] then Some v else None)
         | None \<Rightarrow> None)"

section \<open>Decoding into an interface value\<close>

fun any_of :: "jtext json \<Rightarrow> string json"
and any_elems :: "jtext json list \<Rightarrow> string json list"
and any_members :: "(string \<times> string json) list \<Rightarrow> (jtext \<times> jtext json) list \<Rightarrow> (string \<times> string json) list"
where
  "any_of JNull = JNull"
| "any_of (JBool b) = JBool b"
| "any_of (JNum n) = JNum n"
| "any_of (JStr raw) = JStr (str_val raw)"
| "any_of (JArr vs) = JArr (any_elems vs)"
| "any_of (JObj ms) = JObj (any_members [] ms)"
| "any_elems [] = []"
| "any_elems (v # vs) = any_of v # any_elems vs"
| "any_members acc [] = acc"
| "any_members acc ((k, v) # ms) = any_members (AList.update (str_val k) (any_of v) acc) ms"

end
