(* ===== verification/Float64.thy ===== *)
theory Float64
  imports Codec
begin

text \<open>
  \<open>strconv.ParseFloat(s, 64)\<close> and \<open>strconv.FormatFloat(f, 'e', -1, 64)\<close>, which
  the canonicaliser uses for JSON numbers. A finite non-negative double is a pair
  \<open>(m, e)\<close> for the value \<open>m * 2 ^ e\<close> with \<open>m < 2 ^ 53\<close> and
  \<open>- 1074 \<le> e\<close>; a double is that with a sign. Parsing rounds to nearest, ties to even;
  formatting takes the fewest decimal digits that parse back to the same double.
\<close>

type_synonym float64 = "bool \<times> nat \<times> int"

text \<open>The exponent \<open>k\<close> with \<open>2 ^ k \<le> num / den < 2 ^ (k + 1)\<close>, for positive arguments.\<close>

fun bitlen :: "nat \<Rightarrow> nat" where
  "bitlen n = (if n = 0 then 0 else Suc (bitlen (n div 2)))"

declare bitlen.simps [simp del]

definition scale2 :: "nat \<Rightarrow> int \<Rightarrow> nat" where
  "scale2 n k = n * 2 ^ nat k"

definition floor_log2 :: "nat \<Rightarrow> nat \<Rightarrow> int" where
  "floor_log2 num den =
     (let k = int (bitlen num) - int (bitlen den)
      in if scale2 den k \<le> scale2 num (- k) then k else k - 1)"

definition div_half_even :: "nat \<Rightarrow> nat \<Rightarrow> nat" where
  "div_half_even a b =
     (let q = a div b; r = a mod b
      in if 2 * r < b \<or> 2 * r = b \<and> even q then q else q + 1)"

text \<open>The double nearest to \<open>num / den\<close>; \<open>None\<close> when it is out of range.\<close>

definition round_double :: "nat \<Rightarrow> nat \<Rightarrow> (nat \<times> int) option" where
  "round_double num den =
     (if num = 0 then Some (0, - 1074)
      else let e = max (floor_log2 num den - 52) (- 1074);
               m = div_half_even (scale2 num (- e)) (scale2 den e);
               (m', e') = (if m = 2 ^ 53 then (2 ^ 52, e + 1) else (m, e))
           in if e' > 971 then None else Some (m', e'))"

text \<open>A number literal of the JSON grammar as sign, digits and decimal exponent.\<close>

definition lit_parts :: "string \<Rightarrow> bool \<times> string \<times> int" where
  "lit_parts s =
     (let neg = (s \<noteq> [] \<and> hd s = CHR ''-'');
          s0 = (if neg then tl s else s);
          ip = takeWhile is_digit s0; s1 = dropWhile is_digit s0;
          fp = (case s1 of c # r \<Rightarrow> if c = CHR ''.'' then takeWhile is_digit r else [] | [] \<Rightarrow> []);
          s2 = (if fp = [] then s1 else drop (Suc (length fp)) s1);
          ex = (case s2 of c # r \<Rightarrow> if c = CHR ''e'' \<or> c = CHR ''E'' then r else [] | [] \<Rightarrow> []);
          eneg = (ex \<noteq> [] \<and> hd ex = CHR ''-'');
          ed = (if ex \<noteq> [] \<and> (hd ex = CHR ''-'' \<or> hd ex = CHR ''+'') then tl ex else ex);
          ev = (if eneg then - int (nat_of_digits 0 ed) else int (nat_of_digits 0 ed))
      in (neg, ip @ fp, ev - int (length fp)))"

definition ParseFloat :: "string \<Rightarrow> float64 option" where
  "ParseFloat s =
     (let (neg, ds, e) = lit_parts s; d = nat_of_digits 0 ds
      in map_option (\<lambda>me. (neg, me)) (round_double (d * 10 ^ nat e) (10 ^ nat (- e))))"

definition is_zero :: "float64 \<Rightarrow> bool" where
  "is_zero f \<longleftrightarrow> fst (snd f) = 0"

text \<open>The exponent \<open>k\<close> with \<open>10 ^ k \<le> num / den < 10 ^ (k + 1)\<close>: \<open>digits - 1\<close> from the
  integer part, or the leading zeros of the fraction, found by counting from an estimate below.\<close>

definition pow10_le :: "nat \<Rightarrow> nat \<Rightarrow> int \<Rightarrow> bool" where
  "pow10_le num den k \<longleftrightarrow> den * 10 ^ nat k \<le> num * 10 ^ nat (- k)"

fun log10_up :: "nat \<Rightarrow> nat \<Rightarrow> nat \<Rightarrow> int \<Rightarrow> int" where
  "log10_up 0 num den k = k"
| "log10_up (Suc n) num den k = (if pow10_le num den (k + 1) then log10_up n num den (k + 1) else k)"

definition floor_log10 :: "nat \<Rightarrow> nat \<Rightarrow> int" where
  "floor_log10 num den =
     (let k = (floor_log2 num den * 30103) div 100000 - 1 in log10_up 3 num den k)"

text \<open>The value of a double as a fraction, and the shortest digits \<open>(c, p)\<close>: the value
  \<open>c * 10 ^ p\<close> rounds to the double, and no shorter \<open>c\<close> does.\<close>

definition num_of :: "nat \<Rightarrow> int \<Rightarrow> nat" where "num_of m e = scale2 m e"
definition den_of :: "int \<Rightarrow> nat" where "den_of e = scale2 1 (- e)"

definition shortest_at :: "int \<Rightarrow> nat \<Rightarrow> int \<Rightarrow> (nat \<times> int) option" where
  "shortest_at p m e =
     (let a = num_of m e * 10 ^ nat (- p); b = den_of e * 10 ^ nat p;
          lo = a div b; hi = lo + 1; r = a mod b;
          ok = (\<lambda>c. round_double (c * 10 ^ nat p) (10 ^ nat (- p)) = Some (m, e))
      in if r = 0 then Some (lo, p)
         else if ok lo \<and> ok hi then Some (if 2 * r < b \<or> 2 * r = b \<and> even lo then (lo, p) else (hi, p))
         else if ok lo then Some (lo, p)
         else if ok hi then Some (hi, p)
         else None)"

fun shortest :: "nat \<Rightarrow> int \<Rightarrow> nat \<Rightarrow> int \<Rightarrow> nat \<times> int" where
  "shortest 0 p m e = (m, e)"
| "shortest (Suc fuel) p m e =
     (case shortest_at p m e of Some cp \<Rightarrow> cp | None \<Rightarrow> shortest fuel (p - 1) m e)"

fun trim_zeros :: "nat \<Rightarrow> nat \<Rightarrow> int \<Rightarrow> nat \<times> int" where
  "trim_zeros 0 c p = (c, p)"
| "trim_zeros (Suc n) c p =
     (if c \<noteq> 0 \<and> c mod 10 = 0 then trim_zeros n (c div 10) (p + 1) else (c, p))"

definition exp_digits :: "int \<Rightarrow> string" where
  "exp_digits x = (let d = digits_nat (nat \<bar>x\<bar>) in
     (if x < 0 then ''-'' else ''+'') @ (if length d < 2 then CHR ''0'' # d else d))"

text \<open>The \<open>d.ddde+dd\<close> form of a positive double (sign apart, as the caller strips it).\<close>

definition FormatFloat_e :: "nat \<times> int \<Rightarrow> string" where
  "FormatFloat_e me = (case me of (m, e) \<Rightarrow>
     if m = 0 then ''0e+00''
     else let n10 = floor_log10 (num_of m e) (den_of e);
              (c0, p0) = shortest 17 n10 m e;
              (c, p) = trim_zeros 800 c0 p0;
              ds = digits_nat c; x = p + int (length ds) - 1
          in hd ds # (if tl ds = [] then [] else CHR ''.'' # tl ds) @ CHR ''e'' # exp_digits x)"

end
