(* ===== verification/Canon.thy ===== *)
theory Canon
  imports Json Float64
begin

text \<open>
  RFC 8785 canonicalisation, \<open>internal/envelope/canon.go\<close>. Go slices are byte strings,
  \<open>dst\<close> is the output so far, and the functions return it extended or the error.
  \<open>slices.SortFunc\<close> is any sort by the comparison; the keys of a decoded object are
  distinct valid UTF-8 strings, on which the comparison is a strict total order, so the
  result does not depend on the algorithm: \<open>SortFunc\<close> here is insertion sort.
\<close>

datatype env_error =
    ErrTooLarge | ErrTooManyParts | ErrBadVersion | ErrBadSignature
  | ErrDecode | ErrSerialize | ErrBadKeyLength

section \<open>Strings and numbers\<close>

definition appendString_rune :: "nat \<Rightarrow> string" where
  "appendString_rune r =
     (if r = 34 then [CHR 0x5C, CHR 0x22]
      else if r = 92 then [CHR 0x5C, CHR 0x5C]
      else if r = 8 then [CHR 0x5C, CHR ''b'']
      else if r = 12 then [CHR 0x5C, CHR ''f'']
      else if r = 10 then [CHR 0x5C, CHR ''n'']
      else if r = 13 then [CHR 0x5C, CHR ''r'']
      else if r = 9 then [CHR 0x5C, CHR ''t'']
      else if r < 32 then
        [CHR 0x5C, CHR ''u'', CHR ''0'', CHR ''0'', hex_digit (r div 16), hex_digit (r mod 16)]
      else append_rune r)"

definition appendString :: "string \<Rightarrow> string \<Rightarrow> string" where
  "appendString dst s = dst @ CHR 0x22 # concat (map appendString_rune (runes s)) @ [CHR 0x22]"

definition cut :: "char \<Rightarrow> string \<Rightarrow> string \<times> string" where
  "cut c s = (takeWhile (\<lambda>x. x \<noteq> c) s, drop 1 (dropWhile (\<lambda>x. x \<noteq> c) s))"

definition formatFloatES :: "float64 \<Rightarrow> env_error + string" where
  "formatFloatES f =
     (if is_zero f then Inr ''0''
      else let neg = fst f;
               (mant, expPart) = cut CHR ''e'' (FormatFloat_e (snd f))
           in case atoi expPart of None \<Rightarrow> Inl ErrSerialize
           | Some ex \<Rightarrow>
               let digits = remove1 CHR ''.'' mant; k = int (length digits); n = ex + 1;
                   out =
                     (if 1 \<le> n \<and> n \<le> 21 then
                        (if k \<le> n then digits @ replicate (nat (n - k)) CHR ''0''
                         else take (nat n) digits @ CHR ''.'' # drop (nat n) digits)
                      else if n \<le> 0 \<and> - 6 < n then
                        ''0.'' @ replicate (nat (- n)) CHR ''0'' @ digits
                      else (let m = (if 1 < k then take 1 digits @ CHR ''.'' # drop 1 digits else digits);
                                e = n - 1
                            in m @ CHR ''e'' # (if e < 0 then ''-'' else ''+'') @ itoa \<bar>e\<bar>))
               in Inr (if neg then CHR ''-'' # out else out))"

definition appendNumber :: "string \<Rightarrow> string \<Rightarrow> env_error + string" where
  "appendNumber dst n =
     (case ParseFloat n of None \<Rightarrow> Inl ErrSerialize
      | Some f \<Rightarrow> rbind (formatFloatES f) (\<lambda>s. Inr (dst @ s)))"

section \<open>Key order\<close>

fun compare_units :: "nat list \<Rightarrow> nat list \<Rightarrow> int" where
  "compare_units [] [] = 0"
| "compare_units [] (y # ys) = -1"
| "compare_units (x # xs) [] = 1"
| "compare_units (x # xs) (y # ys) =
     (if x \<noteq> y then (if x < y then -1 else 1) else compare_units xs ys)"

definition compareUTF16 :: "string \<Rightarrow> string \<Rightarrow> int" where
  "compareUTF16 a b = compare_units (utf16_encode (runes a)) (utf16_encode (runes b))"

fun insert_func :: "('a \<Rightarrow> 'a \<Rightarrow> int) \<Rightarrow> 'a \<Rightarrow> 'a list \<Rightarrow> 'a list" where
  "insert_func cmp x [] = [x]"
| "insert_func cmp x (y # ys) = (if cmp x y \<le> 0 then x # y # ys else y # insert_func cmp x ys)"

definition SortFunc :: "('a \<Rightarrow> 'a \<Rightarrow> int) \<Rightarrow> 'a list \<Rightarrow> 'a list" where
  "SortFunc cmp xs = foldr (insert_func cmp) xs []"

section \<open>Values\<close>

text \<open>A size for the termination argument: the members of an object are smaller than it.\<close>

fun jsize :: "'s json \<Rightarrow> nat" and esize :: "'s json list \<Rightarrow> nat" and msize :: "('s \<times> 's json) list \<Rightarrow> nat"
where
  "jsize JNull = 1" | "jsize (JBool b) = 1" | "jsize (JNum n) = 1" | "jsize (JStr s) = 1"
| "jsize (JArr vs) = Suc (esize vs)"
| "jsize (JObj ms) = Suc (Suc (msize ms))"
| "esize [] = 0"
| "esize (v # vs) = Suc (jsize v + esize vs)"
| "msize [] = 0"
| "msize ((k, v) # ms) = Suc (jsize v + msize ms)"

definition lookup_json :: "(string \<times> string json) list \<Rightarrow> string \<Rightarrow> string json" where
  "lookup_json t k = (case map_of t k of Some v \<Rightarrow> v | None \<Rightarrow> JNull)"

lemma jsize_lookup: "jsize (lookup_json t k) \<le> Suc (msize t)"
  by (induction t) (auto simp: lookup_json_def split: option.splits if_splits)

lemma jsize_pos [simp]: "0 < jsize v"
  by (cases v) auto

function (sequential)
    appendCanonical :: "string \<Rightarrow> string json \<Rightarrow> env_error + string"
and appendElems :: "nat \<Rightarrow> string \<Rightarrow> string json list \<Rightarrow> env_error + string"
and appendMembers :: "(string \<times> string json) list \<Rightarrow> nat \<Rightarrow> string \<Rightarrow> string list \<Rightarrow> env_error + string"
where
  "appendCanonical dst JNull = Inr (dst @ ''null'')"
| "appendCanonical dst (JBool b) = Inr (dst @ (if b then ''true'' else ''false''))"
| "appendCanonical dst (JStr s) = Inr (appendString dst s)"
| "appendCanonical dst (JNum n) = appendNumber dst n"
| "appendCanonical dst (JArr vs) =
     rbind (appendElems 0 (dst @ ''['') vs) (\<lambda>d. Inr (d @ '']''))"
| "appendCanonical dst (JObj t) =
     rbind (appendMembers t 0 (dst @ ''{'') (SortFunc compareUTF16 (map fst t))) (\<lambda>d. Inr (d @ ''}''))"
| "appendElems i dst [] = Inr dst"
| "appendElems i dst (v # vs) =
     rbind (appendCanonical (if 0 < i then dst @ '','' else dst) v) (\<lambda>d. appendElems (Suc i) d vs)"
| "appendMembers t i dst [] = Inr dst"
| "appendMembers t i dst (k # ks) =
     rbind (appendCanonical (appendString (if 0 < i then dst @ '','' else dst) k @ '':'') (lookup_json t k))
       (\<lambda>d. appendMembers t (Suc i) d ks)"
  by pat_completeness auto
termination
  by (relation "inv_image (less_than <*lex*> less_than)
    (\<lambda>x. case x of Inl (dst, v) \<Rightarrow> (jsize v, 0)
         | Inr (Inl (i, dst, vs)) \<Rightarrow> (esize vs, 0)
         | Inr (Inr (t, i, dst, ks)) \<Rightarrow> (Suc (msize t), Suc (length ks)))")
    (auto, metis jsize_lookup le_neq_implies_less)

text \<open>\<open>jcs\<close>: parse with number fidelity, refuse trailing data, write the canonical form.\<close>

definition jcs :: "string \<Rightarrow> env_error + string" where
  "jcs data =
     (case parse_document data of None \<Rightarrow> Inl ErrSerialize
      | Some v \<Rightarrow> appendCanonical [] (any_of v))"

end
