(* ===== verification/GoTime.thy ===== *)
theory GoTime
  imports Codec
begin

text \<open>
  \<open>time.Time\<close> as an instant with a zone offset, and its JSON text form (RFC 3339 with
  nanoseconds): \<open>format_rfc3339\<close> is \<open>Time.appendStrictRFC3339\<close>,
  \<open>parse_rfc3339\<close> is \<open>parseStrictRFC3339\<close>. Days are counted from 0000-01-01 in the
  proleptic Gregorian calendar.
\<close>

record gotime =
  t_ns :: instant
  t_off :: int

definition UTC :: "instant \<Rightarrow> gotime" where
  "UTC t = \<lparr>t_ns = t, t_off = 0\<rparr>"

section \<open>Calendar\<close>

definition leap :: "int \<Rightarrow> bool" where
  "leap y \<longleftrightarrow> 4 dvd y \<and> (\<not> 100 dvd y \<or> 400 dvd y)"

definition days_before_year :: "int \<Rightarrow> int" where
  "days_before_year y = 365 * y + (y + 3) div 4 - (y + 99) div 100 + (y + 399) div 400"

definition epoch_days :: int where
  "epoch_days = 719528"

definition days_before_month :: "int \<Rightarrow> int \<Rightarrow> int" where
  "days_before_month y m =
     [0, 31, 59, 90, 120, 151, 181, 212, 243, 273, 304, 334, 365] ! nat (m - 1)
     + (if leap y \<and> 2 < m then 1 else 0)"

definition days_in :: "int \<Rightarrow> int \<Rightarrow> int" where
  "days_in y m = days_before_month y (m + 1) - days_before_month y m"

text \<open>Day number to year: an estimate that is off by at most one.\<close>

definition year_of_day :: "int \<Rightarrow> int" where
  "year_of_day z =
     (let y = z * 400 div 146097
      in if days_before_year (y + 1) \<le> z then y + 1 else if z < days_before_year y then y - 1 else y)"

definition month_of_yday :: "int \<Rightarrow> int \<Rightarrow> int" where
  "month_of_yday y d =
     (if d < days_before_month y 2 then 1 else if d < days_before_month y 3 then 2
      else if d < days_before_month y 4 then 3 else if d < days_before_month y 5 then 4
      else if d < days_before_month y 6 then 5 else if d < days_before_month y 7 then 6
      else if d < days_before_month y 8 then 7 else if d < days_before_month y 9 then 8
      else if d < days_before_month y 10 then 9 else if d < days_before_month y 11 then 10
      else if d < days_before_month y 12 then 11 else 12)"

section \<open>Formatting\<close>

text \<open>\<open>appendInt(b, x, width)\<close> for non-negative \<open>x\<close>.\<close>

definition pad_int :: "nat \<Rightarrow> int \<Rightarrow> string" where
  "pad_int w x = (let d = digits_nat (nat x) in replicate (w - length d) CHR ''0'' @ d)"

definition trim_right_zeros :: "string \<Rightarrow> string" where
  "trim_right_zeros s = rev (dropWhile (\<lambda>c. c = CHR ''0'') (rev s))"

definition format_frac :: "int \<Rightarrow> string" where
  "format_frac nsec = (if nsec = 0 then [] else CHR ''.'' # trim_right_zeros (pad_int 9 nsec))"

definition format_zone :: "int \<Rightarrow> string" where
  "format_zone off =
     (if off = 0 then ''Z''
      else let z = \<bar>off\<bar> div 60
           in (if off < 0 \<and> z \<noteq> 0 then ''-'' else ''+'') @ pad_int 2 (z div 60) @ '':'' @ pad_int 2 (z mod 60))"

definition format_rfc3339 :: "gotime \<Rightarrow> string option" where
  "format_rfc3339 t =
     (let loc = t_ns t + t_off t * 1000000000;
          secs = loc div 1000000000; nsec = loc mod 1000000000;
          z = secs div 86400 + epoch_days; sod = secs mod 86400;
          y = year_of_day z; yd = z - days_before_year y;
          m = month_of_yday y yd; d = yd - days_before_month y m + 1
      in if 0 \<le> y \<and> y \<le> 9999 \<and> \<bar>t_off t\<bar> div 3600 < 24 then
           Some (pad_int 4 y @ ''-'' @ pad_int 2 m @ ''-'' @ pad_int 2 d @ ''T'' @
                 pad_int 2 (sod div 3600) @ '':'' @ pad_int 2 (sod div 60 mod 60) @ '':'' @
                 pad_int 2 (sod mod 60) @ format_frac nsec @ format_zone (t_off t))
         else None)"

section \<open>Parsing\<close>

definition parse_uint :: "string \<Rightarrow> int \<Rightarrow> int \<Rightarrow> int option" where
  "parse_uint s lo hi =
     (let x = int (nat_of_digits 0 s)
      in if list_all is_digit s \<and> lo \<le> x \<and> x \<le> hi then Some x else None)"

definition parse_nsec :: "string \<Rightarrow> int" where
  "parse_nsec ds = (let ds' = take 9 ds in int (nat_of_digits 0 ds') * 10 ^ (9 - length ds'))"

definition parse_zone :: "string \<Rightarrow> int option" where
  "parse_zone s =
     (if s = ''Z'' then Some 0
      else if length s = 6 \<and> (s ! 0 = CHR ''-'' \<or> s ! 0 = CHR ''+'') \<and> s ! 3 = CHR '':'' then
        (case (parse_uint (take 2 (drop 1 s)) 0 23, parse_uint (take 2 (drop 4 s)) 0 59) of
           (Some h, Some mm) \<Rightarrow>
             Some (if s ! 0 = CHR ''-'' then - ((h * 60 + mm) * 60) else (h * 60 + mm) * 60)
         | _ \<Rightarrow> None)
      else None)"

definition parse_rfc3339 :: "string \<Rightarrow> gotime option" where
  "parse_rfc3339 s =
     (if length s < 19 then None
      else if \<not> (s ! 4 = CHR ''-'' \<and> s ! 7 = CHR ''-'' \<and> s ! 10 = CHR ''T'' \<and> s ! 13 = CHR '':'' \<and> s ! 16 = CHR '':'')
      then None
      else Option.bind (parse_uint (take 4 s) 0 9999) (\<lambda>y.
           Option.bind (parse_uint (take 2 (drop 5 s)) 1 12) (\<lambda>m.
           Option.bind (parse_uint (take 2 (drop 8 s)) 1 (days_in y m)) (\<lambda>d.
           Option.bind (parse_uint (take 2 (drop 11 s)) 0 23) (\<lambda>hh.
           Option.bind (parse_uint (take 2 (drop 14 s)) 0 59) (\<lambda>mi.
           Option.bind (parse_uint (take 2 (drop 17 s)) 0 59) (\<lambda>se.
             let r = drop 19 s;
                 fr = (case r of c # q \<Rightarrow> if c = CHR ''.'' then takeWhile is_digit q else [] | [] \<Rightarrow> []);
                 r' = (if fr = [] then r else drop (Suc (length fr)) r);
                 days = days_before_year y + days_before_month y m + d - 1 - epoch_days;
                 secs = days * 86400 + hh * 3600 + mi * 60 + se
             in Option.bind (parse_zone r') (\<lambda>off.
                  Some \<lparr>t_ns = (secs - off) * 1000000000 + parse_nsec fr, t_off = off\<rparr>))))))))"

end
