(* ===== verification/Gate.thy ===== *)
theory Gate
  imports Prelude
begin

text \<open>
  The approval gate: \<open>internal/a2a/a2a.go\<close> and \<open>internal/gate/{states,gate}.go\<close>.

  Thread states, draft states, directions, kinds and verdicts are string types in the
  code (any string can be converted to them), so they are strings here and the
  \<open>valid...\<close> checks are part of the model. The payload of an approvable is opaque
  (\<open>any\<close>): a type parameter \<open>'p\<close>. A function returning a state, an optional
  release and an error is a sum; Go's zero values beside an error are dropped.
\<close>

section \<open>A2A vocabulary\<close>

type_synonym thread_state = string

definition StateSubmitted :: thread_state where "StateSubmitted = ''submitted''"
definition StateWorking :: thread_state where "StateWorking = ''working''"
definition StateInputRequired :: thread_state where "StateInputRequired = ''input-required''"
definition StateCompleted :: thread_state where "StateCompleted = ''completed''"
definition StateFailed :: thread_state where "StateFailed = ''failed''"
definition StateCanceled :: thread_state where "StateCanceled = ''canceled''"
definition StateRejected :: thread_state where "StateRejected = ''rejected''"

lemmas thread_state_defs =
  StateSubmitted_def StateWorking_def StateInputRequired_def StateCompleted_def
  StateFailed_def StateCanceled_def StateRejected_def

section \<open>Directions, kinds, approvables, draft states\<close>

type_synonym direction = string

definition Inbound :: direction where "Inbound = ''inbound''"
definition Outbound :: direction where "Outbound = ''outbound''"

lemma Inbound_not_Outbound [simp]: "Inbound \<noteq> Outbound" "Outbound \<noteq> Inbound"
  by (simp_all add: Inbound_def Outbound_def)

type_synonym kind = string

definition KindMessage :: kind where "KindMessage = ''message''"

record 'p approvable =
  ap_kind :: kind
  ap_direction :: direction
  ap_thread :: string
  ap_id :: string
  ap_payload :: 'p

type_synonym draft_state = string

definition PendingReview :: draft_state where "PendingReview = ''pending_review''"
definition Sent :: draft_state where "Sent = ''sent''"
definition Discarded :: draft_state where "Discarded = ''discarded''"

lemmas draft_state_defs = PendingReview_def Sent_def Discarded_def

lemma draft_states_distinct [simp]:
  "PendingReview \<noteq> Sent" "Sent \<noteq> PendingReview"
  "PendingReview \<noteq> Discarded" "Discarded \<noteq> PendingReview"
  "Sent \<noteq> Discarded" "Discarded \<noteq> Sent"
  by (simp_all add: draft_state_defs)

section \<open>Verdicts and errors\<close>

datatype gate_error = ErrUnknownState | ErrIllegalTransition | ErrNoGrant | ErrWrongDirection

type_synonym verdict = string

definition Approve :: verdict where "Approve = ''approve''"
definition Reject :: verdict where "Reject = ''reject''"

lemma Approve_not_Reject [simp]: "Approve \<noteq> Reject" "Reject \<noteq> Approve"
  by (simp_all add: Approve_def Reject_def)

section \<open>The inbound gate\<close>

definition validState :: "thread_state \<Rightarrow> bool" where
  "validState s \<longleftrightarrow>
     s = StateSubmitted \<or> s = StateWorking \<or> s = StateInputRequired \<or>
     s = StateCompleted \<or> s = StateFailed \<or> s = StateCanceled \<or> s = StateRejected"

definition ApplyInbound :: "thread_state \<Rightarrow> verdict \<Rightarrow> gate_error + thread_state" where
  "ApplyInbound current v =
     (if \<not> validState current then Inl ErrUnknownState
      else if current \<noteq> StateInputRequired then Inl ErrIllegalTransition
      else if v = Approve then Inr StateWorking
      else if v = Reject then Inr StateRejected
      else Inl ErrIllegalTransition)"

section \<open>The outbound gate\<close>

record 'p release =
  rel_thread :: string
  rel_id :: string
  rel_payload :: 'p
  rel_viaGrant :: bool

definition validDraftState :: "draft_state \<Rightarrow> bool" where
  "validDraftState s \<longleftrightarrow> s = PendingReview \<or> s = Sent \<or> s = Discarded"

definition ApplyOutbound ::
    "'p approvable \<Rightarrow> draft_state \<Rightarrow> verdict \<Rightarrow> gate_error + draft_state \<times> 'p release option" where
  "ApplyOutbound a cur v =
     (if ap_direction a \<noteq> Outbound then Inl ErrWrongDirection
      else if \<not> validDraftState cur then Inl ErrUnknownState
      else if cur \<noteq> PendingReview then Inl ErrIllegalTransition
      else if v = Approve then
        Inr (Sent, Some \<lparr>rel_thread = ap_thread a, rel_id = ap_id a,
                         rel_payload = ap_payload a, rel_viaGrant = False\<rparr>)
      else if v = Reject then Inr (Discarded, None)
      else Inl ErrIllegalTransition)"

section \<open>Grants\<close>

record grant =
  gr_thread :: string
  gr_direction :: direction
  gr_revoked :: bool

definition Covers :: "grant \<Rightarrow> 'p approvable \<Rightarrow> bool" where
  "Covers g a \<longleftrightarrow>
     \<not> gr_revoked g \<and> gr_thread g \<noteq> [] \<and>
     (gr_direction g = Inbound \<or> gr_direction g = Outbound) \<and>
     gr_thread g = ap_thread a \<and> gr_direction g = ap_direction a"

definition ApplyInboundGrant ::
    "grant \<Rightarrow> 'p approvable \<Rightarrow> thread_state \<Rightarrow> gate_error + thread_state" where
  "ApplyInboundGrant g a cur =
     (if ap_direction a \<noteq> Inbound then Inl ErrWrongDirection
      else if \<not> Covers g a then Inl ErrNoGrant
      else ApplyInbound cur Approve)"

definition ApplyOutboundGrant ::
    "grant \<Rightarrow> 'p approvable \<Rightarrow> draft_state \<Rightarrow> gate_error + draft_state \<times> 'p release option" where
  "ApplyOutboundGrant g a cur =
     (if \<not> Covers g a then Inl ErrNoGrant
      else rbind (ApplyOutbound a cur Approve) (\<lambda>(st, rel).
        Inr (st, map_option (\<lambda>r. r\<lparr>rel_viaGrant := True\<rparr>) rel)))"

section \<open>Lemmas\<close>

lemma validState_InputRequired [simp]: "validState StateInputRequired"
  and validState_Working [simp]: "validState StateWorking"
  and validState_Rejected [simp]: "validState StateRejected"
  and validState_Submitted [simp]: "validState StateSubmitted"
  by (simp_all add: validState_def)

lemma validDraftState_simps [simp]:
  "validDraftState PendingReview" "validDraftState Sent" "validDraftState Discarded"
  by (simp_all add: validDraftState_def)

lemma ApplyInbound_Inr:
  "ApplyInbound cur v = Inr st \<longleftrightarrow>
     cur = StateInputRequired \<and> (v = Approve \<and> st = StateWorking \<or> v = Reject \<and> st = StateRejected)"
  by (auto simp: ApplyInbound_def)

lemma ApplyInbound_valid: "ApplyInbound cur v = Inr st \<Longrightarrow> validState st"
  by (auto simp: ApplyInbound_Inr)

lemma ApplyInbound_simps [simp]:
  "ApplyInbound StateInputRequired Approve = Inr StateWorking"
  "ApplyInbound StateInputRequired Reject = Inr StateRejected"
  by (simp_all add: ApplyInbound_Inr)

lemma ApplyInbound_illegal:
  "validState cur \<Longrightarrow> cur \<noteq> StateInputRequired \<Longrightarrow> ApplyInbound cur v = Inl ErrIllegalTransition"
  by (simp add: ApplyInbound_def)

lemma ApplyOutbound_Inr:
  "ApplyOutbound a cur v = Inr (st, rel) \<longleftrightarrow>
     ap_direction a = Outbound \<and> cur = PendingReview \<and>
     (v = Approve \<and> st = Sent \<and>
        rel = Some \<lparr>rel_thread = ap_thread a, rel_id = ap_id a,
                    rel_payload = ap_payload a, rel_viaGrant = False\<rparr> \<or>
      v = Reject \<and> st = Discarded \<and> rel = None)"
  by (auto simp: ApplyOutbound_def)

lemma ApplyOutbound_illegal:
  "ap_direction a = Outbound \<Longrightarrow> validDraftState cur \<Longrightarrow> cur \<noteq> PendingReview \<Longrightarrow>
   ApplyOutbound a cur v = Inl ErrIllegalTransition"
  by (simp add: ApplyOutbound_def)

lemma ApplyInboundGrant_Inr:
  "ApplyInboundGrant g a cur = Inr st \<longleftrightarrow>
     ap_direction a = Inbound \<and> Covers g a \<and> cur = StateInputRequired \<and> st = StateWorking"
  by (auto simp: ApplyInboundGrant_def ApplyInbound_Inr)

lemma ApplyOutboundGrant_Inr:
  "ApplyOutboundGrant g a cur = Inr (st, rel) \<longleftrightarrow>
     ap_direction a = Outbound \<and> Covers g a \<and> cur = PendingReview \<and> st = Sent \<and>
     rel = Some \<lparr>rel_thread = ap_thread a, rel_id = ap_id a,
                 rel_payload = ap_payload a, rel_viaGrant = True\<rparr>"
  by (auto simp: ApplyOutboundGrant_def rbind_Inr_iff ApplyOutbound_Inr)

text \<open>
  The authority interface the store's verdict methods rely on: a transition function that
  only ever leaves one source state, and only for valid targets. Both gates provide it.
\<close>

locale one_way_gate =
  fixes apply_gate :: "string \<Rightarrow> gate_error + string"
    and src :: string
    and ok_state :: "string \<Rightarrow> bool"
  assumes from_src: "apply_gate cur = Inr st \<Longrightarrow> cur = src"
    and to_valid: "apply_gate cur = Inr st \<Longrightarrow> ok_state st"
    and leaves_src: "apply_gate cur = Inr st \<Longrightarrow> st \<noteq> src"
begin

lemma not_twice: "apply_gate cur = Inr st \<Longrightarrow> \<exists>e. apply_gate st = Inl e"
proof -
  assume a: "apply_gate cur = Inr st"
  then have "st \<noteq> src" by (rule leaves_src)
  then show ?thesis using from_src [of st] by (cases "apply_gate st") auto
qed

lemma refused_elsewhere: "cur \<noteq> src \<Longrightarrow> \<exists>e. apply_gate cur = Inl e"
  using from_src [of cur] by (cases "apply_gate cur") auto

end

interpretation inbound_gate: one_way_gate "\<lambda>cur. ApplyInbound cur v" StateInputRequired validState
  for v
  by unfold_locales (auto simp: ApplyInbound_Inr thread_state_defs validState_def)

interpretation outbound_gate:
  one_way_gate "\<lambda>cur. rbind (ApplyOutbound a cur v) (\<lambda>(st, rel). Inr st)" PendingReview validDraftState
  for a v
  by unfold_locales (auto simp: rbind_Inr_iff ApplyOutbound_Inr)

section \<open>Properties\<close>

text \<open>
  C33: the inbound gate moves a thread only out of \<open>input-required\<close>: approval leads to
  working, rejection to rejected, every other combination of state and verdict is refused,
  with the unknown-state error exactly for strings that are not one of the seven A2A states,
  and a decided thread cannot be decided again.
\<close>

theorem ApplyInbound_spec:
  "(ApplyInbound cur v = Inr st \<longleftrightarrow>
      cur = StateInputRequired \<and> (v = Approve \<and> st = StateWorking \<or> v = Reject \<and> st = StateRejected)) \<and>
   (ApplyInbound cur v = Inl ErrUnknownState \<longleftrightarrow> \<not> validState cur) \<and>
   (ApplyInbound cur v = Inr st \<longrightarrow> (\<forall>v'. ApplyInbound st v' = Inl ErrIllegalTransition))"
proof -
  have "ApplyInbound st v' = Inl ErrIllegalTransition" if "ApplyInbound cur v = Inr st" for v'
    using that ApplyInbound_valid [OF that] inbound_gate.leaves_src [OF that]
    by (simp add: ApplyInbound_def)
  moreover have "ApplyInbound cur v = Inl ErrUnknownState \<longleftrightarrow> \<not> validState cur"
    by (auto simp: ApplyInbound_def)
  ultimately show ?thesis by (simp add: ApplyInbound_Inr)
qed

theorem ApplyInbound_spec_witness:
  "ApplyInbound ''input-required'' ''approve'' = Inr ''working'' \<and>
   ApplyInbound ''working'' ''approve'' = Inl ErrIllegalTransition"
  using ApplyInbound_spec [of "''input-required''" "''approve''" "''working''"]
  by (simp add: thread_state_defs Approve_def Reject_def)

text \<open>
  A release is minted exactly by approving a pending outbound reply, by hand or through an
  unrevoked outbound grant on its own thread, and it carries that reply's thread, id and payload
  and how it was approved. Rejection discards and mints nothing, an inbound grant only ever
  approves inbound messages that wait for input, and no grant works across directions.
\<close>

theorem release_minted_iff:
  "(ApplyOutbound a cur v = Inr (st, Some r) \<longleftrightarrow>
      ap_direction a = Outbound \<and> cur = PendingReview \<and> v = Approve \<and> st = Sent \<and>
      r = \<lparr>rel_thread = ap_thread a, rel_id = ap_id a, rel_payload = ap_payload a, rel_viaGrant = False\<rparr>) \<and>
   (ApplyOutbound a cur v = Inr (st, None) \<longleftrightarrow>
      ap_direction a = Outbound \<and> cur = PendingReview \<and> v = Reject \<and> st = Discarded) \<and>
   (ApplyOutboundGrant g a cur = Inr (st, rel) \<longleftrightarrow>
      ap_direction a = Outbound \<and> gr_direction g = Outbound \<and> \<not> gr_revoked g \<and> gr_thread g = ap_thread a \<and> ap_thread a \<noteq> [] \<and>
      cur = PendingReview \<and> st = Sent \<and>
      rel = Some \<lparr>rel_thread = ap_thread a, rel_id = ap_id a, rel_payload = ap_payload a, rel_viaGrant = True\<rparr>) \<and>
   (ApplyInboundGrant g a cur' = Inr st' \<longleftrightarrow>
      ap_direction a = Inbound \<and> gr_direction g = Inbound \<and> \<not> gr_revoked g \<and> gr_thread g = ap_thread a \<and> ap_thread a \<noteq> [] \<and>
      cur' = StateInputRequired \<and> st' = StateWorking)"
  by (auto simp: ApplyOutbound_Inr ApplyOutboundGrant_Inr ApplyInboundGrant_Inr Covers_def)

end
