(* ===== verification/Envelope.thy ===== *)
theory Envelope
  imports Canon GoTime Gate
begin

text \<open>
  Envelopes: \<open>internal/envelope/envelope.go\<close> and \<open>sign.go\<close>, with the JSON form of the
  struct (\<open>json.Marshal\<close>, \<open>json.Decoder.Decode\<close> by the struct tags). A nil slice of
  parts (printed \<open>null\<close>) and an empty one (printed \<open>[]\<close>) differ, hence the option.

  Ed25519 itself is a parameter: \<open>ed_sign priv msg\<close> and \<open>ed_verify pub msg sig\<close> stand for
  \<open>ed25519.Sign\<close> and \<open>ed25519.Verify\<close>. Fresh ids come from the caller (the code draws
  UUIDv7 values from \<open>github.com/google/uuid\<close>).
\<close>

section \<open>Data\<close>

definition Version :: int where "Version = 1"
definition MaxBodyBytes :: nat where "MaxBodyBytes = 32 * 1024"
definition MaxWireBytes :: nat where "MaxWireBytes = 64 * 1024"
definition MaxParts :: nat where "MaxParts = 16"

record party =
  pt_person :: string
  pt_device :: string
  pt_agent :: string

record part =
  part_type :: string
  part_text :: string

record message =
  msg_role :: string
  msg_parts :: "part list option"

record envelope =
  env_V :: int
  env_ID :: string
  env_Thread :: string
  env_From :: party
  env_To :: string
  env_State :: thread_state
  env_SentAt :: gotime
  env_AIGenerated :: bool
  env_Body :: message
  env_Sig :: string

definition parts_of :: "message \<Rightarrow> part list" where
  "parts_of m = (case msg_parts m of None \<Rightarrow> [] | Some ps \<Rightarrow> ps)"

text \<open>\<open>New\<close>: \<open>thread_id\<close> is the id minted when no thread is named, \<open>msg_id\<close> the message id.\<close>

definition New :: "party \<Rightarrow> string \<Rightarrow> string \<Rightarrow> thread_state \<Rightarrow> bool \<Rightarrow> message \<Rightarrow>
    string \<Rightarrow> string \<Rightarrow> instant \<Rightarrow> envelope" where
  "New from_p to_p thread state aiGenerated body thread_id msg_id now =
     \<lparr>env_V = Version, env_ID = msg_id,
      env_Thread = (if thread = [] then thread_id else thread),
      env_From = from_p, env_To = to_p, env_State = state,
      env_SentAt = UTC now, env_AIGenerated = aiGenerated, env_Body = body, env_Sig = []\<rparr>"

section \<open>JSON form\<close>

definition jstr :: "string \<Rightarrow> jtext json" where
  "jstr s = JStr (quote s)"

definition party_json :: "party \<Rightarrow> jtext json" where
  "party_json p = JObj [(ascii ''person'', jstr (pt_person p)), (ascii ''device'', jstr (pt_device p)),
                        (ascii ''agent'', jstr (pt_agent p))]"

definition part_json :: "part \<Rightarrow> jtext json" where
  "part_json p = JObj [(ascii ''type'', jstr (part_type p)), (ascii ''text'', jstr (part_text p))]"

definition message_json :: "message \<Rightarrow> jtext json" where
  "message_json m = JObj [(ascii ''role'', jstr (msg_role m)),
     (ascii ''parts'', case msg_parts m of None \<Rightarrow> JNull | Some ps \<Rightarrow> JArr (map part_json ps))]"

text \<open>Marshalling fails only on a time whose year or zone RFC 3339 cannot express.\<close>

definition envelope_json :: "envelope \<Rightarrow> jtext json option" where
  "envelope_json e =
     map_option (\<lambda>ts. JObj
       ([(ascii ''v'', JNum (itoa (env_V e))),
         (ascii ''id'', jstr (env_ID e)),
         (ascii ''thread'', jstr (env_Thread e)),
         (ascii ''from'', party_json (env_From e)),
         (ascii ''to'', jstr (env_To e)),
         (ascii ''state'', jstr (env_State e)),
         (ascii ''sent_at'', JStr (ascii ts)),
         (ascii ''ai_generated'', JBool (env_AIGenerated e)),
         (ascii ''body'', message_json (env_Body e))] @
        (if env_Sig e = [] then [] else [(ascii ''sig'', jstr (StdEncoding_Encode (env_Sig e)))])))
       (format_rfc3339 (env_SentAt e))"

definition Marshal :: "envelope \<Rightarrow> string option" where
  "Marshal e = map_option (\<lambda>j. utf8_encode (print_json j)) (envelope_json e)"

text \<open>Field lookup: the exact name, else the name up to case folding. The folds into ASCII are
  upper case, the long s and the Kelvin sign.\<close>

definition fold_rune :: "nat \<Rightarrow> nat" where
  "fold_rune r = (if 97 \<le> r \<and> r \<le> 122 then r - 32 else if r = 383 then 83 else if r = 8490 then 75 else r)"

definition match_field :: "string list \<Rightarrow> jtext \<Rightarrow> string option" where
  "match_field names raw =
     (let k = str_val raw
      in if k \<in> set names then Some k
         else find (\<lambda>n. map fold_rune (runes n) = map fold_rune (runes k)) names)"

text \<open>Decoding one value into a field: \<open>null\<close> leaves the field alone, a value of another JSON
  type is an error.\<close>

definition dec_string :: "jtext json \<Rightarrow> string \<Rightarrow> string option" where
  "dec_string j old = (case j of JNull \<Rightarrow> Some old | JStr raw \<Rightarrow> Some (str_val raw) | _ \<Rightarrow> None)"

definition dec_bool :: "jtext json \<Rightarrow> bool \<Rightarrow> bool option" where
  "dec_bool j old = (case j of JNull \<Rightarrow> Some old | JBool b \<Rightarrow> Some b | _ \<Rightarrow> None)"

definition dec_int :: "jtext json \<Rightarrow> int \<Rightarrow> int option" where
  "dec_int j old = (case j of JNull \<Rightarrow> Some old | JNum n \<Rightarrow> atoi n | _ \<Rightarrow> None)"

text \<open>\<open>Time.UnmarshalJSON\<close> reads the token without unescaping it.\<close>

definition dec_time :: "jtext json \<Rightarrow> gotime \<Rightarrow> gotime option" where
  "dec_time j old = (case j of JNull \<Rightarrow> Some old | JStr raw \<Rightarrow> parse_rfc3339 (utf8_encode raw) | _ \<Rightarrow> None)"

definition dec_byte :: "jtext json \<Rightarrow> char option" where
  "dec_byte j = (case j of
      JNull \<Rightarrow> Some (to_byte 0)
    | JNum n \<Rightarrow> (case atoi n of
        Some i \<Rightarrow> (if hd n \<noteq> CHR ''-'' \<and> i < 256 then Some (to_byte (nat i)) else None) | None \<Rightarrow> None)
    | _ \<Rightarrow> None)"

fun traverse :: "('a \<Rightarrow> 'b option) \<Rightarrow> 'a list \<Rightarrow> 'b list option" where
  "traverse f [] = Some []"
| "traverse f (x # xs) = Option.bind (f x) (\<lambda>y. map_option ((#) y) (traverse f xs))"

definition dec_bytes :: "jtext json \<Rightarrow> string option" where
  "dec_bytes j = (case j of
      JNull \<Rightarrow> Some []
    | JStr raw \<Rightarrow> StdEncoding_Decode (str_val raw)
    | JArr vs \<Rightarrow> traverse dec_byte vs
    | _ \<Rightarrow> None)"

text \<open>An object decodes member by member into the struct it finds; unknown names are skipped.\<close>

fun dec_members :: "(string \<Rightarrow> jtext json \<Rightarrow> 'r \<Rightarrow> 'r option) \<Rightarrow> string list \<Rightarrow>
    (jtext \<times> jtext json) list \<Rightarrow> 'r \<Rightarrow> 'r option" where
  "dec_members fld names [] r = Some r"
| "dec_members fld names ((k, v) # ms) r =
     Option.bind (case match_field names k of None \<Rightarrow> Some r | Some n \<Rightarrow> fld n v r)
       (dec_members fld names ms)"

definition dec_struct :: "(string \<Rightarrow> jtext json \<Rightarrow> 'r \<Rightarrow> 'r option) \<Rightarrow> string list \<Rightarrow>
    jtext json \<Rightarrow> 'r \<Rightarrow> 'r option" where
  "dec_struct fld names j r = (case j of JNull \<Rightarrow> Some r | JObj ms \<Rightarrow> dec_members fld names ms r | _ \<Rightarrow> None)"

definition dec_party_field :: "string \<Rightarrow> jtext json \<Rightarrow> party \<Rightarrow> party option" where
  "dec_party_field n v p =
     (if n = ''person'' then map_option (\<lambda>s. p\<lparr>pt_person := s\<rparr>) (dec_string v (pt_person p))
      else if n = ''device'' then map_option (\<lambda>s. p\<lparr>pt_device := s\<rparr>) (dec_string v (pt_device p))
      else map_option (\<lambda>s. p\<lparr>pt_agent := s\<rparr>) (dec_string v (pt_agent p)))"

definition dec_party :: "jtext json \<Rightarrow> party \<Rightarrow> party option" where
  "dec_party = dec_struct dec_party_field [''person'', ''device'', ''agent'']"

definition dec_part_field :: "string \<Rightarrow> jtext json \<Rightarrow> part \<Rightarrow> part option" where
  "dec_part_field n v p =
     (if n = ''type'' then map_option (\<lambda>s. p\<lparr>part_type := s\<rparr>) (dec_string v (part_type p))
      else map_option (\<lambda>s. p\<lparr>part_text := s\<rparr>) (dec_string v (part_text p)))"

definition dec_part :: "jtext json \<Rightarrow> part \<Rightarrow> part option" where
  "dec_part = dec_struct dec_part_field [''type'', ''text'']"

definition zero_part :: part where
  "zero_part = \<lparr>part_type = [], part_text = []\<rparr>"

text \<open>A slice decodes element by element over the elements already there (a repeated key).\<close>

fun dec_parts :: "jtext json list \<Rightarrow> part list \<Rightarrow> part list option" where
  "dec_parts [] old = Some []"
| "dec_parts (v # vs) old =
     Option.bind (dec_part v (case old of [] \<Rightarrow> zero_part | p # _ \<Rightarrow> p))
       (\<lambda>p. map_option ((#) p) (dec_parts vs (tl old)))"

definition dec_message_field :: "string \<Rightarrow> jtext json \<Rightarrow> message \<Rightarrow> message option" where
  "dec_message_field n v m =
     (if n = ''role'' then map_option (\<lambda>s. m\<lparr>msg_role := s\<rparr>) (dec_string v (msg_role m))
      else (case v of
          JNull \<Rightarrow> Some (m\<lparr>msg_parts := None\<rparr>)
        | JArr vs \<Rightarrow> map_option (\<lambda>ps. m\<lparr>msg_parts := Some ps\<rparr>) (dec_parts vs (parts_of m))
        | _ \<Rightarrow> None))"

definition dec_message :: "jtext json \<Rightarrow> message \<Rightarrow> message option" where
  "dec_message = dec_struct dec_message_field [''role'', ''parts'']"

definition envelope_names :: "string list" where
  "envelope_names = [''v'', ''id'', ''thread'', ''from'', ''to'', ''state'', ''sent_at'',
     ''ai_generated'', ''body'', ''sig'']"

definition dec_envelope_field :: "string \<Rightarrow> jtext json \<Rightarrow> envelope \<Rightarrow> envelope option" where
  "dec_envelope_field n v e =
     (if n = ''v'' then map_option (\<lambda>x. e\<lparr>env_V := x\<rparr>) (dec_int v (env_V e))
      else if n = ''id'' then map_option (\<lambda>x. e\<lparr>env_ID := x\<rparr>) (dec_string v (env_ID e))
      else if n = ''thread'' then map_option (\<lambda>x. e\<lparr>env_Thread := x\<rparr>) (dec_string v (env_Thread e))
      else if n = ''from'' then map_option (\<lambda>x. e\<lparr>env_From := x\<rparr>) (dec_party v (env_From e))
      else if n = ''to'' then map_option (\<lambda>x. e\<lparr>env_To := x\<rparr>) (dec_string v (env_To e))
      else if n = ''state'' then map_option (\<lambda>x. e\<lparr>env_State := x\<rparr>) (dec_string v (env_State e))
      else if n = ''sent_at'' then map_option (\<lambda>x. e\<lparr>env_SentAt := x\<rparr>) (dec_time v (env_SentAt e))
      else if n = ''ai_generated'' then map_option (\<lambda>x. e\<lparr>env_AIGenerated := x\<rparr>) (dec_bool v (env_AIGenerated e))
      else if n = ''body'' then map_option (\<lambda>x. e\<lparr>env_Body := x\<rparr>) (dec_message v (env_Body e))
      else map_option (\<lambda>x. e\<lparr>env_Sig := x\<rparr>) (dec_bytes v))"

text \<open>The zero value of the struct; Go's zero time is the first of January of year 1.\<close>

definition zero_time :: gotime where
  "zero_time = UTC ((366 - epoch_days) * 86400 * 1000000000)"

definition zero_envelope :: envelope where
  "zero_envelope =
     \<lparr>env_V = 0, env_ID = [], env_Thread = [],
      env_From = \<lparr>pt_person = [], pt_device = [], pt_agent = []\<rparr>, env_To = [], env_State = [],
      env_SentAt = zero_time, env_AIGenerated = False,
      env_Body = \<lparr>msg_role = [], msg_parts = None\<rparr>, env_Sig = []\<rparr>"

definition versionSupported :: "int \<Rightarrow> bool" where
  "versionSupported v \<longleftrightarrow> v = Version"

definition Decode :: "string \<Rightarrow> env_error + envelope" where
  "Decode data =
     (case Option.bind (parse_document data)
             (\<lambda>j. dec_struct dec_envelope_field envelope_names j zero_envelope) of
        None \<Rightarrow> Inl ErrDecode
      | Some e \<Rightarrow> (if \<not> versionSupported (env_V e) then Inl ErrBadVersion else Inr e))"

section \<open>Caps\<close>

definition bodySize :: "message \<Rightarrow> nat" where
  "bodySize m = foldl (\<lambda>n p. n + length (part_text p)) 0 (parts_of m)"

definition Canonical :: "envelope \<Rightarrow> env_error + string" where
  "Canonical e =
     (case Marshal (e\<lparr>env_Sig := []\<rparr>) of None \<Rightarrow> Inl ErrSerialize | Some raw \<Rightarrow> jcs raw)"

definition check :: "envelope \<Rightarrow> env_error + string" where
  "check e =
     (if \<not> versionSupported (env_V e) then Inl ErrBadVersion
      else if MaxParts < length (parts_of (env_Body e)) then Inl ErrTooManyParts
      else if MaxBodyBytes < bodySize (env_Body e) then Inl ErrTooLarge
      else rbind (Canonical e) (\<lambda>canon.
             if MaxWireBytes < length canon then Inl ErrTooLarge else Inr canon))"

definition Validate :: "envelope \<Rightarrow> env_error + unit" where
  "Validate e = rbind (check e) (\<lambda>_. Inr ())"

section \<open>Signatures\<close>

definition PrivateKeySize :: nat where "PrivateKeySize = 64"
definition PublicKeySize :: nat where "PublicKeySize = 32"
definition SignatureSize :: nat where "SignatureSize = 64"

definition Sign :: "(string \<Rightarrow> string \<Rightarrow> string) \<Rightarrow> envelope \<Rightarrow> string \<Rightarrow> env_error + envelope" where
  "Sign ed_sign e priv =
     (if length priv \<noteq> PrivateKeySize then Inl ErrBadKeyLength
      else rbind (check e) (\<lambda>canon. Inr (e\<lparr>env_Sig := ed_sign priv canon\<rparr>)))"

definition Verify :: "(string \<Rightarrow> string \<Rightarrow> string \<Rightarrow> bool) \<Rightarrow> envelope \<Rightarrow> string \<Rightarrow> env_error + unit" where
  "Verify ed_verify e pub =
     rbind (check e) (\<lambda>canon.
       if length pub \<noteq> PublicKeySize \<or> length (env_Sig e) \<noteq> SignatureSize then Inl ErrBadSignature
       else if \<not> ed_verify pub canon (env_Sig e) then Inl ErrBadSignature
       else Inr ())"

end
