(* ===== verification/JsonFacts.thy ===== *)
theory JsonFacts
  imports Json Canon
begin

text \<open>
  Reading back what was printed: the tokens written by \<open>json.Marshal\<close> and by the
  canonicaliser scan and unquote to the same runes, and the parser inverts the printer on every
  value whose tokens are well formed, with the fuel \<open>parse_document\<close> gives it.
\<close>

section \<open>String tokens\<close>

lemma hex_val_hex_rune: "d < 16 \<Longrightarrow> hex_val (hex_rune d) = Some d"
proof -
  have "\<forall>d \<in> set [0..<16]. hex_val (hex_rune d) = Some d" by code_simp
  then show "d < 16 \<Longrightarrow> hex_val (hex_rune d) = Some d" by simp
qed

lemma u4_hex: "a < 16 \<Longrightarrow> b < 16 \<Longrightarrow> c < 16 \<Longrightarrow> d < 16 \<Longrightarrow>
    u4 (hex_rune a) (hex_rune b) (hex_rune c) (hex_rune d) = Some (a * 4096 + b * 256 + c * 16 + d)"
  by (simp add: u4_def hex_val_hex_rune)

lemma hex_rune_0: "hex_rune 0 = 48" "hex_rune 2 = 50" "hex_rune 15 = 102" "hex_rune 13 = 100"
  by code_simp+

lemma u4_ascii: "r < 256 \<Longrightarrow> u4 48 48 (hex_rune (r div 16)) (hex_rune (r mod 16)) = Some r"
proof -
  assume "r < 256"
  then have "r div 16 < 16" by auto
  then have "u4 (hex_rune 0) (hex_rune 0) (hex_rune (r div 16)) (hex_rune (r mod 16)) = Some (0 * 4096 + 0 * 256 + r div 16 * 16 + r mod 16)"
    by (intro u4_hex) auto
  then show ?thesis by (simp add: hex_rune_0)
qed

lemma u4_error: "u4 102 102 102 100 = Some RuneError"
  by (simp add: u4_def hex_val_def RuneError_def)

lemma u4_separator: "r = 8232 \<or> r = 8233 \<Longrightarrow> u4 50 48 50 (hex_rune (r mod 16)) = Some r"
proof -
  have "u4 50 48 50 (hex_rune (8232 mod 16)) = Some 8232 \<and> u4 50 48 50 (hex_rune (8233 mod 16)) = Some 8233" by code_simp
  then show "r = 8232 \<or> r = 8233 \<Longrightarrow> ?thesis" by auto
qed

text \<open>A chunk of a token: it scans as a unit and unquotes to one rune.\<close>

definition chunk :: "nat \<Rightarrow> jtext \<Rightarrow> bool" where
  "chunk r c \<longleftrightarrow>
     (\<forall>t. scan_str (c @ t) = map_option (\<lambda>(raw, rest). (c @ raw, rest)) (scan_str t)) \<and>
     (\<forall>t. unquote (c @ t) = r # unquote t)"

lemma chunk_plain: "32 \<le> r \<Longrightarrow> r \<noteq> 34 \<Longrightarrow> r \<noteq> 92 \<Longrightarrow> chunk r [r]"
  by (simp add: chunk_def)

lemma getu4_not_u: "e \<noteq> 117 \<Longrightarrow> getu4 (92 # e # t) = None"
  by (cases "(92 # e # t)" rule: getu4.cases) auto

lemma chunk_escape:
  assumes "e \<in> {34, 92, 47, 98, 102, 110, 114, 116}" "unescape e = r"
  shows "chunk r [92, e]"
proof -
  have "e \<noteq> 117" using assms(1) by auto
  with assms show ?thesis by (auto simp: chunk_def getu4_not_u)
qed

lemma chunk_u:
  assumes "u4 a b c d = Some r" "\<not> surrogate r"
  shows "chunk r [92, 117, a, b, c, d]"
  using assms by (simp add: chunk_def)

lemma chunk_u_ascii: "r < 256 \<Longrightarrow> chunk r [92, 117, 48, 48, hex_rune (r div 16), hex_rune (r mod 16)]"
  by (rule chunk_u [OF u4_ascii]) (simp_all add: surrogate_def)

lemma chunk_if: "(P \<Longrightarrow> chunk r a) \<Longrightarrow> (\<not> P \<Longrightarrow> chunk r b) \<Longrightarrow> chunk r (if P then a else b)"
  by simp

lemma chunk_short:
  "r = 34 \<or> r = 92 \<Longrightarrow> chunk r [92, r]" "r = 8 \<Longrightarrow> chunk r [92, 98]" "r = 12 \<Longrightarrow> chunk r [92, 102]"
  "r = 10 \<Longrightarrow> chunk r [92, 110]" "r = 13 \<Longrightarrow> chunk r [92, 114]" "r = 9 \<Longrightarrow> chunk r [92, 116]"
  by (rule chunk_escape; auto simp: unescape_def)+

lemma marshal_rune_chunk: "chunk r (marshal_rune (r, w))"
proof -
  have e: "r = RuneError \<and> w = 1 \<Longrightarrow> chunk r [92, 117, 102, 102, 102, 100]"
    by (intro chunk_u) (simp_all add: u4_error surrogate_def RuneError_def)
  have s: "r = 8232 \<or> r = 8233 \<Longrightarrow> chunk r [92, 117, 50, 48, 50, hex_rune (r mod 16)]"
    by (intro chunk_u u4_separator) (auto simp: surrogate_def)
  have p: "\<not> (r = 34 \<or> r = 92) \<Longrightarrow> \<not> (r < 32 \<or> r = 60 \<or> r = 62 \<or> r = 38) \<Longrightarrow> chunk r [r]"
    by (intro chunk_plain) auto
  have u: "r < 32 \<or> r = 60 \<or> r = 62 \<or> r = 38 \<Longrightarrow> chunk r [92, 117, 48, 48, hex_rune (r div 16), hex_rune (r mod 16)]"
    by (rule chunk_u_ascii) auto
  show ?thesis
    unfolding marshal_rune_def prod.case
    by (intro chunk_if) (assumption | rule chunk_short e s p u)+
qed

definition is_token :: "nat list \<Rightarrow> jtext \<Rightarrow> bool" where
  "is_token rs raw \<longleftrightarrow> (\<forall>rest. scan_str (raw @ 34 # rest) = Some (raw, rest)) \<and> unquote raw = rs"

lemma chunks_token:
  assumes "list_all2 chunk rs cs"
  shows "is_token rs (concat cs)"
proof -
  have "scan_str (concat cs @ 34 # rest) = Some (concat cs, rest)" for rest
    using assms by (induction rs cs rule: list_all2_induct) (simp_all add: chunk_def)
  moreover have "unquote (concat cs) = rs"
    using assms by (induction rs cs rule: list_all2_induct) (simp_all add: chunk_def)
  ultimately show ?thesis by (simp add: is_token_def)
qed

lemma quote_token: "is_token (runes s) (quote s)"
  unfolding quote_def runes_def
  using marshal_rune_chunk
  by (intro chunks_token) (auto simp: list.rel_map list_all2_same split_paired_all)

lemma str_val_quote [simp]: "str_val (quote s) = to_valid s"
  using quote_token [of s] by (simp add: str_val_def to_valid_def is_token_def)

section \<open>Integer literals\<close>

lemma digit_char_facts: "d < 10 \<Longrightarrow> is_digit (digit_char d) \<and> digit_val (digit_char d) = d \<and> byte_of (digit_char d) = 48 + d"
  by (simp add: is_digit_def digit_val_def digit_char_def)

lemma digits_nat_shape:
  "list_all is_digit (digits_nat n) \<and> digits_nat n \<noteq> [] \<and> (n \<noteq> 0 \<longrightarrow> byte_of (hd (digits_nat n)) \<noteq> 48)"
proof (induction n rule: digits_nat.induct)
  case (1 n)
  show ?case
  proof (cases "n < 10")
    case True
    then show ?thesis by (subst (1 2 3) digits_nat.simps) (simp add: digit_char_facts)
  next
    case False
    with 1 show ?thesis
      by (subst (1 2 3) digits_nat.simps) (simp add: digit_char_facts hd_append)
  qed
qed

lemma nat_of_digits_append: "nat_of_digits acc (xs @ [c]) = 10 * nat_of_digits acc xs + digit_val c"
  by (induction xs arbitrary: acc) simp_all

lemma nat_of_digits_digits [simp]: "nat_of_digits 0 (digits_nat n) = n"
proof (induction n rule: digits_nat.induct)
  case (1 n)
  show ?case
  proof (cases "n < 10")
    case True
    then show ?thesis by (subst digits_nat.simps) (simp add: digit_char_facts)
  next
    case False
    with 1 show ?thesis
      by (subst digits_nat.simps) (simp add: digit_char_facts nat_of_digits_append)
  qed
qed

lemma minus_not_digit: "\<not> is_digit CHR ''-''" "\<not> is_digit CHR ''+''" "byte_of CHR ''-'' = 45"
  by code_simp+

lemma digits_hd: "hd (digits_nat n) \<noteq> CHR ''-''" "hd (digits_nat n) \<noteq> CHR ''+''"
  using digits_nat_shape [of n] minus_not_digit by (cases "digits_nat n"; auto)+

lemma atoi_itoa: "- (2 ^ 63) \<le> i \<Longrightarrow> i < 2 ^ 63 \<Longrightarrow> atoi (itoa i) = Some i"
  using digits_nat_shape [of "nat (- i)"] digits_nat_shape [of "nat i"] digits_hd
  by (auto simp: atoi_def itoa_def Let_def)

definition delim :: "jtext \<Rightarrow> bool" where
  "delim rest \<longleftrightarrow> rest = [] \<or> hd rest \<in> {44, 93, 125}"

lemma dig_digit: "dig (byte_of c) = is_digit c"
  by (simp add: dig_def is_digit_def)

lemma dig_run:
  assumes "list_all is_digit ds" "delim rest"
  shows "takeWhile dig (ascii ds @ rest) = ascii ds" "dropWhile dig (ascii ds @ rest) = rest"
proof -
  have a: "\<forall>x \<in> set (ascii ds). dig x"
    using assms(1) by (auto simp: ascii_def list_all_iff dig_digit)
  have r: "takeWhile dig rest = []" "dropWhile dig rest = rest"
    using assms(2) by (cases rest; auto simp: delim_def dig_def)+
  show "takeWhile dig (ascii ds @ rest) = ascii ds" "dropWhile dig (ascii ds @ rest) = rest"
    using a r by (simp_all add: takeWhile_append2 dropWhile_append2)
qed

lemma scan_int_digits:
  assumes "delim rest"
  shows "scan_int (ascii (digits_nat n) @ rest) = Some (ascii (digits_nat n), rest)"
proof -
  obtain c cs where cs: "digits_nat n = c # cs" using digits_nat_shape [of n] by (cases "digits_nat n") auto
  have d: "is_digit c" "list_all is_digit cs" using digits_nat_shape [of n] by (simp_all add: cs)
  show ?thesis
  proof (cases "n = 0")
    case True
    then have "digits_nat n = [digit_char 0]" by (subst digits_nat.simps) simp
    then show ?thesis by (simp add: ascii_def scan_int_def digit_char_facts)
  next
    case False
    then have "byte_of c \<noteq> 48" using digits_nat_shape [of n] by (simp add: cs)
    with d dig_run [OF d(2) assms] show ?thesis by (simp add: cs scan_int_def dig_digit ascii_def)
  qed
qed

lemma scan_rest: "delim rest \<Longrightarrow> scan_frac rest = Some ([], rest) \<and> scan_exp rest = Some ([], rest)"
  by (cases rest) (auto simp: scan_frac_def scan_exp_def delim_def)

lemma to_byte_ascii [simp]: "map to_byte (ascii s) = s"
  by (simp add: ascii_def comp_def)

lemma scan_number_itoa:
  assumes "delim rest"
  shows "scan_number (ascii (itoa i) @ rest) = Some (itoa i, rest)"
proof -
  obtain c cs where cs: "digits_nat (nat i) = c # cs" using digits_nat_shape [of "nat i"] by (cases "digits_nat (nat i)") auto
  have "is_digit c" using digits_nat_shape [of "nat i"] by (simp add: cs)
  then have c: "byte_of c \<noteq> 45" by (auto simp: is_digit_def)
  have pos: "scan_number (ascii (digits_nat (nat i)) @ rest) = Some (digits_nat (nat i), rest)"
    using scan_int_digits [OF assms, of "nat i"] scan_rest [OF assms] c
    by (simp add: scan_number_def cs) (simp add: ascii_def comp_def)
  have neg: "scan_number (45 # ascii (digits_nat (nat (- i))) @ rest) = Some (CHR ''-'' # digits_nat (nat (- i)), rest)"
    using scan_int_digits [OF assms, of "nat (- i)"] scan_rest [OF assms] to_byte_byte_of [of "CHR ''-''"]
    by (simp add: scan_number_def minus_not_digit)
  show ?thesis
    using pos neg by (simp add: itoa_def) (simp add: ascii_def minus_not_digit)
qed

section \<open>The parser inverts the printer\<close>

fun wf_json :: "jtext json \<Rightarrow> bool" and wf_elems :: "jtext json list \<Rightarrow> bool"
and wf_members :: "(jtext \<times> jtext json) list \<Rightarrow> bool" where
  "wf_json JNull = True" | "wf_json (JBool b) = True"
| "wf_json (JNum n) = (\<exists>i. n = itoa i)"
| "wf_json (JStr raw) = (\<exists>rs. is_token rs raw)"
| "wf_json (JArr vs) = wf_elems vs"
| "wf_json (JObj ms) = wf_members ms"
| "wf_elems [] = True" | "wf_elems (v # vs) = (wf_json v \<and> wf_elems vs)"
| "wf_members [] = True"
| "wf_members ((k, v) # ms) = ((\<exists>rs. is_token rs k) \<and> wf_json v \<and> wf_members ms)"

fun jdepth :: "'s json \<Rightarrow> nat" and edepth :: "'s json list \<Rightarrow> nat" and mdepth :: "('s \<times> 's json) list \<Rightarrow> nat" where
  "jdepth JNull = 0" | "jdepth (JBool b) = 0" | "jdepth (JNum n) = 0" | "jdepth (JStr s) = 0"
| "jdepth (JArr vs) = Suc (edepth vs)" | "jdepth (JObj ms) = Suc (mdepth ms)"
| "edepth [] = 0" | "edepth (v # vs) = max (jdepth v) (edepth vs)"
| "mdepth [] = 0" | "mdepth ((k, v) # ms) = max (jdepth v) (mdepth ms)"

lemma itoa_head: "\<exists>c r. itoa i = c # r \<and> (is_digit c \<or> c = CHR ''-'')"
  using digits_nat_shape [of "nat i"] by (cases "digits_nat (nat i)") (auto simp: itoa_def)

text \<open>A printed value starts with a character that is neither white space nor a closing bracket.\<close>

lemma print_head:
  "wf_json v \<Longrightarrow> \<exists>c r. print_json v = c # r \<and> \<not> is_ws c \<and> c \<notin> {93, 125}"
proof (cases v)
  case (JNum n)
  assume "wf_json v"
  with JNum obtain i where "n = itoa i" by auto
  with JNum itoa_head [of i] show ?thesis
    by (auto simp: ascii_def is_ws_def is_digit_def minus_not_digit)
qed (auto simp: is_ws_def ascii_def byte_of_def)

lemma skip_ws_head [simp]: "\<not> is_ws c \<Longrightarrow> skip_ws (c # r) = c # r"
  by (simp add: skip_ws_def)

lemma not_ws [simp]: "\<not> is_ws 34" "\<not> is_ws 44" "\<not> is_ws 58" "\<not> is_ws 91" "\<not> is_ws 93" "\<not> is_ws 123" "\<not> is_ws 125"
  by (simp_all add: is_ws_def)

lemma scan_literal_itoa:
  assumes "delim rest"
  shows "scan_literal (ascii (itoa i) @ rest) = Some (JNum (itoa i), rest)"
proof -
  obtain c r where c: "itoa i = c # r" "is_digit c \<or> c = CHR ''-''" using itoa_head by blast
  then have "byte_of c \<notin> {110, 116, 102}" by (auto simp: is_digit_def minus_not_digit)
  with c scan_number_itoa [OF assms, of i] show ?thesis
    by (simp add: scan_literal_def strip_def) (simp add: ascii_def byte_of_def)
qed

lemma join_cons: "xs \<noteq> [] \<Longrightarrow> join_with c (x # xs) = x @ c # join_with c xs"
  by (cases xs) simp_all

lemma print_elems_nonempty [simp]: "print_elems vs = [] \<longleftrightarrow> vs = []"
  by (cases vs) simp_all

lemma print_members_nonempty [simp]: "print_members ms = [] \<longleftrightarrow> ms = []"
  by (cases ms rule: print_members.cases) simp_all

lemma parse_print:
  "wf_json v \<Longrightarrow> jdepth v \<le> d \<Longrightarrow> jsize v \<le> n \<Longrightarrow> delim rest \<Longrightarrow>
     parse_value n d (print_json v @ rest) = Some (v, rest)"
  "wf_elems vs \<Longrightarrow> vs \<noteq> [] \<Longrightarrow> edepth vs \<le> d \<Longrightarrow> esize vs \<le> n \<Longrightarrow>
     parse_elems n d (join_with 44 (print_elems vs) @ 93 # rest) = Some (vs, rest)"
  "wf_members ms \<Longrightarrow> ms \<noteq> [] \<Longrightarrow> mdepth ms \<le> d \<Longrightarrow> msize ms \<le> n \<Longrightarrow>
     parse_members n d (join_with 44 (print_members ms) @ 125 # rest) = Some (ms, rest)"
proof (induction v and vs and ms arbitrary: n d rest and n d rest and n d rest
    rule: print_json_print_elems_print_members.induct)
  case 1
  then show ?case by (cases n) (simp_all add: ascii_def byte_of_def scan_literal_def strip_def is_ws_def)
next
  case (2 b)
  then show ?case by (cases n; cases b) (simp_all add: ascii_def byte_of_def scan_literal_def strip_def is_ws_def)
next
  case (3 num)
  then obtain i m where i: "num = itoa i" "n = Suc m" by (cases n) auto
  obtain c r where c: "itoa i = c # r" "is_digit c \<or> c = CHR ''-''" using itoa_head by blast
  then have "byte_of c \<notin> {34, 91, 123}" "\<not> is_ws (byte_of c)" by (auto simp: is_digit_def is_ws_def minus_not_digit)
  with c i scan_literal_itoa [OF 3(4), of i] show ?case by (simp add: ascii_def)
next
  case (4 raw)
  then show ?case by (cases n) (auto simp: is_token_def)
next
  case (5 vs)
  then obtain m d' where n: "n = Suc m" "d = Suc d'" by (cases n; cases d) auto
  show ?case
  proof (cases vs)
    case Nil
    with n show ?thesis by simp
  next
    case (Cons v vs')
    obtain c r where c: "print_json v = c # r" "\<not> is_ws c" "c \<notin> {93, 125}" using print_head [of v] 5(2) Cons by auto
    define body where "body = join_with 44 (print_elems vs)"
    have b: "\<exists>r'. body = c # r'" using c(1) by (cases vs') (simp_all add: body_def Cons)
    have "parse_elems m d' (body @ 93 # rest) = Some (vs, rest)"
      unfolding body_def using 5 n Cons by (intro 5(1)) auto
    with b c n show ?thesis by (auto simp: body_def [symmetric])
  qed
next
  case (6 ms)
  then obtain m d' where n: "n = Suc m" "d = Suc d'" by (cases n; cases d) auto
  show ?case
  proof (cases ms)
    case Nil
    with n show ?thesis by simp
  next
    case (Cons kv ms')
    define body where "body = join_with 44 (print_members ms)"
    have b: "\<exists>r'. body = 34 # r'" by (cases kv; cases "ms' = []") (simp_all add: body_def Cons join_cons)
    have "parse_members m d' (body @ 125 # rest) = Some (ms, rest)"
      unfolding body_def using 6 n Cons by (intro 6(1)) auto
    with b n show ?thesis by (auto simp: body_def [symmetric])
  qed
next
  case 7
  then show ?case by simp
next
  case (8 v vs)
  then obtain m where n: "n = Suc m" by (cases n) auto
  show ?case
  proof (cases "vs = []")
    case True
    have "parse_value m d (print_json v @ 93 # rest) = Some (v, 93 # rest)"
      using 8 n by (intro 8(1)) (auto simp: delim_def)
    with True n show ?thesis by simp
  next
    case False
    have "parse_value m d (print_json v @ 44 # join_with 44 (print_elems vs) @ 93 # rest)
        = Some (v, 44 # join_with 44 (print_elems vs) @ 93 # rest)"
      using 8 n by (intro 8(1)) (auto simp: delim_def)
    moreover have "parse_elems m d (join_with 44 (print_elems vs) @ 93 # rest) = Some (vs, rest)"
      using 8 n False by (intro 8(2)) auto
    ultimately show ?thesis using n False by (simp add: join_cons)
  qed
next
  case 9
  then show ?case by simp
next
  case (10 k v ms)
  then obtain m where n: "n = Suc m" by (cases n) auto
  have k: "scan_str (k @ 34 # r) = Some (k, r)" for r using 10(3) by (auto simp: is_token_def)
  show ?case
  proof (cases "ms = []")
    case True
    have "parse_value m d (print_json v @ 125 # rest) = Some (v, 125 # rest)"
      using 10 n by (intro 10(1)) (auto simp: delim_def)
    with True n k show ?thesis by simp
  next
    case False
    have "parse_value m d (print_json v @ 44 # join_with 44 (print_members ms) @ 125 # rest)
        = Some (v, 44 # join_with 44 (print_members ms) @ 125 # rest)"
      using 10 n by (intro 10(1)) (auto simp: delim_def)
    moreover have "parse_members m d (join_with 44 (print_members ms) @ 125 # rest) = Some (ms, rest)"
      using 10 n False by (intro 10(2)) auto
    ultimately show ?thesis using n False k by (simp add: join_cons)
  qed
qed

lemma size_print:
  "wf_json v \<Longrightarrow> jsize v \<le> 2 * length (print_json v)"
  "esize vs \<le> 2 * length (join_with 44 (print_elems vs)) + 1 \<or> \<not> wf_elems vs"
  "msize ms \<le> 2 * length (join_with 44 (print_members ms)) \<or> \<not> wf_members ms"
proof (induction v and vs and ms rule: print_json_print_elems_print_members.induct)
  case (3 n)
  then show ?case using itoa_head by (auto simp: ascii_def) (metis length_0_conv list.distinct(1) not_less_eq_eq Suc_le_eq length_greater_0_conv less_imp_le_nat mult_2 trans_le_add1)
next
  case (8 v vs)
  then show ?case by (cases "vs = []") (auto simp: join_cons)
next
  case (10 k v ms)
  then show ?case by (cases "ms = []") (auto simp: join_cons)
qed (auto simp: ascii_def)

definition json_ok :: "jtext json \<Rightarrow> bool" where
  "json_ok v \<longleftrightarrow> wf_json v \<and> jdepth v \<le> maxNestingDepth \<and> list_all scalar (print_json v)"

lemma parse_document_print:
  assumes "json_ok v"
  shows "parse_document (utf8_encode (print_json v)) = Some v"
proof -
  have r: "runes (utf8_encode (print_json v)) = print_json v"
    using assms by (simp add: json_ok_def)
  have "parse_value (2 * length (print_json v) + 2) maxNestingDepth (print_json v @ []) = Some (v, [])"
    using assms size_print(1) [of v] by (intro parse_print(1)) (auto simp: json_ok_def delim_def)
  then show ?thesis by (simp add: parse_document_def r skip_ws_def)
qed

end
