(* ===== verification/TimeFacts.thy ===== *)
theory TimeFacts
  imports GoTime JsonFacts
begin

text \<open>
  Round trips of the two texts inside an envelope that are not plain strings: the base64 of a
  signature, and the RFC 3339 form of a time. The calendar computation is exact: the year found
  for a day number is the one whose days contain it, so the printed date is valid and reads back.
\<close>

section \<open>Base64\<close>

lemma index_of_nth: "distinct xs \<Longrightarrow> i < length xs \<Longrightarrow> index_of (xs ! i) xs = Some i"
proof (induction xs arbitrary: i)
  case (Cons x xs)
  then show ?case by (cases i) (auto simp: in_set_conv_nth)
qed simp

lemma b64_std_facts: "length b64_std = 64" "distinct b64_std"
    "CHR ''='' \<notin> set b64_std" "CHR 0x0A \<notin> set b64_std" "CHR 0x0D \<notin> set b64_std"
    "list_all (\<lambda>c. byte_of c < 128) b64_std"
  by code_simp+

lemma b64_char_std: "b64_char b64_std i \<in> set b64_std" "index_of (b64_char b64_std i) b64_std = Some (i mod 64)"
  using b64_std_facts(1,2) by (simp_all add: b64_char_def index_of_nth)

definition symbol :: "char \<Rightarrow> nat option" where
  "symbol c = (if c = CHR ''='' then None else index_of c b64_std)"

lemma symbol_char [simp]: "symbol (b64_char b64_std i) = Some (i mod 64)"
  using b64_char_std [of i] b64_std_facts(3) by (auto simp: symbol_def)

lemma symbol_pad [simp]: "symbol CHR ''='' = None"
  by (simp add: symbol_def)

lemma b64_encode_chars: "set (b64_encode b64_std ''='' bs) \<subseteq> insert CHR ''='' (set b64_std)"
  by (induction b64_std "''=''" bs rule: b64_encode.induct) (auto simp: b64_char_std)

lemma b64_symbols_encode:
  "b64_symbols b64_std (b64_encode b64_std ''='' bs) = Some (map symbol (b64_encode b64_std ''='' bs))"
proof -
  have "filter (\<lambda>c. c \<noteq> CHR 0x0A \<and> c \<noteq> CHR 0x0D) (b64_encode b64_std ''='' bs) = b64_encode b64_std ''='' bs"
    using b64_encode_chars [of bs] b64_std_facts(4,5) by (auto simp: filter_id_conv)
  moreover have "list_all (\<lambda>c. c = CHR ''='' \<or> c \<in> set b64_std) (b64_encode b64_std ''='' bs)"
    using b64_encode_chars [of bs] by (auto simp: list_all_iff)
  ultimately show ?thesis by (simp add: b64_symbols_def symbol_def)
qed

lemma join_bits:
  fixes p q u m n :: nat
  assumes "q < m" "u < n"
  shows "(m * n * p + (n * q + u)) mod (m * n) = n * q + u" "(n * q + u) div n = q" "(n * q + u) mod n = u"
proof -
  have "n * q + u < n * (q + 1)" using assms(2) by simp
  also have "\<dots> \<le> n * m" using assms(1) by (intro mult_le_mono) auto
  finally show "(m * n * p + (n * q + u)) mod (m * n) = n * q + u" by (simp add: mult.commute)
  show "(n * q + u) div n = q" "(n * q + u) mod n = u" using assms(2) by simp_all
qed

lemma sextets:
  fixes a b c :: nat
  assumes "a < 256" "b < 256" "c < 256"
  shows "(a div 4 mod 64 * 4 + (a * 16 + b div 16) mod 64 div 16) mod 256 = a"
    and "((a * 16 + b div 16) mod 64 * 16 + (b * 4 + c div 64) mod 64 div 4) mod 256 = b"
    and "((b * 4 + c div 64) mod 64 * 64 + c mod 64) mod 256 = c"
proof -
  have e1: "a * 16 + b div 16 = 4 * 16 * (a div 4) + (16 * (a mod 4) + b div 16)"
    using div_mult_mod_eq [of a 4] by linarith
  have "(a * 16 + b div 16) mod (4 * 16) = 16 * (a mod 4) + b div 16"
    unfolding e1 by (rule join_bits(1)) (use assms in auto)
  then have s1: "(a * 16 + b div 16) mod 64 = 16 * (a mod 4) + b div 16" by simp
  have e2: "b * 4 + c div 64 = 16 * 4 * (b div 16) + (4 * (b mod 16) + c div 64)"
    using div_mult_mod_eq [of b 16] by linarith
  have "(b * 4 + c div 64) mod (16 * 4) = 4 * (b mod 16) + c div 64"
    unfolding e2 by (rule join_bits(1)) (use assms in auto)
  then have s2: "(b * 4 + c div 64) mod 64 = 4 * (b mod 16) + c div 64" by simp
  have h: "b div 16 < 16" "c div 64 < 4" "a div 4 < 64" using assms by auto
  show "(a div 4 mod 64 * 4 + (a * 16 + b div 16) mod 64 div 16) mod 256 = a"
    using h assms div_mult_mod_eq [of a 4] unfolding s1 by simp
  have "(b * 4 + c div 64) mod 64 div 4 = b mod 16" using h unfolding s2 by simp
  moreover have "(16 * (a mod 4) + b div 16) * 16 + b mod 16 = 256 * (a mod 4) + b"
    using div_mult_mod_eq [of b 16] by simp
  ultimately show "((a * 16 + b div 16) mod 64 * 16 + (b * 4 + c div 64) mod 64 div 4) mod 256 = b"
    using assms unfolding s1 by simp
  have "(4 * (b mod 16) + c div 64) * 64 + c mod 64 = 256 * (b mod 16) + c"
    using div_mult_mod_eq [of c 64] by simp
  then show "((b * 4 + c div 64) mod 64 * 64 + c mod 64) mod 256 = c"
    using assms unfolding s2 by simp
qed

lemma b64_groups_encode:
  "list_all (\<lambda>b. b < 256) bs \<Longrightarrow> b64_groups (map symbol (b64_encode b64_std ''='' bs)) = Some bs"
proof (induction b64_std "''=''" bs rule: b64_encode.induct)
  case (2 a)
  then show ?case using sextets(1) [of a 0 0] by simp
next
  case (3 a b)
  then show ?case using sextets(1) [of a b 0] sextets(2) [of a b 0] by simp
next
  case (4 a b c bs)
  then have "b64_groups (map symbol (b64_encode b64_std ''='' bs)) = Some bs" by simp
  then show ?case using 4(2) sextets [of a b c] by simp
qed simp

lemma StdEncoding_roundtrip [simp]: "StdEncoding_Decode (StdEncoding_Encode bs) = Some bs"
proof -
  have "list_all (\<lambda>b. b < 256) (map byte_of bs)" by (simp add: list_all_iff)
  then show ?thesis
    by (simp add: StdEncoding_Decode_def StdEncoding_Encode_def b64_symbols_encode b64_groups_encode comp_def)
qed

lemma StdEncoding_ascii: "to_valid (StdEncoding_Encode bs) = StdEncoding_Encode bs"
proof (rule to_valid_ascii)
  have "byte_of CHR ''='' < 128" by code_simp
  then show "list_all (\<lambda>c. byte_of c < 128) (StdEncoding_Encode bs)"
    using b64_encode_chars [of "map byte_of bs"] b64_std_facts(6)
    by (auto simp: StdEncoding_Encode_def list_all_iff)
qed

section \<open>Calendar\<close>

text \<open>Division rounded up, as the leap-year counts use it.\<close>

lemma div_up:
  fixes y k :: int
  assumes "0 < k"
  shows "(y + k) div k = (y + (k - 1)) div k + (if k dvd y then 1 else 0)"
    and "y \<le> k * ((y + (k - 1)) div k)" and "k * ((y + (k - 1)) div k) \<le> y + (k - 1)"
proof -
  define q r where qr: "q = y div k" "r = y mod k"
  have y: "y = k * q + r" and r: "0 \<le> r" "r < k" using assms by (simp_all add: qr)
  have plus: "(k * q + x) div k = q + x div k" for x using assms by simp
  have v: "(r + (k - 1)) div k = (if r = 0 then 0 else 1)"
  proof (cases "r = 0")
    case False
    have "(r - 1 + k) div k = (r - 1) div k + 1" using assms by (intro div_add_self2) simp
    moreover have "(r - 1) div k = 0" using r False by (intro div_pos_pos_trivial) auto
    ultimately show ?thesis using False by (simp add: algebra_simps)
  qed (use assms in simp)
  have up: "(y + (k - 1)) div k = q + (if r = 0 then 0 else 1)"
    using plus [of "r + (k - 1)"] unfolding v y by (simp add: add.assoc)
  have "(y + k) div k = q + 1" unfolding qr using assms by (intro div_add_self2) simp
  moreover have "k dvd y \<longleftrightarrow> r = 0" by (simp add: qr dvd_eq_mod_eq_0)
  ultimately show "(y + k) div k = (y + (k - 1)) div k + (if k dvd y then 1 else 0)"
    unfolding up by simp
  show "y \<le> k * ((y + (k - 1)) div k)" "k * ((y + (k - 1)) div k) \<le> y + (k - 1)"
    unfolding up unfolding y using r by (simp_all add: distrib_left)
qed

lemma days_in_year: "days_before_year (y + 1) = days_before_year y + 365 + (if leap y then 1 else 0)"
proof -
  define a b c where abc: "a = (y + (4 - 1)) div 4" "b = (y + (100 - 1)) div 100" "c = (y + (400 - 1)) div 400"
  define i j l :: int where ijl: "i = (if 4 dvd y then 1 else 0)" "j = (if 100 dvd y then 1 else 0)" "l = (if 400 dvd y then 1 else 0)"
  have "(y + 4) div 4 = a + i" "(y + 100) div 100 = b + j" "(y + 400) div 400 = c + l"
    unfolding abc ijl by (rule div_up(1); simp)+
  moreover have "y + 1 + 3 = y + 4" "y + 1 + 99 = y + 100" "y + 1 + 399 = y + 400" by simp_all
  ultimately have "days_before_year (y + 1) = 365 * (y + 1) + (a + i) - (b + j) + (c + l)"
    by (simp only: days_before_year_def)
  moreover have "(4 :: int) - 1 = 3" "(100 :: int) - 1 = 99" "(400 :: int) - 1 = 399" by simp_all
  then have "days_before_year y = 365 * y + a - b + c" by (simp only: days_before_year_def abc)
  moreover have "i - j + l = (if leap y then 1 else 0)"
  proof -
    have b: "(B \<longrightarrow> A) \<Longrightarrow> (C \<longrightarrow> B) \<Longrightarrow> (if A then 1 else 0) - (if B then 1 else 0) + (if C then 1 else (0 :: int)) =
        (if A \<and> (\<not> B \<or> C) then 1 else 0)" for A B C
      by (cases A; cases B; cases C) simp_all
    have "(4 :: int) dvd 100" "(100 :: int) dvd 400" by simp_all
    then have "100 dvd y \<longrightarrow> 4 dvd y" "400 dvd y \<longrightarrow> 100 dvd y" by (meson dvd_trans)+
    then show ?thesis unfolding ijl leap_def by (rule b)
  qed
  ultimately show ?thesis by (simp add: distrib_left)
qed

lemma days_before_year_bounds:
  "146097 * y - 396 \<le> 400 * days_before_year y" "400 * days_before_year y \<le> 146097 * y + 699"
proof -
  define a b c where abc: "a = (y + 3) div 4" "b = (y + 99) div 100" "c = (y + 399) div 400"
  have "y \<le> 4 * a" "4 * a \<le> y + 3" "y \<le> 100 * b" "100 * b \<le> y + 99" "y \<le> 400 * c" "400 * c \<le> y + 399"
    using div_up(2,3) [of 4 y] div_up(2,3) [of 100 y] div_up(2,3) [of 400 y] by (simp_all add: abc)
  moreover have "days_before_year y = 365 * y + a - b + c" by (simp add: days_before_year_def abc)
  ultimately show "146097 * y - 396 \<le> 400 * days_before_year y" "400 * days_before_year y \<le> 146097 * y + 699"
    by simp_all
qed

lemma year_of_day_bounds:
  "days_before_year (year_of_day z) \<le> z" "z < days_before_year (year_of_day z + 1)"
proof -
  define y where "y = z * 400 div 146097"
  have "z * 400 = 146097 * y + z * 400 mod 146097" "0 \<le> z * 400 mod 146097" "z * 400 mod 146097 < 146097"
    unfolding y_def by simp_all
  then have y: "146097 * y \<le> 400 * z" "400 * z < 146097 * y + 146097" by linarith+
  have yd: "year_of_day z = (if days_before_year (y + 1) \<le> z then y + 1 else if z < days_before_year y then y - 1 else y)"
    by (simp add: year_of_day_def y_def Let_def)
  note b = days_before_year_bounds
  show "days_before_year (year_of_day z) \<le> z"
    using b [of "y - 1"] y by (auto simp: yd)
  show "z < days_before_year (year_of_day z + 1)"
    using b(1) [of "2 + y"] b(1) [of "y + 1"] y by (auto simp: yd)
qed

lemma days_before_month_simps [simp]:
  "days_before_month y 1 = 0" "days_before_month y 2 = 31"
  "days_before_month y 3 = 59 + (if leap y then 1 else 0)" "days_before_month y 4 = 90 + (if leap y then 1 else 0)"
  "days_before_month y 5 = 120 + (if leap y then 1 else 0)" "days_before_month y 6 = 151 + (if leap y then 1 else 0)"
  "days_before_month y 7 = 181 + (if leap y then 1 else 0)" "days_before_month y 8 = 212 + (if leap y then 1 else 0)"
  "days_before_month y 9 = 243 + (if leap y then 1 else 0)" "days_before_month y 10 = 273 + (if leap y then 1 else 0)"
  "days_before_month y 11 = 304 + (if leap y then 1 else 0)" "days_before_month y 12 = 334 + (if leap y then 1 else 0)"
  "days_before_month y 13 = 365 + (if leap y then 1 else 0)"
  by (simp_all add: days_before_month_def)

lemma month_bounds:
  assumes "0 \<le> d" "d < 365 + (if leap y then 1 else 0)"
  shows "1 \<le> month_of_yday y d \<and> month_of_yday y d \<le> 12 \<and>
    days_before_month y (month_of_yday y d) \<le> d \<and> d < days_before_month y (month_of_yday y d + 1)"
  using assms unfolding month_of_yday_def by (simp split: if_split)

section \<open>Fixed-width numbers\<close>

lemma length_digits_nat: "0 < w \<Longrightarrow> n < 10 ^ w \<Longrightarrow> length (digits_nat n) \<le> w"
proof (induction w arbitrary: n)
  case (Suc w)
  show ?case
  proof (cases "n < 10")
    case True
    then show ?thesis by (subst digits_nat.simps) simp
  next
    case False
    then have "w \<noteq> 0" using Suc.prems by (cases w) auto
    moreover have "n div 10 < 10 ^ w" using Suc.prems by (simp add: less_mult_imp_div_less mult.commute)
    ultimately have "length (digits_nat (n div 10)) \<le> w" using Suc.IH by simp
    with False show ?thesis by (subst digits_nat.simps) simp
  qed
qed simp

lemma nat_of_digits_zeros: "nat_of_digits 0 (replicate k CHR ''0'' @ ds) = nat_of_digits 0 ds"
proof -
  have "digit_val CHR ''0'' = 0" by code_simp
  then show ?thesis by (induction k) simp_all
qed

lemma pad_int_facts:
  assumes "0 < w" "0 \<le> x" "x < 10 ^ w"
  shows "length (pad_int w x) = w" "list_all is_digit (pad_int w x)" "int (nat_of_digits 0 (pad_int w x)) = x"
proof -
  have "nat x < 10 ^ w" using assms(2,3) by (metis nat_less_iff of_nat_numeral of_nat_power)
  then have "length (digits_nat (nat x)) \<le> w" by (rule length_digits_nat [OF assms(1)])
  then show "length (pad_int w x) = w" by (simp add: pad_int_def Let_def)
  have "is_digit CHR ''0''" by code_simp
  then show "list_all is_digit (pad_int w x)"
    using digits_nat_shape [of "nat x"] by (auto simp: pad_int_def Let_def list_all_iff)
  show "int (nat_of_digits 0 (pad_int w x)) = x"
    using assms(2) by (simp add: pad_int_def Let_def nat_of_digits_zeros)
qed

lemma parse_pad: "0 < w \<Longrightarrow> 0 \<le> x \<Longrightarrow> x < 10 ^ w \<Longrightarrow> lo \<le> x \<Longrightarrow> x \<le> hi \<Longrightarrow> parse_uint (pad_int w x) lo hi = Some x"
  using pad_int_facts [of w x] by (simp add: parse_uint_def Let_def)

lemma pad2: "0 \<le> x \<Longrightarrow> x < 100 \<Longrightarrow> \<exists>a b. pad_int 2 x = [a, b]"
  using pad_int_facts(1) [of 2 x] by (auto simp: length_Suc_conv numeral_eq_Suc)

lemma pad4: "0 \<le> x \<Longrightarrow> x < 10000 \<Longrightarrow> \<exists>a b c d. pad_int 4 x = [a, b, c, d]"
  using pad_int_facts(1) [of 4 x] by (auto simp: length_Suc_conv numeral_eq_Suc)

section \<open>Fractions and zones\<close>

lemma nat_of_digits_acc: "nat_of_digits acc (xs @ replicate k CHR ''0'') = nat_of_digits acc xs * 10 ^ k"
proof (induction k)
  case (Suc k)
  have "digit_val CHR ''0'' = 0" by code_simp
  moreover have "xs @ replicate (Suc k) CHR ''0'' = (xs @ replicate k CHR ''0'') @ [CHR ''0'']"
    by (simp add: replicate_append_same)
  ultimately show ?case using Suc by (simp only: nat_of_digits_append) simp
qed simp

lemma trim_split: "\<exists>k. s = trim_right_zeros s @ replicate k CHR ''0''"
proof -
  have "s = trim_right_zeros s @ rev (takeWhile (\<lambda>c. c = CHR ''0'') (rev s))"
    unfolding trim_right_zeros_def by (metis rev_append rev_rev_ident takeWhile_dropWhile_id)
  moreover have "\<forall>y \<in> set (rev (takeWhile (\<lambda>c. c = CHR ''0'') (rev s))). y = CHR ''0''"
    by (auto dest: set_takeWhileD)
  note replicate_length_same [OF this]
  ultimately show ?thesis by metis
qed

definition frac_digits :: "int \<Rightarrow> string" where
  "frac_digits nsec = (if nsec = 0 then [] else trim_right_zeros (pad_int 9 nsec))"

lemma frac_digits_facts:
  assumes "0 \<le> nsec" "nsec < 1000000000"
  shows "list_all is_digit (frac_digits nsec)" "parse_nsec (frac_digits nsec) = nsec" "frac_digits nsec = [] \<longleftrightarrow> nsec = 0"
proof -
  obtain k where k: "pad_int 9 nsec = trim_right_zeros (pad_int 9 nsec) @ replicate k CHR ''0''"
    using trim_split by blast
  define ds where "ds = trim_right_zeros (pad_int 9 nsec)"
  have f: "length ds + k = 9" "list_all is_digit ds" "int (nat_of_digits 0 ds * 10 ^ k) = nsec"
  proof -
    have pf: "length (pad_int 9 nsec) = 9" "list_all is_digit (pad_int 9 nsec)" "int (nat_of_digits 0 (pad_int 9 nsec)) = nsec"
      using pad_int_facts [of 9 nsec] assms by simp_all
    show "length ds + k = 9" using arg_cong [OF k, of length] pf(1) by (simp add: ds_def)
    show "list_all is_digit ds" using pf(2) by (subst (asm) k) (simp add: ds_def)
    show "int (nat_of_digits 0 ds * 10 ^ k) = nsec"
      using pf(3) by (subst (asm) k) (simp add: ds_def nat_of_digits_acc)
  qed
  show "list_all is_digit (frac_digits nsec)" using f(2) by (simp add: frac_digits_def ds_def)
  have "ds = [] \<Longrightarrow> nsec = 0" using f(3) by auto
  then show "frac_digits nsec = [] \<longleftrightarrow> nsec = 0" by (auto simp: frac_digits_def ds_def)
  have "parse_nsec ds = nsec"
  proof -
    have "9 - length ds = k" "take 9 ds = ds" using f(1) by simp_all
    then show ?thesis using f(3) by (simp add: parse_nsec_def Let_def)
  qed
  then show "parse_nsec (frac_digits nsec) = nsec"
    by (auto simp: frac_digits_def ds_def parse_nsec_def)
qed

lemma parse_zone_format:
  assumes "off mod 60 = 0" "\<bar>off\<bar> div 3600 < 24"
  shows "parse_zone (format_zone off) = Some off"
    and "\<exists>c r. format_zone off = c # r \<and> \<not> is_digit c \<and> c \<noteq> CHR ''.''"
proof -
  have sym: "\<not> is_digit CHR ''Z''" "\<not> is_digit CHR ''-''" "\<not> is_digit CHR ''+''" by code_simp+
  show "\<exists>c r. format_zone off = c # r \<and> \<not> is_digit c \<and> c \<noteq> CHR ''.''"
    using sym by (auto simp: format_zone_def Let_def)
  show "parse_zone (format_zone off) = Some off"
  proof (cases "off = 0")
    case False
    define z where "z = \<bar>off\<bar> div 60"
    have "\<bar>off\<bar> mod 60 = 0" using assms(1) by (simp add: abs_if zmod_zminus1_eq_if)
    then have z: "\<bar>off\<bar> = z * 60" unfolding z_def by (metis div_mult_mod_eq add.right_neutral)
    then have "z \<noteq> 0" "0 \<le> z" using False by auto
    have h: "0 \<le> z div 60" "z div 60 < 24" "0 \<le> z mod 60" "z mod 60 < 60"
      using assms(2) \<open>0 \<le> z\<close> unfolding z by (simp_all add: zdiv_zmult2_eq [symmetric])
    obtain a b where ab: "pad_int 2 (z div 60) = [a, b]" using pad2 [of "z div 60"] h by auto
    obtain c d where cd: "pad_int 2 (z mod 60) = [c, d]" using pad2 [of "z mod 60"] h by auto
    have p: "parse_uint [a, b] 0 23 = Some (z div 60)" "parse_uint [c, d] 0 59 = Some (z mod 60)"
      using parse_pad [of 2 "z div 60" 0 23] parse_pad [of 2 "z mod 60" 0 59] h by (simp_all add: ab cd)
    have f: "format_zone off = (if off < 0 then CHR ''-'' else CHR ''+'') # [a, b] @ CHR '':'' # [c, d]"
      using False \<open>z \<noteq> 0\<close> by (simp add: format_zone_def Let_def z_def [symmetric] ab cd)
    have "z div 60 * 60 + z mod 60 = z" by simp
    then have v: "(z div 60 * 60 + z mod 60) * 60 = \<bar>off\<bar>" using z by simp
    show ?thesis
      by (simp add: parse_zone_def f p v del: div_mult_mod_eq) (auto simp: numeral_eq_Suc p z [symmetric])
  qed (simp add: parse_zone_def format_zone_def)
qed

section \<open>The round trip of a time\<close>

lemma parse_tail:
  assumes "0 \<le> nsec" "nsec < 1000000000" "off mod 60 = 0" "\<bar>off\<bar> div 3600 < 24"
    and "r = format_frac nsec @ format_zone off"
    and "fr = (case r of c # q \<Rightarrow> if c = CHR ''.'' then takeWhile is_digit q else [] | [] \<Rightarrow> [])"
    and "r' = (if fr = [] then r else drop (Suc (length fr)) r)"
  shows "parse_zone r' = Some off" "parse_nsec fr = nsec"
proof -
  obtain c q where z: "format_zone off = c # q" "\<not> is_digit c" "c \<noteq> CHR ''.''"
    using parse_zone_format(2) [OF assms(3,4)] by blast
  have frac: "format_frac nsec = (if nsec = 0 then [] else CHR ''.'' # frac_digits nsec)"
    by (simp add: format_frac_def frac_digits_def)
  note fd = frac_digits_facts [OF assms(1,2)]
  have tw: "takeWhile is_digit (frac_digits nsec @ format_zone off) = frac_digits nsec"
    using fd(1) z by (simp add: takeWhile_append list_all_iff)
  have fr: "fr = frac_digits nsec"
    using z tw unfolding assms(6) assms(5) frac by (cases "nsec = 0") (simp_all add: frac_digits_def)
  have "r' = format_zone off"
    using fd(3) unfolding assms(7) fr assms(5) frac by simp
  then show "parse_zone r' = Some off" "parse_nsec fr = nsec"
    using parse_zone_format(1) [OF assms(3,4)] fd(2) fr by simp_all
qed

lemma days_in_31:
  assumes "1 \<le> mo" "mo \<le> 12"
  shows "days_in y mo \<le> 31"
proof -
  have "mo = 1 \<or> mo = 2 \<or> mo = 3 \<or> mo = 4 \<or> mo = 5 \<or> mo = 6 \<or> mo = 7 \<or> mo = 8 \<or> mo = 9 \<or> mo = 10 \<or> mo = 11 \<or> mo = 12"
    using assms by presburger
  then show ?thesis by (elim disjE) (simp_all add: days_in_def)
qed

lemma parse_format_rfc3339:
  assumes "format_rfc3339 t = Some s" "t_off t mod 60 = 0"
  shows "parse_rfc3339 s = Some t"
proof -
  define loc secs nsec z sod where defs: "loc = t_ns t + t_off t * 1000000000" "secs = loc div 1000000000"
      "nsec = loc mod 1000000000" "z = secs div 86400 + epoch_days" "sod = secs mod 86400"
  define y yd where y: "y = year_of_day z" "yd = z - days_before_year y"
  define mo d where m: "mo = month_of_yday y yd" "d = yd - days_before_month y mo + 1"
  from assms(1) have ok: "0 \<le> y" "y \<le> 9999" "\<bar>t_off t\<bar> div 3600 < 24"
    and s: "s = pad_int 4 y @ ''-'' @ pad_int 2 mo @ ''-'' @ pad_int 2 d @ ''T'' @
        pad_int 2 (sod div 3600) @ '':'' @ pad_int 2 (sod div 60 mod 60) @ '':'' @
        pad_int 2 (sod mod 60) @ format_frac nsec @ format_zone (t_off t)"
    by (simp_all add: format_rfc3339_def Let_def defs y m split: if_splits)
  have yd: "0 \<le> yd" "yd < 365 + (if leap y then 1 else 0)"
    using year_of_day_bounds [of z] days_in_year [of y] by (simp_all add: y)
  have mo: "1 \<le> mo" "mo \<le> 12" "1 \<le> d" "d \<le> days_in y mo"
    using month_bounds [OF yd] by (simp_all add: m days_in_def)
  have d31: "d < 100" using mo days_in_31 [OF mo(1,2), of y] by simp
  have sod: "0 \<le> sod" "sod < 86400" by (simp_all add: defs)
  define hh mi se where hms_def: "hh = sod div 3600" "mi = sod div 60 mod 60" "se = sod mod 60"
  have hms: "0 \<le> hh" "hh \<le> 23" "0 \<le> mi" "mi \<le> 59" "0 \<le> se" "se \<le> 59"
    using sod zdiv_mono1 [of sod 86399 3600] by (simp_all add: hms_def pos_imp_zdiv_nonneg_iff)
  note s = s [folded hms_def]
  obtain y1 y2 y3 y4 where py: "pad_int 4 y = [y1, y2, y3, y4]" using pad4 [of y] ok by auto
  obtain m1 m2 where pm: "pad_int 2 mo = [m1, m2]" using pad2 [of mo] mo by auto
  obtain d1 d2 where pd: "pad_int 2 d = [d1, d2]" using pad2 [of d] mo d31 by auto
  obtain h1 h2 where ph: "pad_int 2 hh = [h1, h2]" using pad2 [of hh] hms by auto
  obtain i1 i2 where pi: "pad_int 2 mi = [i1, i2]" using pad2 [of mi] hms by auto
  obtain s1 s2 where ps: "pad_int 2 se = [s1, s2]" using pad2 [of se] hms by auto
  define r where "r = format_frac nsec @ format_zone (t_off t)"
  define fr where "fr = (case r of c # q \<Rightarrow> if c = CHR ''.'' then takeWhile is_digit q else [] | [] \<Rightarrow> [])"
  define r' where "r' = (if fr = [] then r else drop (Suc (length fr)) r)"
  have tail: "parse_zone r' = Some (t_off t)" "parse_nsec fr = nsec"
    using parse_tail [OF _ _ assms(2) ok(3) r_def fr_def r'_def] by (simp_all add: defs)
  have nums: "parse_uint [y1, y2, y3, y4] 0 9999 = Some y" "parse_uint [m1, m2] 1 12 = Some mo"
      "parse_uint [d1, d2] 1 (days_in y mo) = Some d" "parse_uint [h1, h2] 0 23 = Some hh"
      "parse_uint [i1, i2] 0 59 = Some mi" "parse_uint [s1, s2] 0 59 = Some se"
    unfolding py [symmetric] pm [symmetric] pd [symmetric] ph [symmetric] pi [symmetric] ps [symmetric]
    using ok mo d31 hms by (auto intro!: parse_pad)
  have body: "s = y1 # y2 # y3 # y4 # CHR ''-'' # m1 # m2 # CHR ''-'' # d1 # d2 # CHR ''T'' # h1 # h2 # CHR '':'' #
      i1 # i2 # CHR '':'' # s1 # s2 # r"
    by (simp add: s py pm pd ph pi ps r_def)
  have days: "days_before_year y + days_before_month y mo + d - 1 - epoch_days = secs div 86400"
    by (simp add: m y defs)
  have "hh * 3600 + mi * 60 + se = sod"
  proof -
    have "hh = sod div 60 div 60" using zdiv_zmult2_eq [of 60 sod 60] by (simp add: hms_def)
    then have "hh * 60 + mi = sod div 60" by (simp add: hms_def)
    moreover have "sod div 60 * 60 + se = sod" by (simp add: hms_def)
    ultimately show ?thesis by linarith
  qed
  moreover have "secs div 86400 * 86400 + sod = secs" by (simp add: defs(5))
  ultimately have total: "secs div 86400 * 86400 + hh * 3600 + mi * 60 + se = secs" by linarith
  have "secs * 1000000000 + nsec = loc" by (simp add: defs(2,3))
  then have "(secs - t_off t) * 1000000000 + nsec = t_ns t" by (simp add: left_diff_distrib defs(1))
  then have res: "\<lparr>t_ns = (secs - t_off t) * 1000000000 + nsec, t_off = t_off t\<rparr> = t" by simp
  have "parse_rfc3339 (y1 # y2 # y3 # y4 # CHR ''-'' # m1 # m2 # CHR ''-'' # d1 # d2 # CHR ''T'' # h1 # h2 # CHR '':'' #
      i1 # i2 # CHR '':'' # s1 # s2 # r) = Some t"
  proof -
    have val: "\<lparr>t_ns = ((days_before_year y + days_before_month y mo + d - 1 - epoch_days) * 86400 + hh * 3600 + mi * 60 + se
        - t_off t) * 1000000000 + nsec, t_off = t_off t\<rparr> = t"
      unfolding days total by (rule res)
    have z: "parse_zone (if fr = [] then r else drop (Suc (length fr)) r) = Some (t_off t)"
      using tail(1) by (simp only: r'_def)
    then show ?thesis
      using val tail(2) by (cases "fr = []") (simp_all add: parse_rfc3339_def nums tail(2) Let_def fr_def [symmetric])
  qed
  then show ?thesis by (simp add: body)
qed

end
