(* ===== verification/EnvelopeFacts.thy ===== *)
theory EnvelopeFacts
  imports Envelope TimeFacts
begin

text \<open>
  What an envelope's bytes determine: decoding what \<open>Marshal\<close> wrote gives the envelope back,
  and the canonical form that is signed is one explicit text from which every signed field can be
  read off.
\<close>

section \<open>Plain text tokens\<close>

definition plain :: "char \<Rightarrow> bool" where
  "plain c \<longleftrightarrow> 32 \<le> byte_of c \<and> byte_of c < 128 \<and> byte_of c \<noteq> 34 \<and> byte_of c \<noteq> 92"

lemma concat_single: "concat (map (\<lambda>r. [r]) xs) = xs"
  by (induction xs) simp_all

lemma plain_token:
  assumes "list_all plain s"
  shows "is_token (ascii s) (ascii s)"
proof -
  have "list_all2 chunk (ascii s) (map (\<lambda>r. [r]) (ascii s))"
    using assms by (auto simp: list.rel_map list_all2_same ascii_def list_all_iff plain_def intro!: chunk_plain)
  then show ?thesis using chunks_token [of "ascii s" "map (\<lambda>r. [r]) (ascii s)"] by (simp add: concat_single)
qed

lemma plain_scalar: "list_all plain s \<Longrightarrow> list_all scalar (ascii s)"
  by (auto simp: ascii_def list_all_iff plain_def scalar_def)

lemma plain_str_val: "list_all plain s \<Longrightarrow> str_val (ascii s) = s"
  using plain_token [of s] by (simp add: str_val_def is_token_def ascii_def utf8_encode_ascii list_all_iff plain_def)

lemma digit_plain: "is_digit c \<Longrightarrow> plain c"
  by (auto simp: is_digit_def plain_def)

lemma pad_int_plain: "list_all plain (pad_int w x)"
proof -
  have "is_digit CHR ''0''" by code_simp
  then show ?thesis
    using digits_nat_shape [of "nat x"] by (auto simp: pad_int_def Let_def list_all_iff intro!: digit_plain)
qed

lemma trim_plain: "list_all plain s \<Longrightarrow> list_all plain (trim_right_zeros s)"
  using trim_split [of s] by (metis list_all_append)

lemma time_plain:
  assumes "format_rfc3339 t = Some s"
  shows "list_all plain s"
proof -
  have c: "plain CHR ''-''" "plain CHR ''T''" "plain CHR '':''" "plain CHR ''.''" "plain CHR ''Z''" "plain CHR ''+''"
    by code_simp+
  have "list_all plain (format_frac n)" for n
    using c by (simp add: format_frac_def trim_plain pad_int_plain)
  moreover have "list_all plain (format_zone o')" for o'
    using c by (simp add: format_zone_def Let_def pad_int_plain)
  ultimately show ?thesis
    using assms c by (auto simp: format_rfc3339_def Let_def pad_int_plain split: if_splits)
qed

section \<open>Values whose text is valid\<close>

text \<open>All tokens of the value are scalar code points, so its bytes decode to the same text.\<close>

fun scalar_json :: "jtext json \<Rightarrow> bool" and scalar_elems :: "jtext json list \<Rightarrow> bool"
and scalar_members :: "(jtext \<times> jtext json) list \<Rightarrow> bool" where
  "scalar_json JNull = True" | "scalar_json (JBool b) = True"
| "scalar_json (JNum n) = list_all scalar (ascii n)"
| "scalar_json (JStr raw) = list_all scalar raw"
| "scalar_json (JArr vs) = scalar_elems vs"
| "scalar_json (JObj ms) = scalar_members ms"
| "scalar_elems [] = True" | "scalar_elems (v # vs) = (scalar_json v \<and> scalar_elems vs)"
| "scalar_members [] = True"
| "scalar_members ((k, v) # ms) = (list_all scalar k \<and> scalar_json v \<and> scalar_members ms)"

lemma scalar_small: "r < 55296 \<Longrightarrow> scalar r"
  by (simp add: scalar_def)

lemma scalar_join: "list_all scalar (join_with c xs) \<longleftrightarrow> list_all (list_all scalar) xs \<and> (length xs \<le> 1 \<or> scalar c)"
  by (induction c xs rule: join_with.induct) auto

lemma scalar_print:
  "scalar_json v \<Longrightarrow> list_all scalar (print_json v)"
  "scalar_elems vs \<Longrightarrow> list_all (list_all scalar) (print_elems vs)"
  "scalar_members ms \<Longrightarrow> list_all (list_all scalar) (print_members ms)"
proof (induction v and vs and ms rule: print_json_print_elems_print_members.induct)
  case 1
  then show ?case by code_simp
next
  case (2 b)
  have "list_all scalar (ascii ''true'') \<and> list_all scalar (ascii ''false'')" by code_simp
  then show ?case by simp
qed (auto simp: scalar_join scalar_small)

lemma itoa_scalar: "list_all scalar (ascii (itoa i))"
proof -
  have "plain CHR ''-''" by code_simp
  then show ?thesis
    using digits_nat_shape [of "nat (- i)"] digits_nat_shape [of "nat i"]
    by (intro plain_scalar) (auto simp: itoa_def list_all_iff intro!: digit_plain)
qed

lemma hex_rune_scalar: "scalar (hex_rune d)"
proof -
  have "byte_of (hex_digit d) < 256" by (rule byte_of_less)
  then show ?thesis by (simp add: hex_rune_def scalar_def del: byte_of_less)
qed

lemma quote_scalar: "list_all scalar (quote s)"
proof -
  have "list_all scalar (marshal_rune (r, w))" if "scalar r" for r w
    using that by (simp add: marshal_rune_def scalar_small hex_rune_scalar)
  then show ?thesis
    using scalar_rune_widths [of _ _ "map byte_of s"]
    by (fastforce simp: quote_def list_all_iff)
qed

section \<open>The JSON of an envelope reads back\<close>

lemma jstr_ok [simp]: "wf_json (jstr s)" "jdepth (jstr s) = 0" "scalar_json (jstr s)"
  using quote_token [of s] by (auto simp: jstr_def quote_scalar)

lemma key_ok: "list_all plain s \<Longrightarrow> (\<exists>rs. is_token rs (ascii s)) \<and> list_all scalar (ascii s)"
  using plain_token plain_scalar by blast

lemma plain_names:
  "list_all (list_all plain) (envelope_names @ [''person'', ''device'', ''agent'', ''type'', ''text'', ''role'', ''parts''])"
  by code_simp

lemma names_ok [simp]:
  "n \<in> set (envelope_names @ [''person'', ''device'', ''agent'', ''type'', ''text'', ''role'', ''parts'']) \<Longrightarrow>
     (\<exists>rs. is_token rs (ascii n)) \<and> list_all scalar (ascii n)"
  using plain_names unfolding list_all_iff [of "list_all plain"] by (blast intro!: key_ok)

lemma party_json_ok: "wf_json (party_json p) \<and> jdepth (party_json p) = 1 \<and> scalar_json (party_json p)"
  using names_ok [of "''person''"] names_ok [of "''device''"] names_ok [of "''agent''"] by (simp add: party_json_def)

lemma part_json_ok: "wf_json (part_json p) \<and> jdepth (part_json p) = 1 \<and> scalar_json (part_json p)"
  using names_ok [of "''type''"] names_ok [of "''text''"] by (simp add: part_json_def)

lemma parts_json_ok:
  "wf_elems (map part_json ps) \<and> edepth (map part_json ps) \<le> 1 \<and> scalar_elems (map part_json ps)"
  by (induction ps) (simp_all add: part_json_ok)

lemma message_json_ok: "wf_json (message_json b) \<and> jdepth (message_json b) \<le> 3 \<and> scalar_json (message_json b)"
  using names_ok [of "''role''"] names_ok [of "''parts''"] parts_json_ok
  by (auto simp: message_json_def split: option.splits)

lemma envelope_json_ok:
  assumes "envelope_json e = Some j"
  shows "json_ok j"
proof -
  obtain ts where ts: "format_rfc3339 (env_SentAt e) = Some ts" using assms by (auto simp: envelope_json_def)
  have n: "n \<in> set envelope_names \<Longrightarrow> (\<exists>rs. is_token rs (ascii n)) \<and> list_all scalar (ascii n)" for n
    using names_ok [of n] by simp
  have names: "(\<exists>rs. is_token rs (ascii ''v''))" "(\<exists>rs. is_token rs (ascii ''id''))" "(\<exists>rs. is_token rs (ascii ''thread''))"
    "(\<exists>rs. is_token rs (ascii ''from''))" "(\<exists>rs. is_token rs (ascii ''to''))" "(\<exists>rs. is_token rs (ascii ''state''))"
    "(\<exists>rs. is_token rs (ascii ''sent_at''))" "(\<exists>rs. is_token rs (ascii ''ai_generated''))" "(\<exists>rs. is_token rs (ascii ''body''))"
    "(\<exists>rs. is_token rs (ascii ''sig''))"
    using n by (simp_all add: envelope_names_def)
  have scal: "list_all scalar (ascii ''v'')" "list_all scalar (ascii ''id'')" "list_all scalar (ascii ''thread'')"
    "list_all scalar (ascii ''from'')" "list_all scalar (ascii ''to'')" "list_all scalar (ascii ''state'')"
    "list_all scalar (ascii ''sent_at'')" "list_all scalar (ascii ''ai_generated'')" "list_all scalar (ascii ''body'')"
    "list_all scalar (ascii ''sig'')"
    using n by (simp_all add: envelope_names_def)
  have t: "\<exists>rs. is_token rs (ascii ts)" "list_all scalar (ascii ts)"
    using plain_token [OF time_plain [OF ts]] plain_scalar [OF time_plain [OF ts]] by blast+
  have "wf_json j"
    using assms names t(1) party_json_ok message_json_ok by (auto simp: envelope_json_def ts)
  moreover have "jdepth j \<le> 4"
    using assms party_json_ok [of "env_From e"] message_json_ok [of "env_Body e"] by (auto simp: envelope_json_def ts)
  moreover have "scalar_json j"
    using assms scal t(2) party_json_ok message_json_ok by (auto simp: envelope_json_def ts itoa_scalar)
  ultimately show ?thesis using scalar_print(1) [of j] by (simp add: json_ok_def maxNestingDepth_def)
qed

lemma Marshal_parses:
  assumes "Marshal e = Some raw"
  obtains j where "envelope_json e = Some j" "parse_document raw = Some j"
  using assms parse_document_print [OF envelope_json_ok] by (auto simp: Marshal_def)

section \<open>Decoding the fields\<close>

text \<open>An envelope whose strings are valid UTF-8, as \<open>encoding/json\<close> stores it.\<close>

definition valid_party :: "party \<Rightarrow> party" where
  "valid_party p = \<lparr>pt_person = to_valid (pt_person p), pt_device = to_valid (pt_device p), pt_agent = to_valid (pt_agent p)\<rparr>"

definition valid_part :: "part \<Rightarrow> part" where
  "valid_part p = \<lparr>part_type = to_valid (part_type p), part_text = to_valid (part_text p)\<rparr>"

definition valid_message :: "message \<Rightarrow> message" where
  "valid_message b = \<lparr>msg_role = to_valid (msg_role b), msg_parts = map_option (map valid_part) (msg_parts b)\<rparr>"

definition valid_envelope :: "envelope \<Rightarrow> envelope" where
  "valid_envelope e = e\<lparr>env_ID := to_valid (env_ID e), env_Thread := to_valid (env_Thread e),
     env_From := valid_party (env_From e), env_To := to_valid (env_To e), env_State := to_valid (env_State e),
     env_Body := valid_message (env_Body e)\<rparr>"

lemma dec_string_jstr [simp]: "dec_string (jstr s) old = Some (to_valid s)"
  by (simp add: dec_string_def jstr_def)

lemma match_names [simp]:
  "match_field [''person'', ''device'', ''agent''] (ascii ''person'') = Some ''person''"
  "match_field [''person'', ''device'', ''agent''] (ascii ''device'') = Some ''device''"
  "match_field [''person'', ''device'', ''agent''] (ascii ''agent'') = Some ''agent''"
  "match_field [''type'', ''text''] (ascii ''type'') = Some ''type''"
  "match_field [''type'', ''text''] (ascii ''text'') = Some ''text''"
  "match_field [''role'', ''parts''] (ascii ''role'') = Some ''role''"
  "match_field [''role'', ''parts''] (ascii ''parts'') = Some ''parts''"
  "match_field envelope_names (ascii ''v'') = Some ''v''"
  "match_field envelope_names (ascii ''id'') = Some ''id''"
  "match_field envelope_names (ascii ''thread'') = Some ''thread''"
  "match_field envelope_names (ascii ''from'') = Some ''from''"
  "match_field envelope_names (ascii ''to'') = Some ''to''"
  "match_field envelope_names (ascii ''state'') = Some ''state''"
  "match_field envelope_names (ascii ''sent_at'') = Some ''sent_at''"
  "match_field envelope_names (ascii ''ai_generated'') = Some ''ai_generated''"
  "match_field envelope_names (ascii ''body'') = Some ''body''"
  "match_field envelope_names (ascii ''sig'') = Some ''sig''"
  by code_simp+

lemma dec_party_json [simp]: "dec_party (party_json p) old = Some (valid_party p)"
  by (simp add: dec_party_def dec_struct_def party_json_def dec_party_field_def valid_party_def)

lemma dec_part_json [simp]: "dec_part (part_json p) old = Some (valid_part p)"
  by (simp add: dec_part_def dec_struct_def part_json_def dec_part_field_def valid_part_def)

lemma dec_parts_json [simp]: "dec_parts (map part_json ps) old = Some (map valid_part ps)"
  by (induction ps arbitrary: old) simp_all

lemma dec_message_json [simp]: "dec_message (message_json b) \<lparr>msg_role = [], msg_parts = None\<rparr> = Some (valid_message b)"
  by (cases "msg_parts b")
    (simp_all add: dec_message_def dec_struct_def message_json_def dec_message_field_def valid_message_def)

lemma dec_bytes_sig [simp]: "dec_bytes (jstr (StdEncoding_Encode bs)) = Some bs"
  by (simp add: dec_bytes_def jstr_def StdEncoding_ascii)

lemma dec_time_token:
  assumes "format_rfc3339 t = Some ts" "t_off t mod 60 = 0"
  shows "dec_time (JStr (ascii ts)) old = Some t"
proof -
  have "utf8_encode (ascii ts) = ts"
    using time_plain [OF assms(1)] unfolding ascii_def by (intro utf8_encode_ascii) (auto simp: list_all_iff plain_def)
  then show ?thesis using parse_format_rfc3339 [OF assms] by (simp add: dec_time_def)
qed

lemma decode_envelope_json:
  assumes "envelope_json e = Some j" "- (2 ^ 63) \<le> env_V e" "env_V e < 2 ^ 63" "t_off (env_SentAt e) mod 60 = 0"
  shows "dec_struct dec_envelope_field envelope_names j zero_envelope = Some (valid_envelope e)"
proof -
  obtain ts where ts: "format_rfc3339 (env_SentAt e) = Some ts" using assms(1) by (auto simp: envelope_json_def)
  note time = dec_time_token [OF ts assms(4)]
  have v: "atoi (itoa (env_V e)) = Some (env_V e)" by (rule atoi_itoa [OF assms(2,3)])
  show ?thesis
    using assms(1)
    by (cases "env_Sig e = []")
      (auto simp: envelope_json_def ts dec_struct_def dec_envelope_field_def dec_int_def v time dec_bool_def zero_envelope_def
        valid_envelope_def)
qed

section \<open>Round trip\<close>

lemma decode_marshal_valid:
  assumes "Marshal e = Some raw" "env_V e = Version" "t_off (env_SentAt e) mod 60 = 0"
  shows "Decode raw = Inr (valid_envelope e)"
proof -
  obtain j where j: "envelope_json e = Some j" "parse_document raw = Some j"
    using assms(1) by (rule Marshal_parses)
  have "dec_struct dec_envelope_field envelope_names j zero_envelope = Some (valid_envelope e)"
    using assms(2,3) by (intro decode_envelope_json [OF j(1)]) (simp_all add: Version_def)
  then show ?thesis
    using j(2) assms(2) by (simp add: Decode_def versionSupported_def valid_envelope_def)
qed

end
