(* ===== verification/CanonFacts.thy ===== *)
theory CanonFacts
  imports EnvelopeFacts
begin

text \<open>
  The canonical form of an envelope is the text of one JSON value (\<open>canon_json\<close>): keys in
  UTF-16 order, minimal escapes, no white space. Since that text parses back, the canonical form
  determines every signed field.
\<close>

section \<open>The only number: the version\<close>

lemma round_1: "round_double 1 1 = Some (4503599627370496, - 52)"
  by (simp add: round_double_def floor_log2_def scale2_def div_half_even_def Let_def)

lemma trim_stop: "c mod 10 \<noteq> 0 \<Longrightarrow> trim_zeros n c p = (c, p)"
  by (cases n) simp_all

lemma log10_same: "0 < a \<Longrightarrow> floor_log10 a a = 0"
  unfolding floor_log10_def numeral_3_eq_3
  by (simp add: floor_log2_def scale2_def Let_def pow10_le_def)

lemma shortest_1: "shortest (Suc n) 0 4503599627370496 (- 52) = (1, 0)"
  by (simp add: shortest_at_def num_of_def den_of_def scale2_def Let_def)

lemma FormatFloat_1: "FormatFloat_e (4503599627370496, - 52) = ''1e+00''"
proof -
  have n: "num_of 4503599627370496 (- 52) = 4503599627370496" "den_of (- 52) = 4503599627370496"
    by (simp_all add: num_of_def den_of_def scale2_def)
  have s: "shortest 17 0 4503599627370496 (- 52) = (1, 0)"
    using shortest_1 [of 16] by simp
  have t: "trim_zeros 800 1 0 = (1, 0)" by (rule trim_stop) simp
  have d: "digits_nat 1 = ''1''" "exp_digits 0 = ''+00''" by code_simp+
  show ?thesis
    by (simp add: FormatFloat_e_def n log10_same s t d Let_def del: One_nat_def)
qed


lemma ParseFloat_1: "ParseFloat ''1'' = Some (False, 4503599627370496, - 52)"
proof -
  have "lit_parts ''1'' = (False, ''1'', 0)" "nat_of_digits 0 ''1'' = 1" by code_simp+
  then show ?thesis using round_1 by (simp add: ParseFloat_def)
qed

lemma formatFloatES_1: "formatFloatES (False, 4503599627370496, - 52) = Inr ''1''"
proof -
  have "cut CHR ''e'' ''1e+00'' = (''1'', ''+00'')" "atoi ''+00'' = Some 0" "remove1 CHR ''.'' ''1'' = ''1''" by code_simp+
  then show ?thesis by (simp add: formatFloatES_def is_zero_def FormatFloat_1)
qed

lemma appendNumber_1: "appendNumber dst ''1'' = Inr (dst @ ''1'')"
  by (simp add: appendNumber_def ParseFloat_1 formatFloatES_1)
section \<open>Canonical strings\<close>

definition canon_rune :: "nat \<Rightarrow> jtext" where
  "canon_rune r =
     (if r = 34 then [92, 34] else if r = 92 then [92, 92]
      else if r = 8 then [92, 98] else if r = 12 then [92, 102] else if r = 10 then [92, 110]
      else if r = 13 then [92, 114] else if r = 9 then [92, 116]
      else if r < 32 then [92, 117, 48, 48, hex_rune (r div 16), hex_rune (r mod 16)]
      else [r])"

definition canon_quote :: "string \<Rightarrow> jtext" where
  "canon_quote s = concat (map canon_rune (runes s))"

definition canon_str :: "string \<Rightarrow> jtext json" where
  "canon_str s = JStr (canon_quote s)"

lemma canon_rune_chunk: "chunk r (canon_rune r)"
proof -
  have p: "\<not> r = 34 \<Longrightarrow> \<not> r = 92 \<Longrightarrow> \<not> r < 32 \<Longrightarrow> chunk r [r]"
    by (intro chunk_plain) auto
  have u: "r < 32 \<Longrightarrow> chunk r [92, 117, 48, 48, hex_rune (r div 16), hex_rune (r mod 16)]"
    by (rule chunk_u_ascii) auto
  have q: "r = 34 \<Longrightarrow> chunk r [92, 34]" "r = 92 \<Longrightarrow> chunk r [92, 92]" using chunk_short(1) [of r] by auto
  show ?thesis
    unfolding canon_rune_def
    by (intro chunk_if) (assumption | rule chunk_short(2-) p u q)+
qed

lemma canon_token: "is_token (runes s) (canon_quote s)"
  unfolding canon_quote_def using canon_rune_chunk
  by (intro chunks_token) (auto simp: list.rel_map list_all2_same)

lemma canon_quote_scalar: "list_all scalar (canon_quote s)"
proof -
  have "list_all scalar (canon_rune r)" if "scalar r" for r
    using that by (simp add: canon_rune_def scalar_small hex_rune_scalar)
  then show ?thesis
    using scalar_runes [of s] unfolding canon_quote_def list_all_iff by auto
qed

lemma canon_str_ok [simp]: "wf_json (canon_str s)" "jdepth (canon_str s) = 0" "scalar_json (canon_str s)"
  using canon_token [of s] by (auto simp: canon_str_def canon_quote_scalar)

lemma appendString_rune_eq: "appendString_rune r = utf8_encode (canon_rune r)"
proof -
  have h: "utf8_encode [hex_rune d] = [hex_digit d]" for d
  proof -
    have "\<forall>c \<in> set hexdigits. byte_of c < 128" by code_simp
    moreover have "length hexdigits = 16" by code_simp
    then have "hex_digit d \<in> set hexdigits" by (simp add: hex_digit_def)
    ultimately show ?thesis using utf8_encode_ascii [of "[hex_digit d]"] by (simp add: hex_rune_def)
  qed
  have "utf8_encode [92, 117, 48, 48, hex_rune a, hex_rune b] = [CHR 0x5C, CHR ''u'', CHR ''0'', CHR ''0'', hex_digit a, hex_digit b]" for a b
  proof -
    have "utf8_encode [92, 117, 48, 48] = [CHR 0x5C, CHR ''u'', CHR ''0'', CHR ''0'']" by code_simp
    moreover have "utf8_encode ([92, 117, 48, 48] @ [hex_rune a] @ [hex_rune b]) =
        utf8_encode [92, 117, 48, 48] @ utf8_encode [hex_rune a] @ utf8_encode [hex_rune b]" by (simp only: utf8_encode_append)
    ultimately show ?thesis by (simp add: h)
  qed
  moreover have "utf8_encode [92, 34] = [CHR 0x5C, CHR 0x22]" "utf8_encode [92, 92] = [CHR 0x5C, CHR 0x5C]"
    "utf8_encode [92, 98] = [CHR 0x5C, CHR ''b'']" "utf8_encode [92, 102] = [CHR 0x5C, CHR ''f'']"
    "utf8_encode [92, 110] = [CHR 0x5C, CHR ''n'']" "utf8_encode [92, 114] = [CHR 0x5C, CHR ''r'']"
    "utf8_encode [92, 116] = [CHR 0x5C, CHR ''t'']" by code_simp+
  moreover have "utf8_encode [r] = append_rune r" by (simp add: utf8_encode_def)
  ultimately show ?thesis by (simp add: appendString_rune_def canon_rune_def)
qed

lemma appendString_eq: "appendString dst s = dst @ utf8_encode (34 # canon_quote s @ [34])"
proof -
  have "concat (map appendString_rune rs) = utf8_encode (concat (map canon_rune rs))" for rs
    by (induction rs) (simp_all add: appendString_rune_eq)
  moreover have "utf8_encode (34 # t @ [34]) = CHR 0x22 # utf8_encode t @ [CHR 0x22]" for t
  proof -
    have "utf8_encode [34] = [CHR 0x22]" by code_simp
    moreover have "utf8_encode ([34] @ t @ [34]) = utf8_encode [34] @ utf8_encode t @ utf8_encode [34]"
      by (simp only: utf8_encode_append)
    ultimately show ?thesis by simp
  qed
  ultimately show ?thesis by (simp add: appendString_def canon_quote_def)
qed

section \<open>The canonical value\<close>

definition canon_party :: "party \<Rightarrow> jtext json" where
  "canon_party p = JObj [(ascii ''agent'', canon_str (pt_agent p)), (ascii ''device'', canon_str (pt_device p)),
     (ascii ''person'', canon_str (pt_person p))]"

definition canon_part :: "part \<Rightarrow> jtext json" where
  "canon_part p = JObj [(ascii ''text'', canon_str (part_text p)), (ascii ''type'', canon_str (part_type p))]"

definition canon_message :: "message \<Rightarrow> jtext json" where
  "canon_message b = JObj [(ascii ''parts'', case msg_parts b of None \<Rightarrow> JNull | Some ps \<Rightarrow> JArr (map canon_part ps)),
     (ascii ''role'', canon_str (msg_role b))]"

definition canon_json :: "envelope \<Rightarrow> string \<Rightarrow> jtext json" where
  "canon_json e ts = JObj [(ascii ''ai_generated'', JBool (env_AIGenerated e)), (ascii ''body'', canon_message (env_Body e)),
     (ascii ''from'', canon_party (env_From e)), (ascii ''id'', canon_str (env_ID e)), (ascii ''sent_at'', canon_str ts),
     (ascii ''state'', canon_str (env_State e)), (ascii ''thread'', canon_str (env_Thread e)),
     (ascii ''to'', canon_str (env_To e)), (ascii ''v'', JNum ''1'')]"

text \<open>A value is written canonically as a text when \<open>appendCanonical\<close> appends that text.\<close>

definition writes :: "string json \<Rightarrow> jtext json \<Rightarrow> bool" where
  "writes v c \<longleftrightarrow> (\<forall>dst. appendCanonical dst v = Inr (dst @ utf8_encode (print_json c)))"

lemma ascii_encode: "list_all plain s \<Longrightarrow> utf8_encode (ascii s) = s"
  unfolding ascii_def by (intro utf8_encode_ascii) (auto simp: list_all_iff plain_def)

lemma writes_basic [simp]:
  "writes JNull JNull" "writes (JBool b) (JBool b)" "writes (JNum ''1'') (JNum ''1'')"
proof -
  have "utf8_encode (ascii ''null'') = ''null''" "utf8_encode (ascii ''true'') = ''true''"
    "utf8_encode (ascii ''false'') = ''false''" "utf8_encode (ascii ''1'') = ''1''" by code_simp+
  then show "writes JNull JNull" "writes (JBool b) (JBool b)" "writes (JNum ''1'') (JNum ''1'')"
    by (simp_all add: writes_def appendNumber_1)
qed

lemma canon_quote_valid [simp]: "canon_quote (to_valid s) = canon_quote s"
  by (simp add: canon_quote_def)

lemma writes_str [simp]: "writes (JStr (to_valid s)) (canon_str s)"
  by (simp add: writes_def appendString_eq canon_str_def)

lemma encode_punct: "utf8_encode (44 # t) = CHR '','' # utf8_encode t" "utf8_encode (58 # t) = CHR '':'' # utf8_encode t"
    "utf8_encode (91 # t) = CHR ''['' # utf8_encode t" "utf8_encode (93 # t) = CHR '']'' # utf8_encode t"
    "utf8_encode (123 # t) = CHR ''{'' # utf8_encode t" "utf8_encode (125 # t) = CHR ''}'' # utf8_encode t"
proof -
  have "utf8_encode [44] = '',''" "utf8_encode [58] = '':''" "utf8_encode [91] = ''[''" "utf8_encode [93] = '']''"
    "utf8_encode [123] = ''{''" "utf8_encode [125] = ''}''" by code_simp+
  moreover have "utf8_encode (c # t) = utf8_encode [c] @ utf8_encode t" for c by (simp add: utf8_encode_def)
  ultimately show "utf8_encode (44 # t) = CHR '','' # utf8_encode t" "utf8_encode (58 # t) = CHR '':'' # utf8_encode t"
    "utf8_encode (91 # t) = CHR ''['' # utf8_encode t" "utf8_encode (93 # t) = CHR '']'' # utf8_encode t"
    "utf8_encode (123 # t) = CHR ''{'' # utf8_encode t" "utf8_encode (125 # t) = CHR ''}'' # utf8_encode t" by simp_all
qed

lemma appendElems_writes:
  "list_all2 writes vs cs \<Longrightarrow>
   appendElems i dst vs = Inr (dst @ (if vs = [] \<or> i = 0 then [] else '','') @ utf8_encode (join_with 44 (print_elems cs)))"
proof (induction vs cs arbitrary: i dst rule: list_all2_induct)
  case (Cons v vs c cs)
  then show ?case
    by (cases "cs = []") (auto simp: writes_def join_cons encode_punct)
qed simp

lemma writes_arr: "list_all2 writes vs cs \<Longrightarrow> writes (JArr vs) (JArr cs)"
  by (auto simp: writes_def appendElems_writes encode_punct)

lemma plain_key: "list_all plain k \<Longrightarrow> canon_quote k = ascii k"
proof -
  assume k: "list_all plain k"
  have "runes k = ascii k" using k unfolding ascii_def by (intro runes_ascii) (auto simp: list_all_iff plain_def)
  moreover have "canon_rune r = [r]" if "r \<in> set (ascii k)" for r
    using that k by (auto simp: ascii_def list_all_iff plain_def canon_rune_def)
  ultimately show "canon_quote k = ascii k"
    by (simp add: canon_quote_def concat_single cong: map_cong)
qed

lemma appendMembers_writes:
  "list_all (\<lambda>k. list_all plain k) ks \<Longrightarrow> list_all2 (\<lambda>k c. writes (lookup_json t k) c) ks cs \<Longrightarrow>
   appendMembers t i dst ks = Inr (dst @ (if ks = [] \<or> i = 0 then [] else '','') @
     utf8_encode (join_with 44 (print_members (zip (map ascii ks) cs))))"
proof (induction ks arbitrary: cs i dst)
  case (Cons k ks)
  then obtain c cs' where cs: "cs = c # cs'" "writes (lookup_json t k) c" "list_all2 (\<lambda>k c. writes (lookup_json t k) c) ks cs'"
    by (auto simp: list_all2_Cons1)
  define K where "K = utf8_encode (34 # ascii k @ [34, 58])"
  have enc: "utf8_encode (34 # ascii k @ 34 # 58 # x) = K @ utf8_encode x" for x
  proof -
    have "34 # ascii k @ 34 # 58 # x = (34 # ascii k @ [34, 58]) @ x" by simp
    then show ?thesis by (simp only: utf8_encode_append K_def)
  qed
  have q: "appendString d k @ '':'' = d @ K" for d
  proof -
    have "34 # ascii k @ [34, 58] = (34 # ascii k @ [34]) @ [58]" by simp
    then have "K = utf8_encode (34 # ascii k @ [34]) @ '':''"
      unfolding K_def by (simp only: utf8_encode_append encode_punct utf8_encode_Nil)
    then show ?thesis using Cons.prems(1) by (simp add: appendString_eq plain_key)
  qed
  have step: "appendMembers t i dst (k # ks) =
      appendMembers t (Suc i) (dst @ (if i = 0 then [] else '','') @ K @ utf8_encode (print_json c)) ks"
    using cs(2) by (simp add: q writes_def del: append_assoc) simp
  have rest: "appendMembers t (Suc i) d ks = Inr (d @ (if ks = [] then [] else '','') @
      utf8_encode (join_with 44 (print_members (zip (map ascii ks) cs'))))" for d
    using Cons.IH [OF _ cs(3), of "Suc i" d] Cons.prems(1) by simp
  have "zip (map ascii ks) cs' = [] \<longleftrightarrow> ks = []" using cs(3) by (cases ks; cases cs') auto
  then have text': "utf8_encode (join_with 44 (print_members (zip (map ascii (k # ks)) cs))) =
      K @ utf8_encode (print_json c) @ (if ks = [] then [] else '','') @
        utf8_encode (join_with 44 (print_members (zip (map ascii ks) cs')))"
    by (cases "ks = []") (simp_all add: cs(1) enc join_cons encode_punct)
  show ?case unfolding step rest text' by simp
qed simp

lemma writes_obj:
  assumes "SortFunc compareUTF16 (map fst t) = ks" "list_all (\<lambda>k. list_all plain k) ks"
    and "list_all2 (\<lambda>k c. writes (lookup_json t k) c) ks cs"
  shows "writes (JObj t) (JObj (zip (map ascii ks) cs))"
  using appendMembers_writes [OF assms(2,3), of 0] by (simp add: writes_def assms(1) encode_punct)

section \<open>Canonical writes the canonical value\<close>

lemma name_vals [simp]:
  "str_val (ascii ''v'') = ''v''" "str_val (ascii ''id'') = ''id''" "str_val (ascii ''thread'') = ''thread''"
  "str_val (ascii ''from'') = ''from''" "str_val (ascii ''to'') = ''to''" "str_val (ascii ''state'') = ''state''"
  "str_val (ascii ''sent_at'') = ''sent_at''" "str_val (ascii ''ai_generated'') = ''ai_generated''"
  "str_val (ascii ''body'') = ''body''" "str_val (ascii ''person'') = ''person''" "str_val (ascii ''device'') = ''device''"
  "str_val (ascii ''agent'') = ''agent''" "str_val (ascii ''type'') = ''type''" "str_val (ascii ''text'') = ''text''"
  "str_val (ascii ''role'') = ''role''" "str_val (ascii ''parts'') = ''parts''"
  by code_simp+

lemma writes_jstr [simp]: "writes (any_of (jstr s)) (canon_str s)"
  by (simp add: jstr_def)

lemma writes_party: "writes (any_of (party_json p)) (canon_party p)"
proof -
  have "SortFunc compareUTF16 [''person'', ''device'', ''agent''] = [''agent'', ''device'', ''person'']"
    "list_all (\<lambda>k. list_all plain k) [''agent'', ''device'', ''person'']" by code_simp+
  then show ?thesis
    using writes_obj [of "any_members [] [(ascii ''person'', jstr (pt_person p)), (ascii ''device'', jstr (pt_device p)),
        (ascii ''agent'', jstr (pt_agent p))]" "[''agent'', ''device'', ''person'']"
        "[canon_str (pt_agent p), canon_str (pt_device p), canon_str (pt_person p)]"]
    by (simp add: party_json_def canon_party_def lookup_json_def)
qed

lemma writes_part: "writes (any_of (part_json p)) (canon_part p)"
proof -
  have "SortFunc compareUTF16 [''type'', ''text''] = [''text'', ''type'']"
    "list_all (\<lambda>k. list_all plain k) [''text'', ''type'']" by code_simp+
  then show ?thesis
    using writes_obj [of "any_members [] [(ascii ''type'', jstr (part_type p)), (ascii ''text'', jstr (part_text p))]"
        "[''text'', ''type'']" "[canon_str (part_text p), canon_str (part_type p)]"]
    by (simp add: part_json_def canon_part_def lookup_json_def)
qed

lemma writes_parts: "list_all2 writes (any_elems (map part_json ps)) (map canon_part ps)"
  by (induction ps) (simp_all add: writes_part)

lemma writes_message: "writes (any_of (message_json b)) (canon_message b)"
proof -
  have s: "SortFunc compareUTF16 [''role'', ''parts''] = [''parts'', ''role'']"
    "list_all (\<lambda>k. list_all plain k) [''parts'', ''role'']" by code_simp+
  define ps where "ps = (case msg_parts b of None \<Rightarrow> JNull | Some ps \<Rightarrow> JArr (map part_json ps))"
  define cs where "cs = (case msg_parts b of None \<Rightarrow> JNull | Some ps \<Rightarrow> JArr (map canon_part ps))"
  have "writes (any_of ps) cs" by (auto simp: ps_def cs_def intro: writes_arr writes_parts split: option.splits)
  then show ?thesis
    using s writes_obj [of "any_members [] [(ascii ''role'', jstr (msg_role b)), (ascii ''parts'', ps)]"
        "[''parts'', ''role'']" "[cs, canon_str (msg_role b)]"]
    by (simp add: message_json_def canon_message_def lookup_json_def ps_def [symmetric] cs_def [symmetric])
qed

definition sorted_names :: "string list" where
  "sorted_names = [''ai_generated'', ''body'', ''from'', ''id'', ''sent_at'', ''state'', ''thread'', ''to'', ''v'']"

lemma sorted_names_ok:
  "SortFunc compareUTF16 [''v'', ''id'', ''thread'', ''from'', ''to'', ''state'', ''sent_at'', ''ai_generated'', ''body''] = sorted_names"
  "list_all (\<lambda>k. list_all plain k) sorted_names"
  by code_simp+

lemma writes_envelope:
  assumes ts: "format_rfc3339 (env_SentAt e) = Some ts" and v: "env_V e = Version"
    and j: "envelope_json (e\<lparr>env_Sig := []\<rparr>) = Some j"
  shows "writes (any_of j) (canon_json e ts)"
proof -
  have p: "list_all plain ts" by (rule time_plain [OF ts])
  have t: "str_val (ascii ts) = ts" "to_valid ts = ts"
    using plain_str_val [OF p] to_valid_ascii [of ts] p by (auto simp: list_all_iff plain_def)
  have w: "writes (JStr ts) (canon_str ts)" using writes_str [of ts] t by simp
  have one: "itoa Version = ''1''" by code_simp
  define t where "t = any_members [] [(ascii ''v'', JNum (itoa (env_V e))), (ascii ''id'', jstr (env_ID e)),
      (ascii ''thread'', jstr (env_Thread e)), (ascii ''from'', party_json (env_From e)), (ascii ''to'', jstr (env_To e)),
      (ascii ''state'', jstr (env_State e)), (ascii ''sent_at'', JStr (ascii ts)),
      (ascii ''ai_generated'', JBool (env_AIGenerated e)), (ascii ''body'', message_json (env_Body e))]"
  have t_eq: "t = [(''v'', JNum ''1''), (''id'', any_of (jstr (env_ID e))), (''thread'', any_of (jstr (env_Thread e))),
      (''from'', any_of (party_json (env_From e))), (''to'', any_of (jstr (env_To e))), (''state'', any_of (jstr (env_State e))),
      (''sent_at'', JStr ts), (''ai_generated'', JBool (env_AIGenerated e)), (''body'', any_of (message_json (env_Body e)))]"
    by (simp add: t_def v one t)
  have "writes (JObj t) (JObj (zip (map ascii sorted_names) [JBool (env_AIGenerated e), canon_message (env_Body e),
      canon_party (env_From e), canon_str (env_ID e), canon_str ts, canon_str (env_State e), canon_str (env_Thread e),
      canon_str (env_To e), JNum ''1'']))"
    by (rule writes_obj [OF _ sorted_names_ok(2)])
      (simp_all add: t_eq sorted_names_ok(1), simp add: sorted_names_def lookup_json_def writes_party writes_message w)
  then show ?thesis
    using j ts by (auto simp: envelope_json_def canon_json_def sorted_names_def t_def)
qed

lemma Canonical_eq:
  assumes "format_rfc3339 (env_SentAt e) = Some ts" "env_V e = Version"
  shows "Canonical e = Inr (utf8_encode (print_json (canon_json e ts)))"
proof -
  obtain j where j: "envelope_json (e\<lparr>env_Sig := []\<rparr>) = Some j" using assms(1) by (simp add: envelope_json_def)
  have "parse_document (utf8_encode (print_json j)) = Some j" by (rule parse_document_print [OF envelope_json_ok [OF j]])
  then show ?thesis
    using writes_envelope [OF assms j] j by (simp add: Canonical_def Marshal_def jcs_def writes_def)
qed

lemma Canonical_Inr_iff:
  assumes "env_V e = Version"
  shows "Canonical e = Inr c \<longleftrightarrow>
    (\<exists>ts. format_rfc3339 (env_SentAt e) = Some ts \<and> c = utf8_encode (print_json (canon_json e ts)))"
proof (cases "format_rfc3339 (env_SentAt e)")
  case None
  then show ?thesis by (simp add: Canonical_def Marshal_def envelope_json_def)
next
  case (Some ts)
  then show ?thesis using Canonical_eq [OF Some assms] by auto
qed

section \<open>The canonical text reads back\<close>

lemma canon_party_ok: "wf_json (canon_party p) \<and> jdepth (canon_party p) = 1 \<and> scalar_json (canon_party p)"
  using names_ok [of "''person''"] names_ok [of "''device''"] names_ok [of "''agent''"] by (simp add: canon_party_def)

lemma canon_part_ok: "wf_json (canon_part p) \<and> jdepth (canon_part p) = 1 \<and> scalar_json (canon_part p)"
  using names_ok [of "''type''"] names_ok [of "''text''"] by (simp add: canon_part_def)

lemma canon_parts_ok:
  "wf_elems (map canon_part ps) \<and> edepth (map canon_part ps) \<le> 1 \<and> scalar_elems (map canon_part ps)"
  by (induction ps) (simp_all add: canon_part_ok)

lemma canon_message_ok: "wf_json (canon_message b) \<and> jdepth (canon_message b) \<le> 3 \<and> scalar_json (canon_message b)"
  using names_ok [of "''role''"] names_ok [of "''parts''"] canon_parts_ok
  by (auto simp: canon_message_def split: option.splits)

lemma one_token: "wf_json (JNum ''1'')" "scalar_json (JNum ''1'')"
proof -
  have one: "itoa 1 = ''1''" by code_simp
  show "scalar_json (JNum ''1'')" using itoa_scalar [of 1] by (simp add: one)
  show "wf_json (JNum ''1'')" by simp (metis one)
qed

lemma canon_json_ok: "json_ok (canon_json e ts)"
proof -
  have n: "n \<in> set envelope_names \<Longrightarrow> (\<exists>rs. is_token rs (ascii n)) \<and> list_all scalar (ascii n)" for n
    using names_ok [of n] by simp
  have names: "(\<exists>rs. is_token rs (ascii ''v''))" "(\<exists>rs. is_token rs (ascii ''id''))" "(\<exists>rs. is_token rs (ascii ''thread''))"
    "(\<exists>rs. is_token rs (ascii ''from''))" "(\<exists>rs. is_token rs (ascii ''to''))" "(\<exists>rs. is_token rs (ascii ''state''))"
    "(\<exists>rs. is_token rs (ascii ''sent_at''))" "(\<exists>rs. is_token rs (ascii ''ai_generated''))" "(\<exists>rs. is_token rs (ascii ''body''))"
    and scal: "list_all scalar (ascii ''v'')" "list_all scalar (ascii ''id'')" "list_all scalar (ascii ''thread'')"
    "list_all scalar (ascii ''from'')" "list_all scalar (ascii ''to'')" "list_all scalar (ascii ''state'')"
    "list_all scalar (ascii ''sent_at'')" "list_all scalar (ascii ''ai_generated'')" "list_all scalar (ascii ''body'')"
    using n by (simp_all add: envelope_names_def)
  have "wf_json (canon_json e ts)"
    using names canon_party_ok canon_message_ok one_token by (simp add: canon_json_def)
  moreover have "jdepth (canon_json e ts) \<le> 4"
    using canon_party_ok [of "env_From e"] canon_message_ok [of "env_Body e"] by (auto simp: canon_json_def)
  moreover have "scalar_json (canon_json e ts)"
    using scal canon_party_ok canon_message_ok one_token by (simp add: canon_json_def)
  ultimately show ?thesis using scalar_print(1) by (simp add: json_ok_def maxNestingDepth_def)
qed

lemma canon_json_inject:
  "utf8_encode (print_json (canon_json e ts)) = utf8_encode (print_json (canon_json e' ts')) \<Longrightarrow>
   canon_json e ts = canon_json e' ts'"
  by (metis canon_json_ok option.inject parse_document_print)

lemma canon_str_inject: "canon_str s = canon_str s' \<longleftrightarrow> to_valid s = to_valid s'"
proof
  assume "canon_str s = canon_str s'"
  then have "unquote (canon_quote s) = unquote (canon_quote s')" by (simp add: canon_str_def)
  then show "to_valid s = to_valid s'"
    using canon_token [of s] canon_token [of s'] by (simp add: is_token_def to_valid_def)
qed (metis canon_quote_valid canon_str_def)

lemma canon_party_inject: "canon_party p = canon_party q \<longleftrightarrow> valid_party p = valid_party q"
  by (auto simp: canon_party_def valid_party_def canon_str_inject)

lemma canon_part_inject: "canon_part p = canon_part q \<longleftrightarrow> valid_part p = valid_part q"
  by (auto simp: canon_part_def valid_part_def canon_str_inject)

lemma canon_parts_inject: "map canon_part ps = map canon_part qs \<longleftrightarrow> map valid_part ps = map valid_part qs"
proof (induction ps arbitrary: qs)
  case (Cons p ps)
  then show ?case by (cases qs) (auto simp: canon_part_inject)
qed auto

lemma canon_message_inject: "canon_message a = canon_message b \<longleftrightarrow> valid_message a = valid_message b"
  by (cases "msg_parts a"; cases "msg_parts b")
    (auto simp: canon_message_def valid_message_def canon_str_inject canon_parts_inject)

section \<open>What a signature covers\<close>

text \<open>The signed content of an envelope: every field but the signature, with strings as UTF-8.\<close>

definition signed_content :: "envelope \<Rightarrow> envelope" where
  "signed_content e = (valid_envelope e)\<lparr>env_Sig := []\<rparr>"

lemma signed_content_iff:
  "signed_content e = signed_content e' \<longleftrightarrow> env_V e = env_V e' \<and> to_valid (env_ID e) = to_valid (env_ID e') \<and>
     to_valid (env_Thread e) = to_valid (env_Thread e') \<and> valid_party (env_From e) = valid_party (env_From e') \<and>
     to_valid (env_To e) = to_valid (env_To e') \<and> to_valid (env_State e) = to_valid (env_State e') \<and>
     env_SentAt e = env_SentAt e' \<and> env_AIGenerated e = env_AIGenerated e' \<and>
     valid_message (env_Body e) = valid_message (env_Body e')"
  by (cases e; cases e') (auto simp: signed_content_def valid_envelope_def)

lemma format_inject:
  assumes "format_rfc3339 t = Some ts" "format_rfc3339 t' = Some ts'" "t_off t mod 60 = 0" "t_off t' mod 60 = 0"
  shows "to_valid ts = to_valid ts' \<longleftrightarrow> t = t'"
proof -
  have "to_valid ts = ts" "to_valid ts' = ts'"
    using time_plain [OF assms(1)] time_plain [OF assms(2)] by (auto intro!: to_valid_ascii simp: list_all_iff plain_def)
  then show ?thesis
    using parse_format_rfc3339 [OF assms(1,3)] parse_format_rfc3339 [OF assms(2,4)] assms(1,2) by auto
qed

lemma coverage:
  assumes "Canonical e = Inr c" "Canonical e' = Inr c'" "env_V e = Version" "env_V e' = Version"
    and "t_off (env_SentAt e) mod 60 = 0" "t_off (env_SentAt e') mod 60 = 0"
  shows "c = c' \<longleftrightarrow> signed_content e = signed_content e'"
proof -
  obtain ts ts' where ts: "format_rfc3339 (env_SentAt e) = Some ts" "c = utf8_encode (print_json (canon_json e ts))"
    and ts': "format_rfc3339 (env_SentAt e') = Some ts'" "c' = utf8_encode (print_json (canon_json e' ts'))"
    using assms(1-4) by (auto simp: Canonical_Inr_iff)
  have "c = c' \<longleftrightarrow> canon_json e ts = canon_json e' ts'"
    unfolding ts(2) ts'(2) using canon_json_inject by metis
  also have "\<dots> \<longleftrightarrow> signed_content e = signed_content e'"
    using format_inject [OF ts(1) ts'(1) assms(5,6)] assms(3,4)
    by (auto simp: canon_json_def signed_content_iff canon_str_inject canon_party_inject canon_message_inject)
  finally show ?thesis .
qed

section \<open>The canonical form is canonical\<close>

lemma str_val_canon_quote [simp]: "str_val (canon_quote s) = to_valid s"
  using canon_token [of s] by (simp add: str_val_def to_valid_def is_token_def)

lemma writes_canon_str [simp]: "writes (any_of (canon_str s)) (canon_str s)"
  using writes_str [of s] by (simp add: canon_str_def)

lemma writes_canon_party: "writes (any_of (canon_party p)) (canon_party p)"
proof -
  have "SortFunc compareUTF16 [''agent'', ''device'', ''person''] = [''agent'', ''device'', ''person'']"
    "list_all (\<lambda>k. list_all plain k) [''agent'', ''device'', ''person'']" by code_simp+
  then show ?thesis
    using writes_obj [of "any_members [] [(ascii ''agent'', canon_str (pt_agent p)), (ascii ''device'', canon_str (pt_device p)),
        (ascii ''person'', canon_str (pt_person p))]" "[''agent'', ''device'', ''person'']"
        "[canon_str (pt_agent p), canon_str (pt_device p), canon_str (pt_person p)]"]
    by (simp add: canon_party_def lookup_json_def)
qed

lemma writes_canon_part: "writes (any_of (canon_part p)) (canon_part p)"
proof -
  have "SortFunc compareUTF16 [''text'', ''type''] = [''text'', ''type'']"
    "list_all (\<lambda>k. list_all plain k) [''text'', ''type'']" by code_simp+
  then show ?thesis
    using writes_obj [of "any_members [] [(ascii ''text'', canon_str (part_text p)), (ascii ''type'', canon_str (part_type p))]"
        "[''text'', ''type'']" "[canon_str (part_text p), canon_str (part_type p)]"]
    by (simp add: canon_part_def lookup_json_def)
qed

lemma writes_canon_parts: "list_all2 writes (any_elems (map canon_part ps)) (map canon_part ps)"
  by (induction ps) (simp_all add: writes_canon_part)

lemma writes_canon_message: "writes (any_of (canon_message b)) (canon_message b)"
proof -
  have s: "SortFunc compareUTF16 [''parts'', ''role''] = [''parts'', ''role'']"
    "list_all (\<lambda>k. list_all plain k) [''parts'', ''role'']" by code_simp+
  define cs where "cs = (case msg_parts b of None \<Rightarrow> JNull | Some ps \<Rightarrow> JArr (map canon_part ps))"
  have "writes (any_of cs) cs" by (auto simp: cs_def intro: writes_arr writes_canon_parts split: option.splits)
  then show ?thesis
    using s writes_obj [of "any_members [] [(ascii ''parts'', cs), (ascii ''role'', canon_str (msg_role b))]"
        "[''parts'', ''role'']" "[cs, canon_str (msg_role b)]"]
    by (simp add: canon_message_def lookup_json_def cs_def [symmetric])
qed

lemma writes_canon_json: "writes (any_of (canon_json e ts)) (canon_json e ts)"
proof -
  define cs where "cs = [JBool (env_AIGenerated e), canon_message (env_Body e), canon_party (env_From e),
      canon_str (env_ID e), canon_str ts, canon_str (env_State e), canon_str (env_Thread e), canon_str (env_To e), JNum ''1'']"
  define t where "t = zip sorted_names (map any_of cs)"
  have any: "any_of (canon_json e ts) = JObj t"
    by (simp add: canon_json_def t_def cs_def sorted_names_def)
  have "SortFunc compareUTF16 sorted_names = sorted_names" by code_simp
  then have keys: "SortFunc compareUTF16 (map fst t) = sorted_names" by (simp add: t_def cs_def sorted_names_def)
  have "list_all2 (\<lambda>k c. writes (lookup_json t k) c) sorted_names cs"
    by (simp add: t_def cs_def sorted_names_def lookup_json_def writes_canon_party writes_canon_message)
  then have "writes (JObj t) (JObj (zip (map ascii sorted_names) cs))" by (rule writes_obj [OF keys sorted_names_ok(2)])
  moreover have "JObj (zip (map ascii sorted_names) cs) = canon_json e ts"
    by (simp add: canon_json_def sorted_names_def cs_def)
  ultimately show ?thesis by (simp only: any)
qed

lemma jcs_canonical:
  assumes "Canonical e = Inr c" "env_V e = Version"
  shows "jcs c = Inr c"
proof -
  obtain ts where c: "c = utf8_encode (print_json (canon_json e ts))" using assms by (auto simp: Canonical_Inr_iff)
  then have "parse_document c = Some (canon_json e ts)" using parse_document_print [OF canon_json_ok] by simp
  then show ?thesis using writes_canon_json [of e ts] c by (simp add: jcs_def writes_def)
qed

lemma dec_canon_str [simp]: "dec_string (canon_str s) old = Some (to_valid s)"
  by (simp add: dec_string_def canon_str_def)

lemma dec_canon_party [simp]: "dec_party (canon_party p) old = Some (valid_party p)"
  by (simp add: dec_party_def dec_struct_def canon_party_def dec_party_field_def valid_party_def)

lemma dec_canon_part [simp]: "dec_part (canon_part p) old = Some (valid_part p)"
  by (simp add: dec_part_def dec_struct_def canon_part_def dec_part_field_def valid_part_def)

lemma dec_canon_parts [simp]: "dec_parts (map canon_part ps) old = Some (map valid_part ps)"
  by (induction ps arbitrary: old) simp_all

lemma dec_canon_message [simp]: "dec_message (canon_message b) \<lparr>msg_role = [], msg_parts = None\<rparr> = Some (valid_message b)"
  by (cases "msg_parts b")
    (simp_all add: dec_message_def dec_struct_def canon_message_def dec_message_field_def valid_message_def)

lemma Decode_canonical:
  assumes "Canonical e = Inr c" "env_V e = Version" "t_off (env_SentAt e) mod 60 = 0"
  shows "Decode c = Inr (signed_content e)"
proof -
  obtain ts where ts: "format_rfc3339 (env_SentAt e) = Some ts" and c: "c = utf8_encode (print_json (canon_json e ts))"
    using assms by (auto simp: Canonical_Inr_iff)
  have p: "parse_document c = Some (canon_json e ts)" using parse_document_print [OF canon_json_ok] c by simp
  have time: "dec_time (canon_str ts) old = Some (env_SentAt e)" for old
    using dec_time_token [OF ts assms(3)] plain_key [OF time_plain [OF ts]] by (simp add: canon_str_def)
  have one: "atoi ''1'' = Some Version" by code_simp
  have "dec_struct dec_envelope_field envelope_names (canon_json e ts) zero_envelope = Some (signed_content e)"
    by (simp add: dec_struct_def canon_json_def dec_envelope_field_def time dec_int_def one dec_bool_def zero_envelope_def
      signed_content_def valid_envelope_def assms(2))
  then show ?thesis using p assms(2) by (simp add: Decode_def versionSupported_def signed_content_def valid_envelope_def)
qed

end
