(* ===== verification/Signature.thy ===== *)
theory Signature
  imports CanonFacts
begin

text \<open>
  What \<open>check\<close>, \<open>Validate\<close>, \<open>Sign\<close> and \<open>Verify\<close> promise: the caps and the order of their
  errors, that a signed envelope verifies after transport, and that the signed bytes determine the
  content. Ed25519 is a parameter; that it verifies what it signs is the only thing used of it.
\<close>

section \<open>The caps\<close>

text \<open>The canonical size of an envelope whose time can be written.\<close>

definition wire_size :: "envelope \<Rightarrow> nat" where
  "wire_size e = (case Canonical e of Inr c \<Rightarrow> length c | Inl _ \<Rightarrow> 0)"

definition printable_time :: "envelope \<Rightarrow> bool" where
  "printable_time e \<longleftrightarrow> format_rfc3339 (env_SentAt e) \<noteq> None"

lemma Canonical_cases:
  assumes "env_V e = Version"
  shows "if printable_time e then \<exists>c. Canonical e = Inr c else Canonical e = Inl ErrSerialize"
  using Canonical_eq [OF _ assms]
  by (auto simp: printable_time_def Canonical_def Marshal_def envelope_json_def split: if_splits)

lemma check_iff:
  "check e = Inr c \<longleftrightarrow> env_V e = Version \<and> length (parts_of (env_Body e)) \<le> MaxParts \<and>
     bodySize (env_Body e) \<le> MaxBodyBytes \<and> Canonical e = Inr c \<and> length c \<le> MaxWireBytes"
  by (cases "Canonical e") (auto simp: check_def versionSupported_def)

lemma check_sig [simp]: "check (e\<lparr>env_Sig := s\<rparr>) = check e"
  by (simp add: check_def Canonical_def)

lemma Validate_iff:
  "Validate e = Inr () \<longleftrightarrow> env_V e = Version \<and> length (parts_of (env_Body e)) \<le> MaxParts \<and>
     bodySize (env_Body e) \<le> MaxBodyBytes \<and> printable_time e \<and> wire_size e \<le> MaxWireBytes"
proof -
  have "Validate e = Inr () \<longleftrightarrow> (\<exists>c. check e = Inr c)" by (cases "check e") (auto simp: Validate_def)
  also have "\<dots> \<longleftrightarrow> env_V e = Version \<and> length (parts_of (env_Body e)) \<le> MaxParts \<and>
     bodySize (env_Body e) \<le> MaxBodyBytes \<and> printable_time e \<and> wire_size e \<le> MaxWireBytes"
    unfolding check_iff using Canonical_cases [of e] by (auto simp: wire_size_def split: if_splits)
  finally show ?thesis .
qed

text \<open>
  C35: the verdict of the cap check. It accepts exactly the envelopes of the supported version
  with at most 16 parts, 32 KiB of text, a time RFC 3339 can express and 64 KiB of canonical
  form; otherwise it reports the first violated cap in the fixed order version, parts, text,
  wire. Canonicalisation itself fails on nothing but the time.
\<close>

theorem Validate_spec:
  "Validate e =
     (if env_V e \<noteq> 1 then Inl ErrBadVersion
      else if 16 < length (parts_of (env_Body e)) then Inl ErrTooManyParts
      else if 32768 < sum_list (map (\<lambda>p. length (part_text p)) (parts_of (env_Body e))) then Inl ErrTooLarge
      else case format_rfc3339 (env_SentAt e) of
             None \<Rightarrow> Inl ErrSerialize
           | Some ts \<Rightarrow> (if 65536 < length (utf8_encode (print_json (canon_json e ts))) then Inl ErrTooLarge else Inr ()))"
proof -
  have "foldl (\<lambda>n p. n + length (part_text p)) k ps = k + sum_list (map (\<lambda>p. length (part_text p)) ps)" for k :: nat and ps :: "part list"
    by (induction ps arbitrary: k) simp_all
  then have b: "bodySize (env_Body e) = sum_list (map (\<lambda>p. length (part_text p)) (parts_of (env_Body e)))"
    by (simp add: bodySize_def)
  have c: "env_V e = 1 \<Longrightarrow> Canonical e = (case format_rfc3339 (env_SentAt e) of None \<Rightarrow> Inl ErrSerialize
      | Some ts \<Rightarrow> Inr (utf8_encode (print_json (canon_json e ts))))"
    using Canonical_eq [of e] Canonical_cases [of e] by (auto simp: Version_def printable_time_def split: option.splits)
  show ?thesis
    by (cases "format_rfc3339 (env_SentAt e)")
      (auto simp: Validate_def check_def versionSupported_def Version_def MaxParts_def MaxBodyBytes_def MaxWireBytes_def b c)
qed

text \<open>An envelope on which the properties below are tried.\<close>

definition example_envelope :: envelope where
  "example_envelope = New \<lparr>pt_person = ''alice'', pt_device = ''da'', pt_agent = ''ai''\<rparr> ''bob'' ''th'' StateInputRequired
     True \<lparr>msg_role = ''agent'', msg_parts = Some [\<lparr>part_type = ''text'', part_text = ''hi''\<rparr>]\<rparr> ''t0'' ''m2'' 200000000000"

lemma example_time: "format_rfc3339 (env_SentAt example_envelope) = Some ''1970-01-01T00:03:20Z''"
  by code_simp

lemma example_facts:
  "env_V example_envelope = Version" "t_off (env_SentAt example_envelope) mod 60 = 0"
  "valid_envelope example_envelope = example_envelope" "parts_of (env_Body example_envelope) = [\<lparr>part_type = ''text'', part_text = ''hi''\<rparr>]"
  "bodySize (env_Body example_envelope) = 2" "valid_message (env_Body example_envelope) = env_Body example_envelope"
  by code_simp+

definition example_canon :: string where
  "example_canon = utf8_encode (print_json (canon_json example_envelope ''1970-01-01T00:03:20Z''))"

lemma example_Canonical: "Canonical example_envelope = Inr example_canon"
  using Canonical_eq [OF example_time example_facts(1)] by (simp add: example_canon_def)

lemma example_size: "length example_canon < 1000"
  unfolding example_canon_def by code_simp

lemma example_check: "check example_envelope = Inr example_canon"
  using example_Canonical example_facts example_size
  by (simp add: check_iff MaxParts_def MaxBodyBytes_def MaxWireBytes_def)

lemma example_Marshal: "\<exists>raw. Marshal example_envelope = Some raw"
  using example_time by (simp add: Marshal_def envelope_json_def)

section \<open>Canonical form\<close>

text \<open>
  C36: decoding the bytes \<open>json.Marshal\<close> produced for an envelope of this version gives the
  same envelope back, signature and nanoseconds included, with every string as valid UTF-8
  (the identity on strings that are valid UTF-8 already).
\<close>

theorem Decode_Marshal:
  assumes "Marshal e = Some raw" "env_V e = Version" "t_off (env_SentAt e) mod 60 = 0"
  shows "Decode raw = Inr (valid_envelope e)"
  using assms by (rule decode_marshal_valid)

theorem Decode_Marshal_witness:
  "\<exists>raw. Marshal example_envelope = Some raw \<and> Decode raw = Inr example_envelope"
  using example_Marshal example_facts(1-3) Decode_Marshal [of example_envelope] by metis

text \<open>
  C37: two envelopes of the supported version, with whole-minute zones, have the same canonical
  form exactly when they agree on every signed field: version, id, thread, sender, recipient,
  state, time, provenance, role and every part. A signature therefore covers all of them, and
  nothing else.
\<close>

theorem signature_coverage:
  assumes "Canonical e = Inr c" "Canonical e' = Inr c'" "env_V e = Version" "env_V e' = Version"
    and "t_off (env_SentAt e) mod 60 = 0" "t_off (env_SentAt e') mod 60 = 0"
  shows "c = c' \<longleftrightarrow> signed_content e = signed_content e'"
  using assms by (rule coverage)

theorem signature_coverage_witness:
  "\<exists>c. Canonical (example_envelope\<lparr>env_To := ''eve''\<rparr>) = Inr c \<and> c \<noteq> example_canon"
proof -
  let ?e = "example_envelope\<lparr>env_To := ''eve''\<rparr>"
  obtain c where c: "Canonical ?e = Inr c"
    using Canonical_eq [of ?e] example_time example_facts(1) by simp
  have "signed_content ?e \<noteq> signed_content example_envelope" by code_simp
  then show ?thesis
    using signature_coverage [OF c example_Canonical] c example_facts(1,2) by simp
qed

text \<open>
  The canonical form is a fixed point. Canonicalising it again changes nothing, and it
  decodes to the signed content of the envelope it was made from.
\<close>

theorem canonical_fixpoint:
  assumes "Canonical e = Inr c" "env_V e = Version" "t_off (env_SentAt e) mod 60 = 0"
  shows "jcs c = Inr c \<and> Decode c = Inr (signed_content e)"
  using jcs_canonical [OF assms(1,2)] Decode_canonical [OF assms] by simp

theorem canonical_fixpoint_witness:
  "jcs example_canon = Inr example_canon \<and> Decode example_canon = Inr (signed_content example_envelope)"
  by (rule canonical_fixpoint [OF example_Canonical example_facts(1,2)])

section \<open>Signatures over the wire\<close>

lemma Sign_Inr:
  "Sign ed e priv = Inr e' \<longleftrightarrow> length priv = PrivateKeySize \<and> (\<exists>c. check e = Inr c \<and> e' = e\<lparr>env_Sig := ed priv c\<rparr>)"
  by (cases "check e") (auto simp: Sign_def)

lemma Verify_Inr:
  "Verify ed e pub = Inr () \<longleftrightarrow> length pub = PublicKeySize \<and> length (env_Sig e) = SignatureSize \<and>
     (\<exists>c. check e = Inr c \<and> ed pub c (env_Sig e))"
  by (cases "check e") (auto simp: Verify_def)

lemma check_signed_content:
  assumes "check e = Inr c" "env_Body e' = env_Body e" "signed_content e' = signed_content e"
  shows "check e' = Inr c"
proof -
  have v: "env_V e = Version" "env_V e' = Version" using assms by (auto simp: check_iff signed_content_iff)
  obtain ts where ts: "format_rfc3339 (env_SentAt e) = Some ts" "c = utf8_encode (print_json (canon_json e ts))"
    using assms(1) v by (auto simp: check_iff Canonical_Inr_iff)
  have "env_SentAt e' = env_SentAt e" using assms(3) by (simp add: signed_content_iff)
  moreover have "canon_json e' ts = canon_json e ts"
    using assms(3) by (simp add: canon_json_def signed_content_iff canon_str_inject canon_party_inject canon_message_inject)
  ultimately have "Canonical e' = Inr c" using ts v by (simp add: Canonical_eq)
  with assms(1,2) v show ?thesis by (simp add: check_iff)
qed

lemma signed_content_valid [simp]: "signed_content (valid_envelope e) = signed_content e"
proof -
  have "valid_party (valid_party p) = valid_party p" for p by (simp add: valid_party_def)
  moreover have "valid_part (valid_part p) = valid_part p" for p by (simp add: valid_part_def)
  then have "valid_message (valid_message m) = valid_message m" for m
    by (cases "msg_parts m") (simp_all add: valid_message_def)
  ultimately show ?thesis by (simp add: signed_content_def valid_envelope_def)
qed

text \<open>
  C38: what one device signs, every other accepts. An envelope within the caps can be signed with a key of
  the right size; what is signed can be sent as JSON; and decoding it at the other end gives an
  envelope with the same signed content that \<open>Verify\<close> accepts under the device's public key.
  Needed: the texts of the body are valid UTF-8 (the JSON encoder rewrites others, and the caps may be
  passed), the offset of the time is whole minutes, and Ed25519 verifies what it signs.
\<close>

theorem signed_envelope_verifies:
  assumes "Validate e = Inr ()" "t_off (env_SentAt e) mod 60 = 0" "valid_message (env_Body e) = env_Body e"
    and keys: "length priv = 64" "length pub = 32"
    and ed: "\<And>m. length (ed_sign priv m) = 64" "\<And>m. ed_verify pub m (ed_sign priv m)"
  shows "\<exists>e' raw e''. Sign ed_sign e priv = Inr e' \<and> Marshal e' = Some raw \<and> Decode raw = Inr e'' \<and>
    Verify ed_verify e'' pub = Inr () \<and> signed_content e'' = signed_content e"
proof -
  obtain c where c: "check e = Inr c" using assms(1) by (cases "check e") (auto simp: Validate_def)
  let ?e = "e\<lparr>env_Sig := ed_sign priv c\<rparr>"
  have sign: "Sign ed_sign e priv = Inr ?e" using c keys(1) by (simp add: Sign_Inr PrivateKeySize_def)
  have "printable_time e" using assms(1) by (simp add: Validate_iff)
  then obtain raw where raw: "Marshal ?e = Some raw" by (auto simp: printable_time_def Marshal_def envelope_json_def)
  have "env_V ?e = Version" "t_off (env_SentAt ?e) mod 60 = 0" using c assms(2) by (simp_all add: check_iff)
  with raw have d: "Decode raw = Inr (valid_envelope ?e)" by (intro decode_marshal_valid)
  have "signed_content ?e = signed_content e" by (simp add: signed_content_def valid_envelope_def)
  then have same: "signed_content (valid_envelope ?e) = signed_content e" by (rule trans [OF signed_content_valid])
  have "env_Body (valid_envelope ?e) = env_Body e" unfolding valid_envelope_def using assms(3) by simp
  from check_signed_content [OF c this same] have "check (valid_envelope ?e) = Inr c" .
  moreover have "env_Sig (valid_envelope ?e) = ed_sign priv c" by (simp add: valid_envelope_def)
  ultimately have "Verify ed_verify (valid_envelope ?e) pub = Inr ()"
    using ed keys(2) by (auto simp: Verify_Inr PublicKeySize_def SignatureSize_def)
  with sign raw d same show ?thesis by blast
qed

text \<open>A toy signature scheme for the witness: the first byte of the message, repeated.\<close>

definition toy_sign :: "string \<Rightarrow> string \<Rightarrow> string" where
  "toy_sign priv m = replicate 64 (hd m)"

theorem signed_envelope_verifies_witness:
  "\<exists>e' raw e''. Sign toy_sign example_envelope (replicate 64 CHR ''k'') = Inr e' \<and> Marshal e' = Some raw \<and>
     Decode raw = Inr e'' \<and> Verify (\<lambda>pub m s. s = toy_sign pub m) e'' (replicate 32 CHR ''k'') = Inr ()"
proof -
  have v: "Validate example_envelope = Inr ()" by (simp add: Validate_def example_check)
  have k: "length (replicate 64 CHR ''k'') = 64" "length (replicate 32 CHR ''k'') = 32" by simp_all
  have l: "length (toy_sign (replicate 64 CHR ''k'') m) = 64" for m by (simp add: toy_sign_def)
  have t: "toy_sign (replicate 64 CHR ''k'') m = toy_sign (replicate 32 CHR ''k'') m" for m by (simp add: toy_sign_def)
  show ?thesis
    using signed_envelope_verifies [where ed_sign = toy_sign and ed_verify = "\<lambda>pub m s. s = toy_sign pub m", OF v example_facts(2,6) k l t] by blast
qed

end
