(* ===== verification/StoreSchema.thy ===== *)
theory StoreSchema
  imports Envelope Sha256
begin

text \<open>
  The relay's database: the tables of \<open>internal/relay/store/migrations/*.sql\<close> as lists of
  row records in insertion order, the constraints those files declare as the executable
  predicate \<open>schema_ok\<close>, and transactions (\<open>writeTx\<close> of \<open>identity.go\<close>).

  A statement that writes is \<open>exec\<close> applied to the database it would produce: SQLite
  accepts it iff every PRIMARY KEY, UNIQUE, CHECK, NOT NULL and REFERENCES constraint holds
  afterwards, otherwise it fails and the transaction function returns that error. Columns
  hold unix seconds; \<open>None\<close> is NULL. Stored envelopes are the JSON bytes.

  A \<open>store\<close> is the committed database with the state of the connection: whether a
  transaction can be opened and committed. Every writer holds the mutex for its whole
  transaction, so operations are functions on the store and interleavings are sequences.
\<close>

section \<open>Rows\<close>

record person_row = p_id :: string  p_email :: string  p_label :: string  p_created :: int

record device_row =
  d_id :: string
  d_person :: string
  d_pubkey :: string
  d_label :: string
  d_created :: int
  d_revoked :: "int option"

record invite_row =
  i_hash :: string
  i_email :: string
  i_created :: int
  i_expires :: int
  i_used :: "int option"

record thread_row =
  t_id :: string
  t_initiator :: string
  t_recipient :: string
  t_state :: string
  t_created :: int
  t_updated :: int

record message_row =
  m_id :: string
  m_thread :: string
  m_sender :: string
  m_envelope :: string
  m_sent :: int
  m_received :: int
  m_via_grant :: int

record tombstone_row = ts_id :: string  ts_sent :: int

record delivery_row =
  dl_message :: string
  dl_device :: string
  dl_delivered :: "int option"
  dl_acked :: "int option"

record draft_row =
  dr_id :: string
  dr_thread :: string
  dr_author :: string
  dr_envelope :: string
  dr_state :: string
  dr_via_grant :: int
  dr_created :: int
  dr_decided :: "int option"

record grant_row =
  g_id :: string
  g_thread :: string
  g_person :: string
  g_direction :: string
  g_granted :: int
  g_revoked :: "int option"

record client_row = c_id :: string  c_uris :: string  c_name :: string  c_created :: int

record code_row =
  k_hash :: string
  k_client :: string
  k_redirect :: string
  k_challenge :: string
  k_resource :: string
  k_person :: string
  k_device :: string
  k_client_type :: string
  k_created :: int
  k_expires :: int
  k_consumed :: "int option"

record refresh_row =
  r_hash :: string
  r_client :: string
  r_person :: string
  r_device :: string
  r_client_type :: string
  r_resource :: string
  r_created :: int
  r_expires :: int
  r_consumed :: "int option"

record database =
  persons :: "person_row list"
  devices :: "device_row list"
  invites :: "invite_row list"
  threads :: "thread_row list"
  messages :: "message_row list"
  tombstones :: "tombstone_row list"
  deliveries :: "delivery_row list"
  drafts :: "draft_row list"
  grants :: "grant_row list"
  oauth_clients :: "client_row list"
  oauth_codes :: "code_row list"
  oauth_refresh :: "refresh_row list"

definition empty_db :: database where
  "empty_db = \<lparr>persons = [], devices = [], invites = [], threads = [], messages = [],
     tombstones = [], deliveries = [], drafts = [], grants = [], oauth_clients = [],
     oauth_codes = [], oauth_refresh = []\<rparr>"

section \<open>Constraints\<close>

definition has_person :: "database \<Rightarrow> string \<Rightarrow> bool" where
  "has_person d i \<longleftrightarrow> exists_row (\<lambda>r. p_id r = i) (persons d)"

definition has_device :: "database \<Rightarrow> string \<Rightarrow> bool" where
  "has_device d i \<longleftrightarrow> exists_row (\<lambda>r. d_id r = i) (devices d)"

definition has_thread :: "database \<Rightarrow> string \<Rightarrow> bool" where
  "has_thread d i \<longleftrightarrow> exists_row (\<lambda>r. t_id r = i) (threads d)"

definition has_message :: "database \<Rightarrow> string \<Rightarrow> bool" where
  "has_message d i \<longleftrightarrow> exists_row (\<lambda>r. m_id r = i) (messages d)"

definition persons_ok :: "database \<Rightarrow> bool" where
  "persons_ok d \<longleftrightarrow> distinct (map p_id (persons d)) \<and> distinct (map p_email (persons d))"

definition devices_ok :: "database \<Rightarrow> bool" where
  "devices_ok d \<longleftrightarrow> distinct (map d_id (devices d)) \<and> distinct (map d_pubkey (devices d)) \<and>
     list_all (\<lambda>r. length (d_pubkey r) = 32 \<and> has_person d (d_person r)) (devices d)"

definition invites_ok :: "database \<Rightarrow> bool" where
  "invites_ok d \<longleftrightarrow> distinct (map i_hash (invites d))"

definition threads_ok :: "database \<Rightarrow> bool" where
  "threads_ok d \<longleftrightarrow> distinct (map t_id (threads d)) \<and>
     list_all (\<lambda>r. has_person d (t_initiator r) \<and> has_person d (t_recipient r) \<and>
       t_state r \<in> {''submitted'', ''working'', ''input-required'', ''completed'', ''failed'', ''canceled'', ''rejected''} \<and>
       t_initiator r \<noteq> t_recipient r) (threads d)"

definition messages_ok :: "database \<Rightarrow> bool" where
  "messages_ok d \<longleftrightarrow> distinct (map m_id (messages d)) \<and>
     list_all (\<lambda>r. has_thread d (m_thread r) \<and> has_person d (m_sender r) \<and> m_via_grant r \<in> {0, 1}) (messages d)"

definition tombstones_ok :: "database \<Rightarrow> bool" where
  "tombstones_ok d \<longleftrightarrow> distinct (map ts_id (tombstones d))"

definition deliveries_ok :: "database \<Rightarrow> bool" where
  "deliveries_ok d \<longleftrightarrow> distinct (map (\<lambda>r. (dl_message r, dl_device r)) (deliveries d)) \<and>
     list_all (\<lambda>r. has_message d (dl_message r) \<and> has_device d (dl_device r)) (deliveries d)"

definition drafts_ok :: "database \<Rightarrow> bool" where
  "drafts_ok d \<longleftrightarrow> distinct (map dr_id (drafts d)) \<and>
     list_all (\<lambda>r. has_thread d (dr_thread r) \<and> has_person d (dr_author r) \<and>
       dr_state r \<in> {''pending_review'', ''sent'', ''discarded''} \<and> dr_via_grant r \<in> {0, 1}) (drafts d)"

definition grants_ok :: "database \<Rightarrow> bool" where
  "grants_ok d \<longleftrightarrow> distinct (map g_id (grants d)) \<and>
     list_all (\<lambda>r. has_thread d (g_thread r) \<and> has_person d (g_person r) \<and>
       g_direction r \<in> {''inbound'', ''outbound''}) (grants d) \<and>
     distinct (map (\<lambda>r. (g_thread r, g_person r, g_direction r)) (filter (\<lambda>r. g_revoked r = None) (grants d)))"

definition clients_ok :: "database \<Rightarrow> bool" where
  "clients_ok d \<longleftrightarrow> distinct (map c_id (oauth_clients d))"

definition codes_ok :: "database \<Rightarrow> bool" where
  "codes_ok d \<longleftrightarrow> distinct (map k_hash (oauth_codes d)) \<and>
     list_all (\<lambda>r. has_person d (k_person r) \<and> has_device d (k_device r)) (oauth_codes d)"

definition refresh_ok :: "database \<Rightarrow> bool" where
  "refresh_ok d \<longleftrightarrow> distinct (map r_hash (oauth_refresh d)) \<and>
     list_all (\<lambda>r. has_person d (r_person r) \<and> has_device d (r_device r)) (oauth_refresh d)"

definition schema_ok :: "database \<Rightarrow> bool" where
  "schema_ok d \<longleftrightarrow> persons_ok d \<and> devices_ok d \<and> invites_ok d \<and> threads_ok d \<and> messages_ok d \<and>
     tombstones_ok d \<and> deliveries_ok d \<and> drafts_ok d \<and> grants_ok d \<and> clients_ok d \<and> codes_ok d \<and> refresh_ok d"

lemmas table_ok_defs =
  persons_ok_def devices_ok_def invites_ok_def threads_ok_def messages_ok_def tombstones_ok_def
  deliveries_ok_def drafts_ok_def grants_ok_def clients_ok_def codes_ok_def refresh_ok_def

section \<open>Errors, statements, transactions\<close>

datatype store_error =
    ErrReplay | ErrNotFresh | ErrNotParticipant
  | ErrNotFound | ErrInviteInvalid | ErrKeyInUse
  | ErrClientUnknown | ErrCodeInvalid | ErrRefreshInvalid | ErrRefreshReused
  | GateErr gate_error | EnvErr env_error | BadID | BadKey | DBErr

type_synonym 'a tx = "database \<Rightarrow> store_error + 'a \<times> database"

definition exec :: "database \<Rightarrow> store_error + database" where
  "exec d = (if schema_ok d then Inr d else Inl DBErr)"

record store =
  st_db :: database
  st_begin_ok :: bool
  st_commit_ok :: bool

definition writeTx :: "'a tx \<Rightarrow> store \<Rightarrow> (store_error + 'a) \<times> store" where
  "writeTx fn s =
     (if \<not> st_begin_ok s then (Inl DBErr, s)
      else case fn (st_db s) of
        Inl e \<Rightarrow> (Inl e, s)
      | Inr (x, d) \<Rightarrow> (if st_commit_ok s then (Inr x, s\<lparr>st_db := d\<rparr>) else (Inl DBErr, s)))"

definition hashToken :: "string \<Rightarrow> string" where
  "hashToken token = hex_encode (Sum256 token)"

section \<open>Lemmas\<close>

lemma schema_ok_empty: "schema_ok empty_db"
  by (simp add: schema_ok_def table_ok_defs empty_db_def)

lemma schema_okD:
  assumes "schema_ok d"
  shows "persons_ok d" "devices_ok d" "invites_ok d" "threads_ok d" "messages_ok d" "tombstones_ok d"
    "deliveries_ok d" "drafts_ok d" "grants_ok d" "clients_ok d" "codes_ok d" "refresh_ok d"
  using assms by (simp_all add: schema_ok_def)

lemma exec_Inr: "exec d = Inr d' \<longleftrightarrow> schema_ok d \<and> d' = d"
  by (auto simp: exec_def)

lemma exec_ok [simp]: "schema_ok d \<Longrightarrow> exec d = Inr d"
  by (simp add: exec_def)

lemma writeTx_Inr:
  "writeTx fn s = (Inr x, s') \<longleftrightarrow>
     st_begin_ok s \<and> st_commit_ok s \<and> (\<exists>d. fn (st_db s) = Inr (x, d) \<and> s' = s\<lparr>st_db := d\<rparr>)"
  by (auto simp: writeTx_def split: sum.splits if_splits)

lemma writeTx_Inl: "writeTx fn s = (Inl e, s') \<Longrightarrow> s' = s"
  by (auto simp: writeTx_def split: sum.splits if_splits prod.splits)

text \<open>A store whose connection works: transactions open and commit.\<close>

definition healthy :: "store \<Rightarrow> bool" where
  "healthy s \<longleftrightarrow> st_begin_ok s \<and> st_commit_ok s"

lemma writeTx_healthy:
  "healthy s \<Longrightarrow> writeTx fn s = (case fn (st_db s) of Inl e \<Rightarrow> (Inl e, s) | Inr (x, d) \<Rightarrow> (Inr x, s\<lparr>st_db := d\<rparr>))"
  by (auto simp: writeTx_def healthy_def split: sum.splits)

text \<open>
  What the store's methods rely on: a transaction body that keeps a database invariant. The
  transaction wrapper turns it into an operation that is atomic and keeps the invariant.
\<close>

locale tx_keeps =
  fixes fn :: "'a tx" and inv :: "database \<Rightarrow> bool"
  assumes keeps: "inv d \<Longrightarrow> fn d = Inr (x, d') \<Longrightarrow> inv d'"
begin

lemma op_keeps:
  assumes "inv (st_db s)" "writeTx fn s = (r, s')"
  shows "inv (st_db s')"
  using assms keeps by (cases r) (auto simp: writeTx_Inr dest: writeTx_Inl)

lemma op_atomic:
  assumes "writeTx fn s = (r, s')"
  shows "(case r of Inl e \<Rightarrow> s' = s | Inr x \<Rightarrow> fn (st_db s) = Inr (x, st_db s'))"
  using assms by (cases r) (auto simp: writeTx_Inr dest: writeTx_Inl)

end

section \<open>Which updates keep the constraints\<close>

lemma validState_iff:
  "st \<in> {''submitted'', ''working'', ''input-required'', ''completed'', ''failed'', ''canceled'', ''rejected''} \<longleftrightarrow> validState st"
  by (simp add: validState_def thread_state_defs)

lemma threads_ok_alt:
  "threads_ok d \<longleftrightarrow> distinct (map t_id (threads d)) \<and>
     list_all (\<lambda>r. has_person d (t_initiator r) \<and> has_person d (t_recipient r) \<and>
       validState (t_state r) \<and> t_initiator r \<noteq> t_recipient r) (threads d)"
  by (simp only: threads_ok_def validState_iff)

text \<open>A reference column is checked against the set of keys of the table it names.\<close>

lemma has_person_iff: "has_person d i \<longleftrightarrow> i \<in> set (map p_id (persons d))"
  and has_device_iff: "has_device d i \<longleftrightarrow> i \<in> set (map d_id (devices d))"
  and has_thread_iff: "has_thread d i \<longleftrightarrow> i \<in> set (map t_id (threads d))"
  and has_message_iff: "has_message d i \<longleftrightarrow> i \<in> set (map m_id (messages d))"
  by (auto simp: has_person_def has_device_def has_thread_def has_message_def)

lemmas has_iffs = has_person_iff has_device_iff has_thread_iff has_message_iff

lemma has_person_frame [simp]:
  "has_person (d\<lparr>devices := x1\<rparr>) = has_person d"
  "has_person (d\<lparr>invites := x2\<rparr>) = has_person d"
  "has_person (d\<lparr>threads := x3\<rparr>) = has_person d"
  "has_person (d\<lparr>messages := x4\<rparr>) = has_person d"
  "has_person (d\<lparr>tombstones := x5\<rparr>) = has_person d"
  "has_person (d\<lparr>deliveries := x6\<rparr>) = has_person d"
  "has_person (d\<lparr>drafts := x7\<rparr>) = has_person d"
  "has_person (d\<lparr>grants := x8\<rparr>) = has_person d"
  "has_person (d\<lparr>oauth_clients := x9\<rparr>) = has_person d"
  "has_person (d\<lparr>oauth_codes := x10\<rparr>) = has_person d"
  "has_person (d\<lparr>oauth_refresh := x11\<rparr>) = has_person d"
  by (simp_all add: has_person_def fun_eq_iff)

lemma has_device_frame [simp]:
  "has_device (d\<lparr>persons := x0\<rparr>) = has_device d"
  "has_device (d\<lparr>invites := x2\<rparr>) = has_device d"
  "has_device (d\<lparr>threads := x3\<rparr>) = has_device d"
  "has_device (d\<lparr>messages := x4\<rparr>) = has_device d"
  "has_device (d\<lparr>tombstones := x5\<rparr>) = has_device d"
  "has_device (d\<lparr>deliveries := x6\<rparr>) = has_device d"
  "has_device (d\<lparr>drafts := x7\<rparr>) = has_device d"
  "has_device (d\<lparr>grants := x8\<rparr>) = has_device d"
  "has_device (d\<lparr>oauth_clients := x9\<rparr>) = has_device d"
  "has_device (d\<lparr>oauth_codes := x10\<rparr>) = has_device d"
  "has_device (d\<lparr>oauth_refresh := x11\<rparr>) = has_device d"
  by (simp_all add: has_device_def fun_eq_iff)

lemma has_thread_frame [simp]:
  "has_thread (d\<lparr>persons := x0\<rparr>) = has_thread d"
  "has_thread (d\<lparr>devices := x1\<rparr>) = has_thread d"
  "has_thread (d\<lparr>invites := x2\<rparr>) = has_thread d"
  "has_thread (d\<lparr>messages := x4\<rparr>) = has_thread d"
  "has_thread (d\<lparr>tombstones := x5\<rparr>) = has_thread d"
  "has_thread (d\<lparr>deliveries := x6\<rparr>) = has_thread d"
  "has_thread (d\<lparr>drafts := x7\<rparr>) = has_thread d"
  "has_thread (d\<lparr>grants := x8\<rparr>) = has_thread d"
  "has_thread (d\<lparr>oauth_clients := x9\<rparr>) = has_thread d"
  "has_thread (d\<lparr>oauth_codes := x10\<rparr>) = has_thread d"
  "has_thread (d\<lparr>oauth_refresh := x11\<rparr>) = has_thread d"
  by (simp_all add: has_thread_def fun_eq_iff)

lemma has_message_frame [simp]:
  "has_message (d\<lparr>persons := x0\<rparr>) = has_message d"
  "has_message (d\<lparr>devices := x1\<rparr>) = has_message d"
  "has_message (d\<lparr>invites := x2\<rparr>) = has_message d"
  "has_message (d\<lparr>threads := x3\<rparr>) = has_message d"
  "has_message (d\<lparr>tombstones := x5\<rparr>) = has_message d"
  "has_message (d\<lparr>deliveries := x6\<rparr>) = has_message d"
  "has_message (d\<lparr>drafts := x7\<rparr>) = has_message d"
  "has_message (d\<lparr>grants := x8\<rparr>) = has_message d"
  "has_message (d\<lparr>oauth_clients := x9\<rparr>) = has_message d"
  "has_message (d\<lparr>oauth_codes := x10\<rparr>) = has_message d"
  "has_message (d\<lparr>oauth_refresh := x11\<rparr>) = has_message d"
  by (simp_all add: has_message_def fun_eq_iff)

text \<open>
  A step keeps the constraints when no referenced key disappears and every table is either
  untouched or satisfies its own constraints.
\<close>

definition keys_grow :: "database \<Rightarrow> database \<Rightarrow> bool" where
  "keys_grow d d' \<longleftrightarrow> (\<forall>i. (has_person d i \<longrightarrow> has_person d' i) \<and> (has_device d i \<longrightarrow> has_device d' i) \<and>
     (has_thread d i \<longrightarrow> has_thread d' i) \<and> (has_message d i \<longrightarrow> has_message d' i))"

lemma keys_grow_refl [simp]: "keys_grow d d"
  by (simp add: keys_grow_def)

lemma refs_mono:
  assumes "keys_grow d d'"
  shows "devices_ok d \<Longrightarrow> devices d' = devices d \<Longrightarrow> devices_ok d'"
    and "threads_ok d \<Longrightarrow> threads d' = threads d \<Longrightarrow> threads_ok d'"
    and "messages_ok d \<Longrightarrow> messages d' = messages d \<Longrightarrow> messages_ok d'"
    and "deliveries_ok d \<Longrightarrow> deliveries d' = deliveries d \<Longrightarrow> deliveries_ok d'"
    and "drafts_ok d \<Longrightarrow> drafts d' = drafts d \<Longrightarrow> drafts_ok d'"
    and "grants_ok d \<Longrightarrow> grants d' = grants d \<Longrightarrow> grants_ok d'"
    and "codes_ok d \<Longrightarrow> oauth_codes d' = oauth_codes d \<Longrightarrow> codes_ok d'"
    and "refresh_ok d \<Longrightarrow> oauth_refresh d' = oauth_refresh d \<Longrightarrow> refresh_ok d'"
  using assms
  by (simp_all add: keys_grow_def devices_ok_def threads_ok_def messages_ok_def deliveries_ok_def
    drafts_ok_def grants_ok_def codes_ok_def refresh_ok_def list_all_iff)

lemma schema_ok_step:
  assumes "schema_ok d" "keys_grow d d'"
    and "persons d' = persons d \<or> persons_ok d'"
    and "devices d' = devices d \<or> devices_ok d'"
    and "invites d' = invites d \<or> invites_ok d'"
    and "threads d' = threads d \<or> threads_ok d'"
    and "messages d' = messages d \<or> messages_ok d'"
    and "tombstones d' = tombstones d \<or> tombstones_ok d'"
    and "deliveries d' = deliveries d \<or> deliveries_ok d'"
    and "drafts d' = drafts d \<or> drafts_ok d'"
    and "grants d' = grants d \<or> grants_ok d'"
    and "oauth_clients d' = oauth_clients d \<or> clients_ok d'"
    and "oauth_codes d' = oauth_codes d \<or> codes_ok d'"
    and "oauth_refresh d' = oauth_refresh d \<or> refresh_ok d'"
  shows "schema_ok d'"
proof -
  note ok = schema_okD [OF assms(1)]
  have "persons_ok d'" "invites_ok d'" "tombstones_ok d'" "clients_ok d'"
    using ok assms(3,5,8,12)
    by (auto simp: persons_ok_def invites_ok_def tombstones_ok_def clients_ok_def)
  then show ?thesis
    using refs_mono [OF assms(2)] ok assms(4,6,7,9,10,11,13,14) unfolding schema_ok_def by blast
qed

section \<open>The relay's invariant\<close>

text \<open>
  What the tables mean beyond their declared constraints: a message is from a party of its
  thread, a delivery goes to a device of the other party, drafts and grants belong to a
  party of their thread, and a draft has a decision time iff it is decided.
\<close>

definition is_party :: "database \<Rightarrow> string \<Rightarrow> string \<Rightarrow> bool" where
  "is_party d th p \<longleftrightarrow> exists_row (\<lambda>t. t_id t = th \<and> (t_initiator t = p \<or> t_recipient t = p)) (threads d)"

definition delivery_to_other :: "database \<Rightarrow> delivery_row \<Rightarrow> bool" where
  "delivery_to_other d dl \<longleftrightarrow>
     exists_row (\<lambda>m. m_id m = dl_message dl \<and>
       exists_row (\<lambda>r. d_id r = dl_device dl \<and> d_person r \<noteq> m_sender m \<and> is_party d (m_thread m) (d_person r))
         (devices d)) (messages d)"

definition draft_sound :: "database \<Rightarrow> draft_row \<Rightarrow> bool" where
  "draft_sound d r \<longleftrightarrow> is_party d (dr_thread r) (dr_author r) \<and> (dr_state r = PendingReview \<longleftrightarrow> dr_decided r = None)"

definition relay_inv :: "database \<Rightarrow> bool" where
  "relay_inv d \<longleftrightarrow> schema_ok d \<and>
     list_all (\<lambda>m. is_party d (m_thread m) (m_sender m)) (messages d) \<and>
     list_all (delivery_to_other d) (deliveries d) \<and>
     list_all (draft_sound d) (drafts d) \<and>
     list_all (\<lambda>g. is_party d (g_thread g) (g_person g)) (grants d)"

lemma relay_inv_schema: "relay_inv d \<Longrightarrow> schema_ok d"
  by (simp add: relay_inv_def)

lemma relay_inv_empty: "relay_inv empty_db"
  using schema_ok_empty by (simp add: relay_inv_def) (simp add: empty_db_def)

text \<open>The invariant's four parts are kept when parties, messages and devices only grow.\<close>

lemma delivery_to_other_mono:
  assumes "delivery_to_other d dl"
    and "\<And>th p. is_party d th p \<Longrightarrow> is_party d' th p"
    and "\<And>m. m \<in> set (messages d) \<Longrightarrow> m_id m = dl_message dl \<Longrightarrow>
           \<exists>m' \<in> set (messages d'). m_id m' = m_id m \<and> m_thread m' = m_thread m \<and> m_sender m' = m_sender m"
    and "\<And>r. r \<in> set (devices d) \<Longrightarrow> \<exists>r' \<in> set (devices d'). d_id r' = d_id r \<and> d_person r' = d_person r"
  shows "delivery_to_other d' dl"
proof -
  obtain m r where m: "m \<in> set (messages d)" "m_id m = dl_message dl"
    and r: "r \<in> set (devices d)" "d_id r = dl_device dl" "d_person r \<noteq> m_sender m"
    and p: "is_party d (m_thread m) (d_person r)"
    using assms(1) by (auto simp: delivery_to_other_def)
  obtain m' where m': "m' \<in> set (messages d')" "m_id m' = m_id m" "m_thread m' = m_thread m" "m_sender m' = m_sender m"
    using assms(3) [OF m] by blast
  obtain r' where r': "r' \<in> set (devices d')" "d_id r' = d_id r" "d_person r' = d_person r"
    using assms(4) [OF r(1)] by blast
  have "is_party d' (m_thread m') (d_person r')" using assms(2) [OF p] m' r' by simp
  then show ?thesis
    unfolding delivery_to_other_def exists_row_iff
    using m m' r r' by (intro bexI [of _ m'] conjI bexI [of _ r']) simp_all
qed

lemma draft_sound_mono:
  "draft_sound d r \<Longrightarrow> (\<And>th p. is_party d th p \<Longrightarrow> is_party d' th p) \<Longrightarrow> draft_sound d' r"
  by (simp add: draft_sound_def)

lemma delivery_to_other_cong:
  "threads d' = threads d \<Longrightarrow> messages d' = messages d \<Longrightarrow> devices d' = devices d \<Longrightarrow>
   dl_message dl' = dl_message dl \<Longrightarrow> dl_device dl' = dl_device dl \<Longrightarrow>
   delivery_to_other d' dl' = delivery_to_other d dl"
  by (simp add: delivery_to_other_def is_party_def)

lemma is_party_cong: "threads d' = threads d \<Longrightarrow> is_party d' = is_party d"
  by (simp add: is_party_def fun_eq_iff)

lemma draft_sound_cong: "threads d' = threads d \<Longrightarrow> draft_sound d' = draft_sound d"
  by (simp add: draft_sound_def fun_eq_iff is_party_def)

text \<open>An operation that leaves threads, messages, devices, deliveries, drafts and grants alone.\<close>

lemma relay_inv_other:
  assumes "relay_inv d" "schema_ok d'" "threads d' = threads d" "messages d' = messages d"
    "devices d' = devices d" "deliveries d' = deliveries d" "drafts d' = drafts d" "grants d' = grants d"
  shows "relay_inv d'"
proof -
  have "delivery_to_other d' = delivery_to_other d"
    using assms by (simp add: fun_eq_iff delivery_to_other_def is_party_def)
  then show ?thesis
    using assms by (simp add: relay_inv_def is_party_cong [of d' d] draft_sound_cong [of d' d])
qed

text \<open>The parties of the threads when the state column is updated.\<close>

lemma is_party_set_state [simp]:
  "is_party (d\<lparr>threads := update_where P (\<lambda>r. r\<lparr>t_state := st, t_updated := n\<rparr>) ts\<rparr>) th p =
   is_party (d\<lparr>threads := ts\<rparr>) th p"
  by (induction ts) (simp_all add: is_party_def exists_row_def sql_simps)

lemma is_party_append_threads: "is_party d th p \<Longrightarrow> is_party (d\<lparr>threads := threads d @ new\<rparr>) th p"
  by (auto simp: is_party_def)

lemma is_party_frame [simp]:
  "is_party (d\<lparr>messages := x1\<rparr>) = is_party d"
  "is_party (d\<lparr>tombstones := x2\<rparr>) = is_party d"
  "is_party (d\<lparr>deliveries := x3\<rparr>) = is_party d"
  "is_party (d\<lparr>drafts := x4\<rparr>) = is_party d"
  "is_party (d\<lparr>grants := x5\<rparr>) = is_party d"
  "is_party (d\<lparr>devices := x6\<rparr>) = is_party d"
  "is_party (d\<lparr>threads := threads d\<rparr>) = is_party d"
  by (simp_all add: is_party_def fun_eq_iff)

section \<open>A sample database\<close>

text \<open>
  Two enrolled people with one device each and the thread between them, waiting for Bob to
  review; Alice's message is delivered to Bob's device. The witnesses run on it.
\<close>

definition sample_thread :: "thread_row" where
  "sample_thread = \<lparr>t_id = ''th'', t_initiator = ''alice'', t_recipient = ''bob'', t_state = ''input-required'',
     t_created = 100, t_updated = 100\<rparr>"

definition sample_message :: "message_row" where
  "sample_message = \<lparr>m_id = ''m1'', m_thread = ''th'', m_sender = ''alice'', m_envelope = ''{}'', m_sent = 100,
     m_received = 100, m_via_grant = 0\<rparr>"

definition sample_db :: database where
  "sample_db = empty_db\<lparr>
     persons := [\<lparr>p_id = ''alice'', p_email = ''a@x'', p_label = [], p_created = 0\<rparr>,
                 \<lparr>p_id = ''bob'', p_email = ''b@x'', p_label = [], p_created = 0\<rparr>],
     devices := [\<lparr>d_id = ''da'', d_person = ''alice'', d_pubkey = replicate 32 CHR ''a'', d_label = [], d_created = 0, d_revoked = None\<rparr>,
                 \<lparr>d_id = ''db'', d_person = ''bob'', d_pubkey = replicate 32 CHR ''b'', d_label = [], d_created = 0, d_revoked = None\<rparr>],
     threads := [sample_thread],
     messages := [sample_message],
     tombstones := [\<lparr>ts_id = ''m1'', ts_sent = 100\<rparr>],
     deliveries := [\<lparr>dl_message = ''m1'', dl_device = ''db'', dl_delivered = None, dl_acked = None\<rparr>]\<rparr>"

definition sample_store :: store where
  "sample_store = \<lparr>st_db = sample_db, st_begin_ok = True, st_commit_ok = True\<rparr>"

lemmas sample_simps = sample_db_def sample_thread_def sample_message_def empty_db_def

lemma sample_db_ok: "schema_ok sample_db"
  unfolding schema_ok_def
  by (intro conjI; simp add: table_ok_defs sample_simps has_person_def has_device_def has_thread_def has_message_def
    numeral_eq_Suc)

lemma sample_db_inv [simp]: "relay_inv sample_db"
  using sample_db_ok
  by (simp add: relay_inv_def) (simp add: sample_simps is_party_def delivery_to_other_def)

lemma sample_healthy [simp]: "healthy sample_store" "st_db sample_store = sample_db"
  by (simp_all add: sample_store_def healthy_def)

lemma sample_store_inv: "relay_inv (st_db sample_store)"
  by simp

end
