(* ===== verification/StoreMessage.thy ===== *)
theory StoreMessage
  imports StoreSchema "HOL-Library.List_Lexorder" "HOL-Library.Char_ord" "HOL-Library.Product_Lexorder"
begin

text \<open>
  Message ingest, delivery and acknowledgement: \<open>internal/relay/store/message.go\<close>.
  \<open>uuid_ok\<close> is the parameter for "\<open>uuid.Parse\<close> accepts" (a third-party package).
\<close>

section \<open>Operations\<close>

record freshness =
  MaxAge :: duration
  MaxSkew :: duration

record inbox_item =
  ii_ID :: string
  ii_ThreadID :: string
  ii_SenderID :: string
  ii_Envelope :: string
  ii_ReceivedAt :: instant

definition tombstoneSeen :: "database \<Rightarrow> string \<Rightarrow> bool" where
  "tombstoneSeen d i \<longleftrightarrow> select_first (\<lambda>r. ts_id r = i) (tombstones d) \<noteq> None"

definition ensureThread :: "envelope \<Rightarrow> string \<Rightarrow> instant \<Rightarrow> database \<Rightarrow> store_error + database" where
  "ensureThread e senderID now d =
     (case select_first (\<lambda>r. t_id r = env_Thread e) (threads d) of
        None \<Rightarrow> exec (d\<lparr>threads := threads d @
          [\<lparr>t_id = env_Thread e, t_initiator = senderID, t_recipient = env_To e,
            t_state = StateInputRequired, t_created = unix_sec now, t_updated = unix_sec now\<rparr>]\<rparr>)
      | Some t \<Rightarrow>
          if (senderID = t_initiator t \<and> env_To e = t_recipient t) \<or>
             (senderID = t_recipient t \<and> env_To e = t_initiator t)
          then Inr d else Inl ErrNotParticipant)"

fun insert_deliveries :: "string \<Rightarrow> string list \<Rightarrow> database \<Rightarrow> store_error + database" where
  "insert_deliveries messageID [] d = Inr d"
| "insert_deliveries messageID (i # is) d =
     rbind (exec (d\<lparr>deliveries := deliveries d @
         [\<lparr>dl_message = messageID, dl_device = i, dl_delivered = None, dl_acked = None\<rparr>]\<rparr>))
       (insert_deliveries messageID is)"

definition active_devices :: "database \<Rightarrow> string \<Rightarrow> string list" where
  "active_devices d person = map d_id (filter (\<lambda>r. d_person r = person \<and> d_revoked r = None) (devices d))"

definition fanOutDeliveries :: "string \<Rightarrow> string \<Rightarrow> database \<Rightarrow> store_error + database" where
  "fanOutDeliveries messageID recipientID d = insert_deliveries messageID (active_devices d recipientID) d"

definition insert_message :: "envelope \<Rightarrow> string \<Rightarrow> string \<Rightarrow> instant \<Rightarrow> database \<Rightarrow> store_error + database" where
  "insert_message e senderID blob now d =
     exec (d\<lparr>messages := messages d @
       [\<lparr>m_id = env_ID e, m_thread = env_Thread e, m_sender = senderID, m_envelope = blob,
         m_sent = unix_sec (t_ns (env_SentAt e)), m_received = unix_sec now, m_via_grant = 0\<rparr>]\<rparr>)"

definition insert_tombstone :: "envelope \<Rightarrow> database \<Rightarrow> store_error + database" where
  "insert_tombstone e d =
     exec (d\<lparr>tombstones := tombstones d @ [\<lparr>ts_id = env_ID e, ts_sent = unix_sec (t_ns (env_SentAt e))\<rparr>]\<rparr>)"

text \<open>\<open>UPDATE threads SET state=?, updated_at=? WHERE id=?\<close>\<close>

definition set_thread_state :: "string \<Rightarrow> thread_state \<Rightarrow> instant \<Rightarrow> database \<Rightarrow> store_error + database" where
  "set_thread_state i st now d =
     exec (d\<lparr>threads := update_where (\<lambda>r. t_id r = i)
       (\<lambda>r. r\<lparr>t_state := st, t_updated := unix_sec now\<rparr>) (threads d)\<rparr>)"

definition ingestTx :: "envelope \<Rightarrow> string \<Rightarrow> instant \<Rightarrow> database \<Rightarrow> store_error + database" where
  "ingestTx e senderID now d =
     (if tombstoneSeen d (env_ID e) then Inl ErrReplay
      else rbind (ensureThread e senderID now d) (\<lambda>d.
        case Marshal e of None \<Rightarrow> Inl (EnvErr ErrSerialize)
        | Some blob \<Rightarrow>
            rbind (insert_message e senderID blob now d) (\<lambda>d.
            rbind (insert_tombstone e d) (\<lambda>d.
            rbind (set_thread_state (env_Thread e) StateInputRequired now d) (\<lambda>d.
              fanOutDeliveries (env_ID e) (env_To e) d)))))"

text \<open>A body without a result, for \<open>writeTx\<close>.\<close>

definition unit_tx :: "(database \<Rightarrow> store_error + database) \<Rightarrow> unit tx" where
  "unit_tx f d = rbind (f d) (\<lambda>d'. Inr ((), d'))"

definition fresh_at :: "freshness \<Rightarrow> instant \<Rightarrow> instant \<Rightarrow> bool" where
  "fresh_at fresh now sent \<longleftrightarrow> \<not> (sent < now - MaxAge fresh \<or> now + MaxSkew fresh < sent)"

definition IngestMessage :: "(string \<Rightarrow> bool) \<Rightarrow> envelope \<Rightarrow> string \<Rightarrow> freshness \<Rightarrow> instant \<Rightarrow>
    store \<Rightarrow> (store_error + unit) \<times> store" where
  "IngestMessage uuid_ok e senderID fresh now s =
     (if \<not> uuid_ok (env_ID e) then (Inl ErrReplay, s)
      else if \<not> fresh_at fresh now (t_ns (env_SentAt e)) then (Inl ErrNotFresh, s)
      else writeTx (unit_tx (ingestTx e senderID now)) s)"

text \<open>\<open>Inbox\<close>: the messages with an unacknowledged delivery to a device, oldest first.\<close>

definition Inbox :: "string \<Rightarrow> database \<Rightarrow> inbox_item list" where
  "Inbox deviceID d =
     map (\<lambda>m. \<lparr>ii_ID = m_id m, ii_ThreadID = m_thread m, ii_SenderID = m_sender m,
               ii_Envelope = m_envelope m, ii_ReceivedAt = from_unix (m_received m)\<rparr>)
       (sort_key (\<lambda>m. (m_received m, m_id m))
         [m. m \<leftarrow> messages d, dl \<leftarrow> deliveries d,
             dl_message dl = m_id m \<and> dl_device dl = deviceID \<and> dl_acked dl = None])"

definition requireDelivery :: "string \<Rightarrow> string \<Rightarrow> database \<Rightarrow> store_error + unit" where
  "requireDelivery messageID deviceID d =
     (case select_first (\<lambda>r. dl_message r = messageID \<and> dl_device r = deviceID) (deliveries d) of
        None \<Rightarrow> Inl ErrNotFound | Some _ \<Rightarrow> Inr ())"

definition coalesce :: "int option \<Rightarrow> int \<Rightarrow> int option" where
  "coalesce x v = (case x of None \<Rightarrow> Some v | Some w \<Rightarrow> Some w)"

definition markDeliveredTx :: "string \<Rightarrow> string \<Rightarrow> instant \<Rightarrow> database \<Rightarrow> store_error + database" where
  "markDeliveredTx messageID deviceID now d =
     rbind (requireDelivery messageID deviceID d) (\<lambda>_.
       exec (d\<lparr>deliveries := update_where (\<lambda>r. dl_message r = messageID \<and> dl_device r = deviceID)
         (\<lambda>r. r\<lparr>dl_delivered := coalesce (dl_delivered r) (unix_sec now)\<rparr>) (deliveries d)\<rparr>))"

definition MarkDelivered :: "string \<Rightarrow> string \<Rightarrow> instant \<Rightarrow> store \<Rightarrow> (store_error + unit) \<times> store" where
  "MarkDelivered messageID deviceID now = writeTx (unit_tx (markDeliveredTx messageID deviceID now))"

definition ackTx :: "string \<Rightarrow> string \<Rightarrow> instant \<Rightarrow> database \<Rightarrow> store_error + database" where
  "ackTx messageID deviceID now d =
     rbind (requireDelivery messageID deviceID d) (\<lambda>_.
       exec (d\<lparr>deliveries := update_where (\<lambda>r. dl_message r = messageID \<and> dl_device r = deviceID)
         (\<lambda>r. r\<lparr>dl_acked := coalesce (dl_acked r) (unix_sec now),
               dl_delivered := coalesce (dl_delivered r) (unix_sec now)\<rparr>) (deliveries d)\<rparr>))"

definition Ack :: "string \<Rightarrow> string \<Rightarrow> instant \<Rightarrow> store \<Rightarrow> (store_error + unit) \<times> store" where
  "Ack messageID deviceID now = writeTx (unit_tx (ackTx messageID deviceID now))"

section \<open>Ingest: what a successful transaction did\<close>

lemma unit_tx_Inr [simp]: "unit_tx f d = Inr (u, d') \<longleftrightarrow> f d = Inr d'"
  by (auto simp: unit_tx_def rbind_Inr_iff)

lemma unit_tx_Inl [simp]: "unit_tx f d = Inl e \<longleftrightarrow> f d = Inl e"
  by (auto simp: unit_tx_def rbind_Inl_iff)

lemma tombstoneSeen_iff: "tombstoneSeen d i \<longleftrightarrow> i \<in> ts_id ` set (tombstones d)"
  using select_first_None [of "\<lambda>r. ts_id r = i" "tombstones d"]
  by (auto simp: tombstoneSeen_def image_iff)

lemma insert_deliveries_Inr:
  "insert_deliveries mid is d = Inr d' \<Longrightarrow>
     d' = d\<lparr>deliveries := deliveries d @
       map (\<lambda>i. \<lparr>dl_message = mid, dl_device = i, dl_delivered = None, dl_acked = None\<rparr>) is\<rparr> \<and>
     (schema_ok d \<longrightarrow> schema_ok d')"
proof (induction "is" arbitrary: d)
  case Nil
  then show ?case by simp
next
  case (Cons i "is")
  from Cons.prems obtain d1 where
    d1: "d1 = d\<lparr>deliveries := deliveries d @ [\<lparr>dl_message = mid, dl_device = i, dl_delivered = None, dl_acked = None\<rparr>]\<rparr>"
    and ok: "schema_ok d1" and rest: "insert_deliveries mid is d1 = Inr d'"
    by (auto simp: rbind_Inr_iff exec_Inr)
  from Cons.IH [OF rest] ok show ?case by (auto simp: d1)
qed

text \<open>The thread a message joins: the existing one, or the one its first message creates.\<close>

definition thread_of :: "envelope \<Rightarrow> string \<Rightarrow> instant \<Rightarrow> database \<Rightarrow> thread_row" where
  "thread_of e senderID now d =
     (case select_first (\<lambda>r. t_id r = env_Thread e) (threads d) of
        Some t \<Rightarrow> t
      | None \<Rightarrow> \<lparr>t_id = env_Thread e, t_initiator = senderID, t_recipient = env_To e,
           t_state = StateInputRequired, t_created = unix_sec now, t_updated = unix_sec now\<rparr>)"

lemma ensureThread_Inr:
  assumes "ensureThread e sender now d = Inr d'"
  shows "\<exists>new. d' = d\<lparr>threads := threads d @ new\<rparr> \<and>
     new = (if select_first (\<lambda>r. t_id r = env_Thread e) (threads d) = None then [thread_of e sender now d] else []) \<and>
     {sender, env_To e} = {t_initiator (thread_of e sender now d), t_recipient (thread_of e sender now d)} \<and>
     (schema_ok d \<longrightarrow> schema_ok d')"
  using assms
  by (auto simp: ensureThread_def thread_of_def exec_Inr split: option.splits if_splits)

definition ingested :: "envelope \<Rightarrow> string \<Rightarrow> instant \<Rightarrow> string \<Rightarrow> message_row" where
  "ingested e senderID now blob =
     \<lparr>m_id = env_ID e, m_thread = env_Thread e, m_sender = senderID, m_envelope = blob,
      m_sent = unix_sec (t_ns (env_SentAt e)), m_received = unix_sec now, m_via_grant = 0\<rparr>"

lemma ingestTx_Inr:
  assumes "ingestTx e sender now d = Inr d'"
  obtains blob new where "Marshal e = Some blob"
    and "\<not> tombstoneSeen d (env_ID e)"
    and "new = (if select_first (\<lambda>r. t_id r = env_Thread e) (threads d) = None then [thread_of e sender now d] else [])"
    and "{sender, env_To e} = {t_initiator (thread_of e sender now d), t_recipient (thread_of e sender now d)}"
    and "d' = d\<lparr>messages := messages d @ [ingested e sender now blob],
                tombstones := tombstones d @ [\<lparr>ts_id = env_ID e, ts_sent = unix_sec (t_ns (env_SentAt e))\<rparr>],
                threads := update_where (\<lambda>r. t_id r = env_Thread e)
                   (\<lambda>r. r\<lparr>t_state := StateInputRequired, t_updated := unix_sec now\<rparr>) (threads d @ new),
                deliveries := deliveries d @
                  map (\<lambda>i. \<lparr>dl_message = env_ID e, dl_device = i, dl_delivered = None, dl_acked = None\<rparr>)
                    (active_devices d (env_To e))\<rparr>"
    and "schema_ok d'"
proof -
  from assms have fresh: "\<not> tombstoneSeen d (env_ID e)"
    by (auto simp: ingestTx_def split: if_splits)
  with assms obtain d1 blob d2 d3 d4 where
    d1: "ensureThread e sender now d = Inr d1" and blob: "Marshal e = Some blob"
    and d2: "insert_message e sender blob now d1 = Inr d2" and d3: "insert_tombstone e d2 = Inr d3"
    and d4: "set_thread_state (env_Thread e) StateInputRequired now d3 = Inr d4"
    and d': "fanOutDeliveries (env_ID e) (env_To e) d4 = Inr d'"
    by (auto simp: ingestTx_def rbind_Inr_iff split: option.splits)
  obtain new where new: "d1 = d\<lparr>threads := threads d @ new\<rparr>"
      "new = (if select_first (\<lambda>r. t_id r = env_Thread e) (threads d) = None then [thread_of e sender now d] else [])"
      "{sender, env_To e} = {t_initiator (thread_of e sender now d), t_recipient (thread_of e sender now d)}"
    using ensureThread_Inr [OF d1] by blast
  have e2: "d2 = d1\<lparr>messages := messages d1 @ [ingested e sender now blob]\<rparr>"
    using d2 by (simp add: insert_message_def exec_Inr ingested_def)
  have e3: "d3 = d2\<lparr>tombstones := tombstones d2 @ [\<lparr>ts_id = env_ID e, ts_sent = unix_sec (t_ns (env_SentAt e))\<rparr>]\<rparr>"
    using d3 by (simp add: insert_tombstone_def exec_Inr)
  have e4: "d4 = d3\<lparr>threads := update_where (\<lambda>r. t_id r = env_Thread e)
      (\<lambda>r. r\<lparr>t_state := StateInputRequired, t_updated := unix_sec now\<rparr>) (threads d3)\<rparr>" and ok4: "schema_ok d4"
    using d4 by (simp_all add: set_thread_state_def exec_Inr)
  have act: "active_devices d4 (env_To e) = active_devices d (env_To e)"
    by (simp add: active_devices_def e4 e3 e2 new(1))
  note dl = insert_deliveries_Inr [OF d' [unfolded fanOutDeliveries_def]]
  have ok': "schema_ok d'" using dl ok4 by blast
  show ?thesis
  proof (rule that [OF blob fresh new(2,3) _ ok'])
    show "d' = d\<lparr>messages := messages d @ [ingested e sender now blob],
                tombstones := tombstones d @ [\<lparr>ts_id = env_ID e, ts_sent = unix_sec (t_ns (env_SentAt e))\<rparr>],
                threads := update_where (\<lambda>r. t_id r = env_Thread e)
                   (\<lambda>r. r\<lparr>t_state := StateInputRequired, t_updated := unix_sec now\<rparr>) (threads d @ new),
                deliveries := deliveries d @
                  map (\<lambda>i. \<lparr>dl_message = env_ID e, dl_device = i, dl_delivered = None, dl_acked = None\<rparr>)
                    (active_devices d (env_To e))\<rparr>"
      using dl by (simp add: act) (simp add: e4 e3 e2 new(1))
  qed
qed

section \<open>Ingest keeps the relay's invariant\<close>

lemma ingest_party_mono:
  "is_party d th p \<Longrightarrow>
   is_party (d\<lparr>messages := ms, tombstones := tb, threads := update_where Q (\<lambda>r. r\<lparr>t_state := st, t_updated := n\<rparr>) (threads d @ new),
              deliveries := dl\<rparr>) th p"
  using is_party_set_state [where d = "d\<lparr>messages := ms, tombstones := tb, deliveries := dl\<rparr>" and P = Q
      and st = st and n = n and ts = "threads d @ new" and th = th and p = p]
    is_party_append_threads [of d th p new]
  by (simp add: is_party_def)

text \<open>Both ends of an ingested message are the two parties of its thread.\<close>

lemma thread_of_in:
  assumes "new = (if select_first (\<lambda>r. t_id r = env_Thread e) (threads d) = None then [thread_of e sender now d] else [])"
  shows "thread_of e sender now d \<in> set (threads d @ new) \<and> t_id (thread_of e sender now d) = env_Thread e"
  using assms by (auto simp: thread_of_def split: option.splits dest: select_first_Some)

lemma ingest_parties:
  assumes "new = (if select_first (\<lambda>r. t_id r = env_Thread e) (threads d) = None then [thread_of e sender now d] else [])"
    and "{sender, env_To e} = {t_initiator (thread_of e sender now d), t_recipient (thread_of e sender now d)}"
    and "threads d' = update_where (\<lambda>r. t_id r = env_Thread e)
           (\<lambda>r. r\<lparr>t_state := StateInputRequired, t_updated := unix_sec now\<rparr>) (threads d @ new)"
    and "schema_ok d'"
  shows "is_party d' (env_Thread e) sender" "is_party d' (env_Thread e) (env_To e)" "sender \<noteq> env_To e"
proof -
  let ?t = "thread_of e sender now d"
  let ?u = "?t\<lparr>t_state := StateInputRequired, t_updated := unix_sec now\<rparr>"
  have t: "?t \<in> set (threads d @ new)" "t_id ?t = env_Thread e" using thread_of_in [OF assms(1)] by auto
  have u: "?u \<in> set (threads d')"
    using in_update_whereI [OF t(1), of "\<lambda>r. t_id r = env_Thread e" "\<lambda>r. r\<lparr>t_state := StateInputRequired, t_updated := unix_sec now\<rparr>"]
      t(2) by (simp add: assms(3))
  then have "t_initiator ?u \<noteq> t_recipient ?u"
    using schema_okD(4) [OF assms(4)] by (auto simp: threads_ok_def list_all_iff)
  then show "sender \<noteq> env_To e" using assms(2) by (auto simp: doubleton_eq_iff)
  have "t_id ?u = env_Thread e" using t(2) by simp
  with u have "is_party d' (env_Thread e) p" if "p = t_initiator ?u \<or> p = t_recipient ?u" for p
    using that unfolding is_party_def exists_row_iff by (intro bexI [OF _ u]) auto
  then show "is_party d' (env_Thread e) sender" "is_party d' (env_Thread e) (env_To e)"
    using assms(2) by (auto simp: doubleton_eq_iff)
qed

text \<open>A thread row is determined by its id, so its parties are the only ones.\<close>

lemma is_party_unique:
  assumes "schema_ok d" "t \<in> set (threads d)" "t_id t = th" "is_party d th p"
  shows "p \<in> {t_initiator t, t_recipient t}"
proof -
  obtain t' where t': "t' \<in> set (threads d)" "t_id t' = th" "t_initiator t' = p \<or> t_recipient t' = p"
    using assms(4) by (auto simp: is_party_def)
  have "t' = t"
    using distinct_key_unique [of t_id "threads d" t' t] schema_okD(4) [OF assms(1)] t' assms(2,3)
    by (simp add: threads_ok_def)
  with t'(3) show ?thesis by auto
qed

lemma ingest_keeps_inv:
  assumes inv: "relay_inv d" and run: "ingestTx e sender now d = Inr d'"
  shows "relay_inv d'"
proof -
  from run obtain blob new where
    new: "new = (if select_first (\<lambda>r. t_id r = env_Thread e) (threads d) = None then [thread_of e sender now d] else [])"
    and parts: "{sender, env_To e} = {t_initiator (thread_of e sender now d), t_recipient (thread_of e sender now d)}"
    and d': "d' = d\<lparr>messages := messages d @ [ingested e sender now blob],
                tombstones := tombstones d @ [\<lparr>ts_id = env_ID e, ts_sent = unix_sec (t_ns (env_SentAt e))\<rparr>],
                threads := update_where (\<lambda>r. t_id r = env_Thread e)
                   (\<lambda>r. r\<lparr>t_state := StateInputRequired, t_updated := unix_sec now\<rparr>) (threads d @ new),
                deliveries := deliveries d @
                  map (\<lambda>i. \<lparr>dl_message = env_ID e, dl_device = i, dl_delivered = None, dl_acked = None\<rparr>)
                    (active_devices d (env_To e))\<rparr>"
    and ok: "schema_ok d'"
    by (elim ingestTx_Inr) blast
  have mono: "is_party d' th p" if "is_party d th p" for th p
    unfolding d' by (rule ingest_party_mono [OF that])
  note both = ingest_parties [OF new parts _ ok]
  have party: "is_party d' (env_Thread e) sender" "is_party d' (env_Thread e) (env_To e)" "sender \<noteq> env_To e"
    by (rule both, simp add: d')+
  have old: "delivery_to_other d' dl" if "dl \<in> set (deliveries d)" for dl
  proof (rule delivery_to_other_mono [where d = d])
    show "delivery_to_other d dl" using inv that by (simp add: relay_inv_def list_all_iff)
  qed (auto simp: mono, auto simp: d')
  have fresh: "delivery_to_other d' \<lparr>dl_message = env_ID e, dl_device = d_id r, dl_delivered = None, dl_acked = None\<rparr>"
    if "r \<in> set (devices d)" "d_person r = env_To e" for r
    unfolding delivery_to_other_def exists_row_iff
    using that party
    by (intro bexI [of _ "ingested e sender now blob"] conjI bexI [of _ r]) (auto simp: ingested_def d')
  show ?thesis
    unfolding relay_inv_def list_all_iff
  proof (intro conjI ballI)
    show "schema_ok d'" by (rule ok)
    show "is_party d' (m_thread m) (m_sender m)" if "m \<in> set (messages d')" for m
      using that inv party(1) mono by (auto simp: d' [THEN arg_cong [of _ _ messages]] ingested_def relay_inv_def list_all_iff)
    show "delivery_to_other d' dl" if "dl \<in> set (deliveries d')" for dl
      using that old fresh by (auto simp: d' [THEN arg_cong [of _ _ deliveries]] active_devices_def)
    show "draft_sound d' r" if "r \<in> set (drafts d')" for r
      using that inv mono by (auto simp: d' [THEN arg_cong [of _ _ drafts]] relay_inv_def list_all_iff intro: draft_sound_mono)
    show "is_party d' (g_thread g) (g_person g)" if "g \<in> set (grants d')" for g
      using that inv mono by (auto simp: d' [THEN arg_cong [of _ _ grants]] relay_inv_def list_all_iff)
  qed
qed

interpretation ingest_tx: tx_keeps "unit_tx (ingestTx e sender now)" relay_inv for e sender now
  by unfold_locales (auto intro: ingest_keeps_inv)

section \<open>Delivery marks\<close>

text \<open>An update of delivery rows that keeps their key never violates a constraint.\<close>

lemma deliveries_update_schema:
  assumes "schema_ok d" and key: "\<And>r. P r \<Longrightarrow> dl_message (f r) = dl_message r \<and> dl_device (f r) = dl_device r"
  shows "schema_ok (d\<lparr>deliveries := update_where P f (deliveries d)\<rparr>)" (is "schema_ok ?d")
proof -
  have "map (\<lambda>r. (dl_message r, dl_device r)) (update_where P f (deliveries d)) =
        map (\<lambda>r. (dl_message r, dl_device r)) (deliveries d)"
    by (rule map_update_where_key) (simp add: key)
  then have "deliveries_ok ?d"
    using schema_okD(7) [OF assms(1)] key
    by (auto simp: deliveries_ok_def list_all_iff elim!: in_update_whereE)
  then show ?thesis by (intro schema_ok_step [OF assms(1)]) (simp_all add: keys_grow_def)
qed

lemma deliveries_update_inv:
  assumes "relay_inv d" and key: "\<And>r. P r \<Longrightarrow> dl_message (f r) = dl_message r \<and> dl_device (f r) = dl_device r"
  shows "relay_inv (d\<lparr>deliveries := update_where P f (deliveries d)\<rparr>)" (is "relay_inv ?d")
proof -
  have c: "delivery_to_other ?d dl' = delivery_to_other d dl"
    if "dl_message dl' = dl_message dl" "dl_device dl' = dl_device dl" for dl dl'
    using that by (intro delivery_to_other_cong) simp_all
  have "delivery_to_other ?d x" if "x \<in> set (update_where P f (deliveries d))" for x
    using that
  proof (rule in_update_whereE)
    fix r assume r: "r \<in> set (deliveries d)" "x = (if P r then f r else r)"
    then have "delivery_to_other ?d x = delivery_to_other d r" using key by (intro c) auto
    with r assms(1) show ?thesis by (simp add: relay_inv_def list_all_iff)
  qed
  moreover have "draft_sound ?d = draft_sound d" by (rule draft_sound_cong) simp
  moreover have "schema_ok ?d" using assms by (intro deliveries_update_schema) (auto simp: relay_inv_def)
  ultimately show ?thesis
    using assms(1) by (simp add: relay_inv_def list_all_iff)
qed

definition delivery_key :: "string \<Rightarrow> string \<Rightarrow> delivery_row \<Rightarrow> bool" where
  "delivery_key messageID deviceID r \<longleftrightarrow> dl_message r = messageID \<and> dl_device r = deviceID"

lemma requireDelivery_iff:
  "requireDelivery mid dev d = (if \<exists>r \<in> set (deliveries d). delivery_key mid dev r then Inr () else Inl ErrNotFound)"
  using select_first_None [of "\<lambda>r. dl_message r = mid \<and> dl_device r = dev" "deliveries d"]
  by (auto simp: requireDelivery_def delivery_key_def split: option.splits)

definition acked_at :: "int \<Rightarrow> delivery_row \<Rightarrow> delivery_row" where
  "acked_at n r = r\<lparr>dl_acked := coalesce (dl_acked r) n, dl_delivered := coalesce (dl_delivered r) n\<rparr>"

lemma ackTx_eq:
  assumes "relay_inv d"
  shows "ackTx mid dev now d =
    (if \<exists>r \<in> set (deliveries d). delivery_key mid dev r
     then Inr (d\<lparr>deliveries := update_where (delivery_key mid dev) (acked_at (unix_sec now)) (deliveries d)\<rparr>)
     else Inl ErrNotFound)"
proof -
  have eq: "(\<lambda>r. dl_message r = mid \<and> dl_device r = dev) = delivery_key mid dev"
    "(\<lambda>r. r\<lparr>dl_acked := coalesce (dl_acked r) n, dl_delivered := coalesce (dl_delivered r) n\<rparr>) = acked_at n" for n
    by (auto simp: delivery_key_def acked_at_def)
  have "schema_ok (d\<lparr>deliveries := update_where (delivery_key mid dev) (acked_at (unix_sec now)) (deliveries d)\<rparr>)"
    using assms by (intro deliveries_update_schema) (auto simp: relay_inv_def acked_at_def)
  then show ?thesis by (simp add: ackTx_def requireDelivery_iff eq)
qed

lemma ackTx_inv: "relay_inv d \<Longrightarrow> ackTx mid dev now d = Inr d' \<Longrightarrow> relay_inv d'"
  by (auto simp: ackTx_eq acked_at_def intro!: deliveries_update_inv split: if_splits)

lemma markDeliveredTx_inv: "relay_inv d \<Longrightarrow> markDeliveredTx mid dev now d = Inr d' \<Longrightarrow> relay_inv d'"
  by (auto simp: markDeliveredTx_def rbind_Inr_iff exec_Inr intro!: deliveries_update_inv)

interpretation ack_tx: tx_keeps "unit_tx (ackTx mid dev now)" relay_inv for mid dev now
  by unfold_locales (auto intro: ackTx_inv)

interpretation mark_tx: tx_keeps "unit_tx (markDeliveredTx mid dev now)" relay_inv for mid dev now
  by unfold_locales (auto intro: markDeliveredTx_inv)

lemma coalesce_idem [simp]: "coalesce (coalesce x n) m = coalesce x n"
  by (simp add: coalesce_def split: option.splits)

lemma acked_at_idem [simp]: "acked_at m (acked_at n r) = acked_at n r"
  by (simp add: acked_at_def)

lemma ack_twice:
  "update_where (delivery_key mid dev) (acked_at m) (update_where (delivery_key mid dev) (acked_at n) rows) =
   update_where (delivery_key mid dev) (acked_at n) rows"
  by (induction rows) (auto simp: sql_simps delivery_key_def acked_at_def)

text \<open>The inbox of a device, as a set of message rows.\<close>

definition waiting :: "database \<Rightarrow> string \<Rightarrow> message_row \<Rightarrow> bool" where
  "waiting d dev m \<longleftrightarrow> m \<in> set (messages d) \<and>
     (\<exists>dl \<in> set (deliveries d). delivery_key (m_id m) dev dl \<and> dl_acked dl = None)"

lemma inbox_ids: "ii_ID ` set (Inbox dev d) = {m_id m |m. waiting d dev m}"
  by (force simp: Inbox_def waiting_def delivery_key_def image_iff)

lemma ack_removes:
  "ii_ID ` set (Inbox dev' (d\<lparr>deliveries := update_where (delivery_key mid dev) (acked_at n) (deliveries d)\<rparr>)) =
   (if dev' = dev then ii_ID ` set (Inbox dev' d) - {mid} else ii_ID ` set (Inbox dev' d))"
proof -
  have keep: "(\<exists>dl \<in> set (update_where (delivery_key mid dev) (acked_at n) (deliveries d)).
        delivery_key i dev' dl \<and> dl_acked dl = None) \<longleftrightarrow>
      (\<exists>dl \<in> set (deliveries d). delivery_key i dev' dl \<and> dl_acked dl = None) \<and> \<not> (dev' = dev \<and> i = mid)" for i
    by (induction "deliveries d")
      (auto simp: set_update_where delivery_key_def acked_at_def coalesce_def split: option.splits)
  have w: "waiting (d\<lparr>deliveries := update_where (delivery_key mid dev) (acked_at n) (deliveries d)\<rparr>) dev' m \<longleftrightarrow>
      waiting d dev' m \<and> \<not> (dev' = dev \<and> m_id m = mid)" for m
    by (simp add: waiting_def keep)
  show ?thesis by (auto simp: inbox_ids w)
qed

section \<open>When ingest succeeds\<close>

text \<open>The constraints each inserted row has to satisfy.\<close>

lemma schema_add_thread:
  assumes "schema_ok d"
  shows "schema_ok (d\<lparr>threads := threads d @ [t]\<rparr>) \<longleftrightarrow>
    \<not> has_thread d (t_id t) \<and> has_person d (t_initiator t) \<and> has_person d (t_recipient t) \<and>
    t_initiator t \<noteq> t_recipient t \<and>
    validState (t_state t)" (is "schema_ok ?d \<longleftrightarrow> ?C")
proof -
  have c: "threads_ok ?d \<longleftrightarrow> ?C"
    using schema_okD(4) [OF assms] by (auto simp: threads_ok_alt has_thread_def image_iff)
  have "schema_ok ?d" if ?C
    using that c by (intro schema_ok_step [OF assms]) (auto simp: keys_grow_def has_thread_def)
  with c show ?thesis by (auto simp: schema_ok_def)
qed

lemma schema_add_message:
  assumes "schema_ok d"
  shows "schema_ok (d\<lparr>messages := messages d @ [m]\<rparr>) \<longleftrightarrow>
    \<not> has_message d (m_id m) \<and> has_thread d (m_thread m) \<and> has_person d (m_sender m) \<and> m_via_grant m \<in> {0, 1}"
    (is "schema_ok ?d \<longleftrightarrow> ?C")
proof -
  have c: "messages_ok ?d \<longleftrightarrow> ?C"
    using schema_okD(5) [OF assms] by (auto simp: messages_ok_def has_message_def image_iff)
  have "schema_ok ?d" if ?C
    using that c by (intro schema_ok_step [OF assms]) (auto simp: keys_grow_def has_message_def)
  with c show ?thesis by (auto simp: schema_ok_def)
qed

lemma schema_add_tombstone:
  assumes "schema_ok d"
  shows "schema_ok (d\<lparr>tombstones := tombstones d @ [ts]\<rparr>) \<longleftrightarrow> ts_id ts \<notin> ts_id ` set (tombstones d)"
    (is "schema_ok ?d \<longleftrightarrow> ?C")
proof -
  have c: "tombstones_ok ?d \<longleftrightarrow> ?C"
    using schema_okD(6) [OF assms] by (auto simp: tombstones_ok_def)
  have "schema_ok ?d" if ?C
    using that c by (intro schema_ok_step [OF assms]) (auto simp: keys_grow_def)
  with c show ?thesis by (auto simp: schema_ok_def)
qed

lemma schema_add_delivery:
  assumes "schema_ok d"
  shows "schema_ok (d\<lparr>deliveries := deliveries d @ [dl]\<rparr>) \<longleftrightarrow>
    \<not> (\<exists>r \<in> set (deliveries d). delivery_key (dl_message dl) (dl_device dl) r) \<and>
    has_message d (dl_message dl) \<and> has_device d (dl_device dl)"
    (is "schema_ok ?d \<longleftrightarrow> ?C")
proof -
  have c: "deliveries_ok ?d \<longleftrightarrow> ?C"
    using schema_okD(7) [OF assms] by (auto simp: deliveries_ok_def delivery_key_def image_iff)
  have "schema_ok ?d" if ?C
    using that c by (intro schema_ok_step [OF assms]) (auto simp: keys_grow_def)
  with c show ?thesis by (auto simp: schema_ok_def)
qed

lemma schema_set_thread_state:
  assumes "schema_ok d" "validState st"
  shows "schema_ok (d\<lparr>threads := update_where P (\<lambda>r. r\<lparr>t_state := st, t_updated := n\<rparr>) (threads d)\<rparr>)"
    (is "schema_ok ?d")
proof -
  have ids: "map t_id (update_where P (\<lambda>r. r\<lparr>t_state := st, t_updated := n\<rparr>) (threads d)) = map t_id (threads d)"
    by (rule map_update_where_key) simp
  then have "threads_ok ?d"
    using schema_okD(4) [OF assms(1)] assms(2)
    by (auto simp: threads_ok_alt intro: list_all_update_where)
  then show ?thesis
    using ids by (intro schema_ok_step [OF assms(1)]) (simp_all add: keys_grow_def has_thread_iff del: set_map)
qed

lemma set_thread_state_valid:
  "schema_ok d \<Longrightarrow> validState st \<Longrightarrow> set_thread_state i st now d =
     Inr (d\<lparr>threads := update_where (\<lambda>r. t_id r = i) (\<lambda>r. r\<lparr>t_state := st, t_updated := unix_sec now\<rparr>) (threads d)\<rparr>)"
  by (simp add: set_thread_state_def schema_set_thread_state)

lemma insert_deliveries_ok:
  "schema_ok d \<Longrightarrow> has_message d mid \<Longrightarrow> distinct is \<Longrightarrow> (\<And>i. i \<in> set is \<Longrightarrow> has_device d i) \<Longrightarrow>
   (\<And>r i. r \<in> set (deliveries d) \<Longrightarrow> i \<in> set is \<Longrightarrow> \<not> delivery_key mid i r) \<Longrightarrow>
   \<exists>d'. insert_deliveries mid is d = Inr d'"
proof (induction "is" arbitrary: d)
  case Nil
  then show ?case by simp
next
  case (Cons i "is")
  let ?d = "d\<lparr>deliveries := deliveries d @ [\<lparr>dl_message = mid, dl_device = i, dl_delivered = None, dl_acked = None\<rparr>]\<rparr>"
  have ok: "schema_ok ?d"
    using Cons.prems by (subst schema_add_delivery) auto
  have "\<exists>d'. insert_deliveries mid is ?d = Inr d'"
    using Cons.prems by (intro Cons.IH [OF ok]) (auto simp: has_message_def has_device_def delivery_key_def)
  then show ?case using ok by simp
qed

text \<open>The conditions under which a message joins a thread.\<close>

definition may_join :: "envelope \<Rightarrow> string \<Rightarrow> database \<Rightarrow> bool" where
  "may_join e sender d \<longleftrightarrow>
     (case select_first (\<lambda>r. t_id r = env_Thread e) (threads d) of
        None \<Rightarrow> has_person d sender \<and> has_person d (env_To e) \<and> sender \<noteq> env_To e
      | Some t \<Rightarrow> {sender, env_To e} = {t_initiator t, t_recipient t})"

lemma ensureThread_iff:
  assumes "schema_ok d"
  shows "(\<exists>d'. ensureThread e sender now d = Inr d') \<longleftrightarrow> may_join e sender d"
proof (cases "select_first (\<lambda>r. t_id r = env_Thread e) (threads d)")
  case None
  then have "\<not> has_thread d (env_Thread e)" by (auto simp: has_thread_def select_first_None)
  with None show ?thesis
    by (simp add: ensureThread_def may_join_def exec_Inr schema_add_thread [OF assms])
next
  case (Some t)
  then show ?thesis by (auto simp: ensureThread_def may_join_def doubleton_eq_iff)
qed

lemma ensureThread_has:
  assumes "schema_ok d" "ensureThread e sender now d = Inr d'"
  shows "has_thread d' (env_Thread e)" "has_person d' sender"
proof -
  obtain new where new: "d' = d\<lparr>threads := threads d @ new\<rparr>"
      "new = (if select_first (\<lambda>r. t_id r = env_Thread e) (threads d) = None then [thread_of e sender now d] else [])"
      "{sender, env_To e} = {t_initiator (thread_of e sender now d), t_recipient (thread_of e sender now d)}"
      "schema_ok d'"
    using ensureThread_Inr [OF assms(2)] assms(1) by blast
  have t: "thread_of e sender now d \<in> set (threads d')" "t_id (thread_of e sender now d) = env_Thread e"
    using thread_of_in [OF new(2)] by (simp_all add: new(1))
  then show "has_thread d' (env_Thread e)" by (auto simp: has_thread_def)
  have "has_person d' (t_initiator (thread_of e sender now d))" "has_person d' (t_recipient (thread_of e sender now d))"
    using t schema_okD(4) [OF new(4)] by (auto simp: threads_ok_def list_all_iff)
  then show "has_person d' sender" using new(3) by (auto simp: doubleton_eq_iff)
qed

lemma ingestTx_ok:
  assumes inv: "relay_inv d" and join: "may_join e sender d" and new: "\<not> has_message d (env_ID e)"
    and seen: "\<not> tombstoneSeen d (env_ID e)" and blob: "Marshal e = Some blob"
  shows "\<exists>d'. ingestTx e sender now d = Inr d'"
proof -
  have ok: "schema_ok d" using inv by (rule relay_inv_schema)
  obtain d1 where d1: "ensureThread e sender now d = Inr d1"
    using ensureThread_iff [OF ok] join by blast
  have frame1: "messages d1 = messages d" "tombstones d1 = tombstones d" "devices d1 = devices d"
      "deliveries d1 = deliveries d" "schema_ok d1"
    using ensureThread_Inr [OF d1] ok by auto
  let ?d2 = "d1\<lparr>messages := messages d1 @ [ingested e sender now blob]\<rparr>"
  have ok2: "schema_ok ?d2"
    using ensureThread_has [OF ok d1] new frame1
    by (subst schema_add_message) (auto simp: ingested_def has_message_def)
  then have d2: "insert_message e sender blob now d1 = Inr ?d2"
    by (simp add: insert_message_def ingested_def)
  let ?d3 = "?d2\<lparr>tombstones := tombstones ?d2 @ [\<lparr>ts_id = env_ID e, ts_sent = unix_sec (t_ns (env_SentAt e))\<rparr>]\<rparr>"
  have ok3: "schema_ok ?d3"
    using seen frame1 by (subst schema_add_tombstone [OF ok2]) (auto simp: tombstoneSeen_iff)
  then have d3: "insert_tombstone e ?d2 = Inr ?d3" by (simp add: insert_tombstone_def)
  obtain d4 where d4: "set_thread_state (env_Thread e) StateInputRequired now ?d3 = Inr d4"
      and frame4: "messages d4 = messages d @ [ingested e sender now blob]" "devices d4 = devices d"
        "deliveries d4 = deliveries d" and ok4: "schema_ok d4"
    using set_thread_state_valid [OF ok3] schema_set_thread_state [OF ok3] by (simp add: frame1)
  have "\<exists>d'. fanOutDeliveries (env_ID e) (env_To e) d4 = Inr d'"
    unfolding fanOutDeliveries_def
  proof (rule insert_deliveries_ok [OF ok4])
    show "has_message d4 (env_ID e)" by (simp add: has_message_def frame4 ingested_def)
    show "distinct (active_devices d4 (env_To e))"
      using schema_okD(2) [OF ok4] by (simp add: active_devices_def devices_ok_def distinct_map_filter_key)
    show "has_device d4 i" if "i \<in> set (active_devices d4 (env_To e))" for i
      using that by (auto simp: active_devices_def has_device_def)
    show "\<not> delivery_key (env_ID e) i r" if "r \<in> set (deliveries d4)" for i r
    proof -
      have "has_message d (dl_message r)"
        using that schema_okD(7) [OF ok] by (simp add: frame4 deliveries_ok_def list_all_iff)
      with new show ?thesis by (auto simp: delivery_key_def)
    qed
  qed
  then show ?thesis using seen d1 blob d2 d3 d4 by (simp add: ingestTx_def)
qed

lemma ingestTx_iff:
  assumes "relay_inv d"
  shows "(\<exists>d'. ingestTx e sender now d = Inr d') \<longleftrightarrow>
    \<not> tombstoneSeen d (env_ID e) \<and> \<not> has_message d (env_ID e) \<and> may_join e sender d \<and> Marshal e \<noteq> None"
proof
  assume "\<exists>d'. ingestTx e sender now d = Inr d'"
  then obtain d' where run: "ingestTx e sender now d = Inr d'" by blast
  have ok: "schema_ok d" using assms by (rule relay_inv_schema)
  from run have seen: "\<not> tombstoneSeen d (env_ID e)" "Marshal e \<noteq> None"
    by (auto elim!: ingestTx_Inr)
  from run seen(1) have "\<exists>d1. ensureThread e sender now d = Inr d1"
    by (auto simp: ingestTx_def rbind_Inr_iff)
  then have join: "may_join e sender d" using ensureThread_iff [OF ok] by blast
  from run obtain blob new where "messages d' = messages d @ [ingested e sender now blob]" "schema_ok d'"
    by (auto elim!: ingestTx_Inr)
  then have "\<not> has_message d (env_ID e)"
    using schema_okD(5) [of d'] by (auto simp: messages_ok_def has_message_def ingested_def image_iff)
  with seen join show "\<not> tombstoneSeen d (env_ID e) \<and> \<not> has_message d (env_ID e) \<and> may_join e sender d \<and> Marshal e \<noteq> None"
    by blast
next
  assume "\<not> tombstoneSeen d (env_ID e) \<and> \<not> has_message d (env_ID e) \<and> may_join e sender d \<and> Marshal e \<noteq> None"
  then show "\<exists>d'. ingestTx e sender now d = Inr d'"
    using ingestTx_ok [OF assms] by blast
qed

section \<open>Thread state changes\<close>

definition with_state :: "string \<Rightarrow> thread_state \<Rightarrow> instant \<Rightarrow> database \<Rightarrow> database" where
  "with_state i st now d = d\<lparr>threads := update_where (\<lambda>r. t_id r = i)
     (\<lambda>r. r\<lparr>t_state := st, t_updated := unix_sec now\<rparr>) (threads d)\<rparr>"

definition thread_state_of :: "database \<Rightarrow> string \<Rightarrow> thread_state option" where
  "thread_state_of d i = map_option t_state (select_first (\<lambda>t. t_id t = i) (threads d))"

lemma set_thread_state_Inr: "set_thread_state i st now d = Inr d' \<Longrightarrow> d' = with_state i st now d \<and> schema_ok d'"
  by (auto simp: set_thread_state_def exec_Inr with_state_def)

lemma set_thread_state_eq: "relay_inv d \<Longrightarrow> validState st \<Longrightarrow> set_thread_state i st now d = Inr (with_state i st now d)"
  by (simp add: set_thread_state_valid relay_inv_def with_state_def)

lemma with_state_frame [simp]:
  "messages (with_state i st now d) = messages d" "devices (with_state i st now d) = devices d"
  "deliveries (with_state i st now d) = deliveries d" "drafts (with_state i st now d) = drafts d"
  "grants (with_state i st now d) = grants d" "persons (with_state i st now d) = persons d"
  by (simp_all add: with_state_def)

lemma is_party_with_state [simp]: "is_party (with_state i st now d) = is_party d"
  by (simp add: with_state_def fun_eq_iff)

lemma with_state_inv:
  assumes "relay_inv d" "schema_ok (with_state i st now d)"
  shows "relay_inv (with_state i st now d)"
  using assms by (simp add: relay_inv_def list_all_iff delivery_to_other_def draft_sound_def)

lemma with_state_inv_valid: "relay_inv d \<Longrightarrow> validState st \<Longrightarrow> relay_inv (with_state i st now d)"
  by (rule with_state_inv) (simp_all add: with_state_def schema_set_thread_state relay_inv_def)

lemma thread_state_of_with_state:
  "thread_state_of (with_state i st now d) j =
     (if j = i then map_option (\<lambda>_. st) (thread_state_of d i) else thread_state_of d j)"
proof -
  have "select_first (\<lambda>t. t_id t = j) (threads (with_state i st now d)) =
      map_option (\<lambda>r. if t_id r = i then r\<lparr>t_state := st, t_updated := unix_sec now\<rparr> else r)
        (select_first (\<lambda>t. t_id t = j) (threads d))"
    unfolding with_state_def by simp (rule select_first_update_where, simp)
  then show ?thesis
    by (auto simp: thread_state_of_def option.map_comp dest: select_first_Some split: option.splits
      intro!: option.map_cong)
qed

lemma thread_state_of_Some:
  "relay_inv d \<Longrightarrow> t \<in> set (threads d) \<Longrightarrow> thread_state_of d (t_id t) = Some (t_state t)"
  using select_first_key [of t_id "threads d" t] schema_okD(4) [of d]
  by (simp add: thread_state_of_def relay_inv_def threads_ok_def)

section \<open>Properties\<close>

lemma IngestMessage_Inr:
  "IngestMessage uuid_ok e sender fresh now s = (Inr u, s') \<longleftrightarrow>
     uuid_ok (env_ID e) \<and> fresh_at fresh now (t_ns (env_SentAt e)) \<and>
     st_begin_ok s \<and> st_commit_ok s \<and> (\<exists>d. ingestTx e sender now (st_db s) = Inr d \<and> s' = s\<lparr>st_db := d\<rparr>)"
  by (auto simp: IngestMessage_def writeTx_Inr)

text \<open>
  On a working store, \<open>IngestMessage\<close> accepts an envelope exactly when its id is a UUID
  never seen before, its sent time is inside the freshness window, it can be serialised, and
  sender and addressee are the two parties of its thread (or, for a thread not known yet, two
  different enrolled people).
\<close>

theorem IngestMessage_accepts:
  assumes "healthy s" "relay_inv (st_db s)"
  shows "(\<exists>s'. IngestMessage uuid_ok e sender fresh now s = (Inr (), s')) \<longleftrightarrow>
     uuid_ok (env_ID e) \<and> fresh_at fresh now (t_ns (env_SentAt e)) \<and>
     \<not> tombstoneSeen (st_db s) (env_ID e) \<and> \<not> has_message (st_db s) (env_ID e) \<and>
     may_join e sender (st_db s) \<and> Marshal e \<noteq> None"
  using ingestTx_iff [OF assms(2), of e sender now] assms(1)
  by (auto simp: IngestMessage_Inr healthy_def)

definition sample_envelope :: envelope where
  "sample_envelope = New \<lparr>pt_person = ''alice'', pt_device = ''da'', pt_agent = ''ai''\<rparr> ''bob'' ''th'' StateInputRequired
     True \<lparr>msg_role = ''agent'', msg_parts = Some [\<lparr>part_type = ''text'', part_text = ''hi''\<rparr>]\<rparr> ''t0'' ''m2'' 200000000000"

lemma sample_marshals: "Marshal sample_envelope \<noteq> None"
  by (simp add: sample_envelope_def New_def Marshal_def envelope_json_def format_rfc3339_def UTC_def Let_def
    year_of_day_def epoch_days_def days_before_year_def)

lemma sample_conditions:
  "fresh_at \<lparr>MaxAge = 10, MaxSkew = 10\<rparr> 200000000005 (t_ns (env_SentAt sample_envelope))"
  "\<not> tombstoneSeen sample_db (env_ID sample_envelope)" "\<not> has_message sample_db (env_ID sample_envelope)"
  "may_join sample_envelope ''alice'' sample_db" "\<not> may_join sample_envelope ''bob'' sample_db"
  by (simp_all add: fresh_at_def sample_envelope_def New_def UTC_def tombstoneSeen_iff may_join_def sample_simps
    has_message_def select_first_def doubleton_eq_iff)

lemma sample_accepted:
  "\<exists>s'. IngestMessage (\<lambda>_. True) sample_envelope ''alice'' \<lparr>MaxAge = 10, MaxSkew = 10\<rparr> 200000000005 sample_store = (Inr (), s')"
  using ingestTx_iff [OF sample_db_inv, of sample_envelope "''alice''" 200000000005] sample_marshals sample_conditions
    sample_healthy(1)
  by (auto simp: IngestMessage_Inr healthy_def)

theorem IngestMessage_accepts_witness:
  "(\<exists>s'. IngestMessage (\<lambda>_. True) sample_envelope ''alice'' \<lparr>MaxAge = 10, MaxSkew = 10\<rparr> 200000000005 sample_store = (Inr (), s')) \<and>
   \<not> (\<exists>s'. IngestMessage (\<lambda>_. True) sample_envelope ''bob'' \<lparr>MaxAge = 10, MaxSkew = 10\<rparr> 200000000005 sample_store = (Inr (), s'))"
  using sample_marshals sample_conditions
    IngestMessage_accepts [OF sample_healthy(1) sample_store_inv, of "\<lambda>_. True" sample_envelope "''alice''" "\<lparr>MaxAge = 10, MaxSkew = 10\<rparr>" 200000000005]
    IngestMessage_accepts [OF sample_healthy(1) sample_store_inv, of "\<lambda>_. True" sample_envelope "''bob''" "\<lparr>MaxAge = 10, MaxSkew = 10\<rparr>" 200000000005]
  by simp

text \<open>
  An accepted message is stored once under its sender with a fresh tombstone, its thread
  has exactly sender and addressee as parties and now waits for input, exactly the addressee's
  active devices get a delivery, nothing else changes, and the relay's invariant is kept.
\<close>

theorem IngestMessage_effect:
  assumes "relay_inv (st_db s)" "IngestMessage uuid_ok e sender fresh now s = (Inr u, s')"
  shows "\<exists>blob. Marshal e = Some blob \<and>
     messages (st_db s') = messages (st_db s) @ [ingested e sender now blob] \<and>
     tombstones (st_db s') = tombstones (st_db s) @ [\<lparr>ts_id = env_ID e, ts_sent = unix_sec (t_ns (env_SentAt e))\<rparr>] \<and>
     deliveries (st_db s') = deliveries (st_db s) @
       map (\<lambda>i. \<lparr>dl_message = env_ID e, dl_device = i, dl_delivered = None, dl_acked = None\<rparr>)
         (active_devices (st_db s) (env_To e)) \<and>
     is_party (st_db s') (env_Thread e) sender \<and> is_party (st_db s') (env_Thread e) (env_To e) \<and> sender \<noteq> env_To e \<and>
     (\<forall>t \<in> set (threads (st_db s')).
        t_id t = env_Thread e \<longrightarrow> t_state t = StateInputRequired \<and> {t_initiator t, t_recipient t} = {sender, env_To e}) \<and>
     relay_inv (st_db s')"
proof -
  from assms(2) have run: "ingestTx e sender now (st_db s) = Inr (st_db s')" by (auto simp: IngestMessage_Inr)
  have inv: "relay_inv (st_db s')" by (rule ingest_keeps_inv [OF assms(1) run])
  from run obtain blob new where blob: "Marshal e = Some blob"
    and new: "new = (if select_first (\<lambda>r. t_id r = env_Thread e) (threads (st_db s)) = None then [thread_of e sender now (st_db s)] else [])"
    and parts: "{sender, env_To e} = {t_initiator (thread_of e sender now (st_db s)), t_recipient (thread_of e sender now (st_db s))}"
    and d': "st_db s' = (st_db s)\<lparr>messages := messages (st_db s) @ [ingested e sender now blob],
                tombstones := tombstones (st_db s) @ [\<lparr>ts_id = env_ID e, ts_sent = unix_sec (t_ns (env_SentAt e))\<rparr>],
                threads := update_where (\<lambda>r. t_id r = env_Thread e)
                   (\<lambda>r. r\<lparr>t_state := StateInputRequired, t_updated := unix_sec now\<rparr>) (threads (st_db s) @ new),
                deliveries := deliveries (st_db s) @
                  map (\<lambda>i. \<lparr>dl_message = env_ID e, dl_device = i, dl_delivered = None, dl_acked = None\<rparr>)
                    (active_devices (st_db s) (env_To e))\<rparr>"
    and ok: "schema_ok (st_db s')"
    by (elim ingestTx_Inr) blast
  have thr: "threads (st_db s') = update_where (\<lambda>r. t_id r = env_Thread e)
      (\<lambda>r. r\<lparr>t_state := StateInputRequired, t_updated := unix_sec now\<rparr>) (threads (st_db s) @ new)"
    by (simp add: d')
  note both = ingest_parties [OF new parts thr ok]
  have uniq: "{t_initiator t, t_recipient t} = {sender, env_To e}"
    if "t \<in> set (threads (st_db s'))" "t_id t = env_Thread e" for t
    using is_party_unique [OF ok that both(1)] is_party_unique [OF ok that both(2)] both(3) by auto
  have "t_state t = StateInputRequired" if "t \<in> set (threads (st_db s'))" "t_id t = env_Thread e" for t
    using that by (auto simp: thr elim!: in_update_whereE split: if_splits)
  with blob both uniq inv show ?thesis by (simp add: d')
qed

theorem IngestMessage_effect_witness:
  "\<exists>s' blob. IngestMessage (\<lambda>_. True) sample_envelope ''alice'' \<lparr>MaxAge = 10, MaxSkew = 10\<rparr> 200000000005 sample_store = (Inr (), s') \<and>
     messages (st_db s') = [sample_message, ingested sample_envelope ''alice'' 200000000005 blob]"
proof -
  obtain s' where run: "IngestMessage (\<lambda>_. True) sample_envelope ''alice'' \<lparr>MaxAge = 10, MaxSkew = 10\<rparr> 200000000005 sample_store = (Inr (), s')"
    using sample_accepted by blast
  from IngestMessage_effect [OF sample_store_inv run] run show ?thesis by (auto simp: sample_db_def)
qed

text \<open>
  Acknowledging a delivery a device has takes that message, and only that one, out of that
  device's inbox, leaves every other inbox alone, and a second acknowledgement at any later time
  changes nothing; acknowledging a message the device was never sent is refused as not found and
  changes nothing.
\<close>

theorem Ack_spec:
  assumes "healthy s" "relay_inv (st_db s)"
  shows "if \<exists>r \<in> set (deliveries (st_db s)). delivery_key mid dev r
    then \<exists>s'. Ack mid dev now s = (Inr (), s') \<and> relay_inv (st_db s') \<and>
      ii_ID ` set (Inbox dev (st_db s')) = ii_ID ` set (Inbox dev (st_db s)) - {mid} \<and>
      (\<forall>dev'. dev' \<noteq> dev \<longrightarrow> ii_ID ` set (Inbox dev' (st_db s')) = ii_ID ` set (Inbox dev' (st_db s))) \<and>
      (\<forall>now'. Ack mid dev now' s' = (Inr (), s'))
    else Ack mid dev now s = (Inl ErrNotFound, s)"
proof (cases "\<exists>r \<in> set (deliveries (st_db s)). delivery_key mid dev r")
  case False
  then show ?thesis
    using assms by (simp add: Ack_def writeTx_healthy unit_tx_def ackTx_eq)
next
  case True
  let ?rows = "update_where (delivery_key mid dev) (acked_at (unix_sec now)) (deliveries (st_db s))"
  let ?s = "s\<lparr>st_db := (st_db s)\<lparr>deliveries := ?rows\<rparr>\<rparr>"
  have run: "Ack mid dev now s = (Inr (), ?s)"
    using assms True by (simp add: Ack_def writeTx_healthy unit_tx_def ackTx_eq)
  have inv: "relay_inv (st_db ?s)"
    using ack_tx.op_keeps [OF assms(2)] run unfolding Ack_def by blast
  have there: "\<exists>r \<in> set ?rows. delivery_key mid dev r"
    using True by (auto intro!: bexI [OF _ in_update_whereI] simp: delivery_key_def acked_at_def)
  have again: "Ack mid dev now' ?s = (Inr (), ?s)" for now'
  proof -
    have "ackTx mid dev now' (st_db ?s) = Inr (st_db ?s)"
      using ackTx_eq [OF inv, of mid dev now'] there by (simp add: ack_twice)
    then show ?thesis using assms(1) by (simp add: Ack_def writeTx_def healthy_def unit_tx_def)
  qed
  have "Ack mid dev now s = (Inr (), ?s) \<and> relay_inv (st_db ?s) \<and>
      ii_ID ` set (Inbox dev (st_db ?s)) = ii_ID ` set (Inbox dev (st_db s)) - {mid} \<and>
      (\<forall>dev'. dev' \<noteq> dev \<longrightarrow> ii_ID ` set (Inbox dev' (st_db ?s)) = ii_ID ` set (Inbox dev' (st_db s))) \<and>
      (\<forall>now'. Ack mid dev now' ?s = (Inr (), ?s))"
  proof (intro conjI allI impI)
    show "Ack mid dev now s = (Inr (), ?s)" by (rule run)
    show "relay_inv (st_db ?s)" by (rule inv)
    show "ii_ID ` set (Inbox dev (st_db ?s)) = ii_ID ` set (Inbox dev (st_db s)) - {mid}"
      by (simp add: ack_removes)
    show "ii_ID ` set (Inbox dev' (st_db ?s)) = ii_ID ` set (Inbox dev' (st_db s))" if "dev' \<noteq> dev" for dev'
      using that by (simp add: ack_removes)
    show "Ack mid dev now' ?s = (Inr (), ?s)" for now' by (rule again)
  qed
  with True show ?thesis by metis
qed

theorem Ack_spec_witness:
  "(\<exists>s'. Ack ''m1'' ''db'' 7 sample_store = (Inr (), s') \<and> ii_ID ` set (Inbox ''db'' (st_db s')) = {}) \<and>
   Ack ''m1'' ''da'' 7 sample_store = (Inl ErrNotFound, sample_store)"
proof -
  have box: "ii_ID ` set (Inbox ''db'' (st_db sample_store)) = {''m1''}"
    by (simp add: Inbox_def sample_simps sort_key_def)
  have "\<exists>r \<in> set (deliveries (st_db sample_store)). delivery_key ''m1'' ''db'' r"
    "\<not> (\<exists>r \<in> set (deliveries (st_db sample_store)). delivery_key ''m1'' ''da'' r)"
    by (simp_all add: delivery_key_def sample_simps)
  with Ack_spec [OF sample_healthy(1) sample_store_inv, of "''m1''" "''db''" 7]
    Ack_spec [OF sample_healthy(1) sample_store_inv, of "''m1''" "''da''" 7] box
  show ?thesis by auto
qed

end
