(* ===== verification/StoreApproval.thy ===== *)
theory StoreApproval
  imports StoreMessage
begin

text \<open>
  Inbound verdicts and thread grants: \<open>internal/relay/store/approval.go\<close>. Each method reads
  the authoritative thread state, asks the gate, and writes back in one transaction; none has
  a state parameter. \<open>gid\<close> is the id minted for a new grant row.
\<close>

section \<open>Operations\<close>

definition gate_lift :: "gate_error + 'a \<Rightarrow> store_error + 'a" where
  "gate_lift r = (case r of Inl e \<Rightarrow> Inl (GateErr e) | Inr x \<Rightarrow> Inr x)"

lemma gate_lift_simps [simp]:
  "gate_lift (Inl e) = Inl (GateErr e)"
  "gate_lift (Inr x) = Inr x"
  "gate_lift r = Inr y \<longleftrightarrow> r = Inr y"
  by (simp_all add: gate_lift_def split: sum.splits)

definition applyInboundTx :: "string \<Rightarrow> thread_state \<Rightarrow> verdict \<Rightarrow> instant \<Rightarrow> thread_state tx" where
  "applyInboundTx threadID cur v now d =
     rbind (gate_lift (ApplyInbound cur v)) (\<lambda>next.
     rbind (set_thread_state threadID next now d) (\<lambda>d'. Inr (next, d')))"

definition transitionInboundTx :: "string \<Rightarrow> verdict \<Rightarrow> instant \<Rightarrow> unit tx" where
  "transitionInboundTx threadID v now d =
     (case select_first (\<lambda>r. t_id r = threadID) (threads d) of
        None \<Rightarrow> Inl ErrNotFound
      | Some t \<Rightarrow> rbind (applyInboundTx threadID (t_state t) v now d) (\<lambda>(_, d'). Inr ((), d')))"

definition transitionInbound :: "string \<Rightarrow> verdict \<Rightarrow> instant \<Rightarrow> store \<Rightarrow> (store_error + unit) \<times> store" where
  "transitionInbound threadID v now = writeTx (transitionInboundTx threadID v now)"

definition ApproveInbound :: "string \<Rightarrow> instant \<Rightarrow> store \<Rightarrow> (store_error + unit) \<times> store" where
  "ApproveInbound threadID now = transitionInbound threadID Approve now"

definition DeclineInbound :: "string \<Rightarrow> instant \<Rightarrow> store \<Rightarrow> (store_error + unit) \<times> store" where
  "DeclineInbound threadID now = transitionInbound threadID Reject now"

text \<open>\<open>SELECT MAX(received_at) FROM messages WHERE thread_id = ?\<close>\<close>

definition max_received :: "database \<Rightarrow> string \<Rightarrow> int option" where
  "max_received d threadID =
     (case map m_received (filter (\<lambda>m. m_thread m = threadID) (messages d)) of
        [] \<Rightarrow> None | x # xs \<Rightarrow> Some (fold max xs x))"

definition inboundVerdictTx :: "string \<Rightarrow> string \<Rightarrow> verdict \<Rightarrow> instant \<Rightarrow> thread_state tx" where
  "inboundVerdictTx personID messageID v now d =
     (case [(m, t). m \<leftarrow> messages d, t \<leftarrow> threads d,
              t_id t = m_thread m \<and> m_id m = messageID \<and> Some (m_received m) = max_received d (m_thread m)] of
        [] \<Rightarrow> Inl ErrNotFound
      | (m, t) # _ \<Rightarrow>
          if (personID \<noteq> t_initiator t \<and> personID \<noteq> t_recipient t) \<or> personID = m_sender m
          then Inl ErrNotFound
          else applyInboundTx (m_thread m) (t_state t) v now d)"

definition inboundMessageVerdict :: "string \<Rightarrow> string \<Rightarrow> verdict \<Rightarrow> instant \<Rightarrow>
    store \<Rightarrow> (store_error + thread_state) \<times> store" where
  "inboundMessageVerdict personID messageID v now = writeTx (inboundVerdictTx personID messageID v now)"

definition ApproveInboundMessage :: "string \<Rightarrow> string \<Rightarrow> instant \<Rightarrow> store \<Rightarrow> (store_error + thread_state) \<times> store" where
  "ApproveInboundMessage personID messageID now = inboundMessageVerdict personID messageID Approve now"

definition DeclineInboundMessage :: "string \<Rightarrow> string \<Rightarrow> instant \<Rightarrow> store \<Rightarrow> (store_error + thread_state) \<times> store" where
  "DeclineInboundMessage personID messageID now = inboundMessageVerdict personID messageID Reject now"

definition requireParticipant :: "string \<Rightarrow> string \<Rightarrow> database \<Rightarrow> store_error + unit" where
  "requireParticipant threadID personID d =
     (case select_first (\<lambda>r. t_id r = threadID) (threads d) of
        None \<Rightarrow> Inl ErrNotParticipant
      | Some t \<Rightarrow> if personID \<noteq> t_initiator t \<and> personID \<noteq> t_recipient t
                  then Inl ErrNotParticipant else Inr ())"

definition active_grant :: "string \<Rightarrow> string \<Rightarrow> direction \<Rightarrow> grant_row \<Rightarrow> bool" where
  "active_grant threadID personID dir r \<longleftrightarrow>
     g_thread r = threadID \<and> g_person r = personID \<and> g_direction r = dir \<and> g_revoked r = None"

definition setGrantTx :: "string \<Rightarrow> string \<Rightarrow> string \<Rightarrow> direction \<Rightarrow> instant \<Rightarrow> database \<Rightarrow> store_error + database" where
  "setGrantTx gid threadID personID dir now d =
     rbind (requireParticipant threadID personID d) (\<lambda>_.
       case select_first (active_grant threadID personID dir) (grants d) of
         Some _ \<Rightarrow> Inr d
       | None \<Rightarrow> exec (d\<lparr>grants := grants d @
           [\<lparr>g_id = gid, g_thread = threadID, g_person = personID, g_direction = dir,
             g_granted = unix_sec now, g_revoked = None\<rparr>]\<rparr>))"

definition SetThreadGrant :: "string \<Rightarrow> string \<Rightarrow> string \<Rightarrow> direction \<Rightarrow> instant \<Rightarrow>
    store \<Rightarrow> (store_error + unit) \<times> store" where
  "SetThreadGrant gid threadID personID dir now s =
     (if dir \<noteq> Inbound \<and> dir \<noteq> Outbound then (Inl (GateErr ErrWrongDirection), s)
      else writeTx (unit_tx (setGrantTx gid threadID personID dir now)) s)"

definition revokeGrantTx :: "string \<Rightarrow> string \<Rightarrow> direction \<Rightarrow> instant \<Rightarrow> database \<Rightarrow> store_error + database" where
  "revokeGrantTx threadID personID dir now d =
     rbind (requireParticipant threadID personID d) (\<lambda>_.
     rbind (exec (d\<lparr>grants := update_where (active_grant threadID personID dir)
                  (\<lambda>r. r\<lparr>g_revoked := Some (unix_sec now)\<rparr>) (grants d)\<rparr>)) (\<lambda>d'.
       if rows_affected (active_grant threadID personID dir) (grants d) = 0
       then Inl ErrNotFound else Inr d'))"

definition RevokeThreadGrant :: "string \<Rightarrow> string \<Rightarrow> direction \<Rightarrow> instant \<Rightarrow>
    store \<Rightarrow> (store_error + unit) \<times> store" where
  "RevokeThreadGrant threadID personID dir now s =
     (if dir \<noteq> Inbound \<and> dir \<noteq> Outbound then (Inl (GateErr ErrWrongDirection), s)
      else writeTx (unit_tx (revokeGrantTx threadID personID dir now)) s)"

definition approveViaGrantTx :: "string \<Rightarrow> string \<Rightarrow> string \<Rightarrow> instant \<Rightarrow> bool tx" where
  "approveViaGrantTx threadID granterID messageID now d =
     (case select_first (active_grant threadID granterID Inbound) (grants d) of
        None \<Rightarrow> Inr (False, d)
      | Some _ \<Rightarrow>
          (case select_first (\<lambda>r. t_id r = threadID) (threads d) of
             None \<Rightarrow> Inl DBErr
           | Some t \<Rightarrow>
               rbind (gate_lift (ApplyInboundGrant
                   \<lparr>gr_thread = threadID, gr_direction = Inbound, gr_revoked = False\<rparr>
                   \<lparr>ap_kind = KindMessage, ap_direction = Inbound, ap_thread = threadID,
                    ap_id = messageID, ap_payload = ()\<rparr> (t_state t))) (\<lambda>next.
               rbind (set_thread_state threadID next now d) (\<lambda>d1.
               rbind (exec (d1\<lparr>messages := update_where
                    (\<lambda>r. m_id r = messageID \<and> m_thread r = threadID)
                    (\<lambda>r. r\<lparr>m_via_grant := 1\<rparr>) (messages d1)\<rparr>)) (\<lambda>d2.
                 Inr (True, d2))))))"

definition ApproveInboundViaGrant :: "string \<Rightarrow> string \<Rightarrow> string \<Rightarrow> instant \<Rightarrow>
    store \<Rightarrow> (store_error + bool) \<times> store" where
  "ApproveInboundViaGrant threadID granterID messageID now = writeTx (approveViaGrantTx threadID granterID messageID now)"

section \<open>Verdicts\<close>

lemma applyInboundTx_eq:
  assumes "relay_inv d"
  shows "applyInboundTx th cur v now d =
    (case ApplyInbound cur v of Inl e \<Rightarrow> Inl (GateErr e) | Inr st \<Rightarrow> Inr (st, with_state th st now d))"
  using assms by (auto simp: applyInboundTx_def set_thread_state_eq dest: ApplyInbound_valid split: sum.splits)

lemma applyInboundTx_inv: "relay_inv d \<Longrightarrow> applyInboundTx th cur v now d = Inr (st, d') \<Longrightarrow> relay_inv d'"
  by (auto simp: applyInboundTx_eq intro!: with_state_inv_valid dest: ApplyInbound_valid split: sum.splits)

lemma transitionInboundTx_inv: "relay_inv d \<Longrightarrow> transitionInboundTx th v now d = Inr (u, d') \<Longrightarrow> relay_inv d'"
  by (auto simp: transitionInboundTx_def rbind_Inr_iff dest: applyInboundTx_inv split: option.splits)

text \<open>A message whose receive time is the latest second of its thread.\<close>

definition latest :: "database \<Rightarrow> message_row \<Rightarrow> bool" where
  "latest d m \<longleftrightarrow> (\<forall>m' \<in> set (messages d). m_thread m' = m_thread m \<longrightarrow> m_received m' \<le> m_received m)"

lemma max_received_latest:
  assumes "m \<in> set (messages d)"
  shows "Some (m_received m) = max_received d (m_thread m) \<longleftrightarrow> latest d m"
proof -
  let ?xs = "map m_received (filter (\<lambda>m'. m_thread m' = m_thread m) (messages d))"
  have mem: "m_received m \<in> set ?xs" using assms by auto
  then obtain x xs where xs: "?xs = x # xs" by (cases ?xs) auto
  have "max_received d (m_thread m) = Some (Max (set ?xs))"
    unfolding max_received_def xs by (simp add: Max.set_eq_fold [symmetric])
  moreover have "m_received m = Max (set ?xs) \<longleftrightarrow> (\<forall>y \<in> set ?xs. y \<le> m_received m)"
    using mem eq_Max_iff [of "set ?xs" "m_received m"] by (metis List.finite_set empty_iff)
  moreover have "(\<forall>y \<in> set ?xs. y \<le> m_received m) \<longleftrightarrow> latest d m"
    by (auto simp: latest_def)
  ultimately show ?thesis by simp
qed

text \<open>The row the verdict query finds: both keys are unique, so there is at most one.\<close>

definition verdict_rows :: "string \<Rightarrow> database \<Rightarrow> (message_row \<times> thread_row) list" where
  "verdict_rows messageID d = [(m, t). m \<leftarrow> messages d, t \<leftarrow> threads d,
     t_id t = m_thread m \<and> m_id m = messageID \<and> Some (m_received m) = max_received d (m_thread m)]"

lemma set_verdict_rows:
  "(m, t) \<in> set (verdict_rows mid d) \<longleftrightarrow>
     m \<in> set (messages d) \<and> t \<in> set (threads d) \<and> t_id t = m_thread m \<and> m_id m = mid \<and> latest d m"
  using max_received_latest by (auto simp: verdict_rows_def)

lemma verdict_rows_unique:
  assumes "relay_inv d" "(m, t) \<in> set (verdict_rows mid d)" "(m', t') \<in> set (verdict_rows mid d)"
  shows "m' = m \<and> t' = t"
proof -
  have "distinct (map m_id (messages d))" "distinct (map t_id (threads d))"
    using assms(1) by (simp_all add: relay_inv_def schema_ok_def messages_ok_def threads_ok_def)
  moreover from this assms(2,3) have "m' = m"
    by (auto simp: set_verdict_rows intro: distinct_key_unique [of m_id "messages d"])
  ultimately show ?thesis
    using assms(2,3) by (auto simp: set_verdict_rows intro: distinct_key_unique [of t_id "threads d"])
qed

definition may_decide :: "string \<Rightarrow> message_row \<Rightarrow> thread_row \<Rightarrow> bool" where
  "may_decide p m t \<longleftrightarrow> (p = t_initiator t \<or> p = t_recipient t) \<and> p \<noteq> m_sender m"

lemma inboundVerdictTx_found:
  assumes "relay_inv d" "(m, t) \<in> set (verdict_rows mid d)"
  shows "inboundVerdictTx p mid v now d =
    (if may_decide p m t then applyInboundTx (m_thread m) (t_state t) v now d else Inl ErrNotFound)"
proof -
  obtain m' t' rest where rows: "verdict_rows mid d = (m', t') # rest"
    using assms(2) by (cases "verdict_rows mid d") auto
  then have "m' = m \<and> t' = t" using verdict_rows_unique [OF assms, of m' t'] by simp
  with rows show ?thesis
    unfolding inboundVerdictTx_def verdict_rows_def [symmetric] by (auto simp: may_decide_def)
qed

lemma inboundVerdictTx_none: "verdict_rows mid d = [] \<Longrightarrow> inboundVerdictTx p mid v now d = Inl ErrNotFound"
  unfolding inboundVerdictTx_def verdict_rows_def [symmetric] by simp

lemma inboundVerdictTx_iff:
  assumes "relay_inv d"
  shows "inboundVerdictTx p mid v now d = Inr (st, d') \<longleftrightarrow>
    (\<exists>m t. (m, t) \<in> set (verdict_rows mid d) \<and> may_decide p m t \<and> ApplyInbound (t_state t) v = Inr st \<and>
       d' = with_state (m_thread m) st now d)"
proof (cases "verdict_rows mid d")
  case Nil
  then show ?thesis by (simp add: inboundVerdictTx_none)
next
  case (Cons mt rest)
  obtain m t where mt: "mt = (m, t)" by (cases mt)
  then have found: "(m, t) \<in> set (verdict_rows mid d)" using Cons by simp
  have run: "inboundVerdictTx p mid v now d = Inr (st, d') \<longleftrightarrow>
      may_decide p m t \<and> ApplyInbound (t_state t) v = Inr st \<and> d' = with_state (m_thread m) st now d"
    unfolding inboundVerdictTx_found [OF assms found] applyInboundTx_eq [OF assms]
    by (auto split: sum.splits)
  show ?thesis
    unfolding run using found verdict_rows_unique [OF assms found] by blast
qed

lemma inboundVerdictTx_inv: "relay_inv d \<Longrightarrow> inboundVerdictTx p mid v now d = Inr (st, d') \<Longrightarrow> relay_inv d'"
  by (auto simp: inboundVerdictTx_iff intro!: with_state_inv_valid dest: ApplyInbound_valid)

interpretation transition_tx: tx_keeps "transitionInboundTx th v now" relay_inv for th v now
  by unfold_locales (rule transitionInboundTx_inv)

interpretation verdict_tx: tx_keeps "inboundVerdictTx p mid v now" relay_inv for p mid v now
  by unfold_locales (rule inboundVerdictTx_inv)

section \<open>Grants\<close>

lemma schema_add_grant:
  assumes "schema_ok d"
  shows "schema_ok (d\<lparr>grants := grants d @ [g]\<rparr>) \<longleftrightarrow>
    g_id g \<notin> g_id ` set (grants d) \<and> has_thread d (g_thread g) \<and> has_person d (g_person g) \<and>
    (g_direction g = Inbound \<or> g_direction g = Outbound) \<and>
    (g_revoked g = None \<longrightarrow> \<not> (\<exists>r \<in> set (grants d). active_grant (g_thread g) (g_person g) (g_direction g) r))"
    (is "schema_ok ?d \<longleftrightarrow> ?C")
proof -
  have a: "(g_thread g, g_person g, g_direction g) \<in>
        (\<lambda>r. (g_thread r, g_person r, g_direction r)) ` {r \<in> set (grants d). g_revoked r = None} \<longleftrightarrow>
      (\<exists>r \<in> set (grants d). active_grant (g_thread g) (g_person g) (g_direction g) r)"
    by (auto simp: active_grant_def image_iff)
  have c: "grants_ok ?d \<longleftrightarrow> ?C"
    using schema_okD(9) [OF assms] by (cases "g_revoked g") (simp_all add: grants_ok_def a Inbound_def Outbound_def)
  have "schema_ok ?d" if ?C
    using that c by (intro schema_ok_step [OF assms]) (auto simp: keys_grow_def)
  with c show ?thesis by (auto simp: schema_ok_def)
qed

lemma requireParticipant_Inr:
  assumes "relay_inv d"
  shows "requireParticipant th p d = (if is_party d th p then Inr () else Inl ErrNotParticipant)"
proof (cases "select_first (\<lambda>r. t_id r = th) (threads d)")
  case None
  then have "\<not> is_party d th p" by (auto simp: is_party_def select_first_None)
  with None show ?thesis by (simp add: requireParticipant_def)
next
  case (Some t)
  then have t: "t \<in> set (threads d)" "t_id t = th" by (auto dest: select_first_Some)
  have "is_party d th p \<longleftrightarrow> p = t_initiator t \<or> p = t_recipient t"
    using is_party_unique [OF relay_inv_schema [OF assms] t] t by (auto simp: is_party_def)
  with Some show ?thesis by (simp add: requireParticipant_def)
qed

lemma is_party_has:
  assumes "relay_inv d" "is_party d th p"
  shows "has_thread d th" "has_person d p"
  using assms schema_okD(4) [of d]
  by (auto simp: is_party_def has_thread_def relay_inv_def threads_ok_def list_all_iff)

definition new_grant :: "string \<Rightarrow> string \<Rightarrow> string \<Rightarrow> direction \<Rightarrow> instant \<Rightarrow> grant_row" where
  "new_grant gid th p dir now = \<lparr>g_id = gid, g_thread = th, g_person = p, g_direction = dir,
     g_granted = unix_sec now, g_revoked = None\<rparr>"

definition has_active_grant :: "database \<Rightarrow> string \<Rightarrow> string \<Rightarrow> direction \<Rightarrow> bool" where
  "has_active_grant d th p dir \<longleftrightarrow> exists_row (active_grant th p dir) (grants d)"

lemma has_active_grant_select: "select_first (active_grant th p dir) (grants d) = None \<longleftrightarrow> \<not> has_active_grant d th p dir"
  by (simp add: select_first_None has_active_grant_def)

lemma setGrantTx_eq:
  assumes "relay_inv d" "dir = Inbound \<or> dir = Outbound" "gid \<notin> g_id ` set (grants d)"
  shows "setGrantTx gid th p dir now d =
    (if \<not> is_party d th p then Inl ErrNotParticipant
     else if has_active_grant d th p dir then Inr d
     else Inr (d\<lparr>grants := grants d @ [new_grant gid th p dir now]\<rparr>))"
proof (cases "is_party d th p \<and> \<not> has_active_grant d th p dir")
  case True
  then have "schema_ok (d\<lparr>grants := grants d @ [new_grant gid th p dir now]\<rparr>)"
    using assms is_party_has [OF assms(1)]
    by (subst schema_add_grant) (auto simp: relay_inv_def new_grant_def has_active_grant_def)
  with True assms(1) show ?thesis
    by (simp add: setGrantTx_def requireParticipant_Inr new_grant_def has_active_grant_select [THEN iffD2])
next
  case False
  then show ?thesis
    using assms(1) has_active_grant_select [of th p dir d] by (auto simp: setGrantTx_def requireParticipant_Inr split: option.splits)
qed

lemma grants_update_inv:
  assumes "relay_inv d" "schema_ok (d\<lparr>grants := gs\<rparr>)" "\<And>g. g \<in> set gs \<Longrightarrow> is_party d (g_thread g) (g_person g)"
  shows "relay_inv (d\<lparr>grants := gs\<rparr>)"
  using assms by (simp add: relay_inv_def list_all_iff delivery_to_other_def draft_sound_def)

lemma setGrantTx_inv:
  assumes "relay_inv d" "setGrantTx gid th p dir now d = Inr d'"
  shows "relay_inv d'"
proof -
  from assms have p: "is_party d th p"
    and d': "d' = d \<or> d' = d\<lparr>grants := grants d @ [new_grant gid th p dir now]\<rparr> \<and> schema_ok d'"
    by (auto simp: setGrantTx_def rbind_Inr_iff exec_Inr requireParticipant_Inr new_grant_def split: option.splits if_splits)
  have "is_party d (g_thread g) (g_person g)" if "g \<in> set (grants d @ [new_grant gid th p dir now])" for g
    using that p assms(1) by (auto simp: relay_inv_def list_all_iff new_grant_def)
  with d' assms(1) show ?thesis using grants_update_inv [OF assms(1), of "grants d @ [new_grant gid th p dir now]"] by blast
qed

text \<open>Revoking keeps every key and only removes rows from the partial unique index.\<close>

definition revoked_at :: "int \<Rightarrow> grant_row \<Rightarrow> grant_row" where
  "revoked_at n r = r\<lparr>g_revoked := Some n\<rparr>"

lemma revoked_at_sel [simp]:
  "g_id (revoked_at n r) = g_id r" "g_thread (revoked_at n r) = g_thread r" "g_person (revoked_at n r) = g_person r"
  "g_direction (revoked_at n r) = g_direction r" "g_revoked (revoked_at n r) = Some n"
  by (simp_all add: revoked_at_def)

lemma distinct_active_revoke:
  "distinct (map key (filter (\<lambda>r. g_revoked r = None) gs)) \<Longrightarrow>
   distinct (map key (filter (\<lambda>r. g_revoked r = None) (update_where P (revoked_at n) gs)))"
proof (induction gs)
  case (Cons g gs)
  have "set (filter (\<lambda>r. g_revoked r = None) (update_where P (revoked_at n) gs)) \<subseteq> set (filter (\<lambda>r. g_revoked r = None) gs)"
    by (auto simp: set_update_where)
  with Cons show ?case by (auto simp: sql_simps image_iff split: if_splits)
qed (simp add: sql_simps)

lemma schema_revoke:
  assumes "schema_ok d"
  shows "schema_ok (d\<lparr>grants := update_where P (revoked_at n) (grants d)\<rparr>)" (is "schema_ok ?d")
proof -
  have "map g_id (update_where P (revoked_at n) (grants d)) = map g_id (grants d)"
    by (rule map_update_where_key) (simp add: revoked_at_def)
  then have "grants_ok ?d"
    using schema_okD(9) [OF assms] distinct_active_revoke
    by (auto simp: grants_ok_def revoked_at_def [abs_def] intro: list_all_update_where)
  then show ?thesis by (intro schema_ok_step [OF assms]) (simp_all add: keys_grow_def)
qed

lemma revokeGrantTx_eq:
  assumes "relay_inv d"
  shows "revokeGrantTx th p dir now d =
    (if \<not> is_party d th p then Inl ErrNotParticipant
     else if \<not> has_active_grant d th p dir then Inl ErrNotFound
     else Inr (d\<lparr>grants := update_where (active_grant th p dir) (revoked_at (unix_sec now)) (grants d)\<rparr>))"
proof -
  have eq: "(\<lambda>r. r\<lparr>g_revoked := Some n\<rparr>) = revoked_at n" for n by (simp add: revoked_at_def fun_eq_iff)
  have n: "rows_affected (active_grant th p dir) (grants d) = 0 \<longleftrightarrow> \<not> has_active_grant d th p dir"
    by (simp add: rows_affected_0 has_active_grant_def)
  show ?thesis
    using assms schema_revoke [of d] by (simp add: revokeGrantTx_def requireParticipant_Inr eq n relay_inv_schema)
qed

lemma revokeGrantTx_inv:
  assumes "relay_inv d" "revokeGrantTx th p dir now d = Inr d'"
  shows "relay_inv d'"
proof -
  have "is_party d (g_thread g) (g_person g)"
    if "g \<in> set (update_where (active_grant th p dir) (revoked_at (unix_sec now)) (grants d))" for g
    using that assms(1) by (auto simp: relay_inv_def list_all_iff revoked_at_def elim!: in_update_whereE)
  with assms show ?thesis
    by (auto simp: revokeGrantTx_eq relay_inv_schema schema_revoke intro!: grants_update_inv split: if_splits)
qed

lemma no_active_after_revoke:
  "\<not> has_active_grant (d\<lparr>grants := update_where (active_grant th p dir) (revoked_at n) (grants d)\<rparr>) th p dir"
  by (auto simp: has_active_grant_def active_grant_def revoked_at_def elim!: in_update_whereE split: if_splits)

section \<open>Approval by grant\<close>

definition mark_via_grant :: "string \<Rightarrow> string \<Rightarrow> message_row list \<Rightarrow> message_row list" where
  "mark_via_grant mid th = update_where (\<lambda>r. m_id r = mid \<and> m_thread r = th) (\<lambda>r. r\<lparr>m_via_grant := 1\<rparr>)"

lemma schema_mark:
  assumes "schema_ok d"
  shows "schema_ok (d\<lparr>messages := mark_via_grant mid th (messages d)\<rparr>)" (is "schema_ok ?d")
proof -
  have ids: "map m_id (mark_via_grant mid th (messages d)) = map m_id (messages d)"
    unfolding mark_via_grant_def by (rule map_update_where_key) simp
  then have "messages_ok ?d"
    using schema_okD(5) [OF assms] by (auto simp: messages_ok_def mark_via_grant_def intro: list_all_update_where)
  then show ?thesis
    using ids by (intro schema_ok_step [OF assms]) (simp_all add: keys_grow_def has_message_iff del: set_map)
qed

lemma mark_rows:
  "m \<in> set ms \<Longrightarrow> \<exists>m' \<in> set (mark_via_grant mid th ms). m_id m' = m_id m \<and> m_thread m' = m_thread m \<and> m_sender m' = m_sender m"
  unfolding mark_via_grant_def by (rule bexI [OF _ in_update_whereI]) auto

lemma mark_inv:
  assumes "relay_inv d"
  shows "relay_inv (d\<lparr>messages := mark_via_grant mid th (messages d)\<rparr>)" (is "relay_inv ?d")
  unfolding relay_inv_def list_all_iff
proof (intro conjI ballI)
  show "schema_ok ?d" using assms by (simp add: schema_mark relay_inv_schema)
  show "is_party ?d (m_thread m) (m_sender m)" if "m \<in> set (messages ?d)" for m
    using that assms by (auto simp: mark_via_grant_def relay_inv_def list_all_iff elim!: in_update_whereE)
  show "delivery_to_other ?d dl" if "dl \<in> set (deliveries ?d)" for dl
  proof (rule delivery_to_other_mono [where d = d])
    show "delivery_to_other d dl" using that assms by (simp add: relay_inv_def list_all_iff)
    show "\<exists>m' \<in> set (messages ?d). m_id m' = m_id m \<and> m_thread m' = m_thread m \<and> m_sender m' = m_sender m"
      if "m \<in> set (messages d)" for m using mark_rows [OF that] by simp
  qed auto
  show "draft_sound ?d r" if "r \<in> set (drafts ?d)" for r
    using that assms by (simp add: relay_inv_def list_all_iff draft_sound_def)
  show "is_party ?d (g_thread g) (g_person g)" if "g \<in> set (grants ?d)" for g
    using that assms by (simp add: relay_inv_def list_all_iff)
qed

lemma approveViaGrantTx_eq:
  assumes "relay_inv d"
  shows "approveViaGrantTx th p mid now d =
    (if \<not> has_active_grant d th p Inbound then Inr (False, d)
     else case thread_state_of d th of None \<Rightarrow> Inl DBErr
     | Some cur \<Rightarrow>
        (case ApplyInboundGrant \<lparr>gr_thread = th, gr_direction = Inbound, gr_revoked = False\<rparr>
            \<lparr>ap_kind = KindMessage, ap_direction = Inbound, ap_thread = th, ap_id = mid, ap_payload = ()\<rparr> cur of
           Inl e \<Rightarrow> Inl (GateErr e)
         | Inr st \<Rightarrow> Inr (True, (with_state th st now d)\<lparr>messages := mark_via_grant mid th (messages d)\<rparr>)))"
proof -
  have ok: "validState st \<Longrightarrow> schema_ok ((with_state th st now d)\<lparr>messages := mark_via_grant mid th (messages d)\<rparr>)" for st
    using schema_mark [of "with_state th st now d" mid th] with_state_inv_valid [OF assms]
    by (simp add: relay_inv_schema)
  have valid: "ApplyInboundGrant g a cur = Inr st \<Longrightarrow> validState st" for g cur st and a :: "unit approvable"
    by (auto simp: ApplyInboundGrant_Inr)
  show ?thesis
    unfolding approveViaGrantTx_def mark_via_grant_def [symmetric]
    using assms ok
    by (auto simp: has_active_grant_select [symmetric] thread_state_of_def set_thread_state_eq
      split: option.splits sum.splits dest: valid)
qed

lemma approveViaGrantTx_inv:
  assumes "relay_inv d" "approveViaGrantTx th p mid now d = Inr (b, d')"
  shows "relay_inv d'"
proof -
  have "relay_inv ((with_state th st now d)\<lparr>messages := mark_via_grant mid th (messages d)\<rparr>)" if "validState st" for st
    using mark_inv [OF with_state_inv_valid [OF assms(1) that], of mid th] by simp
  with assms show ?thesis
    by (auto simp: approveViaGrantTx_eq ApplyInboundGrant_Inr split: if_splits option.splits sum.splits)
qed

interpretation set_grant_tx: tx_keeps "unit_tx (setGrantTx gid th p dir now)" relay_inv for gid th p dir now
  by unfold_locales (auto intro: setGrantTx_inv)

interpretation revoke_grant_tx: tx_keeps "unit_tx (revokeGrantTx th p dir now)" relay_inv for th p dir now
  by unfold_locales (auto intro: revokeGrantTx_inv)

interpretation grant_approval_tx: tx_keeps "approveViaGrantTx th p mid now" relay_inv for th p mid now
  by unfold_locales (rule approveViaGrantTx_inv)

section \<open>Properties\<close>

lemma inboundMessageVerdict_Inr:
  "inboundMessageVerdict p mid v now s = (Inr st, s') \<longleftrightarrow>
     st_begin_ok s \<and> st_commit_ok s \<and>
     (\<exists>d'. inboundVerdictTx p mid v now (st_db s) = Inr (st, d') \<and> s' = s\<lparr>st_db := d'\<rparr>)"
  by (auto simp: inboundMessageVerdict_def writeTx_Inr)

text \<open>
  A verdict on a message succeeds exactly for the other party of the thread (never the
  sender, never a stranger), on a message of the thread's latest second, while the thread waits
  for input; approval makes the thread working, rejection makes it rejected, and nothing else in
  the database changes.
\<close>

theorem inboundMessageVerdict_iff:
  assumes "healthy s" "relay_inv (st_db s)"
  shows "inboundMessageVerdict p mid v now s = (Inr st, s') \<longleftrightarrow>
    (\<exists>m \<in> set (messages (st_db s)). m_id m = mid \<and> latest (st_db s) m \<and>
       is_party (st_db s) (m_thread m) p \<and> p \<noteq> m_sender m \<and>
       thread_state_of (st_db s) (m_thread m) = Some StateInputRequired \<and>
       (v = Approve \<and> st = StateWorking \<or> v = Reject \<and> st = StateRejected) \<and>
       s' = s\<lparr>st_db := with_state (m_thread m) st now (st_db s)\<rparr>)"
proof -
  let ?d = "st_db s"
  have ok: "schema_ok ?d" using assms(2) by (rule relay_inv_schema)
  have row: "(\<exists>t. (m, t) \<in> set (verdict_rows mid ?d) \<and> may_decide p m t \<and> ApplyInbound (t_state t) v = Inr st) \<longleftrightarrow>
      m \<in> set (messages ?d) \<and> m_id m = mid \<and> latest ?d m \<and> is_party ?d (m_thread m) p \<and> p \<noteq> m_sender m \<and>
      thread_state_of ?d (m_thread m) = Some StateInputRequired \<and>
      (v = Approve \<and> st = StateWorking \<or> v = Reject \<and> st = StateRejected)" for m
  proof (cases "m \<in> set (messages ?d)")
    case True
    then obtain t where t: "t \<in> set (threads ?d)" "t_id t = m_thread m"
      using schema_okD(5) [OF ok] by (auto simp: messages_ok_def list_all_iff has_thread_def)
    have "thread_state_of ?d (m_thread m) = Some (t_state t)"
      using thread_state_of_Some [OF assms(2) t(1)] t(2) by simp
    moreover have "is_party ?d (m_thread m) p \<longleftrightarrow> p = t_initiator t \<or> p = t_recipient t"
      using is_party_unique [OF ok t] t by (auto simp: is_party_def)
    moreover have "(m, t') \<in> set (verdict_rows mid ?d) \<longleftrightarrow> t' = t \<and> m_id m = mid \<and> latest ?d m" for t'
      using distinct_key_unique [of t_id "threads ?d" t' t] schema_okD(4) [OF ok] t True
      by (auto simp: set_verdict_rows threads_ok_def)
    ultimately show ?thesis
      using True by (simp add: may_decide_def ApplyInbound_Inr)
  qed (simp add: set_verdict_rows)
  have "inboundMessageVerdict p mid v now s = (Inr st, s') \<longleftrightarrow>
      (\<exists>m. (\<exists>t. (m, t) \<in> set (verdict_rows mid ?d) \<and> may_decide p m t \<and> ApplyInbound (t_state t) v = Inr st) \<and>
         s' = s\<lparr>st_db := with_state (m_thread m) st now ?d\<rparr>)"
    using assms(1) by (auto simp: inboundMessageVerdict_Inr inboundVerdictTx_iff [OF assms(2)] healthy_def)
  then show ?thesis unfolding row Bex_def by (simp only: conj_assoc)
qed

theorem inboundMessageVerdict_iff_witness:
  "inboundMessageVerdict ''bob'' ''m1'' Approve 7 sample_store =
     (Inr StateWorking, sample_store\<lparr>st_db := with_state ''th'' StateWorking 7 sample_db\<rparr>)"
  by (subst inboundMessageVerdict_iff [OF sample_healthy(1) sample_store_inv])
    (simp add: sample_simps latest_def is_party_def thread_state_of_def select_first_def StateInputRequired_def)

text \<open>
  A decided thread stays decided. After any successful verdict, no further verdict on that
  thread (by its id, by one of its messages, or by a grant that would fire) succeeds, and each
  attempt leaves the store as it is.
\<close>

theorem verdict_is_final:
  assumes "healthy s" "relay_inv (st_db s)" "inboundMessageVerdict p mid v now s = (Inr st, s')"
    and "m \<in> set (messages (st_db s))" "m_id m = mid"
  shows "transitionInbound (m_thread m) v' now' s' = (Inl (GateErr ErrIllegalTransition), s') \<and>
    (\<forall>m' \<in> set (messages (st_db s')). m_thread m' = m_thread m \<longrightarrow>
       (\<exists>e. inboundMessageVerdict p' (m_id m') v' now' s' = (Inl e, s'))) \<and>
    (\<forall>m' g. fst (ApproveInboundViaGrant (m_thread m) g m' now' s') \<noteq> Inr True \<and>
       snd (ApproveInboundViaGrant (m_thread m) g m' now' s') = s')"
proof -
  let ?d = "st_db s" and ?th = "m_thread m"
  have "healthy s'" using assms(1,3) by (auto simp: inboundMessageVerdict_Inr healthy_def)
  obtain m0 where m0: "m0 \<in> set (messages ?d)" "m_id m0 = mid"
      "thread_state_of ?d (m_thread m0) = Some StateInputRequired" "st = StateWorking \<or> st = StateRejected"
      "s' = s\<lparr>st_db := with_state (m_thread m0) st now ?d\<rparr>"
    using assms(3) unfolding inboundMessageVerdict_iff [OF assms(1,2)] by blast
  have "m0 = m"
    using distinct_key_unique [of m_id "messages ?d" m0 m] schema_okD(5) [OF relay_inv_schema [OF assms(2)]] m0(1,2) assms(4,5)
    by (simp add: messages_ok_def)
  with m0 have state: "thread_state_of (st_db s') ?th = Some st" and ms: "messages (st_db s') = messages ?d"
    by (simp_all add: thread_state_of_with_state)
  have st: "validState st" "st \<noteq> StateInputRequired" using m0(4) by (auto simp: thread_state_defs validState_def)
  have inv: "relay_inv (st_db s')" using verdict_tx.op_keeps [OF assms(2)] assms(3) unfolding inboundMessageVerdict_def by blast
  obtain t where t: "select_first (\<lambda>r. t_id r = ?th) (threads (st_db s')) = Some t" "t_state t = st"
    using state by (auto simp: thread_state_of_def)
  have "transitionInboundTx ?th v' now' (st_db s') = Inl (GateErr ErrIllegalTransition)"
    using t st by (simp add: transitionInboundTx_def applyInboundTx_eq [OF inv] ApplyInbound_illegal)
  then have 1: "transitionInbound ?th v' now' s' = (Inl (GateErr ErrIllegalTransition), s')"
    using \<open>healthy s'\<close> by (simp add: transitionInbound_def writeTx_healthy)
  have 2: "\<exists>e. inboundMessageVerdict p' (m_id m') v' now' s' = (Inl e, s')"
    if m': "m' \<in> set (messages (st_db s'))" "m_thread m' = ?th" for m'
  proof (cases "inboundMessageVerdict p' (m_id m') v' now' s'")
    case (Pair r s'')
    show ?thesis
    proof (cases r)
      case (Inr x)
      with Pair obtain m'' where "m'' \<in> set (messages (st_db s'))" "m_id m'' = m_id m'"
          "thread_state_of (st_db s') (m_thread m'') = Some StateInputRequired"
        using inboundMessageVerdict_iff [OF \<open>healthy s'\<close> inv, of p' "m_id m'" v' now' x s''] by blast
      moreover from this m' have "m'' = m'"
        using distinct_key_unique [of m_id "messages (st_db s')" m'' m'] schema_okD(5) [OF relay_inv_schema [OF inv]]
        by (simp add: messages_ok_def)
      ultimately show ?thesis using m'(2) state st by simp
    next
      case (Inl e)
      with Pair show ?thesis by (auto simp: inboundMessageVerdict_def dest: writeTx_Inl)
    qed
  qed
  have 3: "fst (ApproveInboundViaGrant ?th g m' now' s') \<noteq> Inr True \<and> snd (ApproveInboundViaGrant ?th g m' now' s') = s'" for g m'
    using \<open>healthy s'\<close> state st
    by (auto simp: ApproveInboundViaGrant_def writeTx_healthy approveViaGrantTx_eq [OF inv] ApplyInboundGrant_Inr split: sum.splits)
  from 1 2 3 show ?thesis by blast
qed

theorem verdict_is_final_witness:
  "\<exists>s'. inboundMessageVerdict ''bob'' ''m1'' Approve 7 sample_store = (Inr StateWorking, s') \<and>
     transitionInbound ''th'' Reject 8 s' = (Inl (GateErr ErrIllegalTransition), s')"
proof -
  let ?s = "sample_store\<lparr>st_db := with_state ''th'' StateWorking 7 sample_db\<rparr>"
  have run: "inboundMessageVerdict ''bob'' ''m1'' Approve 7 sample_store = (Inr StateWorking, ?s)"
    by (simp add: inboundMessageVerdict_Inr inboundVerdictTx_iff set_verdict_rows may_decide_def ApplyInbound_Inr)
      (simp add: sample_simps sample_store_def latest_def StateInputRequired_def)
  have "sample_message \<in> set (messages (st_db sample_store))" "m_id sample_message = ''m1''" "m_thread sample_message = ''th''"
    by (simp_all add: sample_db_def sample_message_def)
  with verdict_is_final [OF sample_healthy(1) sample_store_inv run, of sample_message Reject 8] run show ?thesis by auto
qed

lemma one_active_grant:
  assumes "schema_ok d"
  shows "length (filter (active_grant th p dir) (grants d)) \<le> 1"
proof -
  let ?key = "\<lambda>r. (g_thread r, g_person r, g_direction r)"
  have "distinct (map ?key (filter (active_grant th p dir) (filter (\<lambda>r. g_revoked r = None) (grants d))))"
    by (rule distinct_map_filter_key) (use schema_okD(9) [OF assms] in \<open>simp add: grants_ok_def\<close>)
  moreover have "filter (active_grant th p dir) (filter (\<lambda>r. g_revoked r = None) (grants d)) =
      filter (active_grant th p dir) (grants d)"
    unfolding filter_filter by (rule filter_cong) (auto simp: active_grant_def)
  ultimately have "distinct (map ?key (filter (active_grant th p dir) (grants d)))" by simp
  then have "length (filter (active_grant th p dir) (grants d)) = card (set (map ?key (filter (active_grant th p dir) (grants d))))"
    using distinct_card [of "map ?key (filter (active_grant th p dir) (grants d))"] by (simp only: length_map)
  also have "\<dots> \<le> card {(th, p, dir)}"
    by (rule card_mono) (auto simp: active_grant_def)
  finally show ?thesis by simp
qed

lemma exactly_one_active:
  "schema_ok d \<Longrightarrow> has_active_grant d th p dir \<Longrightarrow> length (filter (active_grant th p dir) (grants d)) = 1"
  using one_active_grant [of d th p dir]
  by (cases "filter (active_grant th p dir) (grants d)") (auto simp: has_active_grant_def filter_empty_conv)

lemma setGrantTx_idle: "relay_inv d \<Longrightarrow> is_party d th p \<Longrightarrow> has_active_grant d th p dir \<Longrightarrow> setGrantTx gid th p dir now d = Inr d"
  using has_active_grant_select [of th p dir d] by (auto simp: setGrantTx_def requireParticipant_Inr split: option.splits)

lemma has_active_new: "has_active_grant (d\<lparr>grants := grants d @ [new_grant gid th p dir now]\<rparr>) th p dir"
  by (simp add: has_active_grant_def new_grant_def active_grant_def)

text \<open>
  The life of a grant. A party can set a grant, after which exactly one grant row for that
  thread, person and direction is active and every earlier row is still there; setting it again
  changes nothing; revoking it leaves all rows (as history) but none active, and revoking again
  is refused. A stranger is refused, whether the thread exists or not.
\<close>

theorem thread_grant_lifecycle:
  assumes "healthy s" "relay_inv (st_db s)" "dir = Inbound \<or> dir = Outbound" "gid \<notin> g_id ` set (grants (st_db s))"
  shows "if is_party (st_db s) th p
    then \<exists>s1 s2. SetThreadGrant gid th p dir now s = (Inr (), s1) \<and>
      length (filter (active_grant th p dir) (grants (st_db s1))) = 1 \<and>
      set (grants (st_db s)) \<subseteq> set (grants (st_db s1)) \<and>
      SetThreadGrant gid' th p dir now' s1 = (Inr (), s1) \<and>
      RevokeThreadGrant th p dir now' s1 = (Inr (), s2) \<and>
      map g_id (grants (st_db s2)) = map g_id (grants (st_db s1)) \<and>
      \<not> has_active_grant (st_db s2) th p dir \<and>
      RevokeThreadGrant th p dir now' s2 = (Inl ErrNotFound, s2)
    else SetThreadGrant gid th p dir now s = (Inl ErrNotParticipant, s) \<and>
      RevokeThreadGrant th p dir now s = (Inl ErrNotParticipant, s)"
proof (cases "is_party (st_db s) th p")
  case False
  then show ?thesis
    using assms by (auto simp: SetThreadGrant_def RevokeThreadGrant_def writeTx_healthy unit_tx_def setGrantTx_eq revokeGrantTx_eq)
next
  case True
  let ?d = "st_db s"
  define d1 where "d1 = (if has_active_grant ?d th p dir then ?d else ?d\<lparr>grants := grants ?d @ [new_grant gid th p dir now]\<rparr>)"
  define d2 where "d2 = d1\<lparr>grants := update_where (active_grant th p dir) (revoked_at (unix_sec now')) (grants d1)\<rparr>"
  have set1: "setGrantTx gid th p dir now ?d = Inr d1"
    using True assms by (simp add: setGrantTx_eq d1_def)
  then have inv1: "relay_inv d1" by (rule setGrantTx_inv [OF assms(2)])
  have act: "has_active_grant d1 th p dir" by (simp add: d1_def has_active_new)
  have p1: "is_party d1 th p" using True by (simp add: d1_def)
  have rev: "revokeGrantTx th p dir now' d1 = Inr d2"
    using p1 act by (simp add: revokeGrantTx_eq [OF inv1] d2_def)
  then have inv2: "relay_inv d2" by (rule revokeGrantTx_inv [OF inv1])
  have p2: "is_party d2 th p" using p1 by (simp add: d2_def)
  have none: "\<not> has_active_grant d2 th p dir" unfolding d2_def by (rule no_active_after_revoke)
  have again: "revokeGrantTx th p dir now' d2 = Inl ErrNotFound"
    using p2 none by (simp add: revokeGrantTx_eq [OF inv2])
  have ids: "map g_id (grants d2) = map g_id (grants d1)"
    unfolding d2_def by simp (rule map_update_where_key, simp)
  have sub: "set (grants ?d) \<subseteq> set (grants d1)" by (auto simp: d1_def)
  have tx: "st_begin_ok s" "st_commit_ok s" using assms(1) by (simp_all add: healthy_def)
  show ?thesis
    using True assms(3) tx set1 setGrantTx_idle [OF inv1 p1 act] exactly_one_active [OF relay_inv_schema [OF inv1] act] sub rev ids none again
    by (auto simp: SetThreadGrant_def RevokeThreadGrant_def writeTx_def unit_tx_def
      intro!: exI [of _ "s\<lparr>st_db := d1\<rparr>"] exI [of _ "s\<lparr>st_db := d2\<rparr>"])
qed

theorem thread_grant_lifecycle_witness:
  "(\<exists>s1 s2. SetThreadGrant ''g1'' ''th'' ''bob'' Inbound 5 sample_store = (Inr (), s1) \<and>
      RevokeThreadGrant ''th'' ''bob'' Inbound 6 s1 = (Inr (), s2)) \<and>
   SetThreadGrant ''g1'' ''th'' ''eve'' Inbound 5 sample_store = (Inl ErrNotParticipant, sample_store)"
proof -
  have "is_party sample_db ''th'' ''bob''" "\<not> is_party sample_db ''th'' ''eve''" "''g1'' \<notin> g_id ` set (grants sample_db)"
    by (simp_all add: is_party_def sample_simps)
  with thread_grant_lifecycle [OF sample_healthy(1) sample_store_inv, of Inbound "''g1''" "''th''" "''bob''" 5 "''g2''" 6]
    thread_grant_lifecycle [OF sample_healthy(1) sample_store_inv, of Inbound "''g1''" "''th''" "''eve''" 5 "''g2''" 6]
  show ?thesis by auto
qed

text \<open>
  Auto-approval fires exactly when the granter holds an active inbound grant on that very
  thread and the thread waits for input; it then makes the thread working and marks only the
  named message of that thread. Without the grant it reports false and changes nothing.
\<close>

theorem ApproveInboundViaGrant_iff:
  assumes "healthy s" "relay_inv (st_db s)" "th \<noteq> []"
  shows "(ApproveInboundViaGrant th g mid now s = (Inr True, s') \<longleftrightarrow>
      has_active_grant (st_db s) th g Inbound \<and> thread_state_of (st_db s) th = Some StateInputRequired \<and>
      s' = s\<lparr>st_db := (with_state th StateWorking now (st_db s))\<lparr>messages := mark_via_grant mid th (messages (st_db s))\<rparr>\<rparr>) \<and>
    (ApproveInboundViaGrant th g mid now s = (Inr False, s') \<longleftrightarrow>
      \<not> has_active_grant (st_db s) th g Inbound \<and> s' = s)"
proof -
  have c: "ApplyInboundGrant \<lparr>gr_thread = th, gr_direction = Inbound, gr_revoked = False\<rparr>
      \<lparr>ap_kind = KindMessage, ap_direction = Inbound, ap_thread = th, ap_id = mid, ap_payload = ()\<rparr> cur =
      ApplyInbound cur Approve" for cur
    using assms(3) by (simp add: ApplyInboundGrant_def Covers_def)
  show ?thesis
    using assms(1) unfolding ApproveInboundViaGrant_def
    by (auto simp: writeTx_healthy approveViaGrantTx_eq [OF assms(2)] c ApplyInbound_Inr split: option.splits sum.splits)
qed

theorem ApproveInboundViaGrant_iff_witness:
  "ApproveInboundViaGrant ''th'' ''bob'' ''m1'' 7 sample_store = (Inr False, sample_store)"
  using ApproveInboundViaGrant_iff [OF sample_healthy(1) sample_store_inv, of "''th''" "''bob''" "''m1''" 7 sample_store]
  by (simp add: has_active_grant_def sample_simps)

end
