(* ===== verification/StoreDraft.thy ===== *)
theory StoreDraft
  imports StoreApproval Signature
begin

text \<open>
  The outbound draft pipeline: \<open>internal/relay/store/draft.go\<close>. A draft row holds the
  JSON bytes of an unsigned envelope; releasing decodes it, asks the gate, marks the row and
  delivers the envelope to the recipient, all in one transaction.
\<close>

section \<open>Operations\<close>

definition env_lift :: "env_error + 'a \<Rightarrow> store_error + 'a" where
  "env_lift r = (case r of Inl e \<Rightarrow> Inl (EnvErr e) | Inr x \<Rightarrow> Inr x)"

lemma env_lift_simps [simp]:
  "env_lift (Inl e) = Inl (EnvErr e)"
  "env_lift (Inr x) = Inr x"
  "env_lift r = Inr y \<longleftrightarrow> r = Inr y"
  by (simp_all add: env_lift_def split: sum.splits)

definition createDraftTx :: "string \<Rightarrow> string \<Rightarrow> envelope \<Rightarrow> string \<Rightarrow> instant \<Rightarrow> database \<Rightarrow> store_error + database" where
  "createDraftTx threadID authorID e blob now d =
     (case select_first (\<lambda>r. t_id r = threadID) (threads d) of
        None \<Rightarrow> Inl ErrNotFound
      | Some t \<Rightarrow>
          if authorID \<noteq> t_initiator t \<and> authorID \<noteq> t_recipient t then Inl ErrNotParticipant
          else let other = (if authorID = t_recipient t then t_initiator t else t_recipient t)
            in if env_To e \<noteq> other then Inl ErrNotParticipant
               else exec (d\<lparr>drafts := drafts d @
                 [\<lparr>dr_id = env_ID e, dr_thread = threadID, dr_author = authorID, dr_envelope = blob,
                   dr_state = PendingReview, dr_via_grant = 0, dr_created = unix_sec now, dr_decided = None\<rparr>]\<rparr>))"

definition CreateDraft :: "(string \<Rightarrow> bool) \<Rightarrow> string \<Rightarrow> string \<Rightarrow> envelope \<Rightarrow> instant \<Rightarrow>
    store \<Rightarrow> (store_error + string) \<times> store" where
  "CreateDraft uuid_ok threadID authorID e now s =
     (if \<not> uuid_ok (env_ID e) then (Inl BadID, s)
      else case Validate e of Inl er \<Rightarrow> (Inl (EnvErr er), s)
      | Inr _ \<Rightarrow>
         (case Marshal e of None \<Rightarrow> (Inl (EnvErr ErrSerialize), s)
          | Some blob \<Rightarrow>
             (case writeTx (unit_tx (createDraftTx threadID authorID e blob now)) s of
                (Inl er, s') \<Rightarrow> (Inl er, s')
              | (Inr _, s') \<Rightarrow> (Inr (env_ID e), s'))))"

definition loadDraft :: "string \<Rightarrow> database \<Rightarrow> store_error + string \<times> string \<times> draft_state \<times> envelope" where
  "loadDraft draftID d =
     (case select_first (\<lambda>r. dr_id r = draftID) (drafts d) of
        None \<Rightarrow> Inl ErrNotFound
      | Some r \<Rightarrow> rbind (env_lift (Decode (dr_envelope r))) (\<lambda>e.
          Inr (dr_thread r, dr_author r, dr_state r, e)))"

definition setDraftDecided :: "string \<Rightarrow> draft_state \<Rightarrow> bool \<Rightarrow> instant \<Rightarrow> database \<Rightarrow> store_error + database" where
  "setDraftDecided draftID next viaGrant now d =
     exec (d\<lparr>drafts := update_where (\<lambda>r. dr_id r = draftID)
       (\<lambda>r. r\<lparr>dr_state := next, dr_via_grant := (if viaGrant then 1 else 0),
             dr_decided := Some (unix_sec now)\<rparr>) (drafts d)\<rparr>)"

definition deliverInTx :: "envelope \<Rightarrow> string \<Rightarrow> instant \<Rightarrow> string tx" where
  "deliverInTx payload author now d =
     rbind (ingestTx (payload\<lparr>env_SentAt := UTC now\<rparr>) author now d) (\<lambda>d'. Inr (env_To payload, d'))"

definition draft_approvable :: "string \<Rightarrow> string \<Rightarrow> envelope \<Rightarrow> envelope approvable" where
  "draft_approvable thread draftID payload =
     \<lparr>ap_kind = KindMessage, ap_direction = Outbound, ap_thread = thread, ap_id = draftID,
      ap_payload = payload\<rparr>"

definition edited_body :: "envelope \<Rightarrow> string \<Rightarrow> envelope" where
  "edited_body payload txt =
     payload\<lparr>env_Body := \<lparr>msg_role = msg_role (env_Body payload),
       msg_parts = Some [\<lparr>part_type = ''text'', part_text = txt\<rparr>]\<rparr>\<rparr>"

text \<open>The optional edit of \<open>ReleaseDraft\<close>: the replaced payload, validated and stored.\<close>

definition applyEdit :: "string \<Rightarrow> envelope \<Rightarrow> string option \<Rightarrow> envelope tx" where
  "applyEdit draftID payload editedText d =
     (case editedText of None \<Rightarrow> Inr (payload, d)
      | Some txt \<Rightarrow>
          let payload' = edited_body payload txt
          in rbind (env_lift (Validate payload')) (\<lambda>_.
             case Marshal payload' of None \<Rightarrow> Inl (EnvErr ErrSerialize)
             | Some blob \<Rightarrow>
                rbind (exec (d\<lparr>drafts := update_where (\<lambda>r. dr_id r = draftID)
                   (\<lambda>r. r\<lparr>dr_envelope := blob\<rparr>) (drafts d)\<rparr>)) (\<lambda>d'. Inr (payload', d'))))"

definition releaseDraftTx :: "string \<Rightarrow> string \<Rightarrow> string option \<Rightarrow> instant \<Rightarrow>
    (string \<times> envelope release option) tx" where
  "releaseDraftTx personID draftID editedText now d =
     rbind (loadDraft draftID d) (\<lambda>(thread, author, cur, payload).
       if author \<noteq> personID then Inl ErrNotFound
       else rbind (applyEdit draftID payload editedText d) (\<lambda>(payload, d1).
            rbind (gate_lift (ApplyOutbound (draft_approvable thread draftID payload) cur Approve)) (\<lambda>(next, r).
            rbind (setDraftDecided draftID next False now d1) (\<lambda>d2.
            rbind (deliverInTx payload author now d2) (\<lambda>(rid, d3). Inr ((rid, r), d3))))))"

definition ReleaseDraft :: "string \<Rightarrow> string \<Rightarrow> string option \<Rightarrow> instant \<Rightarrow>
    store \<Rightarrow> (store_error + string \<times> envelope release option) \<times> store" where
  "ReleaseDraft personID draftID editedText now = writeTx (releaseDraftTx personID draftID editedText now)"

definition discardDraftTx :: "string \<Rightarrow> string \<Rightarrow> instant \<Rightarrow> database \<Rightarrow> store_error + database" where
  "discardDraftTx personID draftID now d =
     rbind (loadDraft draftID d) (\<lambda>(thread, author, cur, payload).
       if author \<noteq> personID then Inl ErrNotFound
       else rbind (gate_lift (ApplyOutbound (draft_approvable thread draftID payload) cur Reject)) (\<lambda>(next, _).
            setDraftDecided draftID next False now d))"

definition DiscardDraft :: "string \<Rightarrow> string \<Rightarrow> instant \<Rightarrow> store \<Rightarrow> (store_error + unit) \<times> store" where
  "DiscardDraft personID draftID now = writeTx (unit_tx (discardDraftTx personID draftID now))"

definition releaseViaGrantTx :: "string \<Rightarrow> string \<Rightarrow> instant \<Rightarrow> (string \<times> envelope release option) tx" where
  "releaseViaGrantTx draftID granterID now d =
     rbind (loadDraft draftID d) (\<lambda>(thread, author, cur, payload).
       if author \<noteq> granterID then Inr (([], None), d)
       else case select_first (active_grant thread granterID Outbound) (grants d) of
         None \<Rightarrow> Inr (([], None), d)
       | Some _ \<Rightarrow>
           rbind (gate_lift (ApplyOutboundGrant
               \<lparr>gr_thread = thread, gr_direction = Outbound, gr_revoked = False\<rparr>
               (draft_approvable thread draftID payload) cur)) (\<lambda>(next, r).
           rbind (setDraftDecided draftID next True now d) (\<lambda>d1.
           rbind (deliverInTx payload author now d1) (\<lambda>(rid, d2). Inr ((rid, r), d2)))))"

definition ReleaseReplyViaGrant :: "string \<Rightarrow> string \<Rightarrow> instant \<Rightarrow>
    store \<Rightarrow> (store_error + string \<times> envelope release option) \<times> store" where
  "ReleaseReplyViaGrant draftID granterID now = writeTx (releaseViaGrantTx draftID granterID now)"

section \<open>Draft rows keep the invariant\<close>

lemma draft_states_iff: "st \<in> {''pending_review'', ''sent'', ''discarded''} \<longleftrightarrow> validDraftState st"
  by (simp add: validDraftState_def draft_state_defs)

lemma drafts_ok_alt:
  "drafts_ok d \<longleftrightarrow> distinct (map dr_id (drafts d)) \<and>
     list_all (\<lambda>r. has_thread d (dr_thread r) \<and> has_person d (dr_author r) \<and>
       validDraftState (dr_state r) \<and> dr_via_grant r \<in> {0, 1}) (drafts d)"
  by (simp only: drafts_ok_def draft_states_iff)

lemma drafts_inv:
  assumes "relay_inv d" "drafts_ok (d\<lparr>drafts := ds\<rparr>)" "\<And>r. r \<in> set ds \<Longrightarrow> draft_sound d r"
  shows "relay_inv (d\<lparr>drafts := ds\<rparr>)"
proof -
  have "schema_ok (d\<lparr>drafts := ds\<rparr>)"
    using assms(2) by (intro schema_ok_step [OF relay_inv_schema [OF assms(1)]]) (simp_all add: keys_grow_def)
  with assms show ?thesis by (simp add: relay_inv_def list_all_iff delivery_to_other_def draft_sound_def)
qed

lemma drafts_update_inv:
  assumes "relay_inv d"
    and key: "\<And>r. P r \<Longrightarrow> dr_id (f r) = dr_id r \<and> dr_thread (f r) = dr_thread r \<and> dr_author (f r) = dr_author r"
    and val: "\<And>r. P r \<Longrightarrow> r \<in> set (drafts d) \<Longrightarrow>
      validDraftState (dr_state (f r)) \<and> dr_via_grant (f r) \<in> {0, 1} \<and> (dr_state (f r) = PendingReview \<longleftrightarrow> dr_decided (f r) = None)"
  shows "relay_inv (d\<lparr>drafts := update_where P f (drafts d)\<rparr>)"
proof (rule drafts_inv [OF assms(1)])
  have ids: "map dr_id (update_where P f (drafts d)) = map dr_id (drafts d)"
    by (rule map_update_where_key) (simp add: key)
  have ok: "drafts_ok d" using assms(1) by (simp add: relay_inv_def schema_ok_def)
  have "has_thread d (dr_thread r) \<and> has_person d (dr_author r) \<and> validDraftState (dr_state r) \<and> dr_via_grant r \<in> {0, 1}"
    if "r \<in> set (update_where P f (drafts d))" for r
    using that
  proof (rule in_update_whereE)
    fix r0 assume "r0 \<in> set (drafts d)" "r = (if P r0 then f r0 else r0)"
    with ok key [of r0] val [of r0] show ?thesis by (cases "P r0") (auto simp: drafts_ok_alt list_all_iff)
  qed
  with ok ids show "drafts_ok (d\<lparr>drafts := update_where P f (drafts d)\<rparr>)"
    by (simp add: drafts_ok_alt list_all_iff)
  show "draft_sound d r" if "r \<in> set (update_where P f (drafts d))" for r
    using that
  proof (rule in_update_whereE)
    fix r0 assume r0: "r0 \<in> set (drafts d)" "r = (if P r0 then f r0 else r0)"
    moreover have "draft_sound d r0" using assms(1) r0(1) by (simp add: relay_inv_def list_all_iff)
    ultimately show ?thesis using key [of r0] val [of r0] by (cases "P r0") (auto simp: draft_sound_def)
  qed
qed

definition decided_draft :: "draft_state \<Rightarrow> bool \<Rightarrow> instant \<Rightarrow> draft_row \<Rightarrow> draft_row" where
  "decided_draft st viaGrant now r = r\<lparr>dr_state := st, dr_via_grant := (if viaGrant then 1 else 0),
     dr_decided := Some (unix_sec now)\<rparr>"

definition with_decision :: "string \<Rightarrow> draft_state \<Rightarrow> bool \<Rightarrow> instant \<Rightarrow> database \<Rightarrow> database" where
  "with_decision i st viaGrant now d = d\<lparr>drafts := update_where (\<lambda>r. dr_id r = i) (decided_draft st viaGrant now) (drafts d)\<rparr>"

lemma with_decision_inv:
  assumes "relay_inv d" "st = Sent \<or> st = Discarded"
  shows "relay_inv (with_decision i st viaGrant now d)"
  unfolding with_decision_def
  by (rule drafts_update_inv [OF assms(1)]) (use assms(2) in \<open>auto simp: decided_draft_def\<close>)

lemma setDraftDecided_eq:
  assumes "relay_inv d" "st = Sent \<or> st = Discarded"
  shows "setDraftDecided i st viaGrant now d = Inr (with_decision i st viaGrant now d)"
proof -
  have "(\<lambda>r. r\<lparr>dr_state := st, dr_via_grant := (if viaGrant then 1 else 0), dr_decided := Some (unix_sec now)\<rparr>) =
      decided_draft st viaGrant now" by (simp add: decided_draft_def fun_eq_iff)
  then show ?thesis
    using relay_inv_schema [OF with_decision_inv [OF assms]] by (simp add: setDraftDecided_def with_decision_def)
qed

definition with_envelope :: "string \<Rightarrow> string \<Rightarrow> database \<Rightarrow> database" where
  "with_envelope i blob d = d\<lparr>drafts := update_where (\<lambda>r. dr_id r = i) (\<lambda>r. r\<lparr>dr_envelope := blob\<rparr>) (drafts d)\<rparr>"

lemma with_envelope_inv:
  assumes "relay_inv d"
  shows "relay_inv (with_envelope i blob d)"
  unfolding with_envelope_def
proof (rule drafts_update_inv [OF assms])
  show "validDraftState (dr_state (r\<lparr>dr_envelope := blob\<rparr>)) \<and> dr_via_grant (r\<lparr>dr_envelope := blob\<rparr>) \<in> {0, 1} \<and>
      (dr_state (r\<lparr>dr_envelope := blob\<rparr>) = PendingReview \<longleftrightarrow> dr_decided (r\<lparr>dr_envelope := blob\<rparr>) = None)"
    if "r \<in> set (drafts d)" for r
    using that assms by (auto simp: relay_inv_def schema_ok_def drafts_ok_alt list_all_iff draft_sound_def)
qed simp

lemma createDraftTx_inv:
  assumes "relay_inv d" "createDraftTx th author e blob now d = Inr d'"
  shows "relay_inv d'"
proof -
  obtain t where t: "t \<in> set (threads d)" "t_id t = th" and a: "author = t_initiator t \<or> author = t_recipient t"
    and d': "d' = d\<lparr>drafts := drafts d @ [\<lparr>dr_id = env_ID e, dr_thread = th, dr_author = author, dr_envelope = blob,
        dr_state = PendingReview, dr_via_grant = 0, dr_created = unix_sec now, dr_decided = None\<rparr>]\<rparr>" and ok: "schema_ok d'"
    using assms(2) by (auto simp: createDraftTx_def exec_Inr Let_def dest: select_first_Some split: option.splits if_splits)
  have p: "is_party d th author" using t a by (auto simp: is_party_def)
  show ?thesis
    unfolding d'
  proof (rule drafts_inv [OF assms(1)])
    show "drafts_ok (d\<lparr>drafts := drafts d @ [\<lparr>dr_id = env_ID e, dr_thread = th, dr_author = author, dr_envelope = blob,
        dr_state = PendingReview, dr_via_grant = 0, dr_created = unix_sec now, dr_decided = None\<rparr>]\<rparr>)"
      using ok by (simp add: schema_ok_def d')
    show "draft_sound d r" if "r \<in> set (drafts d @ [\<lparr>dr_id = env_ID e, dr_thread = th, dr_author = author, dr_envelope = blob,
        dr_state = PendingReview, dr_via_grant = 0, dr_created = unix_sec now, dr_decided = None\<rparr>])" for r
      using that p assms(1) by (auto simp: relay_inv_def list_all_iff) (simp add: draft_sound_def)
  qed
qed

section \<open>Release and discard\<close>

lemma loadDraft_Inr:
  assumes "relay_inv d"
  shows "loadDraft i d = Inr (th, author, st, payload) \<longleftrightarrow>
    (\<exists>r \<in> set (drafts d). dr_id r = i \<and> dr_thread r = th \<and> dr_author r = author \<and> dr_state r = st \<and>
       Decode (dr_envelope r) = Inr payload)"
proof (cases "select_first (\<lambda>r. dr_id r = i) (drafts d)")
  case None
  then have "\<forall>r \<in> set (drafts d). dr_id r \<noteq> i" by (simp add: select_first_None)
  with None show ?thesis by (auto simp: loadDraft_def)
next
  case (Some r)
  then have r: "r \<in> set (drafts d)" "dr_id r = i" by (auto dest: select_first_Some)
  have "r' = r" if "r' \<in> set (drafts d)" "dr_id r' = i" for r'
    using distinct_key_unique [of dr_id "drafts d" r' r] that r assms by (simp add: relay_inv_def schema_ok_def drafts_ok_def)
  with r have "(\<exists>r' \<in> set (drafts d). dr_id r' = i \<and> Q r') \<longleftrightarrow> Q r" for Q by blast
  with Some show ?thesis by (simp add: loadDraft_def rbind_Inr_iff) blast
qed

lemma applyEdit_Inr:
  assumes "relay_inv d"
  shows "applyEdit i payload edit d = Inr (payload', d') \<longleftrightarrow>
    (case edit of None \<Rightarrow> payload' = payload \<and> d' = d
     | Some txt \<Rightarrow> payload' = edited_body payload txt \<and> Validate payload' = Inr () \<and>
         (\<exists>blob. Marshal payload' = Some blob \<and> d' = with_envelope i blob d))"
proof (cases edit)
  case (Some body)
  have "schema_ok (with_envelope i blob d)" for blob
    using with_envelope_inv [OF assms] by (rule relay_inv_schema)
  with Some show ?thesis
    by (auto simp: applyEdit_def Let_def rbind_Inr_iff with_envelope_def split: option.splits)
qed (auto simp: applyEdit_def)

lemma applyEdit_inv: "relay_inv d \<Longrightarrow> applyEdit i payload edit d = Inr (payload', d') \<Longrightarrow> relay_inv d'"
  by (auto simp: applyEdit_Inr intro: with_envelope_inv split: option.splits)

lemma deliverInTx_Inr: "deliverInTx payload author now d = Inr (rid, d') \<longleftrightarrow>
    ingestTx (payload\<lparr>env_SentAt := UTC now\<rparr>) author now d = Inr d' \<and> rid = env_To payload"
  by (auto simp: deliverInTx_def rbind_Inr_iff)

lemma deliverInTx_inv: "relay_inv d \<Longrightarrow> deliverInTx payload author now d = Inr (rid, d') \<Longrightarrow> relay_inv d'"
  by (auto simp: deliverInTx_Inr intro: ingest_keeps_inv)

lemma releaseDraftTx_Inr:
  assumes "relay_inv d"
  shows "releaseDraftTx p i edit now d = Inr ((rid, rel), d') \<longleftrightarrow>
    (\<exists>th payload0 payload d1. loadDraft i d = Inr (th, p, PendingReview, payload0) \<and>
       applyEdit i payload0 edit d = Inr (payload, d1) \<and>
       rel = Some \<lparr>rel_thread = th, rel_id = i, rel_payload = payload, rel_viaGrant = False\<rparr> \<and>
       deliverInTx payload p now (with_decision i Sent False now d1) = Inr (rid, d'))"
proof
  assume "releaseDraftTx p i edit now d = Inr ((rid, rel), d')"
  then obtain th author cur payload0 payload d1 st d2 where
      l: "loadDraft i d = Inr (th, author, cur, payload0)" "author = p" and
      e: "applyEdit i payload0 edit d = Inr (payload, d1)" and
      g: "ApplyOutbound (draft_approvable th i payload) cur Approve = Inr (st, rel)" and
      s: "setDraftDecided i st False now d1 = Inr d2" and
      v: "deliverInTx payload author now d2 = Inr (rid, d')"
    by (auto simp: releaseDraftTx_def rbind_Inr_iff split: if_splits)
  have inv1: "relay_inv d1" by (rule applyEdit_inv [OF assms e])
  from g have "cur = PendingReview" "st = Sent" "rel = Some \<lparr>rel_thread = th, rel_id = i, rel_payload = payload, rel_viaGrant = False\<rparr>"
    by (auto simp: ApplyOutbound_Inr draft_approvable_def)
  moreover from this s have "d2 = with_decision i Sent False now d1" by (simp add: setDraftDecided_eq [OF inv1])
  ultimately show "\<exists>th payload0 payload d1. loadDraft i d = Inr (th, p, PendingReview, payload0) \<and>
       applyEdit i payload0 edit d = Inr (payload, d1) \<and>
       rel = Some \<lparr>rel_thread = th, rel_id = i, rel_payload = payload, rel_viaGrant = False\<rparr> \<and>
       deliverInTx payload p now (with_decision i Sent False now d1) = Inr (rid, d')"
    using l e v by blast
next
  assume "\<exists>th payload0 payload d1. loadDraft i d = Inr (th, p, PendingReview, payload0) \<and>
       applyEdit i payload0 edit d = Inr (payload, d1) \<and>
       rel = Some \<lparr>rel_thread = th, rel_id = i, rel_payload = payload, rel_viaGrant = False\<rparr> \<and>
       deliverInTx payload p now (with_decision i Sent False now d1) = Inr (rid, d')"
  then obtain th payload0 payload d1 where l: "loadDraft i d = Inr (th, p, PendingReview, payload0)"
      and e: "applyEdit i payload0 edit d = Inr (payload, d1)"
      and rel: "rel = Some \<lparr>rel_thread = th, rel_id = i, rel_payload = payload, rel_viaGrant = False\<rparr>"
      and v: "deliverInTx payload p now (with_decision i Sent False now d1) = Inr (rid, d')" by blast
  have "ApplyOutbound (draft_approvable th i payload) PendingReview Approve = Inr (Sent, rel)"
    by (simp add: ApplyOutbound_Inr draft_approvable_def rel)
  with l e v setDraftDecided_eq [OF applyEdit_inv [OF assms e], of Sent i False now]
  show "releaseDraftTx p i edit now d = Inr ((rid, rel), d')"
    by (simp add: releaseDraftTx_def)
qed

lemma releaseDraftTx_inv:
  assumes "relay_inv d" "releaseDraftTx p i edit now d = Inr (r, d')"
  shows "relay_inv d'"
proof -
  obtain rid rel where r: "r = (rid, rel)" by (cases r)
  then obtain payload0 payload d1 where e: "applyEdit i payload0 edit d = Inr (payload, d1)"
      and v: "deliverInTx payload p now (with_decision i Sent False now d1) = Inr (rid, d')"
    using assms(2) unfolding r releaseDraftTx_Inr [OF assms(1)] by blast
  have "relay_inv (with_decision i Sent False now d1)"
    by (rule with_decision_inv [OF applyEdit_inv [OF assms(1) e]]) simp
  then show ?thesis by (rule deliverInTx_inv [OF _ v])
qed

lemma discardDraftTx_Inr:
  assumes "relay_inv d"
  shows "discardDraftTx p i now d = Inr d' \<longleftrightarrow>
    (\<exists>th payload. loadDraft i d = Inr (th, p, PendingReview, payload) \<and> d' = with_decision i Discarded False now d)"
  using assms setDraftDecided_eq [OF assms, of Discarded i False now]
  by (auto simp: discardDraftTx_def rbind_Inr_iff ApplyOutbound_Inr draft_approvable_def)

lemma discardDraftTx_inv: "relay_inv d \<Longrightarrow> discardDraftTx p i now d = Inr d' \<Longrightarrow> relay_inv d'"
  by (auto simp: discardDraftTx_Inr intro!: with_decision_inv)

lemma releaseViaGrantTx_cases:
  assumes "relay_inv d"
  shows "releaseViaGrantTx i g now d = Inr ((rid, rel), d') \<longleftrightarrow>
    (\<exists>th author cur payload. loadDraft i d = Inr (th, author, cur, payload) \<and>
       (if author = g \<and> has_active_grant d th g Outbound
        then th \<noteq> [] \<and> cur = PendingReview \<and>
          rel = Some \<lparr>rel_thread = th, rel_id = i, rel_payload = payload, rel_viaGrant = True\<rparr> \<and>
          deliverInTx payload g now (with_decision i Sent True now d) = Inr (rid, d')
        else rid = [] \<and> rel = None \<and> d' = d))"
proof (cases "loadDraft i d")
  case (Inl e)
  then show ?thesis by (simp add: releaseViaGrantTx_def)
next
  case (Inr l)
  obtain th author cur payload where l: "l = (th, author, cur, payload)" by (cases l)
  have gate: "ApplyOutboundGrant \<lparr>gr_thread = th, gr_direction = Outbound, gr_revoked = False\<rparr> (draft_approvable th i payload) cur = Inr (st, rl) \<longleftrightarrow>
      th \<noteq> [] \<and> cur = PendingReview \<and> st = Sent \<and>
      rl = Some \<lparr>rel_thread = th, rel_id = i, rel_payload = payload, rel_viaGrant = True\<rparr>" for st rl
    by (auto simp: ApplyOutboundGrant_Inr draft_approvable_def Covers_def)
  have fire: "rbind (gate_lift (ApplyOutboundGrant \<lparr>gr_thread = th, gr_direction = Outbound, gr_revoked = False\<rparr>
          (draft_approvable th i payload) cur)) (\<lambda>(next, r).
        rbind (setDraftDecided i next True now d) (\<lambda>d1.
        rbind (deliverInTx payload author now d1) (\<lambda>(rid, d2). Inr ((rid, r), d2)))) = Inr ((rid, rel), d') \<longleftrightarrow>
      th \<noteq> [] \<and> cur = PendingReview \<and>
      rel = Some \<lparr>rel_thread = th, rel_id = i, rel_payload = payload, rel_viaGrant = True\<rparr> \<and>
      deliverInTx payload author now (with_decision i Sent True now d) = Inr (rid, d')"
    using setDraftDecided_eq [OF assms, of Sent i True now] by (auto simp: rbind_Inr_iff gate)
  show ?thesis
    using Inr l fire has_active_grant_select [of th g Outbound d]
    by (cases "select_first (active_grant th g Outbound) (grants d)") (auto simp: releaseViaGrantTx_def)
qed

lemma releaseViaGrantTx_inv:
  assumes "relay_inv d" "releaseViaGrantTx i g now d = Inr (r, d')"
  shows "relay_inv d'"
proof -
  obtain rid rel where r: "r = (rid, rel)" by (cases r)
  have "relay_inv (with_decision i Sent True now d)" by (rule with_decision_inv [OF assms(1)]) simp
  with assms(1) show ?thesis
    using assms(2) unfolding r releaseViaGrantTx_cases [OF assms(1)] by (auto intro: deliverInTx_inv split: if_splits)
qed

interpretation create_draft_tx: tx_keeps "unit_tx (createDraftTx th author e blob now)" relay_inv for th author e blob now
  by unfold_locales (auto intro: createDraftTx_inv)

interpretation release_tx: tx_keeps "releaseDraftTx p i edit now" relay_inv for p i edit now
  by unfold_locales (rule releaseDraftTx_inv)

interpretation discard_tx: tx_keeps "unit_tx (discardDraftTx p i now)" relay_inv for p i now
  by unfold_locales (auto intro: discardDraftTx_inv)

interpretation grant_release_tx: tx_keeps "releaseViaGrantTx i g now" relay_inv for i g now
  by unfold_locales (rule releaseViaGrantTx_inv)

section \<open>Decided drafts\<close>

lemma ingest_drafts:
  assumes "ingestTx e author now d = Inr d'"
  shows "drafts d' = drafts d"
proof -
  from assms show ?thesis by (elim ingestTx_Inr) simp
qed

definition draft_decided :: "string \<Rightarrow> database \<Rightarrow> bool" where
  "draft_decided i d \<longleftrightarrow> exists_row (\<lambda>r. dr_id r = i \<and> dr_state r \<noteq> PendingReview) (drafts d)"

lemma draft_decided_not_pending:
  assumes "relay_inv d" "draft_decided i d"
  shows "loadDraft i d \<noteq> Inr (th, p, PendingReview, payload)"
proof
  assume "loadDraft i d = Inr (th, p, PendingReview, payload)"
  then obtain r where "r \<in> set (drafts d)" "dr_id r = i" "dr_state r = PendingReview"
    by (auto simp: loadDraft_Inr [OF assms(1)])
  moreover obtain r' where "r' \<in> set (drafts d)" "dr_id r' = i" "dr_state r' \<noteq> PendingReview"
    using assms(2) by (auto simp: draft_decided_def)
  moreover have "distinct (map dr_id (drafts d))"
    using assms(1) by (simp add: relay_inv_def schema_ok_def drafts_ok_def)
  ultimately show False using distinct_key_unique [of dr_id "drafts d" r r'] by auto
qed

lemma draft_decided_with_decision:
  "(\<exists>r \<in> set (drafts d). dr_id r = i) \<Longrightarrow> st \<noteq> PendingReview \<Longrightarrow> draft_decided i (with_decision i st b now d)"
  unfolding draft_decided_def with_decision_def exists_row_iff
  by (auto simp: decided_draft_def intro!: bexI [OF _ in_update_whereI])

lemma decided_refused:
  assumes "healthy s" "relay_inv (st_db s)" "draft_decided i (st_db s)"
  shows "\<exists>e. ReleaseDraft q i edit now s = (Inl e, s)" "\<exists>e. DiscardDraft q i now s = (Inl e, s)"
    and "snd (ReleaseReplyViaGrant i q now s) = s" "fst (ReleaseReplyViaGrant i q now s) \<noteq> Inr (rid, Some rel)"
proof -
  note np = draft_decided_not_pending [OF assms(2,3)]
  show "\<exists>e. ReleaseDraft q i edit now s = (Inl e, s)"
    using np by (cases "releaseDraftTx q i edit now (st_db s)")
      (auto simp: ReleaseDraft_def writeTx_healthy [OF assms(1)] releaseDraftTx_Inr [OF assms(2)])
  show "\<exists>e. DiscardDraft q i now s = (Inl e, s)"
    using np by (cases "discardDraftTx q i now (st_db s)")
      (auto simp: DiscardDraft_def writeTx_healthy [OF assms(1)] unit_tx_def discardDraftTx_Inr [OF assms(2)])
  have g: "releaseViaGrantTx i q now (st_db s) = Inr ((r, rl), d') \<Longrightarrow> rl = None \<and> d' = st_db s" for r rl d'
    using np by (auto simp: releaseViaGrantTx_cases [OF assms(2)] split: if_splits)
  show "snd (ReleaseReplyViaGrant i q now s) = s" "fst (ReleaseReplyViaGrant i q now s) \<noteq> Inr (rid, Some rel)"
    using g by (auto simp: ReleaseReplyViaGrant_def writeTx_healthy [OF assms(1)] split: sum.splits)
qed

lemma ReleaseDraft_Inr:
  "ReleaseDraft p i edit now s = (Inr r, s') \<longleftrightarrow> healthy s \<and>
     (\<exists>d'. releaseDraftTx p i edit now (st_db s) = Inr (r, d') \<and> s' = s\<lparr>st_db := d'\<rparr>)"
  by (auto simp: ReleaseDraft_def writeTx_Inr healthy_def)

lemma ReleaseReplyViaGrant_Inr:
  "ReleaseReplyViaGrant i p now s = (Inr r, s') \<longleftrightarrow> healthy s \<and>
     (\<exists>d'. releaseViaGrantTx i p now (st_db s) = Inr (r, d') \<and> s' = s\<lparr>st_db := d'\<rparr>)"
  by (auto simp: ReleaseReplyViaGrant_def writeTx_Inr healthy_def)

lemma DiscardDraft_Inr:
  "DiscardDraft p i now s = (Inr u, s') \<longleftrightarrow> healthy s \<and>
     (\<exists>d'. discardDraftTx p i now (st_db s) = Inr d' \<and> s' = s\<lparr>st_db := d'\<rparr>)"
  by (auto simp: DiscardDraft_def writeTx_Inr healthy_def)

lemma with_envelope_ids: "(\<exists>r \<in> set (drafts d). dr_id r = i) \<Longrightarrow> \<exists>r \<in> set (drafts (with_envelope j blob d)). dr_id r = i"
  unfolding with_envelope_def by (auto intro!: bexI [OF _ in_update_whereI])

lemma applyEdit_frame:
  assumes "relay_inv d" "applyEdit i payload0 edit d = Inr (payload, d1)"
  shows "messages d1 = messages d" "devices d1 = devices d" "deliveries d1 = deliveries d"
    "(\<exists>r \<in> set (drafts d). dr_id r = j) \<Longrightarrow> \<exists>r \<in> set (drafts d1). dr_id r = j"
  using assms(2) unfolding applyEdit_Inr [OF assms(1)]
  by (auto split: option.splits intro: with_envelope_ids) (simp_all add: with_envelope_def)

lemma release_decides:
  assumes "relay_inv d" "releaseDraftTx p i edit now d = Inr (r, d')"
  shows "draft_decided i d'"
proof -
  obtain rid rel where r: "r = (rid, rel)" by (cases r)
  then obtain th payload0 payload d1 where l: "loadDraft i d = Inr (th, p, PendingReview, payload0)"
      and e: "applyEdit i payload0 edit d = Inr (payload, d1)"
      and v: "deliverInTx payload p now (with_decision i Sent False now d1) = Inr (rid, d')"
    using assms(2) unfolding r releaseDraftTx_Inr [OF assms(1)] by blast
  have "\<exists>r \<in> set (drafts d1). dr_id r = i"
    using l applyEdit_frame(4) [OF assms(1) e] by (auto simp: loadDraft_Inr [OF assms(1)])
  then have "draft_decided i (with_decision i Sent False now d1)" by (rule draft_decided_with_decision) simp
  moreover have "drafts d' = drafts (with_decision i Sent False now d1)"
    using v by (auto simp: deliverInTx_Inr dest: ingest_drafts)
  ultimately show ?thesis by (simp add: draft_decided_def)
qed

lemma grant_release_decides:
  assumes "relay_inv d" "releaseViaGrantTx i p now d = Inr ((rid, Some rel), d')"
  shows "draft_decided i d'"
proof -
  obtain th author cur payload where l: "loadDraft i d = Inr (th, author, cur, payload)"
      and v: "deliverInTx payload p now (with_decision i Sent True now d) = Inr (rid, d')"
    using assms(2) unfolding releaseViaGrantTx_cases [OF assms(1)] by (auto split: if_splits)
  have "draft_decided i (with_decision i Sent True now d)"
    using l by (intro draft_decided_with_decision) (auto simp: loadDraft_Inr [OF assms(1)])
  moreover have "drafts d' = drafts (with_decision i Sent True now d)"
    using v by (auto simp: deliverInTx_Inr dest: ingest_drafts)
  ultimately show ?thesis by (simp add: draft_decided_def)
qed

lemma discard_decides:
  assumes "relay_inv d" "discardDraftTx p i now d = Inr d'"
  shows "draft_decided i d'"
  using assms by (auto simp: discardDraftTx_Inr loadDraft_Inr intro!: draft_decided_with_decision)

section \<open>Properties\<close>

text \<open>
  C34: releasing a draft releases exactly what was reviewed, and delivers it in the same step.
  The draft was the caller's own and pending; the payload is the stored envelope, or the stored
  envelope with the edited text as its only part and within the size caps; the release
  capability names the draft, its thread and that payload; the draft is now sent; exactly one
  message is added, the payload stamped with the release time, with a delivery for exactly the
  addressee's active devices.
\<close>

theorem ReleaseDraft_effect:
  assumes "relay_inv (st_db s)" "ReleaseDraft p i edit now s = (Inr (rid, rel), s')"
  shows "\<exists>r payload0 payload blob. r \<in> set (drafts (st_db s)) \<and> dr_id r = i \<and> dr_author r = p \<and> dr_state r = PendingReview \<and>
    Decode (dr_envelope r) = Inr payload0 \<and>
    (case edit of None \<Rightarrow> payload = payload0
     | Some body \<Rightarrow> payload = edited_body payload0 body \<and> Validate payload = Inr ()) \<and>
    rel = Some \<lparr>rel_thread = dr_thread r, rel_id = i, rel_payload = payload, rel_viaGrant = False\<rparr> \<and>
    rid = env_To payload \<and>
    messages (st_db s') = messages (st_db s) @ [ingested (payload\<lparr>env_SentAt := UTC now\<rparr>) p now blob] \<and>
    Marshal (payload\<lparr>env_SentAt := UTC now\<rparr>) = Some blob \<and>
    deliveries (st_db s') = deliveries (st_db s) @
      map (\<lambda>dev. \<lparr>dl_message = env_ID payload, dl_device = dev, dl_delivered = None, dl_acked = None\<rparr>)
        (active_devices (st_db s) rid) \<and>
    draft_decided i (st_db s') \<and> relay_inv (st_db s')"
proof -
  let ?d = "st_db s"
  from assms(2) have run: "releaseDraftTx p i edit now ?d = Inr ((rid, rel), st_db s')"
    by (auto simp: ReleaseDraft_Inr)
  then obtain th payload0 payload d1 where l: "loadDraft i ?d = Inr (th, p, PendingReview, payload0)"
      and e: "applyEdit i payload0 edit ?d = Inr (payload, d1)"
      and rel: "rel = Some \<lparr>rel_thread = th, rel_id = i, rel_payload = payload, rel_viaGrant = False\<rparr>"
      and v: "deliverInTx payload p now (with_decision i Sent False now d1) = Inr (rid, st_db s')"
    unfolding releaseDraftTx_Inr [OF assms(1)] by blast
  obtain r where r: "r \<in> set (drafts ?d)" "dr_id r = i" "dr_thread r = th" "dr_author r = p" "dr_state r = PendingReview"
      "Decode (dr_envelope r) = Inr payload0"
    using l by (auto simp: loadDraft_Inr [OF assms(1)])
  from v have "ingestTx (payload\<lparr>env_SentAt := UTC now\<rparr>) p now (with_decision i Sent False now d1) = Inr (st_db s')"
    and rid: "rid = env_To payload" by (auto simp: deliverInTx_Inr)
  then obtain blob where blob: "Marshal (payload\<lparr>env_SentAt := UTC now\<rparr>) = Some blob"
      "messages (st_db s') = messages d1 @ [ingested (payload\<lparr>env_SentAt := UTC now\<rparr>) p now blob]"
      "deliveries (st_db s') = deliveries d1 @
        map (\<lambda>dev. \<lparr>dl_message = env_ID payload, dl_device = dev, dl_delivered = None, dl_acked = None\<rparr>)
          (active_devices (with_decision i Sent False now d1) (env_To payload))"
    by (elim ingestTx_Inr) (simp add: with_decision_def)
  have act: "active_devices (with_decision i Sent False now d1) (env_To payload) = active_devices ?d (env_To payload)"
    by (simp add: active_devices_def with_decision_def applyEdit_frame(2) [OF assms(1) e])
  have ed: "case edit of None \<Rightarrow> payload = payload0
     | Some body \<Rightarrow> payload = edited_body payload0 body \<and> Validate payload = Inr ()"
    using e by (auto simp: applyEdit_Inr [OF assms(1)] split: option.splits)
  note frame = applyEdit_frame(1,3) [OF assms(1) e]
  show ?thesis
    by (rule exI [of _ r], rule exI [of _ payload0], rule exI [of _ payload], rule exI [of _ blob])
      (simp add: r rel rid blob act frame ed release_decides [OF assms(1) run] releaseDraftTx_inv [OF assms(1) run])
qed

definition sample_draft :: draft_row where
  "sample_draft = \<lparr>dr_id = ''m2'', dr_thread = ''th'', dr_author = ''bob'',
     dr_envelope = ''{\"v\":1,\"id\":\"m2\",\"to\":\"alice\",\"thread\":\"th\"}'',
     dr_state = PendingReview, dr_via_grant = 0, dr_created = 150, dr_decided = None\<rparr>"

definition sample_reply :: envelope where
  "sample_reply = zero_envelope\<lparr>env_V := 1, env_ID := ''m2'', env_To := ''alice'', env_Thread := ''th''\<rparr>"

definition sample_draft_store :: store where
  "sample_draft_store = sample_store\<lparr>st_db := sample_db\<lparr>drafts := [sample_draft]\<rparr>\<rparr>"

lemma sample_draft_decodes: "Decode (dr_envelope sample_draft) = Inr sample_reply"
  by code_simp

lemma sample_draft_store_ok:
  "healthy sample_draft_store" "relay_inv (st_db sample_draft_store)"
proof -
  show "healthy sample_draft_store" using sample_healthy(1) by (simp add: sample_draft_store_def healthy_def)
  have "drafts_ok (sample_db\<lparr>drafts := [sample_draft]\<rparr>)"
    by (simp add: drafts_ok_alt) (simp add: sample_draft_def sample_simps has_thread_def has_person_def)
  moreover have "draft_sound sample_db sample_draft"
    by (simp add: draft_sound_def) (simp add: sample_draft_def sample_simps is_party_def)
  ultimately show "relay_inv (st_db sample_draft_store)"
    using drafts_inv [OF sample_db_inv, of "[sample_draft]"] by (simp add: sample_draft_store_def)
qed

lemma sample_release:
  "\<exists>s'. ReleaseDraft ''bob'' ''m2'' None 200000000000 sample_draft_store =
     (Inr (''alice'', Some \<lparr>rel_thread = ''th'', rel_id = ''m2'', rel_payload = sample_reply, rel_viaGrant = False\<rparr>), s')"
proof -
  let ?d = "sample_db\<lparr>drafts := [sample_draft]\<rparr>"
  have inv: "relay_inv ?d" using sample_draft_store_ok(2) by (simp add: sample_draft_store_def)
  have l: "loadDraft ''m2'' ?d = Inr (''th'', ''bob'', PendingReview, sample_reply)"
    using sample_draft_decodes by (auto simp: loadDraft_Inr [OF inv]) (simp_all add: sample_draft_def)
  let ?d1 = "with_decision ''m2'' Sent False 200000000000 ?d"
  have inv1: "relay_inv ?d1" by (rule with_decision_inv [OF inv]) simp
  have "may_join (sample_reply\<lparr>env_SentAt := UTC 200000000000\<rparr>) ''bob'' ?d1" "\<not> tombstoneSeen ?d1 (env_ID sample_reply)"
      "\<not> has_message ?d1 (env_ID sample_reply)"
    by (simp_all add: may_join_def with_decision_def tombstoneSeen_iff sample_reply_def sample_simps has_message_def select_first_def
        insert_commute)
  moreover have "Marshal (sample_reply\<lparr>env_SentAt := UTC 200000000000\<rparr>) \<noteq> None"
    by (simp add: Marshal_def envelope_json_def format_rfc3339_def UTC_def Let_def
      year_of_day_def epoch_days_def days_before_year_def)
  ultimately obtain d' where "ingestTx (sample_reply\<lparr>env_SentAt := UTC 200000000000\<rparr>) ''bob'' 200000000000 ?d1 = Inr d'"
    using ingestTx_iff [OF inv1, of "sample_reply\<lparr>env_SentAt := UTC 200000000000\<rparr>" "''bob''" 200000000000]
    by (auto simp: sample_reply_def)
  then have "deliverInTx sample_reply ''bob'' 200000000000 ?d1 = Inr (''alice'', d')"
    by (simp add: deliverInTx_Inr) (simp add: sample_reply_def)
  with l have "releaseDraftTx ''bob'' ''m2'' None 200000000000 ?d =
      Inr ((''alice'', Some \<lparr>rel_thread = ''th'', rel_id = ''m2'', rel_payload = sample_reply, rel_viaGrant = False\<rparr>), d')"
    by (simp add: releaseDraftTx_Inr [OF inv] applyEdit_def)
  with sample_draft_store_ok(1) show ?thesis by (simp add: ReleaseDraft_Inr) (simp add: sample_draft_store_def)
qed

theorem ReleaseDraft_effect_witness:
  "\<exists>s' rel blob. ReleaseDraft ''bob'' ''m2'' None 200000000000 sample_draft_store = (Inr (''alice'', rel), s') \<and>
     messages (st_db s') = [sample_message, ingested (sample_reply\<lparr>env_SentAt := UTC 200000000000\<rparr>) ''bob'' 200000000000 blob]"
proof -
  obtain rel s' where run: "ReleaseDraft ''bob'' ''m2'' None 200000000000 sample_draft_store = (Inr (''alice'', rel), s')"
    and rel: "rel = Some \<lparr>rel_thread = ''th'', rel_id = ''m2'', rel_payload = sample_reply, rel_viaGrant = False\<rparr>"
    using sample_release by blast
  from ReleaseDraft_effect [OF sample_draft_store_ok(2) run] rel run show ?thesis
    by (auto simp: sample_draft_store_def sample_db_def)
qed

text \<open>
  A draft is decided once. After a release, a discard or an automatic release of a draft, no
  caller can release it, discard it or have it released by a grant, and every attempt leaves the
  store unchanged.
\<close>

theorem draft_decided_once:
  assumes "relay_inv (st_db s)"
    and "(\<exists>r. ReleaseDraft p i edit now s = (Inr r, s')) \<or> DiscardDraft p i now s = (Inr (), s') \<or>
      (\<exists>rid rel. ReleaseReplyViaGrant i p now s = (Inr (rid, Some rel), s'))"
  shows "(\<exists>e. ReleaseDraft q i edit' now' s' = (Inl e, s')) \<and> (\<exists>e. DiscardDraft q i now' s' = (Inl e, s')) \<and>
    (\<forall>rid rel. fst (ReleaseReplyViaGrant i q now' s') \<noteq> Inr (rid, Some rel)) \<and> snd (ReleaseReplyViaGrant i q now' s') = s'"
proof -
  have "healthy s' \<and> relay_inv (st_db s') \<and> draft_decided i (st_db s')"
    using assms
    by (auto simp: ReleaseDraft_Inr DiscardDraft_Inr ReleaseReplyViaGrant_Inr healthy_def
      dest: releaseDraftTx_inv discardDraftTx_inv releaseViaGrantTx_inv release_decides discard_decides grant_release_decides)
  then show ?thesis using decided_refused by blast
qed

theorem draft_decided_once_witness:
  "\<exists>r s' e. ReleaseDraft ''bob'' ''m2'' None 200000000000 sample_draft_store = (Inr r, s') \<and>
     DiscardDraft ''bob'' ''m2'' 200000000001 s' = (Inl e, s')"
proof -
  obtain r s' where run: "ReleaseDraft ''bob'' ''m2'' None 200000000000 sample_draft_store = (Inr r, s')"
    using sample_release by blast
  then show ?thesis
    using draft_decided_once [OF sample_draft_store_ok(2), of "''bob''" "''m2''" None 200000000000 s'] by blast
qed

text \<open>
  Automatic release happens only under the author's own active outbound grant on the
  draft's thread, only for a pending draft, and is then marked as such in the capability and in
  the row; otherwise no capability is minted and the store does not change.
\<close>

theorem ReleaseReplyViaGrant_spec:
  assumes "relay_inv (st_db s)" "ReleaseReplyViaGrant i g now s = (Inr (rid, rel), s')"
  shows "\<exists>r payload. r \<in> set (drafts (st_db s)) \<and> dr_id r = i \<and> Decode (dr_envelope r) = Inr payload \<and>
    (if dr_author r = g \<and> has_active_grant (st_db s) (dr_thread r) g Outbound
     then dr_state r = PendingReview \<and> rid = env_To payload \<and>
       rel = Some \<lparr>rel_thread = dr_thread r, rel_id = i, rel_payload = payload, rel_viaGrant = True\<rparr> \<and>
       (\<exists>r' \<in> set (drafts (st_db s')). dr_id r' = i \<and> dr_state r' = Sent \<and> dr_via_grant r' = 1)
     else rid = [] \<and> rel = None \<and> s' = s)"
proof -
  let ?d = "st_db s"
  obtain d' where run: "releaseViaGrantTx i g now ?d = Inr ((rid, rel), d')" and s': "s' = s\<lparr>st_db := d'\<rparr>"
    using assms(2) by (auto simp: ReleaseReplyViaGrant_Inr)
  then obtain th author cur payload where l: "loadDraft i ?d = Inr (th, author, cur, payload)"
    and c: "if author = g \<and> has_active_grant ?d th g Outbound
        then th \<noteq> [] \<and> cur = PendingReview \<and>
          rel = Some \<lparr>rel_thread = th, rel_id = i, rel_payload = payload, rel_viaGrant = True\<rparr> \<and>
          deliverInTx payload g now (with_decision i Sent True now ?d) = Inr (rid, d')
        else rid = [] \<and> rel = None \<and> d' = ?d"
    unfolding releaseViaGrantTx_cases [OF assms(1)] by blast
  obtain r where r: "r \<in> set (drafts ?d)" "dr_id r = i" "dr_thread r = th" "dr_author r = author" "dr_state r = cur"
      "Decode (dr_envelope r) = Inr payload"
    using l by (auto simp: loadDraft_Inr [OF assms(1)])
  have "\<exists>r' \<in> set (drafts (with_decision i Sent True now ?d)). dr_id r' = i \<and> dr_state r' = Sent \<and> dr_via_grant r' = 1"
    using r(1,2) unfolding with_decision_def by (auto simp: decided_draft_def intro!: bexI [OF _ in_update_whereI])
  moreover have "drafts d' = drafts (with_decision i Sent True now ?d)"
    if "deliverInTx payload g now (with_decision i Sent True now ?d) = Inr (rid, d')"
    using that by (auto simp: deliverInTx_Inr dest: ingest_drafts)
  ultimately show ?thesis
    using r c s' by (auto simp: deliverInTx_Inr intro!: exI [of _ r] split: if_splits)
qed

theorem ReleaseReplyViaGrant_spec_witness:
  "ReleaseReplyViaGrant ''m2'' ''bob'' 7 sample_draft_store = (Inr ([], None), sample_draft_store)"
proof -
  let ?d = "st_db sample_draft_store"
  have l: "loadDraft ''m2'' ?d = Inr (''th'', ''bob'', PendingReview, sample_reply)"
    using sample_draft_decodes by (auto simp: loadDraft_Inr [OF sample_draft_store_ok(2)])
      (simp_all add: sample_draft_def sample_draft_store_def)
  have no: "\<not> has_active_grant ?d th g dir" for th g dir
    by (simp add: sample_draft_store_def has_active_grant_def sample_db_def empty_db_def)
  have "releaseViaGrantTx ''m2'' ''bob'' 7 ?d = Inr (([], None), ?d)"
    unfolding releaseViaGrantTx_cases [OF sample_draft_store_ok(2)] using l no by auto
  then have run: "ReleaseReplyViaGrant ''m2'' ''bob'' 7 sample_draft_store = (Inr ([], None), sample_draft_store)"
    using sample_draft_store_ok(1) by (simp add: ReleaseReplyViaGrant_Inr)
  show ?thesis
    using ReleaseReplyViaGrant_spec [OF sample_draft_store_ok(2) run] no run by auto
qed

text \<open>
  A draft can be discarded exactly by its author while it is pending, and discarding it only
  marks that row: no message and no delivery comes of it.
\<close>

theorem DiscardDraft_iff:
  assumes "healthy s" "relay_inv (st_db s)"
  shows "DiscardDraft p i now s = (Inr u, s') \<longleftrightarrow>
    (\<exists>r \<in> set (drafts (st_db s)). dr_id r = i \<and> dr_author r = p \<and> dr_state r = PendingReview \<and>
       (\<exists>payload. Decode (dr_envelope r) = Inr payload)) \<and>
    s' = s\<lparr>st_db := with_decision i Discarded False now (st_db s)\<rparr> \<and>
    messages (st_db s') = messages (st_db s) \<and> deliveries (st_db s') = deliveries (st_db s)"
  using assms(1)
  by (auto simp: DiscardDraft_Inr discardDraftTx_Inr [OF assms(2)] loadDraft_Inr [OF assms(2)] with_decision_def)

theorem DiscardDraft_iff_witness:
  "DiscardDraft ''bob'' ''m2'' 7 sample_draft_store =
     (Inr (), sample_draft_store\<lparr>st_db := with_decision ''m2'' Discarded False 7 (st_db sample_draft_store)\<rparr>)"
  using sample_draft_decodes
  by (subst DiscardDraft_iff [OF sample_draft_store_ok])
    (simp add: with_decision_def sample_draft_store_def, simp add: sample_draft_def)

lemma createDraftTx_iff:
  assumes "relay_inv d"
  shows "createDraftTx th author e blob now d = Inr d' \<longleftrightarrow>
    (\<exists>t \<in> set (threads d). t_id t = th \<and> {author, env_To e} = {t_initiator t, t_recipient t}) \<and>
    env_ID e \<notin> dr_id ` set (drafts d) \<and>
    d' = d\<lparr>drafts := drafts d @ [\<lparr>dr_id = env_ID e, dr_thread = th, dr_author = author, dr_envelope = blob,
        dr_state = PendingReview, dr_via_grant = 0, dr_created = unix_sec now, dr_decided = None\<rparr>]\<rparr>"
    (is "_ = (?T \<and> ?I \<and> d' = ?d)")
proof (cases "select_first (\<lambda>r. t_id r = th) (threads d)")
  case None
  then have "\<forall>r \<in> set (threads d). t_id r \<noteq> th" by (simp add: select_first_None)
  with None show ?thesis by (simp add: createDraftTx_def)
next
  case (Some t)
  then have t: "t \<in> set (threads d)" "t_id t = th" by (auto dest: select_first_Some)
  have ok: "schema_ok d" using assms by (rule relay_inv_schema)
  have "t' = t" if "t' \<in> set (threads d)" "t_id t' = th" for t'
    using distinct_key_unique [of t_id "threads d" t' t] schema_okD(4) [OF ok] that t by (simp add: threads_ok_def)
  with t have T: "?T \<longleftrightarrow> {author, env_To e} = {t_initiator t, t_recipient t}" by metis
  have ne: "t_initiator t \<noteq> t_recipient t" and pers: "has_person d (t_initiator t)" "has_person d (t_recipient t)"
    using schema_okD(4) [OF ok] t(1) by (auto simp: threads_ok_def list_all_iff)
  have "schema_ok ?d \<longleftrightarrow> ?I" if "author = t_initiator t \<or> author = t_recipient t"
  proof -
    have c: "drafts_ok ?d \<longleftrightarrow> ?I"
      using schema_okD(8) [OF ok] that pers t
      by (auto simp: drafts_ok_alt has_thread_def image_iff)
    have "schema_ok ?d" if ?I
      using that c by (intro schema_ok_step [OF ok]) (auto simp: keys_grow_def)
    with c show ?thesis by (auto simp: schema_ok_def)
  qed
  with Some T ne show ?thesis
    by (auto simp: createDraftTx_def Let_def exec_Inr doubleton_eq_iff)
qed

text \<open>
  A draft is accepted exactly when its id is a UUID, the envelope is within the caps and
  serialisable, its author and its addressee are the two parties of the thread, and no draft has
  that id; it is stored pending and undecided, and nothing is sent.
\<close>

theorem CreateDraft_iff:
  assumes "healthy s" "relay_inv (st_db s)"
  shows "CreateDraft uuid_ok th author e now s = (Inr i, s') \<longleftrightarrow>
    (\<exists>blob. uuid_ok (env_ID e) \<and> Validate e = Inr () \<and> Marshal e = Some blob \<and> i = env_ID e \<and>
       (\<exists>t \<in> set (threads (st_db s)). t_id t = th \<and> {author, env_To e} = {t_initiator t, t_recipient t}) \<and>
       env_ID e \<notin> dr_id ` set (drafts (st_db s)) \<and>
       s' = s\<lparr>st_db := (st_db s)\<lparr>drafts := drafts (st_db s) @
         [\<lparr>dr_id = env_ID e, dr_thread = th, dr_author = author, dr_envelope = blob, dr_state = PendingReview,
           dr_via_grant = 0, dr_created = unix_sec now, dr_decided = None\<rparr>]\<rparr>\<rparr>)"
proof -
  have tx: "writeTx (unit_tx (createDraftTx th author e blob now)) s = (Inr u, s') \<longleftrightarrow>
      (\<exists>d'. createDraftTx th author e blob now (st_db s) = Inr d' \<and> s' = s\<lparr>st_db := d'\<rparr>)" for blob u
    using assms(1) by (auto simp: writeTx_Inr healthy_def)
  have "CreateDraft uuid_ok th author e now s = (Inr i, s') \<longleftrightarrow>
      (\<exists>blob. uuid_ok (env_ID e) \<and> Validate e = Inr () \<and> Marshal e = Some blob \<and> i = env_ID e \<and>
        writeTx (unit_tx (createDraftTx th author e blob now)) s = (Inr (), s'))"
    by (auto simp: CreateDraft_def split: sum.splits option.splits prod.splits)
  then show ?thesis
    unfolding tx createDraftTx_iff [OF assms(2)] by (simp only: conj_assoc ex_simps simp_thms)
qed

theorem CreateDraft_iff_witness:
  "\<exists>s'. CreateDraft (\<lambda>_. True) ''th'' ''alice'' sample_envelope 7 sample_store = (Inr ''m2'', s') \<and>
     (\<forall>s''. CreateDraft (\<lambda>_. True) ''th'' ''eve'' sample_envelope 7 sample_store \<noteq> (Inr ''m2'', s''))"
proof -
  have v: "Validate sample_envelope = Inr ()"
    using example_check by (simp add: Validate_def sample_envelope_def example_envelope_def)
  have f: "env_ID sample_envelope = ''m2''" "env_To sample_envelope = ''bob''"
    by (simp_all add: sample_envelope_def New_def)
  obtain blob where m: "Marshal sample_envelope = Some blob" using sample_marshals by auto
  show ?thesis
    unfolding CreateDraft_iff [OF sample_healthy(1) sample_store_inv]
    by (simp add: v f m) (simp add: sample_simps doubleton_eq_iff)
qed

end
