(* ===== verification/StoreIdentity.thy ===== *)
theory StoreIdentity
  imports StoreSchema
begin

text \<open>
  Invites, enrollment and devices: \<open>internal/relay/store/identity.go\<close>. Random bytes and
  fresh ids are arguments. The invite token itself is never stored, only its hash.
\<close>

section \<open>Data\<close>

record person =
  pe_ID :: string
  pe_Email :: string
  pe_Label :: string
  pe_CreatedAt :: instant

record device =
  de_ID :: string
  de_PersonID :: string
  de_PubKey :: string
  de_Label :: string
  de_CreatedAt :: instant

section \<open>Operations\<close>

definition createInviteTx :: "string \<Rightarrow> string \<Rightarrow> duration \<Rightarrow> instant \<Rightarrow> unit tx" where
  "createInviteTx token email ttl now d =
     rbind (exec (d\<lparr>invites := invites d @
       [\<lparr>i_hash = hashToken token, i_email = email, i_created = unix_sec now,
         i_expires = unix_sec (now + ttl), i_used = None\<rparr>]\<rparr>)) (\<lambda>d'. Inr ((), d'))"

definition CreateInvite :: "string \<Rightarrow> string \<Rightarrow> duration \<Rightarrow> instant \<Rightarrow> store \<Rightarrow> (store_error + string) \<times> store" where
  "CreateInvite raw email ttl now s =
     (let token = RawURLEncoding_Encode raw
      in case writeTx (createInviteTx token email ttl now) s of
           (Inl e, s') \<Rightarrow> (Inl e, s')
         | (Inr _, s') \<Rightarrow> (Inr token, s'))"

definition findOrCreatePerson :: "string \<Rightarrow> string \<Rightarrow> instant \<Rightarrow> person tx" where
  "findOrCreatePerson new_id email now d =
     (case select_first (\<lambda>r. p_email r = email) (persons d) of
        Some r \<Rightarrow> Inr (\<lparr>pe_ID = p_id r, pe_Email = email, pe_Label = p_label r,
                       pe_CreatedAt = from_unix (p_created r)\<rparr>, d)
      | None \<Rightarrow>
          rbind (exec (d\<lparr>persons := persons d @
            [\<lparr>p_id = new_id, p_email = email, p_label = [], p_created = unix_sec now\<rparr>]\<rparr>)) (\<lambda>d'.
            Inr (\<lparr>pe_ID = new_id, pe_Email = email, pe_Label = [], pe_CreatedAt = now\<rparr>, d')))"

definition live_invite :: "string \<Rightarrow> instant \<Rightarrow> invite_row \<Rightarrow> bool" where
  "live_invite token now r \<longleftrightarrow>
     i_hash r = hashToken token \<and> i_used r = None \<and> unix_sec now < i_expires r"

definition enrollTx :: "string \<Rightarrow> string \<Rightarrow> string \<Rightarrow> string \<Rightarrow> string \<Rightarrow> instant \<Rightarrow> (person \<times> device) tx" where
  "enrollTx person_id device_id token pubkey label now d =
     rbind (exec (d\<lparr>invites := update_where (live_invite token now)
        (\<lambda>r. r\<lparr>i_used := Some (unix_sec now)\<rparr>) (invites d)\<rparr>)) (\<lambda>d1.
     if rows_affected (live_invite token now) (invites d) = 0 then Inl ErrInviteInvalid
     else case select_first (\<lambda>r. i_hash r = hashToken token) (invites d1) of
       None \<Rightarrow> Inl DBErr
     | Some ir \<Rightarrow>
         rbind (findOrCreatePerson person_id (i_email ir) now d1) (\<lambda>(p, d2).
         if select_first (\<lambda>r. d_pubkey r = pubkey) (devices d2) \<noteq> None then Inl ErrKeyInUse
         else rbind (exec (d2\<lparr>devices := devices d2 @
            [\<lparr>d_id = device_id, d_person = pe_ID p, d_pubkey = pubkey, d_label = label,
              d_created = unix_sec now, d_revoked = None\<rparr>]\<rparr>)) (\<lambda>d3.
           Inr ((p, \<lparr>de_ID = device_id, de_PersonID = pe_ID p, de_PubKey = pubkey, de_Label = label,
                    de_CreatedAt = now\<rparr>), d3))))"

definition Enroll :: "string \<Rightarrow> string \<Rightarrow> string \<Rightarrow> string \<Rightarrow> string \<Rightarrow> instant \<Rightarrow>
    store \<Rightarrow> (store_error + person \<times> device) \<times> store" where
  "Enroll person_id device_id token pubkey label now s =
     (if length pubkey \<noteq> PublicKeySize then (Inl BadKey, s)
      else writeTx (enrollTx person_id device_id token pubkey label now) s)"

definition revokeDeviceTx :: "string \<Rightarrow> instant \<Rightarrow> unit tx" where
  "revokeDeviceTx deviceID now d =
     rbind (exec (d\<lparr>devices := update_where (\<lambda>r. d_id r = deviceID \<and> d_revoked r = None)
        (\<lambda>r. r\<lparr>d_revoked := Some (unix_sec now)\<rparr>) (devices d)\<rparr>)) (\<lambda>d'.
     if rows_affected (\<lambda>r. d_id r = deviceID \<and> d_revoked r = None) (devices d) = 0 \<and>
        select_first (\<lambda>r. d_id r = deviceID) (devices d') = None
     then Inl ErrNotFound else Inr ((), d'))"

definition RevokeDevice :: "string \<Rightarrow> instant \<Rightarrow> store \<Rightarrow> (store_error + unit) \<times> store" where
  "RevokeDevice deviceID now = writeTx (revokeDeviceTx deviceID now)"

definition device_of_row :: "device_row \<Rightarrow> device" where
  "device_of_row r = \<lparr>de_ID = d_id r, de_PersonID = d_person r, de_PubKey = d_pubkey r,
     de_Label = d_label r, de_CreatedAt = from_unix (d_created r)\<rparr>"

definition ActiveDeviceByPubkey :: "string \<Rightarrow> database \<Rightarrow> store_error + device" where
  "ActiveDeviceByPubkey pubkey d =
     (case select_first (\<lambda>r. d_pubkey r = pubkey \<and> d_revoked r = None) (devices d) of
        None \<Rightarrow> Inl ErrNotFound | Some r \<Rightarrow> Inr (device_of_row r))"

definition ActiveDeviceByID :: "string \<Rightarrow> database \<Rightarrow> store_error + device" where
  "ActiveDeviceByID deviceID d =
     (case select_first (\<lambda>r. d_id r = deviceID \<and> d_revoked r = None) (devices d) of
        None \<Rightarrow> Inl ErrNotFound | Some r \<Rightarrow> Inr (device_of_row r))"

section \<open>The invariant\<close>

lemma relay_inv_devices:
  assumes "relay_inv d" "schema_ok d'" "threads d' = threads d" "messages d' = messages d"
    "deliveries d' = deliveries d" "drafts d' = drafts d" "grants d' = grants d"
    and "\<And>r. r \<in> set (devices d) \<Longrightarrow> \<exists>r' \<in> set (devices d'). d_id r' = d_id r \<and> d_person r' = d_person r"
  shows "relay_inv d'"
proof -
  have p: "is_party d' = is_party d" "draft_sound d' = draft_sound d"
    using assms(3) by (rule is_party_cong, rule draft_sound_cong)
  have "delivery_to_other d dl \<Longrightarrow> delivery_to_other d' dl" for dl
    by (erule delivery_to_other_mono) (use p assms(4,8) in auto)
  then show ?thesis using assms(1-7) p by (auto simp: relay_inv_def list_all_iff)
qed

lemma createInviteTx_iff:
  assumes "schema_ok d"
  shows "createInviteTx token email ttl now d = Inr (u, d') \<longleftrightarrow> hashToken token \<notin> i_hash ` set (invites d) \<and>
    d' = d\<lparr>invites := invites d @ [\<lparr>i_hash = hashToken token, i_email = email, i_created = unix_sec now,
         i_expires = unix_sec (now + ttl), i_used = None\<rparr>]\<rparr>"
proof -
  let ?d = "d\<lparr>invites := invites d @ [\<lparr>i_hash = hashToken token, i_email = email, i_created = unix_sec now,
         i_expires = unix_sec (now + ttl), i_used = None\<rparr>]\<rparr>"
  have "schema_ok ?d \<longleftrightarrow> invites_ok ?d"
    using schema_ok_step [OF assms, of ?d] by (auto simp: schema_ok_def keys_grow_def)
  then have "schema_ok ?d \<longleftrightarrow> hashToken token \<notin> i_hash ` set (invites d)"
    using schema_okD(3) [OF assms] by (auto simp: invites_ok_def)
  then show ?thesis by (auto simp: createInviteTx_def rbind_Inr_iff exec_Inr)
qed

interpretation create_invite_tx: tx_keeps "createInviteTx token email ttl now" relay_inv for token email ttl now
proof unfold_locales
  fix d x d'
  assume i: "relay_inv d" and r: "createInviteTx token email ttl now d = Inr (x, d')"
  from r show "relay_inv d'"
    by (intro relay_inv_other [OF i]) (auto simp: createInviteTx_def rbind_Inr_iff exec_Inr)
qed

section \<open>Enrollment\<close>

text \<open>The account an enrollment joins: the one with the invite's address, else a new one.\<close>

definition joined :: "string \<Rightarrow> string \<Rightarrow> instant \<Rightarrow> database \<Rightarrow> person \<times> person_row list" where
  "joined new_id email now d =
     (case select_first (\<lambda>r. p_email r = email) (persons d) of
        Some r \<Rightarrow> (\<lparr>pe_ID = p_id r, pe_Email = email, pe_Label = p_label r, pe_CreatedAt = from_unix (p_created r)\<rparr>, persons d)
      | None \<Rightarrow> (\<lparr>pe_ID = new_id, pe_Email = email, pe_Label = [], pe_CreatedAt = now\<rparr>,
                 persons d @ [\<lparr>p_id = new_id, p_email = email, p_label = [], p_created = unix_sec now\<rparr>]))"

definition person_id_free :: "string \<Rightarrow> string \<Rightarrow> database \<Rightarrow> bool" where
  "person_id_free new_id email d \<longleftrightarrow> email \<in> p_email ` set (persons d) \<or> new_id \<notin> p_id ` set (persons d)"

lemma findOrCreatePerson_iff:
  assumes "schema_ok d"
  shows "findOrCreatePerson new_id email now d = Inr (p, d') \<longleftrightarrow>
    person_id_free new_id email d \<and> p = fst (joined new_id email now d) \<and> d' = d\<lparr>persons := snd (joined new_id email now d)\<rparr>"
proof (cases "select_first (\<lambda>r. p_email r = email) (persons d)")
  case (Some r)
  then show ?thesis by (auto simp: findOrCreatePerson_def joined_def person_id_free_def dest!: select_first_Some)
next
  case None
  let ?d = "d\<lparr>persons := persons d @ [\<lparr>p_id = new_id, p_email = email, p_label = [], p_created = unix_sec now\<rparr>]\<rparr>"
  have fresh: "email \<notin> p_email ` set (persons d)" using None by (auto simp: select_first_None)
  have "keys_grow d ?d" by (auto simp: keys_grow_def has_iffs)
  then have "schema_ok ?d \<longleftrightarrow> persons_ok ?d"
    using schema_ok_step [OF assms, of ?d] by (auto simp: schema_ok_def)
  then have "schema_ok ?d \<longleftrightarrow> new_id \<notin> p_id ` set (persons d)"
    using schema_okD(1) [OF assms] fresh by (auto simp: persons_ok_def)
  then show ?thesis
    using None fresh by (auto simp: findOrCreatePerson_def joined_def person_id_free_def rbind_Inr_iff exec_Inr)
qed

lemma joined_has_person: "pe_ID (fst (joined new_id email now d)) \<in> p_id ` set (snd (joined new_id email now d))"
  by (auto simp: joined_def split: option.splits dest!: select_first_Some)

lemma joined_grows: "set (persons d) \<subseteq> set (snd (joined new_id email now d))"
  by (auto simp: joined_def split: option.splits)

definition used_invite :: "string \<Rightarrow> instant \<Rightarrow> database \<Rightarrow> database" where
  "used_invite token now d = d\<lparr>invites := update_where (live_invite token now)
     (\<lambda>r. r\<lparr>i_used := Some (unix_sec now)\<rparr>) (invites d)\<rparr>"

lemma schema_used_invite: "schema_ok d \<Longrightarrow> schema_ok (used_invite token now d)"
proof -
  assume ok: "schema_ok d"
  have "invites_ok (used_invite token now d)"
    using schema_okD(3) [OF ok] by (simp add: invites_ok_def used_invite_def map_update_where_key)
  then show "schema_ok (used_invite token now d)"
    by (intro schema_ok_step [OF ok]) (simp_all add: used_invite_def keys_grow_def)
qed

lemma used_invite_email:
  assumes "schema_ok d" "ir \<in> set (invites d)" "live_invite token now ir"
  shows "\<exists>ir'. select_first (\<lambda>r. i_hash r = hashToken token) (invites (used_invite token now d)) = Some ir' \<and> i_email ir' = i_email ir"
proof -
  have "select_first (\<lambda>r. i_hash r = i_hash ir) (invites d) = Some ir"
    using schema_okD(3) [OF assms(1)] assms(2) by (intro select_first_key) (simp_all add: invites_ok_def)
  moreover have "i_hash ir = hashToken token" using assms(3) by (simp add: live_invite_def)
  ultimately show ?thesis
    using select_first_update_where [of "live_invite token now" "\<lambda>r. i_hash r = hashToken token"
      "\<lambda>r. r\<lparr>i_used := Some (unix_sec now)\<rparr>" "invites d"]
    by (simp add: used_invite_def)
qed

definition new_device :: "string \<Rightarrow> string \<Rightarrow> string \<Rightarrow> string \<Rightarrow> instant \<Rightarrow> device_row" where
  "new_device i person pubkey label now =
     \<lparr>d_id = i, d_person = person, d_pubkey = pubkey, d_label = label, d_created = unix_sec now, d_revoked = None\<rparr>"

lemma schema_add_device:
  assumes "schema_ok d" "has_person d (d_person r)" "d_pubkey r \<notin> d_pubkey ` set (devices d)"
  shows "schema_ok (d\<lparr>devices := devices d @ [r]\<rparr>) \<longleftrightarrow> d_id r \<notin> d_id ` set (devices d) \<and> length (d_pubkey r) = 32"
proof -
  let ?d = "d\<lparr>devices := devices d @ [r]\<rparr>"
  have "keys_grow d ?d" by (auto simp: keys_grow_def has_iffs)
  then have "schema_ok ?d \<longleftrightarrow> devices_ok ?d"
    using schema_ok_step [OF assms(1), of ?d] by (auto simp: schema_ok_def)
  then show ?thesis using schema_okD(2) [OF assms(1)] assms(2,3) by (auto simp: devices_ok_def)
qed

lemma enrollTx_iff:
  assumes ok: "schema_ok d"
  shows "enrollTx person_id device_id token pubkey label now d = Inr ((p, dev), d') \<longleftrightarrow>
    (\<exists>ir \<in> set (invites d). live_invite token now ir \<and> person_id_free person_id (i_email ir) d \<and>
       pubkey \<notin> d_pubkey ` set (devices d) \<and> device_id \<notin> d_id ` set (devices d) \<and> length pubkey = 32 \<and>
       p = fst (joined person_id (i_email ir) now d) \<and>
       dev = \<lparr>de_ID = device_id, de_PersonID = pe_ID p, de_PubKey = pubkey, de_Label = label, de_CreatedAt = now\<rparr> \<and>
       d' = (used_invite token now d)\<lparr>persons := snd (joined person_id (i_email ir) now d),
         devices := devices d @ [new_device device_id (pe_ID p) pubkey label now]\<rparr>)"
proof (cases "\<exists>ir \<in> set (invites d). live_invite token now ir")
  case False
  then have "rows_affected (live_invite token now) (invites d) = 0" by (simp add: rows_affected_0)
  then show ?thesis using False by (auto simp: enrollTx_def rbind_Inr_iff)
next
  case True
  then obtain ir where ir: "ir \<in> set (invites d)" "live_invite token now ir" by blast
  then have n: "rows_affected (live_invite token now) (invites d) \<noteq> 0" by (auto simp: rows_affected_0)
  let ?d1 = "used_invite token now d"
  have ok1: "schema_ok ?d1" using ok by (rule schema_used_invite)
  obtain ir' where ir': "select_first (\<lambda>r. i_hash r = hashToken token) (invites ?d1) = Some ir'" "i_email ir' = i_email ir"
    using used_invite_email [OF ok ir] by blast
  have unique: "ir2 = ir" if "ir2 \<in> set (invites d)" "live_invite token now ir2" for ir2
    using that ir schema_okD(3) [OF ok] distinct_key_unique [of i_hash "invites d" ir2 ir]
    by (simp add: invites_ok_def live_invite_def)
  have frame: "persons ?d1 = persons d" "devices ?d1 = devices d" by (simp_all add: used_invite_def)
  define J where "J = joined person_id (i_email ir) now d"
  have J: "joined person_id (i_email ir) now ?d1 = J" "person_id_free person_id (i_email ir) ?d1 = person_id_free person_id (i_email ir) d"
    unfolding J_def joined_def person_id_free_def frame by simp_all
  let ?d2 = "?d1\<lparr>persons := snd J\<rparr>"
  have find: "findOrCreatePerson person_id (i_email ir) now ?d1 = Inr (q, d2) \<longleftrightarrow>
      person_id_free person_id (i_email ir) d \<and> q = fst J \<and> d2 = ?d2" for q d2
    unfolding findOrCreatePerson_iff [OF ok1] J ..
  have ok2: "schema_ok ?d2" if "person_id_free person_id (i_email ir) d"
    using that find [of "fst J" ?d2] unfolding findOrCreatePerson_def
    by (auto simp: exec_Inr rbind_Inr_iff ok1 split: option.splits)
  have pers: "has_person ?d2 (pe_ID (fst J))" using joined_has_person [of person_id "i_email ir" now d] by (simp add: has_person_iff J_def)
  let ?r = "new_device device_id (pe_ID (fst J)) pubkey label now"
  have add: "schema_ok (?d2\<lparr>devices := devices d @ [?r]\<rparr>) \<longleftrightarrow> device_id \<notin> d_id ` set (devices d) \<and> length pubkey = 32"
    if "person_id_free person_id (i_email ir) d" "pubkey \<notin> d_pubkey ` set (devices d)"
    using schema_add_device [OF ok2 [OF that(1)], of ?r] pers that(2) by (simp add: new_device_def frame)
  have free: "select_first (\<lambda>r. d_pubkey r = pubkey) (devices d) \<noteq> None \<longleftrightarrow> pubkey \<in> d_pubkey ` set (devices d)"
    by (auto simp: select_first_None)
  have "enrollTx person_id device_id token pubkey label now d =
      rbind (findOrCreatePerson person_id (i_email ir) now ?d1) (\<lambda>(p, d2).
         if select_first (\<lambda>r. d_pubkey r = pubkey) (devices d2) \<noteq> None then Inl ErrKeyInUse
         else rbind (exec (d2\<lparr>devices := devices d2 @ [new_device device_id (pe_ID p) pubkey label now]\<rparr>)) (\<lambda>d3.
           Inr ((p, \<lparr>de_ID = device_id, de_PersonID = pe_ID p, de_PubKey = pubkey, de_Label = label, de_CreatedAt = now\<rparr>), d3)))"
    using ok1 n ir' unfolding new_device_def by (simp add: enrollTx_def used_invite_def)
  also have "\<dots> = Inr ((p, dev), d') \<longleftrightarrow> person_id_free person_id (i_email ir) d \<and>
       pubkey \<notin> d_pubkey ` set (devices d) \<and> device_id \<notin> d_id ` set (devices d) \<and> length pubkey = 32 \<and> p = fst J \<and>
       dev = \<lparr>de_ID = device_id, de_PersonID = pe_ID p, de_PubKey = pubkey, de_Label = label, de_CreatedAt = now\<rparr> \<and>
       d' = ?d2\<lparr>devices := devices d @ [?r]\<rparr>"
  proof (cases "person_id_free person_id (i_email ir) d \<and> pubkey \<notin> d_pubkey ` set (devices d)")
    case True
    with add have a: "schema_ok (?d2\<lparr>devices := devices d @ [?r]\<rparr>) \<longleftrightarrow> device_id \<notin> d_id ` set (devices d) \<and> length pubkey = 32"
      by blast
    have f: "findOrCreatePerson person_id (i_email ir) now ?d1 = Inr (fst J, ?d2)" using True find by simp
    have s: "select_first (\<lambda>r. d_pubkey r = pubkey) (devices d) = None" using True free by blast
    show ?thesis
      unfolding f using a s True by (simp add: frame rbind_Inr_iff exec_Inr) blast
  next
    case False
    show ?thesis
    proof (cases "person_id_free person_id (i_email ir) d")
      case True
      then have "findOrCreatePerson person_id (i_email ir) now ?d1 = Inr (fst J, ?d2)" using find by simp
      moreover have "select_first (\<lambda>r. d_pubkey r = pubkey) (devices d) \<noteq> None" using False True free by blast
      ultimately show ?thesis using False True by (simp add: frame)
    next
      case no: False
      then have "findOrCreatePerson person_id (i_email ir) now ?d1 \<noteq> Inr (q, d2)" for q d2 using find by blast
      then show ?thesis using no by (cases "findOrCreatePerson person_id (i_email ir) now ?d1") auto
    qed
  qed
  finally show ?thesis using ir unique unfolding J_def by blast
qed

lemma enrollTx_inv:
  assumes "relay_inv d" "enrollTx person_id device_id token pubkey label now d = Inr (x, d')"
  shows "relay_inv d'"
proof -
  obtain p dev where x: "x = (p, dev)" by (cases x)
  have "schema_ok d'" using assms(2)
    by (auto simp: enrollTx_def rbind_Inr_iff exec_Inr split: if_splits option.splits)
  then show ?thesis
    using assms(2) unfolding x enrollTx_iff [OF relay_inv_schema [OF assms(1)]]
    by (intro relay_inv_devices [OF assms(1)]) (auto simp: used_invite_def)
qed

interpretation enroll_tx: tx_keeps "enrollTx person_id device_id token pubkey label now" relay_inv
  for person_id device_id token pubkey label now
  by unfold_locales (rule enrollTx_inv)

text \<open>A token whose invite was used opens nothing, whoever presents it and whenever.\<close>

lemma enrollTx_used:
  assumes "\<And>r. r \<in> set (invites d) \<Longrightarrow> i_hash r = hashToken token \<Longrightarrow> i_used r \<noteq> None" "schema_ok d"
  shows "enrollTx person_id device_id token pubkey label now d = Inl ErrInviteInvalid"
proof -
  have idle: "\<not> live_invite token now r" if "r \<in> set (invites d)" for r
    using assms(1) [OF that] by (auto simp: live_invite_def)
  then have "d\<lparr>invites := update_where (live_invite token now) (\<lambda>r. r\<lparr>i_used := Some (unix_sec now)\<rparr>) (invites d)\<rparr> = d"
    by (simp add: update_where_idle)
  moreover have "rows_affected (live_invite token now) (invites d) = 0" using idle by (simp add: rows_affected_0)
  ultimately show ?thesis using assms(2) by (simp add: enrollTx_def)
qed

lemma used_invite_used:
  assumes "schema_ok d" "ir \<in> set (invites d)" "live_invite token now ir"
    and "r \<in> set (invites (used_invite token now d))" "i_hash r = hashToken token"
  shows "i_used r \<noteq> None"
proof -
  obtain r0 where r0: "r0 \<in> set (invites d)" "r = (if live_invite token now r0 then r0\<lparr>i_used := Some (unix_sec now)\<rparr> else r0)"
    using assms(4) unfolding used_invite_def by (auto elim: in_update_whereE)
  then have "i_hash r0 = i_hash ir" using assms(3,5) by (auto simp: live_invite_def split: if_splits)
  then have "r0 = ir"
    using schema_okD(3) [OF assms(1)] r0(1) assms(2) distinct_key_unique [of i_hash "invites d" r0 ir] by (simp add: invites_ok_def)
  then show ?thesis using r0(2) assms(3) by simp
qed

section \<open>Devices\<close>

definition with_revoked :: "string \<Rightarrow> instant \<Rightarrow> database \<Rightarrow> database" where
  "with_revoked deviceID now d = d\<lparr>devices := update_where (\<lambda>r. d_id r = deviceID \<and> d_revoked r = None)
     (\<lambda>r. r\<lparr>d_revoked := Some (unix_sec now)\<rparr>) (devices d)\<rparr>"

lemma with_revoked_keys: "map d_id (devices (with_revoked deviceID now d)) = map d_id (devices d)"
    "map d_pubkey (devices (with_revoked deviceID now d)) = map d_pubkey (devices d)"
  by (simp_all add: with_revoked_def map_update_where_key)

lemma schema_with_revoked:
  assumes ok: "schema_ok d"
  shows "schema_ok (with_revoked deviceID now d)"
proof -
  have "devices_ok (with_revoked deviceID now d)"
    using schema_okD(2) [OF ok] with_revoked_keys [of deviceID now d] unfolding devices_ok_def
    by (simp add: with_revoked_def) (rule list_all_update_where, auto)
  moreover have "has_device (with_revoked deviceID now d) = has_device d"
    using with_revoked_keys(1) by (auto simp: has_device_iff fun_eq_iff simp del: set_map)
  ultimately show ?thesis
    by (intro schema_ok_step [OF ok]) (simp_all add: with_revoked_def keys_grow_def)
qed

lemma revokeDeviceTx_eq:
  assumes "schema_ok d"
  shows "revokeDeviceTx deviceID now d =
    (if has_device d deviceID then Inr ((), with_revoked deviceID now d) else Inl ErrNotFound)"
proof -
  have sel: "select_first (\<lambda>r. d_id r = deviceID) (devices (with_revoked deviceID now d)) = None \<longleftrightarrow> \<not> has_device d deviceID"
    using with_revoked_keys(1) [of deviceID now d] unfolding has_device_iff select_first_None
    by (metis (no_types, lifting) image_iff list.set_map)
  have aff: "\<not> has_device d deviceID \<Longrightarrow> rows_affected (\<lambda>r. d_id r = deviceID \<and> d_revoked r = None) (devices d) = 0"
    by (auto simp: rows_affected_0 has_device_iff)
  show ?thesis
    using schema_with_revoked [OF assms, of deviceID now] sel aff
    by (simp add: revokeDeviceTx_def with_revoked_def [symmetric])
qed

lemma with_revoked_inv: "relay_inv d \<Longrightarrow> relay_inv (with_revoked deviceID now d)"
  by (rule relay_inv_devices [OF _ schema_with_revoked])
    (auto simp: relay_inv_schema with_revoked_def intro: bexI [OF _ in_update_whereI] split: if_splits)

interpretation revoke_device_tx: tx_keeps "revokeDeviceTx deviceID now" relay_inv for deviceID now
  by unfold_locales (auto simp: revokeDeviceTx_eq relay_inv_schema with_revoked_inv split: if_splits)

lemma revoked_twice: "with_revoked deviceID later (with_revoked deviceID now d) = with_revoked deviceID now d"
  by (simp add: with_revoked_def update_where_def o_def cong: map_cong)

lemma active_after_revoke:
  "select_first (\<lambda>r. d_id r = x \<and> d_revoked r = None) (devices (with_revoked deviceID now d)) =
     (if x = deviceID then None else select_first (\<lambda>r. d_id r = x \<and> d_revoked r = None) (devices d))"
proof -
  have "select_first (\<lambda>r. d_id r = x \<and> d_revoked r = None)
        (update_where (\<lambda>r. d_id r = deviceID \<and> d_revoked r = None) (\<lambda>r. r\<lparr>d_revoked := Some (unix_sec now)\<rparr>) ds) =
     (if x = deviceID then None else select_first (\<lambda>r. d_id r = x \<and> d_revoked r = None) ds)" for ds :: "device_row list"
    by (induction ds) (auto simp: sql_simps)
  then show ?thesis by (simp add: with_revoked_def)
qed

lemma active_key_after_revoke:
  "select_first (\<lambda>r. d_pubkey r = k \<and> d_revoked r = None) (devices (with_revoked deviceID now d)) =
     select_first (\<lambda>r. d_pubkey r = k \<and> d_revoked r = None \<and> d_id r \<noteq> deviceID) (devices d)"
proof -
  have "select_first (\<lambda>r. d_pubkey r = k \<and> d_revoked r = None)
        (update_where (\<lambda>r. d_id r = deviceID \<and> d_revoked r = None) (\<lambda>r. r\<lparr>d_revoked := Some (unix_sec now)\<rparr>) ds) =
     select_first (\<lambda>r. d_pubkey r = k \<and> d_revoked r = None \<and> d_id r \<noteq> deviceID) ds" for ds :: "device_row list"
    by (induction ds) (auto simp: sql_simps)
  then show ?thesis by (simp add: with_revoked_def)
qed

section \<open>Properties\<close>

lemma Enroll_Inr:
  assumes "healthy s" "relay_inv (st_db s)"
  shows "Enroll person_id device_id token pubkey label now s = (Inr (p, dev), s') \<longleftrightarrow>
    (\<exists>ir \<in> set (invites (st_db s)). live_invite token now ir \<and> person_id_free person_id (i_email ir) (st_db s) \<and>
       pubkey \<notin> d_pubkey ` set (devices (st_db s)) \<and> device_id \<notin> d_id ` set (devices (st_db s)) \<and> length pubkey = 32 \<and>
       p = fst (joined person_id (i_email ir) now (st_db s)) \<and>
       dev = \<lparr>de_ID = device_id, de_PersonID = pe_ID p, de_PubKey = pubkey, de_Label = label, de_CreatedAt = now\<rparr> \<and>
       s' = s\<lparr>st_db := (used_invite token now (st_db s))\<lparr>persons := snd (joined person_id (i_email ir) now (st_db s)),
         devices := devices (st_db s) @ [new_device device_id (pe_ID p) pubkey label now]\<rparr>\<rparr>)"
proof -
  have "Enroll person_id device_id token pubkey label now s = (Inr (p, dev), s') \<longleftrightarrow> length pubkey = 32 \<and>
      (\<exists>d'. enrollTx person_id device_id token pubkey label now (st_db s) = Inr ((p, dev), d') \<and> s' = s\<lparr>st_db := d'\<rparr>)"
    using assms(1) by (simp add: Enroll_def PublicKeySize_def writeTx_Inr healthy_def)
  then show ?thesis unfolding enrollTx_iff [OF relay_inv_schema [OF assms(2)]] by blast
qed

text \<open>
  An enrollment succeeds exactly when the key has 32 bytes and is not enrolled yet (nor was,
  revoked keys included), an unused, unexpired invite matches the token, and the fresh ids are
  fresh. It then uses that invite up, binds the key to the account of the invited address,
  creating the account if there is none, and changes nothing else; a failing enrollment leaves
  the store, and with it the invite, as it was.
\<close>

theorem Enroll_spec:
  assumes "healthy s" "relay_inv (st_db s)"
  shows "(Enroll person_id device_id token pubkey label now s = (Inr (p, dev), s') \<longleftrightarrow>
    (\<exists>ir \<in> set (invites (st_db s)). i_hash ir = hashToken token \<and> i_used ir = None \<and> unix_sec now < i_expires ir \<and>
       person_id_free person_id (i_email ir) (st_db s) \<and>
       pubkey \<notin> d_pubkey ` set (devices (st_db s)) \<and> device_id \<notin> d_id ` set (devices (st_db s)) \<and> length pubkey = 32 \<and>
       p = fst (joined person_id (i_email ir) now (st_db s)) \<and>
       dev = \<lparr>de_ID = device_id, de_PersonID = pe_ID p, de_PubKey = pubkey, de_Label = label, de_CreatedAt = now\<rparr> \<and>
       s' = s\<lparr>st_db := (used_invite token now (st_db s))\<lparr>persons := snd (joined person_id (i_email ir) now (st_db s)),
         devices := devices (st_db s) @ [new_device device_id (pe_ID p) pubkey label now]\<rparr>\<rparr>)) \<and>
   (Enroll person_id device_id token pubkey label now s = (Inl e, s') \<longrightarrow> s' = s)"
  unfolding Enroll_Inr [OF assms] live_invite_def conj_assoc
  using enroll_tx.op_atomic [of person_id device_id token pubkey label now s "Inl e" s']
  by (auto simp: Enroll_def split: if_splits)

definition invited_store :: store where
  "invited_store = sample_store\<lparr>st_db := sample_db\<lparr>invites :=
     [\<lparr>i_hash = hashToken ''tok'', i_email = ''c@x'', i_created = 0, i_expires = 9, i_used = None\<rparr>]\<rparr>\<rparr>"

lemma invited_ok: "healthy invited_store" "relay_inv (st_db invited_store)"
proof -
  let ?d = "sample_db\<lparr>invites := [\<lparr>i_hash = hashToken ''tok'', i_email = ''c@x'', i_created = 0, i_expires = 9, i_used = None\<rparr>]\<rparr>"
  have "schema_ok ?d"
    by (rule schema_ok_step [OF sample_db_ok]) (simp_all add: keys_grow_def invites_ok_def)
  then have "relay_inv ?d" by (intro relay_inv_other [OF sample_db_inv]) simp_all
  then show "healthy invited_store" "relay_inv (st_db invited_store)"
    by (simp_all add: invited_store_def healthy_def sample_store_def)
qed

theorem Enroll_spec_witness:
  "\<exists>p dev s'. Enroll ''carol'' ''dc'' ''tok'' (replicate 32 CHR ''c'') [] 5 invited_store = (Inr (p, dev), s') \<and>
     pe_Email p = ''c@x'' \<and> de_PersonID dev = ''carol''"
  using Enroll_spec [OF invited_ok, of "''carol''" "''dc''" "''tok''" "replicate 32 CHR ''c''" "[]" 5]
  by (simp add: invited_store_def sample_simps unix_sec_def person_id_free_def joined_def sql_simps)

text \<open>
  An invite admits one device, once. After an enrollment the new key is an active device of
  the enrolled account and the relay's invariant holds; the same token never enrolls anything
  again, whatever the key, the ids and the time.
\<close>

theorem invite_single_use:
  assumes "healthy s" "relay_inv (st_db s)" "Enroll person_id device_id token pubkey label now s = (Inr (p, dev), s')"
  shows "(\<exists>e. Enroll person_id' device_id' token pubkey' label' later s' = (Inl e, s')) \<and>
    ActiveDeviceByPubkey pubkey (st_db s') = Inr (dev\<lparr>de_CreatedAt := from_unix (unix_sec now)\<rparr>) \<and>
    relay_inv (st_db s')"
proof -
  let ?d = "st_db s"
  obtain ir where ir: "ir \<in> set (invites ?d)" "live_invite token now ir" "pubkey \<notin> d_pubkey ` set (devices ?d)"
    and dev: "dev = \<lparr>de_ID = device_id, de_PersonID = pe_ID p, de_PubKey = pubkey, de_Label = label, de_CreatedAt = now\<rparr>"
    and s': "s' = s\<lparr>st_db := (used_invite token now ?d)\<lparr>persons := snd (joined person_id (i_email ir) now ?d),
         devices := devices ?d @ [new_device device_id (pe_ID p) pubkey label now]\<rparr>\<rparr>"
    using assms(3) unfolding Enroll_Inr [OF assms(1,2)] by blast
  have inv: "relay_inv (st_db s')"
    using enroll_tx.op_keeps [OF assms(2)] assms(3) by (auto simp: Enroll_def split: if_splits)
  have "invites (st_db s') = invites (used_invite token now ?d)" by (simp add: s' used_invite_def)
  then have "enrollTx person_id' device_id' token pubkey' label' later (st_db s') = Inl ErrInviteInvalid"
    using used_invite_used [OF relay_inv_schema [OF assms(2)] ir(1,2)] relay_inv_schema [OF inv]
    by (intro enrollTx_used) auto
  then have "\<exists>e. Enroll person_id' device_id' token pubkey' label' later s' = (Inl e, s')"
    using assms(1) s' by (simp add: Enroll_def writeTx_def healthy_def)
  moreover have "select_first (\<lambda>r. d_pubkey r = pubkey \<and> d_revoked r = None) (devices ?d) = None"
    using ir(3) by (auto simp: select_first_None)
  then have "ActiveDeviceByPubkey pubkey (st_db s') = Inr (dev\<lparr>de_CreatedAt := from_unix (unix_sec now)\<rparr>)"
    by (simp add: ActiveDeviceByPubkey_def s' select_first_append sql_simps new_device_def device_of_row_def dev)
  ultimately show ?thesis using inv by blast
qed

theorem invite_single_use_witness:
  "\<exists>p dev s'. Enroll ''carol'' ''dc'' ''tok'' (replicate 32 CHR ''c'') [] 5 invited_store = (Inr (p, dev), s') \<and>
     (\<exists>e. Enroll ''carol'' ''dd'' ''tok'' (replicate 32 CHR ''d'') [] 6 s' = (Inl e, s'))"
proof -
  obtain p dev s' where r: "Enroll ''carol'' ''dc'' ''tok'' (replicate 32 CHR ''c'') [] 5 invited_store = (Inr (p, dev), s')"
    unfolding Enroll_Inr [OF invited_ok]
    by (simp add: live_invite_def invited_store_def sample_simps unix_sec_def person_id_free_def joined_def sql_simps)
  show ?thesis using r invite_single_use [OF invited_ok r] by blast
qed

text \<open>
  Revoking a device is final and touches nothing else. From then on neither its id nor its
  key resolves to an active device, every other device resolves as before, revoking again at any
  time changes nothing, and no enrollment brings the key back; an unknown device is reported as
  not found.
\<close>

theorem RevokeDevice_final:
  assumes "healthy s" "relay_inv (st_db s)" "r \<in> set (devices (st_db s))"
  shows "\<exists>s'. RevokeDevice (d_id r) now s = (Inr (), s') \<and>
    (\<forall>x. ActiveDeviceByID x (st_db s') = (if x = d_id r then Inl ErrNotFound else ActiveDeviceByID x (st_db s))) \<and>
    ActiveDeviceByPubkey (d_pubkey r) (st_db s') = Inl ErrNotFound \<and>
    RevokeDevice (d_id r) later s' = (Inr (), s') \<and>
    (\<exists>e. Enroll person_id device_id token (d_pubkey r) label later s' = (Inl e, s')) \<and>
    (\<forall>x. \<not> has_device (st_db s) x \<longrightarrow> RevokeDevice x now s = (Inl ErrNotFound, s))"
proof -
  let ?d = "st_db s" and ?d' = "with_revoked (d_id r) now (st_db s)"
  let ?s' = "s\<lparr>st_db := ?d'\<rparr>"
  have ok: "schema_ok ?d" "schema_ok ?d'" using assms(2) relay_inv_schema schema_with_revoked by blast+
  have h: "healthy ?s'" using assms(1) by (simp add: healthy_def)
  have "d_id r \<in> set (map d_id (devices ?d))" using assms(3) by simp
  then have has: "has_device ?d (d_id r)" "has_device ?d' (d_id r)"
    unfolding has_device_iff with_revoked_keys(1) by assumption+
  have run: "RevokeDevice (d_id r) now s = (Inr (), ?s')"
    using has(1) assms(1) by (simp add: RevokeDevice_def revokeDeviceTx_eq [OF ok(1)] writeTx_healthy)
  have again: "RevokeDevice (d_id r) later ?s' = (Inr (), ?s')"
    using has(2) h by (simp add: RevokeDevice_def revokeDeviceTx_eq [OF ok(2)] writeTx_healthy revoked_twice)
  have byid: "ActiveDeviceByID x ?d' = (if x = d_id r then Inl ErrNotFound else ActiveDeviceByID x ?d)" for x
    by (simp add: ActiveDeviceByID_def active_after_revoke)
  have "d_id x = d_id r" if "x \<in> set (devices ?d)" "d_pubkey x = d_pubkey r" for x
    using that assms(3) schema_okD(2) [OF ok(1)] distinct_key_unique [of d_pubkey "devices ?d" x r] by (auto simp: devices_ok_def)
  then have bykey: "ActiveDeviceByPubkey (d_pubkey r) ?d' = Inl ErrNotFound"
    unfolding ActiveDeviceByPubkey_def active_key_after_revoke
    by (auto simp: select_first_None split: option.splits dest!: select_first_Some)
  have "d_pubkey r \<in> d_pubkey ` set (devices ?d')"
    using assms(3) with_revoked_keys(2) [of "d_id r" now ?d] by (metis image_eqI list.set_map)
  then have "Enroll person_id device_id token (d_pubkey r) label later ?s' \<noteq> (Inr (p, dev), s2)" for p dev s2
    using Enroll_Inr [OF h, of person_id device_id token "d_pubkey r" label later p dev s2] with_revoked_inv [OF assms(2)] by auto
  then have "\<exists>e. Enroll person_id device_id token (d_pubkey r) label later ?s' = (Inl e, ?s')"
    using enroll_tx.op_atomic [of person_id device_id token "d_pubkey r" label later ?s']
    by (cases "Enroll person_id device_id token (d_pubkey r) label later ?s'"; cases "fst (Enroll person_id device_id token (d_pubkey r) label later ?s')")
      (fastforce simp: Enroll_def split: if_splits)+
  moreover have "\<not> has_device ?d x \<Longrightarrow> RevokeDevice x now s = (Inl ErrNotFound, s)" for x
    using assms(1) by (simp add: RevokeDevice_def revokeDeviceTx_eq [OF ok(1)] writeTx_healthy)
  ultimately show ?thesis using run again byid bykey by (intro exI [of _ ?s'] conjI) simp_all
qed

theorem RevokeDevice_final_witness:
  "\<exists>s'. RevokeDevice ''db'' 7 sample_store = (Inr (), s') \<and> ActiveDeviceByID ''db'' (st_db s') = Inl ErrNotFound \<and>
     ActiveDeviceByID ''da'' (st_db s') = ActiveDeviceByID ''da'' sample_db"
proof -
  define r where "r = \<lparr>d_id = ''db'', d_person = ''bob'', d_pubkey = replicate 32 CHR ''b'', d_label = [], d_created = 0, d_revoked = None\<rparr>"
  have r: "r \<in> set (devices (st_db sample_store))" "d_id r = ''db''" by (simp_all add: r_def sample_simps)
  show ?thesis
    using RevokeDevice_final [OF sample_healthy(1) sample_store_inv r(1), of 7 8 "[]" "[]" "[]" "[]"]
    unfolding r(2) sample_healthy(2)
    by (elim exE conjE) (rule exI, intro conjI, assumption, simp_all)
qed

end
