(* ===== verification/StoreRead.thy ===== *)
theory StoreRead
  imports StoreDraft StoreIdentity
begin

text \<open>
  Person-level reads and \<open>StartThread\<close>: \<open>internal/relay/store/read.go\<close>. \<open>ORDER BY\<close>
  is a stable sort; rows that tie keep insertion order. Reads of a working database do not
  fail, so a query returns its rows.
\<close>

definition person_of_row :: "person_row \<Rightarrow> person" where
  "person_of_row r = \<lparr>pe_ID = p_id r, pe_Email = p_email r, pe_Label = p_label r,
     pe_CreatedAt = from_unix (p_created r)\<rparr>"

definition personBy :: "(person_row \<Rightarrow> bool) \<Rightarrow> database \<Rightarrow> store_error + person" where
  "personBy q d = (case select_first q (persons d) of None \<Rightarrow> Inl ErrNotFound | Some r \<Rightarrow> Inr (person_of_row r))"

definition PersonByEmail :: "string \<Rightarrow> database \<Rightarrow> store_error + person" where
  "PersonByEmail email = personBy (\<lambda>r. p_email r = email)"

definition PersonByID :: "string \<Rightarrow> database \<Rightarrow> store_error + person" where
  "PersonByID i = personBy (\<lambda>r. p_id r = i)"

definition startThreadTx :: "string \<Rightarrow> string \<Rightarrow> string \<Rightarrow> instant \<Rightarrow> database \<Rightarrow> store_error + database" where
  "startThreadTx new_id initiatorID recipientID now d =
     exec (d\<lparr>threads := threads d @
       [\<lparr>t_id = new_id, t_initiator = initiatorID, t_recipient = recipientID, t_state = StateSubmitted,
         t_created = unix_sec now, t_updated = unix_sec now\<rparr>]\<rparr>)"

definition StartThread :: "string \<Rightarrow> string \<Rightarrow> string \<Rightarrow> instant \<Rightarrow> store \<Rightarrow> (store_error + string) \<times> store" where
  "StartThread new_id initiatorID recipientID now s =
     (case writeTx (unit_tx (startThreadTx new_id initiatorID recipientID now)) s of
        (Inl e, s') \<Rightarrow> (Inl e, s')
      | (Inr _, s') \<Rightarrow> (Inr new_id, s'))"

record inbound_item =
  ib_MessageID :: string
  ib_ThreadID :: string
  ib_SenderEmail :: string
  ib_Envelope :: string

definition in_thread :: "string \<Rightarrow> thread_row \<Rightarrow> bool" where
  "in_thread personID t \<longleftrightarrow> t_initiator t = personID \<or> t_recipient t = personID"

definition InboundAwaiting :: "string \<Rightarrow> database \<Rightarrow> inbound_item list" where
  "InboundAwaiting personID d =
     map (\<lambda>(m, p). \<lparr>ib_MessageID = m_id m, ib_ThreadID = m_thread m, ib_SenderEmail = p_email p,
                    ib_Envelope = m_envelope m\<rparr>)
       (sort_key (\<lambda>(m, p). m_received m)
         [(m, p). m \<leftarrow> messages d, t \<leftarrow> threads d, p \<leftarrow> persons d,
            t_id t = m_thread m \<and> p_id p = m_sender m \<and> t_state t = StateInputRequired \<and>
            in_thread personID t \<and> m_sender m \<noteq> personID \<and>
            Some (m_received m) = max_received d (m_thread m)])"

definition HasActivity :: "string \<Rightarrow> database \<Rightarrow> bool" where
  "HasActivity personID d \<longleftrightarrow>
     list_ex (\<lambda>m. list_ex (\<lambda>t. t_id t = m_thread m \<and> t_state t = StateInputRequired \<and>
        in_thread personID t \<and> m_sender m \<noteq> personID) (threads d)) (messages d) \<or>
     list_ex (\<lambda>r. dr_author r = personID \<and> dr_state r = PendingReview) (drafts d)"

record draft_item =
  di_DraftID :: string
  di_ThreadID :: string
  di_Envelope :: string

definition draft_item_of :: "draft_row \<Rightarrow> draft_item" where
  "draft_item_of r = \<lparr>di_DraftID = dr_id r, di_ThreadID = dr_thread r, di_Envelope = dr_envelope r\<rparr>"

definition DraftsAwaitingReview :: "string \<Rightarrow> database \<Rightarrow> draft_item list" where
  "DraftsAwaitingReview personID d =
     map draft_item_of (sort_key dr_created
       (filter (\<lambda>r. dr_author r = personID \<and> dr_state r = PendingReview) (drafts d)))"

record thread_message =
  tm_MessageID :: string
  tm_SenderEmail :: string
  tm_Envelope :: string
  tm_ReceivedAt :: instant

record thread_view =
  tv_ThreadID :: string
  tv_State :: thread_state
  tv_Messages :: "thread_message list"
  tv_Drafts :: "draft_item list"

definition ThreadFor :: "string \<Rightarrow> string \<Rightarrow> database \<Rightarrow> store_error + thread_view" where
  "ThreadFor personID threadID d =
     (case select_first (\<lambda>r. t_id r = threadID) (threads d) of
        None \<Rightarrow> Inl ErrNotFound
      | Some t \<Rightarrow>
          if personID \<noteq> t_initiator t \<and> personID \<noteq> t_recipient t then Inl ErrNotFound
          else Inr \<lparr>tv_ThreadID = threadID, tv_State = t_state t,
            tv_Messages =
              map (\<lambda>(m, p). \<lparr>tm_MessageID = m_id m, tm_SenderEmail = p_email p,
                    tm_Envelope = m_envelope m, tm_ReceivedAt = from_unix (m_received m)\<rparr>)
                (sort_key (\<lambda>(m, p). m_received m)
                  [(m, p). m \<leftarrow> messages d, p \<leftarrow> persons d, p_id p = m_sender m \<and> m_thread m = threadID]),
            tv_Drafts = map draft_item_of (sort_key dr_created
              (filter (\<lambda>r. dr_thread r = threadID \<and> dr_author r = personID) (drafts d)))\<rparr>)"

section \<open>Starting a thread\<close>

lemma startThreadTx_iff:
  assumes "schema_ok d"
  shows "startThreadTx new_id a b now d = Inr d' \<longleftrightarrow>
    new_id \<notin> t_id ` set (threads d) \<and> has_person d a \<and> has_person d b \<and> a \<noteq> b \<and>
    d' = d\<lparr>threads := threads d @ [\<lparr>t_id = new_id, t_initiator = a, t_recipient = b, t_state = StateSubmitted,
         t_created = unix_sec now, t_updated = unix_sec now\<rparr>]\<rparr>"
proof -
  let ?r = "\<lparr>t_id = new_id, t_initiator = a, t_recipient = b, t_state = StateSubmitted,
         t_created = unix_sec now, t_updated = unix_sec now\<rparr>"
  let ?d = "d\<lparr>threads := threads d @ [?r]\<rparr>"
  have "keys_grow d ?d" by (auto simp: keys_grow_def has_iffs)
  then have "schema_ok ?d \<longleftrightarrow> threads_ok ?d"
    using schema_ok_step [OF assms, of ?d] by (auto simp: schema_ok_def)
  also have "\<dots> \<longleftrightarrow> new_id \<notin> t_id ` set (threads d) \<and> has_person d a \<and> has_person d b \<and> a \<noteq> b"
    using schema_okD(4) [OF assms] unfolding threads_ok_alt by auto
  finally show ?thesis by (auto simp: startThreadTx_def exec_Inr)
qed

lemma add_thread_inv:
  assumes "relay_inv d" "schema_ok (d\<lparr>threads := threads d @ new\<rparr>)"
  shows "relay_inv (d\<lparr>threads := threads d @ new\<rparr>)" (is "relay_inv ?d")
proof -
  note grow = is_party_append_threads [of d _ _ new]
  have "delivery_to_other d dl \<Longrightarrow> delivery_to_other ?d dl" for dl
    by (erule delivery_to_other_mono) (auto intro: grow)
  moreover have "draft_sound d r \<Longrightarrow> draft_sound ?d r" for r
    by (erule draft_sound_mono) (rule grow)
  ultimately show ?thesis using assms grow by (auto simp: relay_inv_def list_all_iff)
qed

interpretation start_thread_tx: tx_keeps "unit_tx (startThreadTx new_id a b now)" relay_inv for new_id a b now
proof unfold_locales
  fix d x d'
  assume i: "relay_inv d" and r: "unit_tx (startThreadTx new_id a b now) d = Inr (x, d')"
  from r show "relay_inv d'" by (auto simp: startThreadTx_def exec_Inr intro: add_thread_inv [OF i])
qed

section \<open>What a person sees\<close>

text \<open>The thread of a message.\<close>

lemma message_thread:
  assumes "schema_ok d" "m \<in> set (messages d)"
  obtains t where "t \<in> set (threads d)" "t_id t = m_thread m" "\<And>t'. t' \<in> set (threads d) \<Longrightarrow> t_id t' = m_thread m \<Longrightarrow> t' = t"
proof -
  obtain t where t: "t \<in> set (threads d)" "t_id t = m_thread m"
    using schema_okD(5) [OF assms(1)] assms(2) by (auto simp: messages_ok_def list_all_iff has_thread_def)
  show ?thesis
    using that [OF t] distinct_key_unique [of t_id "threads d" _ t] schema_okD(4) [OF assms(1)] t by (auto simp: threads_ok_def)
qed

lemma awaiting_iff:
  assumes "schema_ok d"
  shows "i \<in> set (InboundAwaiting p d) \<longleftrightarrow>
    (\<exists>m \<in> set (messages d). \<exists>t \<in> set (threads d). \<exists>q \<in> set (persons d). t_id t = m_thread m \<and> p_id q = m_sender m \<and>
       t_state t = StateInputRequired \<and> may_decide p m t \<and> latest d m \<and>
       i = \<lparr>ib_MessageID = m_id m, ib_ThreadID = m_thread m, ib_SenderEmail = p_email q, ib_Envelope = m_envelope m\<rparr>)"
proof -
  let ?q = "\<lambda>m t q. t_id t = m_thread m \<and> p_id q = m_sender m \<and> t_state t = StateInputRequired \<and>
            in_thread p t \<and> m_sender m \<noteq> p"
  have "i \<in> set (InboundAwaiting p d) \<longleftrightarrow> (\<exists>m \<in> set (messages d). \<exists>t \<in> set (threads d). \<exists>q \<in> set (persons d).
      ?q m t q \<and> Some (m_received m) = max_received d (m_thread m) \<and>
      i = \<lparr>ib_MessageID = m_id m, ib_ThreadID = m_thread m, ib_SenderEmail = p_email q, ib_Envelope = m_envelope m\<rparr>)"
    by (simp add: InboundAwaiting_def image_iff) blast
  also have "\<dots> \<longleftrightarrow> (\<exists>m \<in> set (messages d). \<exists>t \<in> set (threads d). \<exists>q \<in> set (persons d). t_id t = m_thread m \<and> p_id q = m_sender m \<and>
       t_state t = StateInputRequired \<and> may_decide p m t \<and> latest d m \<and>
       i = \<lparr>ib_MessageID = m_id m, ib_ThreadID = m_thread m, ib_SenderEmail = p_email q, ib_Envelope = m_envelope m\<rparr>)"
    by (intro bex_cong refl) (auto simp: max_received_latest may_decide_def in_thread_def)
  finally show ?thesis .
qed

lemma awaiting_ids:
  assumes "schema_ok d"
  shows "mid \<in> ib_MessageID ` set (InboundAwaiting p d) \<longleftrightarrow>
    (\<exists>m t. (m, t) \<in> set (verdict_rows mid d) \<and> may_decide p m t \<and> t_state t = StateInputRequired)"
proof -
  have sender: "\<exists>q \<in> set (persons d). p_id q = m_sender m" if "m \<in> set (messages d)" for m
    using schema_okD(5) [OF assms] that by (auto simp: messages_ok_def list_all_iff has_person_def)
  show ?thesis
  proof
    assume "mid \<in> ib_MessageID ` set (InboundAwaiting p d)"
    then obtain i where i: "i \<in> set (InboundAwaiting p d)" "mid = ib_MessageID i" by blast
    from i(1) obtain m t where "m \<in> set (messages d)" "t \<in> set (threads d)" "t_id t = m_thread m"
        "t_state t = StateInputRequired" "may_decide p m t" "latest d m" "ib_MessageID i = m_id m"
      unfolding awaiting_iff [OF assms] by auto
    with i(2) show "\<exists>m t. (m, t) \<in> set (verdict_rows mid d) \<and> may_decide p m t \<and> t_state t = StateInputRequired"
      by (intro exI [of _ m] exI [of _ t]) (simp add: set_verdict_rows)
  next
    assume "\<exists>m t. (m, t) \<in> set (verdict_rows mid d) \<and> may_decide p m t \<and> t_state t = StateInputRequired"
    then obtain m t where m: "m \<in> set (messages d)" "t \<in> set (threads d)" "t_id t = m_thread m" "m_id m = mid"
        "t_state t = StateInputRequired" "may_decide p m t" "latest d m" by (auto simp: set_verdict_rows)
    obtain q where q: "q \<in> set (persons d)" "p_id q = m_sender m" using sender [OF m(1)] by blast
    let ?i = "\<lparr>ib_MessageID = m_id m, ib_ThreadID = m_thread m, ib_SenderEmail = p_email q, ib_Envelope = m_envelope m\<rparr>"
    have "?i \<in> set (InboundAwaiting p d)"
      unfolding awaiting_iff [OF assms] using m q
      by (intro bexI [OF _ m(1)] bexI [OF _ m(2)] bexI [OF _ q(1)] conjI) simp_all
    then have "ib_MessageID ?i \<in> ib_MessageID ` set (InboundAwaiting p d)" by (rule imageI)
    with m(4) show "mid \<in> ib_MessageID ` set (InboundAwaiting p d)" by simp
  qed
qed

section \<open>Properties\<close>

text \<open>
  C40: the review queue shows exactly what can be decided. A message is listed for a person iff
  approving it would succeed for that person right now, and iff declining it would.
\<close>

theorem InboundAwaiting_decidable:
  assumes "healthy s" "relay_inv (st_db s)"
  shows "(mid \<in> ib_MessageID ` set (InboundAwaiting p (st_db s)) \<longleftrightarrow>
      (\<exists>st s'. ApproveInboundMessage p mid now s = (Inr st, s'))) \<and>
    (mid \<in> ib_MessageID ` set (InboundAwaiting p (st_db s)) \<longleftrightarrow>
      (\<exists>st s'. DeclineInboundMessage p mid now s = (Inr st, s')))"
proof -
  let ?d = "st_db s"
  have "(\<exists>st s'. inboundMessageVerdict p mid v now s = (Inr st, s')) \<longleftrightarrow>
      (\<exists>m t. (m, t) \<in> set (verdict_rows mid ?d) \<and> may_decide p m t \<and> t_state t = StateInputRequired)"
    if "v = Approve \<or> v = Reject" for v
    using assms(1) that by (auto simp: inboundMessageVerdict_Inr inboundVerdictTx_iff [OF assms(2)] healthy_def ApplyInbound_Inr)
  then show ?thesis
    unfolding awaiting_ids [OF relay_inv_schema [OF assms(2)]] ApproveInboundMessage_def DeclineInboundMessage_def by blast
qed

theorem InboundAwaiting_decidable_witness:
  "''m1'' \<in> ib_MessageID ` set (InboundAwaiting ''bob'' sample_db) \<and>
   (\<exists>st s'. ApproveInboundMessage ''bob'' ''m1'' 7 sample_store = (Inr st, s')) \<and>
   \<not> (\<exists>st s'. ApproveInboundMessage ''alice'' ''m1'' 7 sample_store = (Inr st, s'))"
proof -
  have "InboundAwaiting ''bob'' sample_db = [\<lparr>ib_MessageID = ''m1'', ib_ThreadID = ''th'', ib_SenderEmail = ''a@x'', ib_Envelope = ''{}''\<rparr>]"
    "InboundAwaiting ''alice'' sample_db = []"
    by (simp_all add: InboundAwaiting_def sample_simps in_thread_def StateInputRequired_def max_received_def)
  then show ?thesis
    using InboundAwaiting_decidable [OF sample_healthy(1) sample_store_inv, of "''m1''" "''bob''" 7]
      InboundAwaiting_decidable [OF sample_healthy(1) sample_store_inv, of "''m1''" "''alice''" 7]
    unfolding sample_healthy(2) by simp
qed

text \<open>
  A waiting client is never left asleep: whenever something is in a person's review queue or
  a draft of theirs awaits review, \<open>HasActivity\<close> is true for them.
\<close>

theorem HasActivity_complete:
  assumes "relay_inv d" "InboundAwaiting p d \<noteq> [] \<or> DraftsAwaitingReview p d \<noteq> []"
  shows "HasActivity p d"
proof -
  have "HasActivity p d" if "InboundAwaiting p d \<noteq> []"
  proof -
    have "hd (InboundAwaiting p d) \<in> set (InboundAwaiting p d)" using that by (rule list.set_sel(1))
    then obtain m t where "m \<in> set (messages d)" "t \<in> set (threads d)" "t_id t = m_thread m"
        "t_state t = StateInputRequired" "may_decide p m t"
      unfolding awaiting_iff [OF relay_inv_schema [OF assms(1)]] by blast
    then have "\<exists>m \<in> set (messages d). \<exists>t \<in> set (threads d). t_id t = m_thread m \<and> t_state t = StateInputRequired \<and>
        in_thread p t \<and> m_sender m \<noteq> p"
      by (intro bexI [of _ m] bexI [of _ t]) (auto simp: may_decide_def in_thread_def)
    then show ?thesis by (simp add: HasActivity_def list_ex_iff)
  qed
  moreover have "HasActivity p d" if "DraftsAwaitingReview p d \<noteq> []"
  proof -
    have "filter (\<lambda>r. dr_author r = p \<and> dr_state r = PendingReview) (drafts d) \<noteq> []"
      using that by (auto simp: DraftsAwaitingReview_def)
    then show ?thesis by (auto simp: HasActivity_def list_ex_iff filter_empty_conv)
  qed
  ultimately show ?thesis using assms(2) by blast
qed

theorem HasActivity_complete_witness: "HasActivity ''bob'' sample_db"
proof (rule HasActivity_complete [OF sample_db_inv], rule disjI1)
  show "InboundAwaiting ''bob'' sample_db \<noteq> []"
    by (simp add: InboundAwaiting_def sample_simps in_thread_def StateInputRequired_def max_received_def)
qed

text \<open>The sample thread after Bob's reply: it waits for Alice now.\<close>

definition replied_db :: database where
  "replied_db = sample_db\<lparr>messages := messages sample_db @
     [\<lparr>m_id = ''m2'', m_thread = ''th'', m_sender = ''bob'', m_envelope = ''{}'', m_sent = 200, m_received = 200, m_via_grant = 0\<rparr>]\<rparr>"

lemma replied_db_inv: "relay_inv replied_db"
proof -
  have "schema_ok replied_db"
    unfolding replied_db_def
  proof (rule schema_ok_step [OF sample_db_ok])
    show "keys_grow sample_db (sample_db\<lparr>messages := messages sample_db @
     [\<lparr>m_id = ''m2'', m_thread = ''th'', m_sender = ''bob'', m_envelope = ''{}'', m_sent = 200, m_received = 200, m_via_grant = 0\<rparr>]\<rparr>)"
      by (auto simp: keys_grow_def has_message_def)
  qed (simp_all add: messages_ok_def sample_simps has_thread_def has_person_def)
  then show ?thesis
    by (simp add: relay_inv_def) (simp add: replied_db_def sample_simps is_party_def delivery_to_other_def)
qed

text \<open>
  The converse fails. \<open>HasActivity\<close> lacks the latest-message condition of the review
  queue, so after Bob has answered, it keeps reporting activity to Bob although nothing awaits
  him: his queue and his drafts are empty, and no verdict of his on any message would succeed.
\<close>

theorem HasActivity_spurious:
  "relay_inv replied_db \<and> HasActivity ''bob'' replied_db \<and> InboundAwaiting ''bob'' replied_db = [] \<and>
   DraftsAwaitingReview ''bob'' replied_db = []"
  using replied_db_inv
  by (simp add: HasActivity_def InboundAwaiting_def DraftsAwaitingReview_def replied_db_def sample_simps in_thread_def
    StateInputRequired_def max_received_def)

text \<open>
  A thread opens only to its two parties, and shows them all of it and nothing private.
  For a party the view holds every message of the thread, each with its sender's address, and
  exactly that party's own drafts; for anybody else the answer is the same as for a thread that
  does not exist.
\<close>

theorem ThreadFor_spec:
  assumes "relay_inv d"
  shows "(is_party d th p \<longrightarrow> (\<exists>v. ThreadFor p th d = Inr v \<and> tv_ThreadID v = th \<and> Some (tv_State v) = thread_state_of d th \<and>
      set (tv_Messages v) = {\<lparr>tm_MessageID = m_id m, tm_SenderEmail = p_email q, tm_Envelope = m_envelope m,
          tm_ReceivedAt = from_unix (m_received m)\<rparr> | m q. m \<in> set (messages d) \<and> q \<in> set (persons d) \<and> m_thread m = th \<and> p_id q = m_sender m} \<and>
      tm_MessageID ` set (tv_Messages v) = m_id ` {m \<in> set (messages d). m_thread m = th} \<and>
      set (tv_Drafts v) = draft_item_of ` {r \<in> set (drafts d). dr_thread r = th \<and> dr_author r = p})) \<and>
    (\<not> is_party d th p \<longrightarrow> ThreadFor p th d = Inl ErrNotFound) \<and>
    (\<not> has_thread d th \<longrightarrow> ThreadFor p th d = Inl ErrNotFound)"
proof -
  note ok = relay_inv_schema [OF assms]
  have sender: "\<exists>q \<in> set (persons d). p_id q = m_sender m" if "m \<in> set (messages d)" for m
    using schema_okD(5) [OF ok] that by (auto simp: messages_ok_def list_all_iff has_person_def)
  show ?thesis
  proof (cases "select_first (\<lambda>r. t_id r = th) (threads d)")
    case None
    then have "\<not> is_party d th p" by (auto simp: select_first_None is_party_def)
    then show ?thesis using None by (simp add: ThreadFor_def)
  next
    case (Some t)
    then have t: "t \<in> set (threads d)" "t_id t = th" by (auto dest: select_first_Some)
    have party: "is_party d th p \<longleftrightarrow> p = t_initiator t \<or> p = t_recipient t"
      using is_party_unique [OF ok t] t by (auto simp: is_party_def)
    have state: "thread_state_of d th = Some (t_state t)" using thread_state_of_Some [OF assms t(1)] t(2) by simp
    have has: "has_thread d th" using t by (auto simp: has_thread_def)
    show ?thesis
    proof (cases "is_party d th p")
      case False
      then show ?thesis using Some party has by (auto simp: ThreadFor_def)
    next
      case True
      then obtain v where v: "ThreadFor p th d = Inr v" using Some party by (auto simp: ThreadFor_def)
      define rows where "rows = [(m, q). m \<leftarrow> messages d, q \<leftarrow> persons d, p_id q = m_sender m \<and> m_thread m = th]"
      define F where "F = (\<lambda>(m :: message_row, q :: person_row). \<lparr>tm_MessageID = m_id m, tm_SenderEmail = p_email q, tm_Envelope = m_envelope m,
          tm_ReceivedAt = from_unix (m_received m)\<rparr>)"
      have "tv_Messages v = map F (sort_key (\<lambda>(m, p). m_received m) rows)"
        using v Some True party by (auto simp: ThreadFor_def F_def rows_def split: if_splits)
      moreover have "set rows = {(m, q). m \<in> set (messages d) \<and> q \<in> set (persons d) \<and> m_thread m = th \<and> p_id q = m_sender m}"
        by (auto simp: rows_def)
      ultimately have fs: "set (tv_Messages v) = F ` {(m, q). m \<in> set (messages d) \<and> q \<in> set (persons d) \<and> m_thread m = th \<and> p_id q = m_sender m}"
        by simp
      also have ms: "\<dots> = {\<lparr>tm_MessageID = m_id m, tm_SenderEmail = p_email q, tm_Envelope = m_envelope m,
          tm_ReceivedAt = from_unix (m_received m)\<rparr> | m q. m \<in> set (messages d) \<and> q \<in> set (persons d) \<and> m_thread m = th \<and> p_id q = m_sender m}"
        by (auto simp: F_def image_iff)
      finally have all: "set (tv_Messages v) = \<dots>" .
      have "tm_MessageID ` set (tv_Messages v) = m_id ` {m \<in> set (messages d). m_thread m = th}"
      proof -
        have "tm_MessageID (F x) = m_id (fst x)" for x by (simp add: F_def split_def)
        then show ?thesis unfolding fs image_image using sender by (fastforce simp: image_iff)
      qed
      moreover have "tv_ThreadID v = th" "tv_State v = t_state t"
          "set (tv_Drafts v) = draft_item_of ` {r \<in> set (drafts d). dr_thread r = th \<and> dr_author r = p}"
        using v Some True party by (auto simp: ThreadFor_def split: if_splits)
      ultimately show ?thesis using v all True has state by (intro conjI impI exI [of _ v]) simp_all
    qed
  qed
qed

theorem ThreadFor_spec_witness:
  "(\<exists>v. ThreadFor ''bob'' ''th'' sample_db = Inr v \<and> tm_MessageID ` set (tv_Messages v) = {''m1''}) \<and>
   ThreadFor ''eve'' ''th'' sample_db = Inl ErrNotFound"
proof -
  have "is_party sample_db ''th'' ''bob''" "\<not> is_party sample_db ''th'' ''eve''"
    by (simp_all add: is_party_def sample_simps)
  moreover have "{m \<in> set (messages sample_db). m_thread m = ''th''} = {sample_message}"
  proof -
    have "messages sample_db = [sample_message]" "m_thread sample_message = ''th''" by (simp_all add: sample_simps)
    then show ?thesis by auto
  qed
  then have "m_id ` {m \<in> set (messages sample_db). m_thread m = ''th''} = {''m1''}" by (simp add: sample_message_def)
  ultimately have facts: "is_party sample_db ''th'' ''bob''" "\<not> is_party sample_db ''th'' ''eve''"
    "m_id ` {m \<in> set (messages sample_db). m_thread m = ''th''} = {''m1''}" by blast+
  have "\<exists>v. ThreadFor ''bob'' ''th'' sample_db = Inr v \<and>
      tm_MessageID ` set (tv_Messages v) = m_id ` {m \<in> set (messages sample_db). m_thread m = ''th''}"
    using mp [OF conjunct1 [OF ThreadFor_spec [OF sample_db_inv, of "''th''" "''bob''"]] facts(1)] by (elim exE conjE) (rule exI, rule conjI)
  then show ?thesis
    using mp [OF conjunct1 [OF conjunct2 [OF ThreadFor_spec [OF sample_db_inv, of "''th''" "''eve''"]]] facts(2)]
    unfolding facts(3) by (intro conjI)
qed

end
