(* ===== verification/StoreRetention.thy ===== *)
theory StoreRetention
  imports StoreMessage
begin

text \<open>
  The retention sweeper: \<open>internal/relay/store/retention.go\<close>. Deleting a message deletes its
  delivery rows (\<open>ON DELETE CASCADE\<close>); threads, grants and tombstones stay. Each method
  returns the number of rows it deleted.
\<close>

record retention_policy =
  AckGrace :: duration
  HardTTL :: duration

definition acks_of :: "database \<Rightarrow> string \<Rightarrow> int option list" where
  "acks_of d messageID = map dl_acked (filter (\<lambda>r. dl_message r = messageID) (deliveries d))"

text \<open>Some delivery, none unacknowledged, and \<open>MAX(acked_at)\<close> at or before the cutoff.\<close>

definition fully_acked_by :: "int \<Rightarrow> database \<Rightarrow> string \<Rightarrow> bool" where
  "fully_acked_by cutoff d messageID \<longleftrightarrow>
     acks_of d messageID \<noteq> [] \<and>
     list_all (\<lambda>a. a \<noteq> None \<and> the a \<le> cutoff) (acks_of d messageID)"

definition sweepable :: "retention_policy \<Rightarrow> instant \<Rightarrow> database \<Rightarrow> message_row \<Rightarrow> bool" where
  "sweepable p now d m \<longleftrightarrow>
     m_received m \<le> unix_sec (now - HardTTL p) \<or>
     fully_acked_by (unix_sec (now - AckGrace p)) d (m_id m)"

definition sweepMessagesTx :: "retention_policy \<Rightarrow> instant \<Rightarrow> nat tx" where
  "sweepMessagesTx p now d =
     rbind (exec (d\<lparr>messages := delete_where (sweepable p now d) (messages d),
        deliveries := delete_where (\<lambda>r. list_ex (\<lambda>m. m_id m = dl_message r \<and> sweepable p now d m) (messages d))
          (deliveries d)\<rparr>))
       (\<lambda>d'. Inr (rows_affected (sweepable p now d) (messages d), d'))"

definition SweepMessages :: "retention_policy \<Rightarrow> instant \<Rightarrow> store \<Rightarrow> (store_error + nat) \<times> store" where
  "SweepMessages p now = writeTx (sweepMessagesTx p now)"

definition decided_by :: "int \<Rightarrow> draft_row \<Rightarrow> bool" where
  "decided_by cutoff r \<longleftrightarrow> (dr_state r = Sent \<or> dr_state r = Discarded) \<and>
     (case dr_decided r of None \<Rightarrow> False | Some t \<Rightarrow> t \<le> cutoff)"

definition sweepDraftsTx :: "retention_policy \<Rightarrow> instant \<Rightarrow> nat tx" where
  "sweepDraftsTx p now d =
     rbind (exec (d\<lparr>drafts := delete_where (decided_by (unix_sec (now - HardTTL p))) (drafts d)\<rparr>))
       (\<lambda>d'. Inr (rows_affected (decided_by (unix_sec (now - HardTTL p))) (drafts d), d'))"

definition SweepDrafts :: "retention_policy \<Rightarrow> instant \<Rightarrow> store \<Rightarrow> (store_error + nat) \<times> store" where
  "SweepDrafts p now = writeTx (sweepDraftsTx p now)"

definition pruneTx :: "freshness \<Rightarrow> instant \<Rightarrow> nat tx" where
  "pruneTx fresh now d =
     (let stale = (\<lambda>r. ts_sent r < unix_sec (now - MaxAge fresh))
      in rbind (exec (d\<lparr>tombstones := delete_where stale (tombstones d)\<rparr>))
           (\<lambda>d'. Inr (rows_affected stale (tombstones d), d')))"

definition PruneTombstones :: "freshness \<Rightarrow> instant \<Rightarrow> store \<Rightarrow> (store_error + nat) \<times> store" where
  "PruneTombstones fresh now = writeTx (pruneTx fresh now)"

section \<open>Sweeping messages\<close>

definition swept_messages :: "retention_policy \<Rightarrow> instant \<Rightarrow> database \<Rightarrow> database" where
  "swept_messages p now d = d\<lparr>messages := delete_where (sweepable p now d) (messages d),
     deliveries := delete_where (\<lambda>r. list_ex (\<lambda>m. m_id m = dl_message r \<and> sweepable p now d m) (messages d)) (deliveries d)\<rparr>"

text \<open>A delivery stays exactly when its message does.\<close>

lemma kept_message:
  assumes "schema_ok d" "m \<in> set (messages d)" "dl_message dl = m_id m"
  shows "list_ex (\<lambda>m. m_id m = dl_message dl \<and> sweepable p now d m) (messages d) \<longleftrightarrow> sweepable p now d m"
  using schema_okD(5) [OF assms(1)] assms(2,3) distinct_key_unique [of m_id "messages d" _ m]
  by (auto simp: messages_ok_def list_ex_iff)

lemma schema_swept_messages:
  assumes ok: "schema_ok d"
  shows "schema_ok (swept_messages p now d)" (is "schema_ok ?d")
proof -
  note parts = schema_okD [OF ok]
  have "messages_ok ?d"
    using parts(5) by (auto simp: messages_ok_def swept_messages_def distinct_delete_where intro: list_all_delete_where)
  moreover have "deliveries_ok ?d"
  proof -
    have "has_message ?d (dl_message r)" if r: "r \<in> set (deliveries ?d)" for r
    proof -
      have r0: "r \<in> set (deliveries d)" "\<not> list_ex (\<lambda>m. m_id m = dl_message r \<and> sweepable p now d m) (messages d)"
        using r by (simp_all add: swept_messages_def)
      then obtain m where m: "m \<in> set (messages d)" "m_id m = dl_message r"
        using parts(7) by (auto simp: deliveries_ok_def list_all_iff has_message_def)
      with r0 kept_message [OF ok m(1), of r] have "m \<in> set (messages ?d)" by (simp add: swept_messages_def)
      with m show ?thesis by (auto simp: has_message_def)
    qed
    moreover have "distinct (map (\<lambda>r. (dl_message r, dl_device r)) (deliveries ?d))"
      using parts(7) by (simp add: deliveries_ok_def swept_messages_def distinct_delete_where)
    moreover have "has_device ?d (dl_device r)" if "r \<in> set (deliveries ?d)" for r
      using that parts(7) by (auto simp: deliveries_ok_def list_all_iff swept_messages_def)
    ultimately show ?thesis by (simp add: deliveries_ok_def list_all_iff)
  qed
  moreover have "persons_ok ?d" "devices_ok ?d" "invites_ok ?d" "threads_ok ?d" "tombstones_ok ?d" "drafts_ok ?d"
      "grants_ok ?d" "clients_ok ?d" "codes_ok ?d" "refresh_ok ?d"
    using parts by (simp_all add: persons_ok_def devices_ok_def invites_ok_def threads_ok_def tombstones_ok_def drafts_ok_def
      grants_ok_def clients_ok_def codes_ok_def refresh_ok_def swept_messages_def)
  ultimately show ?thesis by (simp add: schema_ok_def)
qed

lemma sweepMessagesTx_eq:
  "schema_ok d \<Longrightarrow> sweepMessagesTx p now d = Inr (rows_affected (sweepable p now d) (messages d), swept_messages p now d)"
  using schema_swept_messages [of d p now] by (simp add: sweepMessagesTx_def swept_messages_def)

lemma swept_messages_inv:
  assumes i: "relay_inv d"
  shows "relay_inv (swept_messages p now d)" (is "relay_inv ?d")
proof -
  note ok = relay_inv_schema [OF i]
  have "delivery_to_other ?d r" if r: "r \<in> set (deliveries ?d)" for r
  proof -
    have r0: "r \<in> set (deliveries d)" "\<not> list_ex (\<lambda>m. m_id m = dl_message r \<and> sweepable p now d m) (messages d)"
      using r by (simp_all add: swept_messages_def)
    then have "delivery_to_other d r" using i by (simp add: relay_inv_def list_all_iff)
    then show ?thesis
    proof (rule delivery_to_other_mono)
      fix m assume m: "m \<in> set (messages d)" "m_id m = dl_message r"
      then have "m \<in> set (messages ?d)" using r0 kept_message [OF ok m(1), of r] by (simp add: swept_messages_def)
      then show "\<exists>m' \<in> set (messages ?d). m_id m' = m_id m \<and> m_thread m' = m_thread m \<and> m_sender m' = m_sender m" by blast
    qed (auto simp: swept_messages_def)
  qed
  moreover have "is_party ?d = is_party d" "draft_sound ?d = draft_sound d"
    by (rule is_party_cong, simp add: swept_messages_def, rule draft_sound_cong, simp add: swept_messages_def)
  ultimately show ?thesis
    using i schema_swept_messages [OF ok] by (auto simp: relay_inv_def list_all_iff swept_messages_def)
qed

interpretation sweep_messages_tx: tx_keeps "sweepMessagesTx p now" relay_inv for p now
  by unfold_locales (auto simp: sweepMessagesTx_eq relay_inv_schema swept_messages_inv)

section \<open>Sweeping drafts and tombstones\<close>

lemma schema_delete_drafts: "schema_ok d \<Longrightarrow> schema_ok (d\<lparr>drafts := delete_where P (drafts d)\<rparr>)"
proof -
  assume ok: "schema_ok d"
  have "drafts_ok (d\<lparr>drafts := delete_where P (drafts d)\<rparr>)"
    using schema_okD(8) [OF ok] unfolding drafts_ok_def by (auto simp: distinct_delete_where intro: list_all_delete_where)
  then show "schema_ok (d\<lparr>drafts := delete_where P (drafts d)\<rparr>)"
    by (intro schema_ok_step [OF ok]) (simp_all add: keys_grow_def)
qed

lemma delete_drafts_inv:
  assumes "relay_inv d"
  shows "relay_inv (d\<lparr>drafts := delete_where P (drafts d)\<rparr>)" (is "relay_inv ?d")
proof -
  have "delivery_to_other ?d = delivery_to_other d" "draft_sound ?d = draft_sound d"
    by (simp_all add: fun_eq_iff delivery_to_other_def draft_sound_def)
  then show ?thesis
    using assms schema_delete_drafts [OF relay_inv_schema [OF assms], of P]
    by (simp add: relay_inv_def list_all_delete_where)
qed

lemma sweepDraftsTx_eq:
  "schema_ok d \<Longrightarrow> sweepDraftsTx p now d =
     Inr (rows_affected (decided_by (unix_sec (now - HardTTL p))) (drafts d),
          d\<lparr>drafts := delete_where (decided_by (unix_sec (now - HardTTL p))) (drafts d)\<rparr>)"
  by (simp add: sweepDraftsTx_def schema_delete_drafts)

interpretation sweep_drafts_tx: tx_keeps "sweepDraftsTx p now" relay_inv for p now
  by unfold_locales (auto simp: sweepDraftsTx_eq relay_inv_schema delete_drafts_inv)

definition stale_tombstone :: "freshness \<Rightarrow> instant \<Rightarrow> tombstone_row \<Rightarrow> bool" where
  "stale_tombstone fresh now r \<longleftrightarrow> ts_sent r < unix_sec (now - MaxAge fresh)"

lemma schema_prune: "schema_ok d \<Longrightarrow> schema_ok (d\<lparr>tombstones := delete_where P (tombstones d)\<rparr>)"
proof -
  assume ok: "schema_ok d"
  have "tombstones_ok (d\<lparr>tombstones := delete_where P (tombstones d)\<rparr>)"
    using schema_okD(6) [OF ok] by (simp add: tombstones_ok_def distinct_delete_where)
  then show "schema_ok (d\<lparr>tombstones := delete_where P (tombstones d)\<rparr>)"
    by (intro schema_ok_step [OF ok]) (simp_all add: keys_grow_def)
qed

lemma pruneTx_eq:
  "schema_ok d \<Longrightarrow> pruneTx fresh now d =
     Inr (rows_affected (stale_tombstone fresh now) (tombstones d), d\<lparr>tombstones := delete_where (stale_tombstone fresh now) (tombstones d)\<rparr>)"
  by (simp add: pruneTx_def Let_def schema_prune stale_tombstone_def [abs_def])

interpretation prune_tx: tx_keeps "pruneTx fresh now" relay_inv for fresh now
proof unfold_locales
  fix d x d'
  assume i: "relay_inv d" and r: "pruneTx fresh now d = Inr (x, d')"
  then have d': "d' = d\<lparr>tombstones := delete_where (stale_tombstone fresh now) (tombstones d)\<rparr>"
    by (simp add: pruneTx_eq relay_inv_schema)
  show "relay_inv d'"
    unfolding d' by (rule relay_inv_other [OF i schema_prune [OF relay_inv_schema [OF i]]]) simp_all
qed

lemma fresh_not_stale:
  assumes "now \<le> t" "fresh_at fresh t sent"
  shows "unix_sec (now - MaxAge fresh) \<le> unix_sec sent"
  using assms by (intro unix_sec_mono) (auto simp: fresh_at_def)

section \<open>Properties\<close>

text \<open>
  A message sweep removes exactly the messages older than the hard limit and those that were
  delivered to someone and acknowledged by every device at least the grace period ago, with
  their deliveries; tombstones, threads, drafts and grants stay. No device loses a message it
  has not acknowledged before the hard limit.
\<close>

theorem SweepMessages_spec:
  assumes "healthy s" "relay_inv (st_db s)"
  shows "\<exists>n s'. SweepMessages p now s = (Inr n, s') \<and> relay_inv (st_db s') \<and>
    messages (st_db s') = filter (\<lambda>m. unix_sec (now - HardTTL p) < m_received m \<and>
      ((\<forall>dl \<in> set (deliveries (st_db s)). dl_message dl \<noteq> m_id m) \<or>
       (\<exists>dl \<in> set (deliveries (st_db s)). dl_message dl = m_id m \<and>
          (case dl_acked dl of None \<Rightarrow> True | Some a \<Rightarrow> unix_sec (now - AckGrace p) < a)))) (messages (st_db s)) \<and>
    set (deliveries (st_db s')) = {dl \<in> set (deliveries (st_db s)). has_message (st_db s') (dl_message dl)} \<and>
    tombstones (st_db s') = tombstones (st_db s) \<and> threads (st_db s') = threads (st_db s) \<and>
    drafts (st_db s') = drafts (st_db s) \<and> grants (st_db s') = grants (st_db s) \<and>
    {i \<in> set (Inbox dev (st_db s)). unix_sec (now - HardTTL p) < unix_sec (ii_ReceivedAt i)} \<subseteq> set (Inbox dev (st_db s'))"
proof -
  let ?d = "st_db s" and ?d' = "swept_messages p now (st_db s)"
  note ok = relay_inv_schema [OF assms(2)]
  have run: "SweepMessages p now s = (Inr (rows_affected (sweepable p now ?d) (messages ?d)), s\<lparr>st_db := ?d'\<rparr>)"
    using assms(1) by (simp add: SweepMessages_def writeTx_healthy sweepMessagesTx_eq [OF ok])
  have keep: "\<not> sweepable p now ?d m \<longleftrightarrow> unix_sec (now - HardTTL p) < m_received m \<and>
      ((\<forall>dl \<in> set (deliveries ?d). dl_message dl \<noteq> m_id m) \<or>
       (\<exists>dl \<in> set (deliveries ?d). dl_message dl = m_id m \<and>
          (case dl_acked dl of None \<Rightarrow> True | Some a \<Rightarrow> unix_sec (now - AckGrace p) < a)))" for m
  proof -
    have late: "(case dl_acked dl of None \<Rightarrow> True | Some a \<Rightarrow> c < a) \<longleftrightarrow> \<not> (dl_acked dl \<noteq> None \<and> the (dl_acked dl) \<le> c)" for dl c
      by (cases "dl_acked dl") auto
    show ?thesis
      unfolding late sweepable_def fully_acked_by_def acks_of_def
      by (simp add: filter_empty_conv list_all_iff not_le) blast
  qed
  have msgs: "messages ?d' = filter (\<lambda>m. \<not> sweepable p now ?d m) (messages ?d)"
    by (simp add: swept_messages_def delete_where_def)
  have dels: "set (deliveries ?d') = {dl \<in> set (deliveries ?d). has_message ?d' (dl_message dl)}"
  proof -
    have "list_ex (\<lambda>m. m_id m = dl_message dl \<and> sweepable p now ?d m) (messages ?d) \<longleftrightarrow> \<not> has_message ?d' (dl_message dl)"
      if dl: "dl \<in> set (deliveries ?d)" for dl
    proof -
      obtain m where m: "m \<in> set (messages ?d)" "m_id m = dl_message dl"
        using schema_okD(7) [OF ok] dl by (auto simp: deliveries_ok_def list_all_iff has_message_def)
      have "m' = m" if "m' \<in> set (messages ?d)" "m_id m' = dl_message dl" for m'
        using that m schema_okD(5) [OF ok] distinct_key_unique [of m_id "messages ?d" m' m] by (simp add: messages_ok_def)
      then have "has_message ?d' (dl_message dl) \<longleftrightarrow> \<not> sweepable p now ?d m"
        unfolding has_message_def exists_row_iff msgs set_filter using m by blast
      then show ?thesis using kept_message [OF ok m(1), of dl p now] m(2) by simp
    qed
    then show ?thesis by (auto simp: swept_messages_def)
  qed
  have inbox: "i \<in> set (Inbox dev ?d')"
    if i: "i \<in> set (Inbox dev ?d)" "unix_sec (now - HardTTL p) < unix_sec (ii_ReceivedAt i)" for i
  proof -
    obtain m dl where m: "m \<in> set (messages ?d)" "dl \<in> set (deliveries ?d)" "dl_message dl = m_id m"
        "dl_device dl = dev" "dl_acked dl = None"
      and im: "i = \<lparr>ii_ID = m_id m, ii_ThreadID = m_thread m, ii_SenderID = m_sender m, ii_Envelope = m_envelope m,
        ii_ReceivedAt = from_unix (m_received m)\<rparr>"
      using i(1) by (auto simp: Inbox_def)
    have "\<not> sweepable p now ?d m" unfolding keep using i(2) im m(2,3,5) by (intro conjI disjI2 bexI [of _ dl]) simp_all
    then have "m \<in> set (messages ?d')" "dl \<in> set (deliveries ?d')"
      using m kept_message [OF ok m(1,3)] by (simp_all add: swept_messages_def)
    with m im show ?thesis by (force simp: Inbox_def)
  qed
  have frame: "tombstones ?d' = tombstones ?d" "threads ?d' = threads ?d" "drafts ?d' = drafts ?d" "grants ?d' = grants ?d"
    by (simp_all add: swept_messages_def)
  show ?thesis
    unfolding run
    by (rule exI, rule exI, intro conjI, rule refl)
      (use swept_messages_inv [OF assms(2)] msgs dels inbox frame keep in auto)
qed

theorem SweepMessages_spec_witness:
  "(\<exists>n s'. SweepMessages \<lparr>AckGrace = 0, HardTTL = 50000000000\<rparr> 120000000000 sample_store = (Inr n, s') \<and>
      messages (st_db s') = [sample_message]) \<and>
   (\<exists>n s'. SweepMessages \<lparr>AckGrace = 0, HardTTL = 10000000000\<rparr> 120000000000 sample_store = (Inr n, s') \<and> messages (st_db s') = [])"
proof -
  let ?late = "\<lambda>p. filter (\<lambda>m. unix_sec (120000000000 - HardTTL p) < m_received m \<and>
      ((\<forall>dl \<in> set (deliveries sample_db). dl_message dl \<noteq> m_id m) \<or>
       (\<exists>dl \<in> set (deliveries sample_db). dl_message dl = m_id m \<and>
          (case dl_acked dl of None \<Rightarrow> True | Some a \<Rightarrow> unix_sec (120000000000 - AckGrace p) < a)))) (messages sample_db)"
  have "?late \<lparr>AckGrace = 0, HardTTL = 50000000000\<rparr> = [sample_message]" "?late \<lparr>AckGrace = 0, HardTTL = 10000000000\<rparr> = []"
    by (simp_all add: sample_simps unix_sec_def)
  note late = this
  have "\<exists>n s'. SweepMessages p 120000000000 sample_store = (Inr n, s') \<and> messages (st_db s') = ?late p" for p
    using SweepMessages_spec [OF sample_healthy(1) sample_store_inv, of p 120000000000 "[]"]
    unfolding sample_healthy(2) by (elim exE conjE) (intro exI conjI)
  from this [of "\<lparr>AckGrace = 0, HardTTL = 50000000000\<rparr>"] this [of "\<lparr>AckGrace = 0, HardTTL = 10000000000\<rparr>"]
  show ?thesis unfolding late by (intro conjI)
qed

text \<open>
  A draft sweep removes exactly the drafts decided before the limit. A draft still pending
  review is never removed, however old it is.
\<close>

theorem SweepDrafts_spec:
  assumes "healthy s" "relay_inv (st_db s)"
  shows "\<exists>n s'. SweepDrafts p now s = (Inr n, s') \<and> relay_inv (st_db s') \<and>
    drafts (st_db s') = filter (\<lambda>r. case dr_decided r of None \<Rightarrow> True | Some t \<Rightarrow> unix_sec (now - HardTTL p) < t) (drafts (st_db s)) \<and>
    filter (\<lambda>r. dr_state r = PendingReview) (drafts (st_db s')) = filter (\<lambda>r. dr_state r = PendingReview) (drafts (st_db s)) \<and>
    s'\<lparr>st_db := (st_db s')\<lparr>drafts := drafts (st_db s)\<rparr>\<rparr> = s"
proof -
  let ?d = "st_db s" and ?c = "unix_sec (now - HardTTL p)"
  let ?d' = "?d\<lparr>drafts := delete_where (decided_by ?c) (drafts ?d)\<rparr>"
  note ok = relay_inv_schema [OF assms(2)]
  have run: "SweepDrafts p now s = (Inr (rows_affected (decided_by ?c) (drafts ?d)), s\<lparr>st_db := ?d'\<rparr>)"
    using assms(1) by (simp add: SweepDrafts_def writeTx_healthy sweepDraftsTx_eq [OF ok])
  have state: "dr_state r = PendingReview \<longleftrightarrow> dr_decided r = None" "dr_state r \<in> {PendingReview, Sent, Discarded}"
    if "r \<in> set (drafts ?d)" for r
    using that assms(2) schema_okD(8) [OF ok] by (auto simp: relay_inv_def list_all_iff draft_sound_def drafts_ok_def draft_state_defs)
  have "delete_where (decided_by ?c) (drafts ?d) = filter (\<lambda>r. case dr_decided r of None \<Rightarrow> True | Some t \<Rightarrow> ?c < t) (drafts ?d)"
    unfolding delete_where_def
  proof (rule filter_cong [OF refl])
    fix r assume "r \<in> set (drafts ?d)"
    with state [of r] show "(\<not> decided_by ?c r) = (case dr_decided r of None \<Rightarrow> True | Some t \<Rightarrow> ?c < t)"
      by (cases "dr_decided r") (auto simp: decided_by_def not_le)
  qed
  moreover have "filter (\<lambda>r. dr_state r = PendingReview) (delete_where (decided_by ?c) (drafts ?d)) =
      filter (\<lambda>r. dr_state r = PendingReview) (drafts ?d)"
    by (auto simp: delete_where_def decided_by_def intro!: filter_cong)
  ultimately show ?thesis
    using run delete_drafts_inv [OF assms(2), of "decided_by ?c"]
    by (intro exI [of _ "rows_affected (decided_by ?c) (drafts ?d)"] exI [of _ "s\<lparr>st_db := ?d'\<rparr>"]) simp
qed

theorem SweepDrafts_spec_witness:
  "\<exists>n s'. SweepDrafts \<lparr>AckGrace = 0, HardTTL = 1\<rparr> 5 sample_store = (Inr n, s') \<and> drafts (st_db s') = []"
proof -
  have "drafts sample_db = []" by (simp add: sample_simps)
  then show ?thesis
    using SweepDrafts_spec [OF sample_healthy(1) sample_store_inv, of "\<lparr>AckGrace = 0, HardTTL = 1\<rparr>" 5]
    unfolding sample_healthy(2) by (elim exE conjE) auto
qed

text \<open>
  Pruning tombstones never reopens the replay window. It removes exactly the tombstones whose
  signed time lies before the freshness horizon, so an envelope that is fresh now or at any later
  time is recognised as seen afterwards exactly when it was before.
\<close>

theorem PruneTombstones_safe:
  assumes "healthy s" "relay_inv (st_db s)"
  shows "\<exists>n s'. PruneTombstones fresh now s = (Inr n, s') \<and> relay_inv (st_db s') \<and>
    set (tombstones (st_db s')) = {r \<in> set (tombstones (st_db s)). unix_sec (now - MaxAge fresh) \<le> ts_sent r} \<and>
    (\<forall>t r. now \<le> t \<and> r \<in> set (tombstones (st_db s)) \<and> (\<exists>sent. fresh_at fresh t sent \<and> unix_sec sent = ts_sent r) \<longrightarrow>
       tombstoneSeen (st_db s') (ts_id r)) \<and>
    s'\<lparr>st_db := (st_db s')\<lparr>tombstones := tombstones (st_db s)\<rparr>\<rparr> = s"
proof -
  let ?d = "st_db s"
  let ?d' = "?d\<lparr>tombstones := delete_where (stale_tombstone fresh now) (tombstones ?d)\<rparr>"
  have run: "PruneTombstones fresh now s = (Inr (rows_affected (stale_tombstone fresh now) (tombstones ?d)), s\<lparr>st_db := ?d'\<rparr>)"
    using assms by (simp add: PruneTombstones_def writeTx_healthy pruneTx_eq relay_inv_schema)
  have inv: "relay_inv ?d'"
    by (rule relay_inv_other [OF assms(2) schema_prune [OF relay_inv_schema [OF assms(2)]]]) simp_all
  have rows: "set (tombstones ?d') = {r \<in> set (tombstones ?d). unix_sec (now - MaxAge fresh) \<le> ts_sent r}"
    by (auto simp: stale_tombstone_def)
  have "tombstoneSeen ?d' (ts_id r)"
    if "now \<le> t" "r \<in> set (tombstones ?d)" "fresh_at fresh t sent" "unix_sec sent = ts_sent r" for t r sent
    using that fresh_not_stale [of now t fresh sent] rows by (auto simp: tombstoneSeen_iff)
  then show ?thesis
    unfolding run by (intro exI [of _ "rows_affected (stale_tombstone fresh now) (tombstones ?d)"] exI [of _ "s\<lparr>st_db := ?d'\<rparr>"])
      (use inv rows in auto)
qed

theorem PruneTombstones_safe_witness:
  "\<exists>n s'. PruneTombstones \<lparr>MaxAge = 60000000000, MaxSkew = 0\<rparr> 160000000000 sample_store = (Inr n, s') \<and>
     tombstoneSeen (st_db s') ''m1''"
proof -
  have "\<lparr>ts_id = ''m1'', ts_sent = 100\<rparr> \<in> set (tombstones sample_db)" by (simp add: sample_simps)
  moreover have "fresh_at \<lparr>MaxAge = 60000000000, MaxSkew = 0\<rparr> 160000000000 100000000000" "unix_sec 100000000000 = 100"
    by (simp_all add: fresh_at_def unix_sec_def)
  ultimately show ?thesis
    using PruneTombstones_safe [OF sample_healthy(1) sample_store_inv, of "\<lparr>MaxAge = 60000000000, MaxSkew = 0\<rparr>" 160000000000]
    unfolding sample_healthy(2) by fastforce
qed

end
