(* ===== verification/StoreOAuth.thy ===== *)
theory StoreOAuth
  imports StoreSchema EnvelopeFacts
begin

text \<open>
  The authorization server's state: \<open>internal/relay/store/oauth.go\<close>. Codes and refresh
  tokens are stored as hashes only; \<open>new_id\<close> is the minted client id. The redirect URIs of
  a client are stored as a JSON array.
\<close>

section \<open>Clients\<close>

record oauth_client =
  cl_ID :: string
  cl_RedirectURIs :: "string list"
  cl_Name :: string
  cl_CreatedAt :: instant

definition marshal_strings :: "string list \<Rightarrow> string" where
  "marshal_strings xs = utf8_encode (print_json (JArr (map jstr xs)))"

definition unmarshal_strings :: "string \<Rightarrow> string list option" where
  "unmarshal_strings data =
     (case parse_document data of
        Some (JArr vs) \<Rightarrow> traverse (\<lambda>v. dec_string v []) vs
      | Some JNull \<Rightarrow> Some []
      | _ \<Rightarrow> None)"

definition registerClientTx :: "string \<Rightarrow> string list \<Rightarrow> string \<Rightarrow> instant \<Rightarrow> unit tx" where
  "registerClientTx new_id redirectURIs name now d =
     rbind (exec (d\<lparr>oauth_clients := oauth_clients d @
       [\<lparr>c_id = new_id, c_uris = marshal_strings redirectURIs, c_name = name, c_created = unix_sec now\<rparr>]\<rparr>))
       (\<lambda>d'. Inr ((), d'))"

definition RegisterClient :: "string \<Rightarrow> string list \<Rightarrow> string \<Rightarrow> instant \<Rightarrow> store \<Rightarrow> (store_error + string) \<times> store" where
  "RegisterClient new_id redirectURIs name now s =
     (case writeTx (registerClientTx new_id redirectURIs name now) s of
        (Inl e, s') \<Rightarrow> (Inl e, s')
      | (Inr _, s') \<Rightarrow> (Inr new_id, s'))"

definition ClientByID :: "string \<Rightarrow> database \<Rightarrow> store_error + oauth_client" where
  "ClientByID clientID d =
     (case select_first (\<lambda>r. c_id r = clientID) (oauth_clients d) of
        None \<Rightarrow> Inl ErrClientUnknown
      | Some r \<Rightarrow>
         (case unmarshal_strings (c_uris r) of None \<Rightarrow> Inl DBErr
          | Some uris \<Rightarrow> Inr \<lparr>cl_ID = c_id r, cl_RedirectURIs = uris, cl_Name = c_name r,
                              cl_CreatedAt = from_unix (c_created r)\<rparr>))"

section \<open>Authorization codes\<close>

record auth_code =
  ac_ClientID :: string
  ac_RedirectURI :: string
  ac_CodeChallenge :: string
  ac_Resource :: string
  ac_PersonID :: string
  ac_DeviceID :: string
  ac_ClientType :: string

definition createAuthCodeTx :: "string \<Rightarrow> auth_code \<Rightarrow> instant \<Rightarrow> instant \<Rightarrow> unit tx" where
  "createAuthCodeTx code b expiresAt now d =
     rbind (exec (d\<lparr>oauth_codes := oauth_codes d @
       [\<lparr>k_hash = hashToken code, k_client = ac_ClientID b, k_redirect = ac_RedirectURI b,
         k_challenge = ac_CodeChallenge b, k_resource = ac_Resource b, k_person = ac_PersonID b,
         k_device = ac_DeviceID b, k_client_type = ac_ClientType b, k_created = unix_sec now,
         k_expires = unix_sec expiresAt, k_consumed = None\<rparr>]\<rparr>))
       (\<lambda>d'. Inr ((), d'))"

definition CreateAuthCode :: "string \<Rightarrow> auth_code \<Rightarrow> instant \<Rightarrow> instant \<Rightarrow> store \<Rightarrow> (store_error + unit) \<times> store" where
  "CreateAuthCode code b expiresAt now = writeTx (createAuthCodeTx code b expiresAt now)"

definition live_code :: "string \<Rightarrow> instant \<Rightarrow> code_row \<Rightarrow> bool" where
  "live_code code now r \<longleftrightarrow> k_hash r = hashToken code \<and> k_consumed r = None \<and> unix_sec now < k_expires r"

definition AuthCodeByCode :: "string \<Rightarrow> instant \<Rightarrow> database \<Rightarrow> store_error + auth_code" where
  "AuthCodeByCode code now d =
     (case select_first (live_code code now) (oauth_codes d) of
        None \<Rightarrow> Inl ErrCodeInvalid
      | Some r \<Rightarrow> Inr \<lparr>ac_ClientID = k_client r, ac_RedirectURI = k_redirect r, ac_CodeChallenge = k_challenge r,
          ac_Resource = k_resource r, ac_PersonID = k_person r, ac_DeviceID = k_device r,
          ac_ClientType = k_client_type r\<rparr>)"

definition consumeAuthCodeTx :: "string \<Rightarrow> instant \<Rightarrow> unit tx" where
  "consumeAuthCodeTx code now d =
     rbind (exec (d\<lparr>oauth_codes := update_where (live_code code now)
        (\<lambda>r. r\<lparr>k_consumed := Some (unix_sec now)\<rparr>) (oauth_codes d)\<rparr>)) (\<lambda>d'.
     if rows_affected (live_code code now) (oauth_codes d) = 0 then Inl ErrCodeInvalid else Inr ((), d'))"

definition ConsumeAuthCode :: "string \<Rightarrow> instant \<Rightarrow> store \<Rightarrow> (store_error + unit) \<times> store" where
  "ConsumeAuthCode code now = writeTx (consumeAuthCodeTx code now)"

section \<open>Refresh tokens\<close>

record refresh_grant =
  rg_ClientID :: string
  rg_PersonID :: string
  rg_DeviceID :: string
  rg_ClientType :: string
  rg_Resource :: string

definition createRefreshTx :: "string \<Rightarrow> refresh_grant \<Rightarrow> instant \<Rightarrow> instant \<Rightarrow> unit tx" where
  "createRefreshTx token g expiresAt now d =
     rbind (exec (d\<lparr>oauth_refresh := oauth_refresh d @
       [\<lparr>r_hash = hashToken token, r_client = rg_ClientID g, r_person = rg_PersonID g,
         r_device = rg_DeviceID g, r_client_type = rg_ClientType g, r_resource = rg_Resource g,
         r_created = unix_sec now, r_expires = unix_sec expiresAt, r_consumed = None\<rparr>]\<rparr>))
       (\<lambda>d'. Inr ((), d'))"

definition CreateRefreshToken :: "string \<Rightarrow> refresh_grant \<Rightarrow> instant \<Rightarrow> instant \<Rightarrow> store \<Rightarrow> (store_error + unit) \<times> store" where
  "CreateRefreshToken token g expiresAt now = writeTx (createRefreshTx token g expiresAt now)"

definition live_refresh :: "string \<Rightarrow> instant \<Rightarrow> refresh_row \<Rightarrow> bool" where
  "live_refresh token now r \<longleftrightarrow> r_hash r = hashToken token \<and> r_consumed r = None \<and> unix_sec now < r_expires r"

definition family_live :: "string \<Rightarrow> string \<Rightarrow> refresh_row \<Rightarrow> bool" where
  "family_live person client r \<longleftrightarrow> r_person r = person \<and> r_client r = client \<and> r_consumed r = None"

text \<open>The transaction commits in all three outcomes; the sentinel travels beside the grant.\<close>

datatype refresh_outcome = Rotated refresh_grant | Refused store_error

definition consumeRefreshTx :: "string \<Rightarrow> instant \<Rightarrow> refresh_outcome tx" where
  "consumeRefreshTx token now d =
     rbind (exec (d\<lparr>oauth_refresh := update_where (live_refresh token now)
        (\<lambda>r. r\<lparr>r_consumed := Some (unix_sec now)\<rparr>) (oauth_refresh d)\<rparr>)) (\<lambda>d1.
     if rows_affected (live_refresh token now) (oauth_refresh d) = 1 then
       (case select_first (\<lambda>r. r_hash r = hashToken token) (oauth_refresh d1) of
          None \<Rightarrow> Inl DBErr
        | Some r \<Rightarrow> Inr (Rotated \<lparr>rg_ClientID = r_client r, rg_PersonID = r_person r,
            rg_DeviceID = r_device r, rg_ClientType = r_client_type r, rg_Resource = r_resource r\<rparr>, d1))
     else
       (case select_first (\<lambda>r. r_hash r = hashToken token \<and> r_consumed r \<noteq> None) (oauth_refresh d1) of
          None \<Rightarrow> Inr (Refused ErrRefreshInvalid, d1)
        | Some r \<Rightarrow>
            rbind (exec (d1\<lparr>oauth_refresh := update_where (family_live (r_person r) (r_client r))
               (\<lambda>r. r\<lparr>r_consumed := Some (unix_sec now)\<rparr>) (oauth_refresh d1)\<rparr>)) (\<lambda>d2.
              Inr (Refused ErrRefreshReused, d2))))"

definition ConsumeRefreshToken :: "string \<Rightarrow> instant \<Rightarrow> store \<Rightarrow> (store_error + refresh_grant) \<times> store" where
  "ConsumeRefreshToken token now s =
     (case writeTx (consumeRefreshTx token now) s of
        (Inl e, s') \<Rightarrow> (Inl e, s')
      | (Inr (Refused e), s') \<Rightarrow> (Inl e, s')
      | (Inr (Rotated g), s') \<Rightarrow> (Inr g, s'))"

section \<open>Sweeping\<close>

definition oauthClientTTL :: duration where
  "oauthClientTTL = 30 * 24 * 3600 * 1000000000"

definition sweepOAuthTx :: "instant \<Rightarrow> nat tx" where
  "sweepOAuthTx now d =
     (let old_code = (\<lambda>r. k_expires r \<le> unix_sec now); old_refresh = (\<lambda>r. r_expires r \<le> unix_sec now)
      in rbind (exec (d\<lparr>oauth_codes := delete_where old_code (oauth_codes d)\<rparr>)) (\<lambda>d1.
         rbind (exec (d1\<lparr>oauth_refresh := delete_where old_refresh (oauth_refresh d1)\<rparr>)) (\<lambda>d2.
         let abandoned = (\<lambda>c. c_created c \<le> unix_sec (now - oauthClientTTL) \<and>
                              \<not> list_ex (\<lambda>r. r_client r = c_id c) (oauth_refresh d2))
         in rbind (exec (d2\<lparr>oauth_clients := delete_where abandoned (oauth_clients d2)\<rparr>)) (\<lambda>d3.
              Inr (rows_affected old_code (oauth_codes d) + rows_affected old_refresh (oauth_refresh d1)
                   + rows_affected abandoned (oauth_clients d2), d3)))))"

definition SweepOAuth :: "instant \<Rightarrow> store \<Rightarrow> (store_error + nat) \<times> store" where
  "SweepOAuth now = writeTx (sweepOAuthTx now)"

section \<open>Transactions keep the invariant\<close>

text \<open>These tables are not read by the message pipeline: a transaction on them that commits
  keeps the relay's invariant because its statements satisfy the schema.\<close>

lemma oauth_inv:
  "relay_inv d \<Longrightarrow> schema_ok (d\<lparr>oauth_clients := a, oauth_codes := b, oauth_refresh := c\<rparr>) \<Longrightarrow>
   relay_inv (d\<lparr>oauth_clients := a, oauth_codes := b, oauth_refresh := c\<rparr>)"
  by (rule relay_inv_other) simp_all

lemma oauth_cols:
  "d\<lparr>oauth_clients := a\<rparr> = d\<lparr>oauth_clients := a, oauth_codes := oauth_codes d, oauth_refresh := oauth_refresh d\<rparr>"
  "d\<lparr>oauth_codes := b\<rparr> = d\<lparr>oauth_clients := oauth_clients d, oauth_codes := b, oauth_refresh := oauth_refresh d\<rparr>"
  "d\<lparr>oauth_refresh := c\<rparr> = d\<lparr>oauth_clients := oauth_clients d, oauth_codes := oauth_codes d, oauth_refresh := c\<rparr>"
  by simp_all

lemma oauth_inv1:
  "relay_inv d \<Longrightarrow> schema_ok (d\<lparr>oauth_clients := a\<rparr>) \<Longrightarrow> relay_inv (d\<lparr>oauth_clients := a\<rparr>)"
  "relay_inv d \<Longrightarrow> schema_ok (d\<lparr>oauth_codes := b\<rparr>) \<Longrightarrow> relay_inv (d\<lparr>oauth_codes := b\<rparr>)"
  "relay_inv d \<Longrightarrow> schema_ok (d\<lparr>oauth_refresh := c\<rparr>) \<Longrightarrow> relay_inv (d\<lparr>oauth_refresh := c\<rparr>)"
  by (rule relay_inv_other; simp)+

interpretation register_client_tx: tx_keeps "registerClientTx new_id uris name now" relay_inv for new_id uris name now
  by unfold_locales (auto simp: registerClientTx_def rbind_Inr_iff exec_Inr oauth_inv1)

interpretation create_code_tx: tx_keeps "createAuthCodeTx code b expiresAt now" relay_inv for code b expiresAt now
  by unfold_locales (auto simp: createAuthCodeTx_def rbind_Inr_iff exec_Inr oauth_inv1)

interpretation consume_code_tx: tx_keeps "consumeAuthCodeTx code now" relay_inv for code now
  by unfold_locales (auto simp: consumeAuthCodeTx_def rbind_Inr_iff exec_Inr oauth_inv1 split: if_splits)

interpretation create_refresh_tx: tx_keeps "createRefreshTx token g expiresAt now" relay_inv for token g expiresAt now
  by unfold_locales (auto simp: createRefreshTx_def rbind_Inr_iff exec_Inr oauth_inv1)

section \<open>Codes are consumed once\<close>

definition used_code :: "string \<Rightarrow> instant \<Rightarrow> database \<Rightarrow> database" where
  "used_code code now d = d\<lparr>oauth_codes := update_where (live_code code now)
     (\<lambda>r. r\<lparr>k_consumed := Some (unix_sec now)\<rparr>) (oauth_codes d)\<rparr>"

lemma schema_used_code:
  assumes ok: "schema_ok d"
  shows "schema_ok (used_code code now d)"
proof -
  have "codes_ok (used_code code now d)"
    using schema_okD(11) [OF ok] by (auto simp: codes_ok_def used_code_def map_update_where_key intro: list_all_update_where)
  then show ?thesis by (intro schema_ok_step [OF ok]) (simp_all add: used_code_def keys_grow_def)
qed

lemma consumeAuthCodeTx_eq:
  assumes "schema_ok d"
  shows "consumeAuthCodeTx code now d =
    (if list_ex (live_code code now) (oauth_codes d) then Inr ((), used_code code now d) else Inl ErrCodeInvalid)"
  using schema_used_code [OF assms, of code now]
  by (auto simp: consumeAuthCodeTx_def used_code_def [symmetric] rows_affected_0 list_ex_iff)

lemma used_code_dead:
  assumes "schema_ok d" "list_ex (live_code code now) (oauth_codes d)" "r \<in> set (oauth_codes (used_code code now d))"
  shows "\<not> live_code code t r"
proof
  assume live: "live_code code t r"
  obtain r1 where r1: "r1 \<in> set (oauth_codes d)" "live_code code now r1" using assms(2) by (auto simp: list_ex_iff)
  obtain r0 where r0: "r0 \<in> set (oauth_codes d)" "r = (if live_code code now r0 then r0\<lparr>k_consumed := Some (unix_sec now)\<rparr> else r0)"
    using assms(3) unfolding used_code_def by (auto elim: in_update_whereE)
  then have "k_hash r0 = k_hash r1" using live r1(2) by (auto simp: live_code_def split: if_splits)
  then have "r0 = r1"
    using schema_okD(11) [OF assms(1)] r0(1) r1(1) distinct_key_unique [of k_hash "oauth_codes d" r0 r1] by (simp add: codes_ok_def)
  then show False using r0(2) r1(2) live by (simp add: live_code_def)
qed

definition fresh_code :: "string \<Rightarrow> auth_code \<Rightarrow> instant \<Rightarrow> instant \<Rightarrow> code_row" where
  "fresh_code code b expiresAt now =
     \<lparr>k_hash = hashToken code, k_client = ac_ClientID b, k_redirect = ac_RedirectURI b,
      k_challenge = ac_CodeChallenge b, k_resource = ac_Resource b, k_person = ac_PersonID b,
      k_device = ac_DeviceID b, k_client_type = ac_ClientType b, k_created = unix_sec now,
      k_expires = unix_sec expiresAt, k_consumed = None\<rparr>"

lemma createAuthCodeTx_iff:
  assumes "schema_ok d"
  shows "createAuthCodeTx code b expiresAt now d = Inr (u, d') \<longleftrightarrow>
    hashToken code \<notin> k_hash ` set (oauth_codes d) \<and> has_person d (ac_PersonID b) \<and> has_device d (ac_DeviceID b) \<and>
    d' = d\<lparr>oauth_codes := oauth_codes d @ [fresh_code code b expiresAt now]\<rparr>"
proof -
  let ?d = "d\<lparr>oauth_codes := oauth_codes d @ [fresh_code code b expiresAt now]\<rparr>"
  have "schema_ok ?d \<longleftrightarrow> codes_ok ?d"
    using schema_ok_step [OF assms, of ?d] by (auto simp: schema_ok_def keys_grow_def)
  also have "\<dots> \<longleftrightarrow> hashToken code \<notin> k_hash ` set (oauth_codes d) \<and> has_person d (ac_PersonID b) \<and> has_device d (ac_DeviceID b)"
    using schema_okD(11) [OF assms] by (auto simp: codes_ok_def fresh_code_def)
  finally show ?thesis unfolding fresh_code_def createAuthCodeTx_def by (auto simp: rbind_Inr_iff exec_Inr)
qed

section \<open>Refresh tokens\<close>

definition used_refresh :: "string \<Rightarrow> instant \<Rightarrow> database \<Rightarrow> database" where
  "used_refresh token now d = d\<lparr>oauth_refresh := update_where (live_refresh token now)
     (\<lambda>r. r\<lparr>r_consumed := Some (unix_sec now)\<rparr>) (oauth_refresh d)\<rparr>"

definition revoked_family :: "string \<Rightarrow> string \<Rightarrow> instant \<Rightarrow> database \<Rightarrow> database" where
  "revoked_family person client now d = d\<lparr>oauth_refresh := update_where (family_live person client)
     (\<lambda>r. r\<lparr>r_consumed := Some (unix_sec now)\<rparr>) (oauth_refresh d)\<rparr>"

definition grant_of :: "refresh_row \<Rightarrow> refresh_grant" where
  "grant_of r = \<lparr>rg_ClientID = r_client r, rg_PersonID = r_person r, rg_DeviceID = r_device r,
     rg_ClientType = r_client_type r, rg_Resource = r_resource r\<rparr>"

definition consumed_refresh :: "string \<Rightarrow> refresh_row \<Rightarrow> bool" where
  "consumed_refresh token r \<longleftrightarrow> r_hash r = hashToken token \<and> r_consumed r \<noteq> None"

lemma schema_consume_refresh:
  assumes ok: "schema_ok d"
  shows "schema_ok (d\<lparr>oauth_refresh := update_where P (\<lambda>r. r\<lparr>r_consumed := c\<rparr>) (oauth_refresh d)\<rparr>)" (is "schema_ok ?d")
proof -
  have "refresh_ok ?d"
    using schema_okD(12) [OF ok] by (auto simp: refresh_ok_def map_update_where_key intro: list_all_update_where)
  then show ?thesis by (intro schema_ok_step [OF ok]) (simp_all add: keys_grow_def)
qed

lemma schema_refresh_updates: "schema_ok d \<Longrightarrow> schema_ok (used_refresh token now d)"
    "schema_ok d \<Longrightarrow> schema_ok (revoked_family person client now d)"
  by (simp_all add: used_refresh_def revoked_family_def schema_consume_refresh)

lemma refresh_unique:
  "schema_ok d \<Longrightarrow> r \<in> set (oauth_refresh d) \<Longrightarrow> r' \<in> set (oauth_refresh d) \<Longrightarrow> r_hash r = r_hash r' \<Longrightarrow> r = r'"
  using schema_okD(12) [of d] distinct_key_unique [of r_hash "oauth_refresh d" r r'] by (simp add: refresh_ok_def)

lemma used_refresh_idle:
  "(\<And>r. r \<in> set (oauth_refresh d) \<Longrightarrow> \<not> live_refresh token now r) \<Longrightarrow> used_refresh token now d = d"
  by (simp add: used_refresh_def update_where_idle)

lemma one_affected:
  assumes "distinct (map key rows)" "r \<in> set rows" "P r" "\<And>x. P x \<Longrightarrow> key x = key r"
  shows "rows_affected P rows = 1"
  using assms(1,2)
proof (induction rows)
  case (Cons a rows)
  show ?case
  proof (cases "P a")
    case True
    then have "\<not> P x" if "x \<in> set rows" for x using assms(4) that Cons.prems(1) by (metis distinct.simps(2) image_eqI list.map(2) list.set_map)
    then have "rows_affected P rows = 0" by (simp add: rows_affected_0)
    with True show ?thesis by (simp add: sql_simps)
  next
    case False
    with Cons assms(3) show ?thesis by (auto simp: sql_simps)
  qed
qed simp

text \<open>The three outcomes of presenting a refresh token.\<close>

lemma consumeRefreshTx_live:
  assumes ok: "schema_ok d" and r: "r \<in> set (oauth_refresh d)" "live_refresh token now r"
  shows "consumeRefreshTx token now d = Inr (Rotated (grant_of r), used_refresh token now d)"
proof -
  have k: "select_first (\<lambda>x. r_hash x = r_hash r) (oauth_refresh d) = Some r"
    using schema_okD(12) [OF ok] r(1) by (intro select_first_key) (simp_all add: refresh_ok_def)
  have h: "r_hash r = hashToken token" using r(2) by (simp add: live_refresh_def)
  have sel: "select_first (\<lambda>x. r_hash x = hashToken token) (oauth_refresh (used_refresh token now d)) =
      Some (r\<lparr>r_consumed := Some (unix_sec now)\<rparr>)"
    using select_first_update_where [of "live_refresh token now" "\<lambda>x. r_hash x = hashToken token"
      "\<lambda>r. r\<lparr>r_consumed := Some (unix_sec now)\<rparr>" "oauth_refresh d"] k h r(2) by (simp add: used_refresh_def)
  have "rows_affected (live_refresh token now) (oauth_refresh d) = 1"
    using schema_okD(12) [OF ok] r h by (intro one_affected [of r_hash _ r]) (auto simp: refresh_ok_def live_refresh_def)
  then show ?thesis
    using sel schema_refresh_updates(1) [OF ok, of token now]
    by (simp add: consumeRefreshTx_def used_refresh_def [symmetric] grant_of_def)
qed

lemma consumeRefreshTx_dead:
  assumes ok: "schema_ok d" and dead: "\<And>r. r \<in> set (oauth_refresh d) \<Longrightarrow> \<not> live_refresh token now r"
  shows "consumeRefreshTx token now d =
    (case select_first (consumed_refresh token) (oauth_refresh d) of
       None \<Rightarrow> Inr (Refused ErrRefreshInvalid, d)
     | Some r \<Rightarrow> Inr (Refused ErrRefreshReused, revoked_family (r_person r) (r_client r) now d))"
proof -
  have "rows_affected (live_refresh token now) (oauth_refresh d) = 0" using dead by (simp add: rows_affected_0)
  then show ?thesis
    using ok used_refresh_idle [OF dead] schema_refresh_updates(2) [OF ok]
    unfolding consumeRefreshTx_def used_refresh_def [symmetric] revoked_family_def [symmetric]
    by (simp add: consumed_refresh_def [abs_def] split: option.splits)
qed

lemma consumeRefreshTx_inv:
  assumes i: "relay_inv d" and r: "consumeRefreshTx token now d = Inr (x, d')"
  shows "relay_inv d'"
proof (cases "\<exists>r \<in> set (oauth_refresh d). live_refresh token now r")
  case True
  then show ?thesis
    using r consumeRefreshTx_live [OF relay_inv_schema [OF i]] schema_refresh_updates(1) [OF relay_inv_schema [OF i]]
    unfolding used_refresh_def by (auto intro!: oauth_inv1(3) [OF i])
next
  case False
  then show ?thesis
    using r i consumeRefreshTx_dead [OF relay_inv_schema [OF i]] schema_refresh_updates(2) [OF relay_inv_schema [OF i]]
    unfolding revoked_family_def by (auto intro!: oauth_inv1(3) [OF i] split: option.splits)
qed

interpretation consume_refresh_tx: tx_keeps "consumeRefreshTx token now" relay_inv for token now
  by unfold_locales (rule consumeRefreshTx_inv)

text \<open>The members of a family: the tokens of one person at one client.\<close>

definition family :: "string \<Rightarrow> string \<Rightarrow> database \<Rightarrow> refresh_row list" where
  "family person client d = filter (\<lambda>r. r_person r = person \<and> r_client r = client) (oauth_refresh d)"

lemma revoked_family_dead:
  "list_all (\<lambda>r. r_consumed r \<noteq> None) (family person client (revoked_family person client now d))"
  by (auto simp: family_def revoked_family_def list_all_iff family_live_def elim!: in_update_whereE split: if_splits)

lemma revoked_family_others:
  "person' \<noteq> person \<or> client' \<noteq> client \<Longrightarrow> family person' client' (revoked_family person client now d) = family person' client' d"
proof -
  assume ne: "person' \<noteq> person \<or> client' \<noteq> client"
  have "filter (\<lambda>r. r_person r = person' \<and> r_client r = client')
      (update_where (family_live person client) (\<lambda>r. r\<lparr>r_consumed := Some (unix_sec now)\<rparr>) rs) =
    filter (\<lambda>r. r_person r = person' \<and> r_client r = client') rs" for rs :: "refresh_row list"
    using ne by (induction rs) (auto simp: sql_simps family_live_def)
  then show ?thesis by (simp add: family_def revoked_family_def)
qed

section \<open>Sweeping\<close>

lemma schema_delete_oauth:
  assumes ok: "schema_ok d"
  shows "schema_ok (d\<lparr>oauth_codes := delete_where P (oauth_codes d)\<rparr>)"
    and "schema_ok (d\<lparr>oauth_refresh := delete_where Q (oauth_refresh d)\<rparr>)"
    and "schema_ok (d\<lparr>oauth_clients := delete_where R (oauth_clients d)\<rparr>)"
proof -
  have "codes_ok (d\<lparr>oauth_codes := delete_where P (oauth_codes d)\<rparr>)"
    using schema_okD(11) [OF ok] by (auto simp: codes_ok_def distinct_delete_where intro: list_all_delete_where)
  then show "schema_ok (d\<lparr>oauth_codes := delete_where P (oauth_codes d)\<rparr>)"
    by (intro schema_ok_step [OF ok]) (simp_all add: keys_grow_def)
  have "refresh_ok (d\<lparr>oauth_refresh := delete_where Q (oauth_refresh d)\<rparr>)"
    using schema_okD(12) [OF ok] by (auto simp: refresh_ok_def distinct_delete_where intro: list_all_delete_where)
  then show "schema_ok (d\<lparr>oauth_refresh := delete_where Q (oauth_refresh d)\<rparr>)"
    by (intro schema_ok_step [OF ok]) (simp_all add: keys_grow_def)
  have "clients_ok (d\<lparr>oauth_clients := delete_where R (oauth_clients d)\<rparr>)"
    using schema_okD(10) [OF ok] by (auto simp: clients_ok_def distinct_delete_where)
  then show "schema_ok (d\<lparr>oauth_clients := delete_where R (oauth_clients d)\<rparr>)"
    by (intro schema_ok_step [OF ok]) (simp_all add: keys_grow_def)
qed

definition abandoned :: "instant \<Rightarrow> database \<Rightarrow> client_row \<Rightarrow> bool" where
  "abandoned now d c \<longleftrightarrow> c_created c \<le> unix_sec (now - oauthClientTTL) \<and>
     \<not> (\<exists>r \<in> set (oauth_refresh d). r_client r = c_id c \<and> unix_sec now < r_expires r)"

definition swept_oauth :: "instant \<Rightarrow> database \<Rightarrow> database" where
  "swept_oauth now d = d\<lparr>oauth_codes := filter (\<lambda>r. unix_sec now < k_expires r) (oauth_codes d),
     oauth_refresh := filter (\<lambda>r. unix_sec now < r_expires r) (oauth_refresh d),
     oauth_clients := filter (\<lambda>c. \<not> abandoned now d c) (oauth_clients d)\<rparr>"

lemma schema_swept_oauth:
  assumes "schema_ok d"
  shows "schema_ok (swept_oauth now d)"
proof -
  let ?P = "\<lambda>r. k_expires r \<le> unix_sec now" and ?Q = "\<lambda>r. r_expires r \<le> unix_sec now"
  have "schema_ok (d\<lparr>oauth_codes := delete_where ?P (oauth_codes d)\<rparr>
      \<lparr>oauth_refresh := delete_where ?Q (oauth_refresh d)\<rparr>\<lparr>oauth_clients := delete_where (abandoned now d) (oauth_clients d)\<rparr>)"
    using schema_delete_oauth(3) [OF schema_delete_oauth(2) [OF schema_delete_oauth(1) [OF assms, of ?P], of ?Q], of "abandoned now d"] by simp
  then show ?thesis by (simp add: swept_oauth_def delete_where_def not_le)
qed

lemma sweepOAuthTx_eq:
  assumes ok: "schema_ok d"
  shows "\<exists>n. sweepOAuthTx now d = Inr (n, swept_oauth now d)"
proof -
  let ?d1 = "d\<lparr>oauth_codes := delete_where (\<lambda>r. k_expires r \<le> unix_sec now) (oauth_codes d)\<rparr>"
  let ?d2 = "?d1\<lparr>oauth_refresh := delete_where (\<lambda>r. r_expires r \<le> unix_sec now) (oauth_refresh ?d1)\<rparr>"
  define ab where "ab = (\<lambda>c :: client_row. c_created c \<le> unix_sec (now - oauthClientTTL) \<and> \<not> list_ex (\<lambda>r. r_client r = c_id c) (oauth_refresh ?d2))"
  have ok1: "schema_ok ?d1" using ok by (rule schema_delete_oauth)
  have ok2: "schema_ok ?d2" using ok1 by (rule schema_delete_oauth)
  have ok3: "schema_ok (?d2\<lparr>oauth_clients := delete_where ab (oauth_clients ?d2)\<rparr>)" using ok2 by (rule schema_delete_oauth)
  have "ab c = abandoned now d c" for c
    by (auto simp: ab_def abandoned_def list_ex_iff not_le)
  then have "ab = abandoned now d" by blast
  moreover have "\<exists>n. sweepOAuthTx now d = Inr (n, ?d2\<lparr>oauth_clients := delete_where ab (oauth_clients ?d2)\<rparr>)"
    unfolding sweepOAuthTx_def Let_def exec_ok [OF ok1] exec_ok [OF ok2] rbind_simps ab_def [symmetric] exec_ok [OF ok3]
    by blast
  ultimately show ?thesis by (simp add: swept_oauth_def delete_where_def not_le)
qed

interpretation sweep_oauth_tx: tx_keeps "sweepOAuthTx now" relay_inv for now
proof unfold_locales
  fix d x d'
  assume i: "relay_inv d" and r: "sweepOAuthTx now d = Inr (x, d')"
  then have d': "d' = swept_oauth now d" using sweepOAuthTx_eq [OF relay_inv_schema [OF i], of now] by auto
  have "schema_ok (swept_oauth now d)" by (rule schema_swept_oauth [OF relay_inv_schema [OF i]])
  then show "relay_inv d'" unfolding d' by (intro relay_inv_other [OF i]) (simp_all add: swept_oauth_def)
qed

section \<open>Properties\<close>

lemma ConsumeAuthCode_eq:
  assumes "healthy s" "schema_ok (st_db s)"
  shows "ConsumeAuthCode code now s = (if list_ex (live_code code now) (oauth_codes (st_db s))
    then (Inr (), s\<lparr>st_db := used_code code now (st_db s)\<rparr>) else (Inl ErrCodeInvalid, s))"
  using assms by (simp add: ConsumeAuthCode_def writeTx_healthy consumeAuthCodeTx_eq)

lemma AuthCodeByCode_None:
  "(\<And>r. r \<in> set (oauth_codes d) \<Longrightarrow> \<not> live_code code t r) \<Longrightarrow> AuthCodeByCode code t d = Inl ErrCodeInvalid"
  using select_first_None [of "live_code code t" "oauth_codes d"] by (simp add: AuthCodeByCode_def)

lemma AuthCodeByCode_other:
  "hashToken c \<noteq> hashToken code \<Longrightarrow> AuthCodeByCode c t (used_code code now d) = AuthCodeByCode c t d"
proof -
  assume ne: "hashToken c \<noteq> hashToken code"
  have "select_first (live_code c t) (update_where (live_code code now) (\<lambda>r. r\<lparr>k_consumed := Some (unix_sec now)\<rparr>) rs) =
      select_first (live_code c t) rs" for rs :: "code_row list"
    using ne by (induction rs) (auto simp: sql_simps live_code_def)
  then show ?thesis by (simp add: AuthCodeByCode_def used_code_def)
qed

text \<open>
  The life of an authorization code. A code that was created reads back with its binding and
  can be consumed until it expires, and not afterwards; once consumed it neither reads nor is
  consumed again, at any time, and codes with other hashes are not affected.
\<close>

theorem auth_code_life:
  assumes "healthy s" "relay_inv (st_db s)" "CreateAuthCode code b expiresAt now s = (Inr (), s1)"
  shows "(if unix_sec t < unix_sec expiresAt
     then AuthCodeByCode code t (st_db s1) = Inr b \<and>
       (\<exists>s2. ConsumeAuthCode code t s1 = (Inr (), s2) \<and>
          AuthCodeByCode code t' (st_db s2) = Inl ErrCodeInvalid \<and>
          ConsumeAuthCode code t' s2 = (Inl ErrCodeInvalid, s2) \<and>
          (hashToken c \<noteq> hashToken code \<longrightarrow> AuthCodeByCode c t' (st_db s2) = AuthCodeByCode c t' (st_db s)))
     else AuthCodeByCode code t (st_db s1) = Inl ErrCodeInvalid \<and> ConsumeAuthCode code t s1 = (Inl ErrCodeInvalid, s1))"
proof -
  let ?r = "fresh_code code b expiresAt now"
  have new: "hashToken code \<notin> k_hash ` set (oauth_codes (st_db s))"
    and s1: "s1 = s\<lparr>st_db := (st_db s)\<lparr>oauth_codes := oauth_codes (st_db s) @ [?r]\<rparr>\<rparr>"
    using assms by (auto simp: CreateAuthCode_def writeTx_Inr createAuthCodeTx_iff [OF relay_inv_schema [OF assms(2)]])
  have h1: "healthy s1" using assms(1) s1 by (simp add: healthy_def)
  have ok1: "schema_ok (st_db s1)"
    using create_code_tx.op_keeps [OF assms(2)] assms(3) relay_inv_schema unfolding CreateAuthCode_def by blast
  have old: "\<not> live_code code x r" if "r \<in> set (oauth_codes (st_db s))" for r x
    using new that by (auto simp: live_code_def image_iff)
  have live: "list_ex (live_code code t) (oauth_codes (st_db s1)) \<longleftrightarrow> unix_sec t < unix_sec expiresAt"
  proof -
    have "\<not> list_ex (live_code code t) (oauth_codes (st_db s))" using old by (simp add: list_ex_iff)
    then show ?thesis by (simp add: s1) (simp add: live_code_def fresh_code_def)
  qed
  have none: "select_first (live_code code t) (oauth_codes (st_db s)) = None" using old by (auto simp: select_first_None)
  show ?thesis
  proof (cases "unix_sec t < unix_sec expiresAt")
    case True
    let ?d2 = "used_code code t (st_db s1)"
    let ?s2 = "s1\<lparr>st_db := ?d2\<rparr>"
    have dead: "\<not> live_code code t' r" if "r \<in> set (oauth_codes ?d2)" for r
      using used_code_dead [OF ok1 _ that] live True by blast
    have "ConsumeAuthCode code t s1 = (Inr (), ?s2)" using ConsumeAuthCode_eq [OF h1 ok1] live True by simp
    moreover have "AuthCodeByCode code t (st_db s1) = Inr b"
      using none True by (simp add: AuthCodeByCode_def s1 select_first_append sql_simps live_code_def fresh_code_def)
    moreover have "AuthCodeByCode code t' ?d2 = Inl ErrCodeInvalid" using dead by (rule AuthCodeByCode_None)
    moreover have "ConsumeAuthCode code t' ?s2 = (Inl ErrCodeInvalid, ?s2)"
      using ConsumeAuthCode_eq [of ?s2] h1 schema_used_code [OF ok1] dead by (simp add: healthy_def list_ex_iff)
    moreover have "hashToken c \<noteq> hashToken code \<Longrightarrow> AuthCodeByCode c t' ?d2 = AuthCodeByCode c t' (st_db s)"
      using AuthCodeByCode_other [of c code t' t "st_db s1"]
      by (simp add: s1 AuthCodeByCode_def select_first_append sql_simps live_code_def fresh_code_def split: option.splits)
    ultimately show ?thesis using True by auto
  next
    case False
    then have "\<not> live_code code t r" if "r \<in> set (oauth_codes (st_db s1))" for r using live that by (auto simp: list_ex_iff)
    then show ?thesis using False live ConsumeAuthCode_eq [OF h1 ok1] AuthCodeByCode_None by simp
  qed
qed

definition sample_code :: auth_code where
  "sample_code = \<lparr>ac_ClientID = ''c1'', ac_RedirectURI = ''http://localhost/cb'', ac_CodeChallenge = ''ch'',
     ac_Resource = ''r'', ac_PersonID = ''bob'', ac_DeviceID = ''db'', ac_ClientType = ''cli''\<rparr>"

theorem auth_code_life_witness:
  "\<exists>s1. CreateAuthCode ''k'' sample_code 5000000000 0 sample_store = (Inr (), s1) \<and>
     AuthCodeByCode ''k'' 4000000000 (st_db s1) = Inr sample_code \<and>
     AuthCodeByCode ''k'' 5000000000 (st_db s1) = Inl ErrCodeInvalid"
proof -
  have "createAuthCodeTx ''k'' sample_code 5000000000 0 sample_db = Inr ((), sample_db\<lparr>oauth_codes := oauth_codes sample_db @ [fresh_code ''k'' sample_code 5000000000 0]\<rparr>)"
    by (subst createAuthCodeTx_iff [OF sample_db_ok]) (simp add: sample_simps has_person_def has_device_def sample_code_def)
  then obtain s1 where r: "CreateAuthCode ''k'' sample_code 5000000000 0 sample_store = (Inr (), s1)"
    by (simp add: CreateAuthCode_def writeTx_healthy)
  show ?thesis
    using r auth_code_life [OF sample_healthy(1) sample_store_inv r, of 4000000000 0 "[]"]
      auth_code_life [OF sample_healthy(1) sample_store_inv r, of 5000000000 0 "[]"]
    by (simp add: unix_sec_def)
qed

lemma ConsumeRefreshToken_live:
  assumes "healthy s" "schema_ok (st_db s)" "r \<in> set (oauth_refresh (st_db s))" "live_refresh token now r"
  shows "ConsumeRefreshToken token now s = (Inr (grant_of r), s\<lparr>st_db := used_refresh token now (st_db s)\<rparr>)"
  using consumeRefreshTx_live [OF assms(2-4)] assms(1) by (simp add: ConsumeRefreshToken_def writeTx_healthy)

lemma ConsumeRefreshToken_dead:
  assumes "healthy s" "schema_ok (st_db s)" "\<And>r. r \<in> set (oauth_refresh (st_db s)) \<Longrightarrow> \<not> live_refresh token now r"
  shows "ConsumeRefreshToken token now s =
    (case select_first (consumed_refresh token) (oauth_refresh (st_db s)) of
       None \<Rightarrow> (Inl ErrRefreshInvalid, s)
     | Some r \<Rightarrow> (Inl ErrRefreshReused, s\<lparr>st_db := revoked_family (r_person r) (r_client r) now (st_db s)\<rparr>))"
  using consumeRefreshTx_dead [OF assms(2,3)] assms(1)
  by (simp add: ConsumeRefreshToken_def writeTx_healthy split: option.splits)

lemma consumed_is_reuse:
  assumes "healthy s" "schema_ok (st_db s)" "x \<in> set (oauth_refresh (st_db s))" "r_hash x = hashToken token" "r_consumed x \<noteq> None"
  shows "ConsumeRefreshToken token now s = (Inl ErrRefreshReused, s\<lparr>st_db := revoked_family (r_person x) (r_client x) now (st_db s)\<rparr>)"
proof -
  have only: "y = x" if "y \<in> set (oauth_refresh (st_db s))" "r_hash y = hashToken token" for y
    using refresh_unique [OF assms(2) that(1) assms(3)] that(2) assms(4) by simp
  obtain y where y: "select_first (consumed_refresh token) (oauth_refresh (st_db s)) = Some y"
    using select_first_exists [OF assms(3), of "consumed_refresh token"] assms(4,5) by (auto simp: consumed_refresh_def)
  then have "y = x" using select_first_Some [OF y] by (intro only) (simp_all add: consumed_refresh_def)
  moreover have "\<not> live_refresh token now y" if "y \<in> set (oauth_refresh (st_db s))" for y
    using only [OF that] assms(5) by (auto simp: live_refresh_def)
  ultimately show ?thesis using ConsumeRefreshToken_dead [OF assms(1,2), of token now] y by simp
qed

text \<open>Consuming a token touches only its own family.\<close>

lemma used_refresh_others:
  assumes "schema_ok d" "r \<in> set (oauth_refresh d)" "r_hash r = hashToken token" "(person, client) \<noteq> (r_person r, r_client r)"
  shows "family person client (used_refresh token now d) = family person client d"
proof -
  have "filter (\<lambda>x. r_person x = person \<and> r_client x = client)
      (update_where (live_refresh token now) (\<lambda>r. r\<lparr>r_consumed := Some (unix_sec now)\<rparr>) rs) =
    filter (\<lambda>x. r_person x = person \<and> r_client x = client) rs" if "set rs \<subseteq> set (oauth_refresh d)" for rs
    using that refresh_unique [OF assms(1) _ assms(2)] assms(3,4) by (induction rs) (auto simp: sql_simps live_refresh_def)
  then show ?thesis by (simp add: family_def used_refresh_def)
qed

text \<open>
  C39: refresh tokens rotate. A token is accepted exactly while it is unconsumed and unexpired,
  yields the grant it was issued for, and is consumed by that. Presenting it again, at any time,
  is reported as reuse and consumes every token of that person at that client, so that no token
  of the family is accepted any more; other families are left alone.
\<close>

theorem refresh_rotation:
  assumes "healthy s" "relay_inv (st_db s)" "ConsumeRefreshToken token now s = (Inr g, s1)"
  shows "\<exists>r \<in> set (oauth_refresh (st_db s)). r_hash r = hashToken token \<and> r_consumed r = None \<and> unix_sec now < r_expires r \<and>
     g = grant_of r \<and> s1 = s\<lparr>st_db := used_refresh token now (st_db s)\<rparr> \<and>
     (\<exists>s2. ConsumeRefreshToken token later s1 = (Inl ErrRefreshReused, s2) \<and>
       list_all (\<lambda>x. r_consumed x \<noteq> None) (family (rg_PersonID g) (rg_ClientID g) (st_db s2)) \<and>
       (\<forall>person client. (person, client) \<noteq> (rg_PersonID g, rg_ClientID g) \<longrightarrow>
          family person client (st_db s2) = family person client (st_db s)) \<and>
       (\<forall>x \<in> set (family (rg_PersonID g) (rg_ClientID g) (st_db s2)). r_hash x = hashToken token' \<longrightarrow>
          fst (ConsumeRefreshToken token' t s2) = Inl ErrRefreshReused))"
proof -
  let ?d = "st_db s"
  note ok = relay_inv_schema [OF assms(2)]
  have "\<exists>r \<in> set (oauth_refresh ?d). live_refresh token now r"
  proof (rule ccontr)
    assume "\<not> (\<exists>r \<in> set (oauth_refresh ?d). live_refresh token now r)"
    then show False
      using ConsumeRefreshToken_dead [OF assms(1) ok, of token now] assms(3) by (auto split: option.splits)
  qed
  then obtain r where r: "r \<in> set (oauth_refresh ?d)" "live_refresh token now r" by blast
  have g: "g = grant_of r" and s1: "s1 = s\<lparr>st_db := used_refresh token now ?d\<rparr>"
    using ConsumeRefreshToken_live [OF assms(1) ok r] assms(3) by auto
  let ?d1 = "used_refresh token now ?d" and ?r1 = "r\<lparr>r_consumed := Some (unix_sec now)\<rparr>"
  have h1: "healthy s1" and ok1: "schema_ok (st_db s1)"
    using assms(1) schema_refresh_updates(1) [OF ok] by (simp_all add: s1 healthy_def)
  have hash: "r_hash r = hashToken token" using r(2) by (simp add: live_refresh_def)
  have r1: "?r1 \<in> set (oauth_refresh (st_db s1))"
    using in_update_whereI [OF r(1), of "live_refresh token now" "\<lambda>r. r\<lparr>r_consumed := Some (unix_sec now)\<rparr>"] r(2)
    by (simp add: used_refresh_def s1)
  let ?d2 = "revoked_family (r_person r) (r_client r) later ?d1"
  let ?s2 = "s1\<lparr>st_db := ?d2\<rparr>"
  have reuse: "ConsumeRefreshToken token later s1 = (Inl ErrRefreshReused, ?s2)"
    using consumed_is_reuse [OF h1 ok1 r1] hash by (simp add: s1)
  have dead: "list_all (\<lambda>x. r_consumed x \<noteq> None) (family (r_person r) (r_client r) ?d2)" by (rule revoked_family_dead)
  have others: "family person client ?d2 = family person client ?d" if "(person, client) \<noteq> (r_person r, r_client r)" for person client
    using revoked_family_others [of person "r_person r" client "r_client r" later ?d1] used_refresh_others [OF ok r(1) hash that] that by auto
  have h2: "healthy ?s2" and ok2: "schema_ok (st_db ?s2)"
    using h1 schema_refresh_updates(2) [OF ok1] by (simp_all add: healthy_def s1)
  have final: "fst (ConsumeRefreshToken token' t ?s2) = Inl ErrRefreshReused"
    if x: "x \<in> set (family (r_person r) (r_client r) ?d2)" "r_hash x = hashToken token'" for x
    using consumed_is_reuse [OF h2 ok2 _ x(2)] dead x(1) by (auto simp: list_all_iff family_def)
  show ?thesis
    using r g s1 reuse dead others final
    by (intro bexI [OF _ r(1)] conjI exI [of _ ?s2]) (auto simp: live_refresh_def grant_of_def)
qed

definition sample_refresh :: refresh_row where
  "sample_refresh = \<lparr>r_hash = hashToken ''rt'', r_client = ''c1'', r_person = ''bob'', r_device = ''db'',
     r_client_type = ''cli'', r_resource = ''r'', r_created = 0, r_expires = 9, r_consumed = None\<rparr>"

definition refresh_store :: store where
  "refresh_store = sample_store\<lparr>st_db := sample_db\<lparr>oauth_refresh := [sample_refresh]\<rparr>\<rparr>"

lemma refresh_store_ok: "healthy refresh_store" "relay_inv (st_db refresh_store)"
proof -
  have "refresh_ok (sample_db\<lparr>oauth_refresh := [sample_refresh]\<rparr>)"
    by (simp add: refresh_ok_def sample_refresh_def sample_simps has_person_def has_device_def)
  then have "schema_ok (sample_db\<lparr>oauth_refresh := [sample_refresh]\<rparr>)"
    by (intro schema_ok_step [OF sample_db_ok]) (simp_all add: keys_grow_def)
  then show "healthy refresh_store" "relay_inv (st_db refresh_store)"
    using oauth_inv1(3) [OF sample_db_inv] by (simp_all add: refresh_store_def healthy_def sample_store_def)
qed

lemma sample_rotates: "\<exists>s1. ConsumeRefreshToken ''rt'' 5 refresh_store = (Inr (grant_of sample_refresh), s1)"
proof -
  have "sample_refresh \<in> set (oauth_refresh (st_db refresh_store))" "live_refresh ''rt'' 5 sample_refresh"
    by (simp_all add: refresh_store_def sample_refresh_def live_refresh_def unix_sec_def)
  from ConsumeRefreshToken_live [OF refresh_store_ok(1) relay_inv_schema [OF refresh_store_ok(2)] this] show ?thesis by blast
qed

theorem refresh_rotation_witness:
  "\<exists>g s1 s2. ConsumeRefreshToken ''rt'' 5 refresh_store = (Inr g, s1) \<and> ConsumeRefreshToken ''rt'' 6 s1 = (Inl ErrRefreshReused, s2)"
proof -
  obtain s1 where r: "ConsumeRefreshToken ''rt'' 5 refresh_store = (Inr (grant_of sample_refresh), s1)" using sample_rotates by blast
  from refresh_rotation [OF refresh_store_ok r, of 6 "[]" 0] r show ?thesis by blast
qed

lemma SweepOAuth_eq:
  assumes "healthy s" "schema_ok (st_db s)"
  shows "\<exists>n. SweepOAuth now s = (Inr n, s\<lparr>st_db := swept_oauth now (st_db s)\<rparr>)"
  using sweepOAuthTx_eq [OF assms(2), of now] assms(1) by (auto simp: SweepOAuth_def writeTx_healthy)

lemma select_first_filter:
  "(\<And>r. r \<in> set rows \<Longrightarrow> P r \<Longrightarrow> Q r) \<Longrightarrow> select_first P (filter Q rows) = select_first P rows"
  by (induction rows) (auto simp: sql_simps)

text \<open>
  The sweep is safe. It removes exactly the expired codes and refresh tokens and the clients
  older than thirty days without an unexpired token; to every later request all codes read the
  same, every live refresh token still works, and its client is still registered.
\<close>

theorem SweepOAuth_safe:
  assumes "healthy s" "relay_inv (st_db s)" "now \<le> t"
  shows "\<exists>n s'. SweepOAuth now s = (Inr n, s') \<and>
    set (oauth_codes (st_db s')) = {r \<in> set (oauth_codes (st_db s)). unix_sec now < k_expires r} \<and>
    set (oauth_refresh (st_db s')) = {r \<in> set (oauth_refresh (st_db s)). unix_sec now < r_expires r} \<and>
    set (oauth_clients (st_db s')) = {c \<in> set (oauth_clients (st_db s)). \<not> abandoned now (st_db s) c} \<and>
    AuthCodeByCode code t (st_db s') = AuthCodeByCode code t (st_db s) \<and>
    (\<forall>r \<in> set (oauth_refresh (st_db s)). live_refresh token t r \<longrightarrow>
       fst (ConsumeRefreshToken token t s') = fst (ConsumeRefreshToken token t s) \<and>
       ClientByID (r_client r) (st_db s') = ClientByID (r_client r) (st_db s))"
proof -
  let ?d = "st_db s" and ?d' = "swept_oauth now (st_db s)"
  let ?s' = "s\<lparr>st_db := ?d'\<rparr>"
  note ok = relay_inv_schema [OF assms(2)]
  have ok': "schema_ok (st_db ?s')" and h': "healthy ?s'"
    using schema_swept_oauth [OF ok] assms(1) by (simp_all add: healthy_def)
  have later: "unix_sec now \<le> unix_sec t" using assms(3) by (rule unix_sec_mono)
  have codes: "AuthCodeByCode code t ?d' = AuthCodeByCode code t ?d"
    using select_first_filter [of "oauth_codes ?d" "live_code code t" "\<lambda>r. unix_sec now < k_expires r"] later
    by (simp add: AuthCodeByCode_def swept_oauth_def live_code_def [abs_def])
  have refresh: "fst (ConsumeRefreshToken token t ?s') = fst (ConsumeRefreshToken token t s)"
    if r: "r \<in> set (oauth_refresh ?d)" "live_refresh token t r" for r
  proof -
    have "r \<in> set (oauth_refresh (st_db ?s'))" using r later by (simp add: swept_oauth_def live_refresh_def)
    then show ?thesis
      using ConsumeRefreshToken_live [OF h' ok' _ r(2)] ConsumeRefreshToken_live [OF assms(1) ok r] by simp
  qed
  have client: "ClientByID (r_client r) ?d' = ClientByID (r_client r) ?d"
    if "r \<in> set (oauth_refresh ?d)" "live_refresh token t r" for r
  proof -
    have "unix_sec now < r_expires r" using that(2) later by (simp add: live_refresh_def)
    then have "select_first (\<lambda>c. c_id c = r_client r) (filter (\<lambda>c. \<not> abandoned now ?d c) (oauth_clients ?d)) =
        select_first (\<lambda>c. c_id c = r_client r) (oauth_clients ?d)"
      using that(1) by (intro select_first_filter) (auto simp: abandoned_def)
    then show ?thesis by (simp add: ClientByID_def swept_oauth_def)
  qed
  obtain n where "SweepOAuth now s = (Inr n, ?s')" using SweepOAuth_eq [OF assms(1) ok, of now] by blast
  then show ?thesis using codes refresh client by (intro exI [of _ n] exI [of _ ?s']) (auto simp: swept_oauth_def)
qed

theorem SweepOAuth_safe_witness:
  "\<exists>n s'. SweepOAuth 5 refresh_store = (Inr n, s') \<and> oauth_refresh (st_db s') \<noteq> [] \<and> AuthCodeByCode ''k'' 6 (st_db s') = Inl ErrCodeInvalid"
proof -
  have "AuthCodeByCode ''k'' 6 (st_db refresh_store) = Inl ErrCodeInvalid"
    by (rule AuthCodeByCode_None) (simp add: refresh_store_def sample_simps)
  moreover have "{r \<in> set (oauth_refresh (st_db refresh_store)). unix_sec 5 < r_expires r} = {sample_refresh}"
    by (auto simp: refresh_store_def sample_refresh_def unix_sec_def)
  ultimately show ?thesis
    using SweepOAuth_safe [OF refresh_store_ok, of 5 6 "''k''" "[]"] by fastforce
qed

section \<open>Clients\<close>

lemma json_strings_ok: "json_ok (JArr (map jstr xs))"
proof -
  have "wf_elems (map jstr xs) \<and> edepth (map jstr xs) = 0 \<and> scalar_elems (map jstr xs)"
    by (induction xs) simp_all
  then show ?thesis using scalar_print(1) [of "JArr (map jstr xs)"] by (simp add: json_ok_def maxNestingDepth_def)
qed

lemma unmarshal_marshal: "unmarshal_strings (marshal_strings xs) = Some (map to_valid xs)"
proof -
  have "traverse (\<lambda>v. dec_string v []) (map jstr xs) = Some (map to_valid xs)" by (induction xs) simp_all
  then show ?thesis unfolding unmarshal_strings_def marshal_strings_def parse_document_print [OF json_strings_ok] by simp
qed

text \<open>
  A registered client reads back under its id with the redirect URIs it registered (as valid
  UTF-8), whatever characters they contain, and registration disturbs no other client.
\<close>

theorem RegisterClient_roundtrip:
  assumes "relay_inv (st_db s)" "RegisterClient new_id uris name now s = (Inr i, s')"
  shows "i = new_id \<and> relay_inv (st_db s') \<and>
    ClientByID new_id (st_db s') = Inr \<lparr>cl_ID = new_id, cl_RedirectURIs = map to_valid uris, cl_Name = name,
      cl_CreatedAt = from_unix (unix_sec now)\<rparr> \<and>
    (\<forall>j. j \<noteq> new_id \<longrightarrow> ClientByID j (st_db s') = ClientByID j (st_db s))"
proof -
  let ?r = "\<lparr>c_id = new_id, c_uris = marshal_strings uris, c_name = name, c_created = unix_sec now\<rparr>"
  have run: "writeTx (registerClientTx new_id uris name now) s = (Inr (), s')" "i = new_id"
    using assms(2) by (auto simp: RegisterClient_def split: prod.splits sum.splits)
  then have s': "st_db s' = (st_db s)\<lparr>oauth_clients := oauth_clients (st_db s) @ [?r]\<rparr>" "schema_ok (st_db s')"
    by (auto simp: writeTx_Inr registerClientTx_def rbind_Inr_iff exec_Inr)
  then have "select_first (\<lambda>r. c_id r = new_id) (oauth_clients (st_db s)) = None"
    using schema_okD(10) [OF s'(2)] by (auto simp: clients_ok_def select_first_None)
  then show ?thesis
    using run register_client_tx.op_keeps [OF assms(1) run(1)]
    by (simp add: ClientByID_def s'(1) select_first_append sql_simps unmarshal_marshal split: option.splits)
qed

theorem RegisterClient_roundtrip_witness:
  "\<exists>s'. RegisterClient ''c1'' [''http://localhost/cb''] ''n'' 0 sample_store = (Inr ''c1'', s') \<and>
     ClientByID ''c1'' (st_db s') = Inr \<lparr>cl_ID = ''c1'', cl_RedirectURIs = [''http://localhost/cb''], cl_Name = ''n'', cl_CreatedAt = 0\<rparr>"
proof -
  have "schema_ok (sample_db\<lparr>oauth_clients := oauth_clients sample_db @
      [\<lparr>c_id = ''c1'', c_uris = marshal_strings [''http://localhost/cb''], c_name = ''n'', c_created = unix_sec 0\<rparr>]\<rparr>)"
  proof (rule schema_ok_step [OF sample_db_ok])
    show "keys_grow sample_db (sample_db\<lparr>oauth_clients := oauth_clients sample_db @
      [\<lparr>c_id = ''c1'', c_uris = marshal_strings [''http://localhost/cb''], c_name = ''n'', c_created = unix_sec 0\<rparr>]\<rparr>)"
      by (simp add: keys_grow_def)
  qed (simp_all add: clients_ok_def sample_simps)
  then obtain s' where r: "RegisterClient ''c1'' [''http://localhost/cb''] ''n'' 0 sample_store = (Inr ''c1'', s')"
    by (simp add: RegisterClient_def writeTx_healthy registerClientTx_def)
  have "to_valid ''http://localhost/cb'' = ''http://localhost/cb''" by code_simp
  then show ?thesis using r RegisterClient_roundtrip [OF sample_store_inv r] by (simp add: unix_sec_def from_unix_def)
qed

end
