(* ===== verification/History.thy ===== *)
theory History
  imports StoreRead StoreRetention StoreOAuth
begin

text \<open>
  What no operation of the store takes back: replay tombstones inside the freshness window,
  revocations of devices and grants, used invites, and who the parties of a thread are. The
  locale \<open>tx_history\<close> extends \<open>tx_keeps\<close> with this; every transaction of the store is
  an instance.
\<close>

section \<open>What is kept\<close>

definition evolves :: "(tombstone_row \<Rightarrow> bool) \<Rightarrow> database \<Rightarrow> database \<Rightarrow> bool" where
  "evolves dropped d d' \<longleftrightarrow>
     (\<forall>r \<in> set (tombstones d). dropped r \<or> r \<in> set (tombstones d')) \<and>
     (\<forall>r \<in> set (devices d). \<exists>r' \<in> set (devices d'). d_id r' = d_id r \<and> d_person r' = d_person r \<and>
        d_pubkey r' = d_pubkey r \<and> (d_revoked r \<noteq> None \<longrightarrow> d_revoked r' = d_revoked r)) \<and>
     (\<forall>r \<in> set (invites d). \<exists>r' \<in> set (invites d'). i_hash r' = i_hash r \<and> i_email r' = i_email r \<and>
        (i_used r \<noteq> None \<longrightarrow> i_used r' = i_used r)) \<and>
     (\<forall>r \<in> set (grants d). \<exists>r' \<in> set (grants d'). g_id r' = g_id r \<and> g_thread r' = g_thread r \<and> g_person r' = g_person r \<and>
        g_direction r' = g_direction r \<and> g_granted r' = g_granted r \<and> (g_revoked r \<noteq> None \<longrightarrow> g_revoked r' = g_revoked r)) \<and>
     (\<forall>r \<in> set (threads d). \<exists>r' \<in> set (threads d'). t_id r' = t_id r \<and> t_initiator r' = t_initiator r \<and> t_recipient r' = t_recipient r)"

lemma evolves_refl: "evolves dropped d d"
  unfolding evolves_def by blast

lemma evolves_same:
  "tombstones d' = tombstones d \<Longrightarrow> devices d' = devices d \<Longrightarrow> invites d' = invites d \<Longrightarrow> grants d' = grants d \<Longrightarrow>
   threads d' = threads d \<Longrightarrow> evolves dropped d d'"
  unfolding evolves_def by simp blast

lemma evolves_trans:
  assumes a: "evolves dropped d1 d2" and b: "evolves dropped d2 d3"
  shows "evolves dropped d1 d3"
proof -
  note a = a [unfolded evolves_def] and b = b [unfolded evolves_def]
  show ?thesis
    unfolding evolves_def
  proof (intro conjI ballI)
    fix r assume "r \<in> set (tombstones d1)"
    then show "dropped r \<or> r \<in> set (tombstones d3)" using a b by blast
  next
    fix r assume "r \<in> set (devices d1)"
    then obtain r2 where "r2 \<in> set (devices d2)" "d_id r2 = d_id r \<and> d_person r2 = d_person r \<and>
        d_pubkey r2 = d_pubkey r \<and> (d_revoked r \<noteq> None \<longrightarrow> d_revoked r2 = d_revoked r)" using a by blast
    moreover from this b obtain r3 where "r3 \<in> set (devices d3)" "d_id r3 = d_id r2 \<and> d_person r3 = d_person r2 \<and>
        d_pubkey r3 = d_pubkey r2 \<and> (d_revoked r2 \<noteq> None \<longrightarrow> d_revoked r3 = d_revoked r2)" by blast
    ultimately show "\<exists>r' \<in> set (devices d3). d_id r' = d_id r \<and> d_person r' = d_person r \<and>
        d_pubkey r' = d_pubkey r \<and> (d_revoked r \<noteq> None \<longrightarrow> d_revoked r' = d_revoked r)"
      by (intro bexI [of _ r3]) simp_all
  next
    fix r assume "r \<in> set (invites d1)"
    then obtain r2 where "r2 \<in> set (invites d2)" "i_hash r2 = i_hash r \<and> i_email r2 = i_email r \<and>
        (i_used r \<noteq> None \<longrightarrow> i_used r2 = i_used r)" using a by blast
    moreover from this b obtain r3 where "r3 \<in> set (invites d3)" "i_hash r3 = i_hash r2 \<and> i_email r3 = i_email r2 \<and>
        (i_used r2 \<noteq> None \<longrightarrow> i_used r3 = i_used r2)" by blast
    ultimately show "\<exists>r' \<in> set (invites d3). i_hash r' = i_hash r \<and> i_email r' = i_email r \<and>
        (i_used r \<noteq> None \<longrightarrow> i_used r' = i_used r)"
      by (intro bexI [of _ r3]) simp_all
  next
    fix r assume "r \<in> set (grants d1)"
    then obtain r2 where "r2 \<in> set (grants d2)" "g_id r2 = g_id r \<and> g_thread r2 = g_thread r \<and> g_person r2 = g_person r \<and>
        g_direction r2 = g_direction r \<and> g_granted r2 = g_granted r \<and> (g_revoked r \<noteq> None \<longrightarrow> g_revoked r2 = g_revoked r)"
      using a by blast
    moreover from this b obtain r3 where "r3 \<in> set (grants d3)" "g_id r3 = g_id r2 \<and> g_thread r3 = g_thread r2 \<and> g_person r3 = g_person r2 \<and>
        g_direction r3 = g_direction r2 \<and> g_granted r3 = g_granted r2 \<and> (g_revoked r2 \<noteq> None \<longrightarrow> g_revoked r3 = g_revoked r2)" by blast
    ultimately show "\<exists>r' \<in> set (grants d3). g_id r' = g_id r \<and> g_thread r' = g_thread r \<and> g_person r' = g_person r \<and>
        g_direction r' = g_direction r \<and> g_granted r' = g_granted r \<and> (g_revoked r \<noteq> None \<longrightarrow> g_revoked r' = g_revoked r)"
      by (intro bexI [of _ r3]) simp_all
  next
    fix r assume "r \<in> set (threads d1)"
    then obtain r2 where "r2 \<in> set (threads d2)" "t_id r2 = t_id r \<and> t_initiator r2 = t_initiator r \<and> t_recipient r2 = t_recipient r"
      using a by blast
    moreover from this b obtain r3 where "r3 \<in> set (threads d3)" "t_id r3 = t_id r2 \<and> t_initiator r3 = t_initiator r2 \<and> t_recipient r3 = t_recipient r2"
      by blast
    ultimately show "\<exists>r' \<in> set (threads d3). t_id r' = t_id r \<and> t_initiator r' = t_initiator r \<and> t_recipient r' = t_recipient r"
      by (intro bexI [of _ r3]) simp_all
  qed
qed

text \<open>One table changed: rows are added or updated without touching what is kept.\<close>

lemma evolves_threads:
  assumes "\<And>r. r \<in> set (threads d) \<Longrightarrow> \<exists>r' \<in> set (threads d'). t_id r' = t_id r \<and> t_initiator r' = t_initiator r \<and> t_recipient r' = t_recipient r"
    and "set (tombstones d) \<subseteq> set (tombstones d')" "devices d' = devices d" "invites d' = invites d" "grants d' = grants d"
  shows "evolves dropped d d'"
  unfolding evolves_def using assms by simp blast

lemma evolves_with_state: "evolves dropped d (with_state th st now d)"
  by (rule evolves_threads) (auto simp: with_state_def intro!: bexI [OF _ in_update_whereI] split: if_splits)

lemma evolves_ingest:
  assumes "ingestTx e sender now d = Inr d'"
  shows "evolves dropped d d'"
  using assms
proof (rule ingestTx_Inr)
  fix blob new
  assume "d' = d\<lparr>messages := messages d @ [ingested e sender now blob],
      tombstones := tombstones d @ [\<lparr>ts_id = env_ID e, ts_sent = unix_sec (t_ns (env_SentAt e))\<rparr>],
      threads := update_where (\<lambda>r. t_id r = env_Thread e)
        (\<lambda>r. r\<lparr>t_state := StateInputRequired, t_updated := unix_sec now\<rparr>) (threads d @ new),
      deliveries := deliveries d @ map (\<lambda>i. \<lparr>dl_message = env_ID e, dl_device = i, dl_delivered = None, dl_acked = None\<rparr>)
        (active_devices d (env_To e))\<rparr>"
  then show ?thesis
    by (intro evolves_threads) (auto intro!: bexI [OF _ in_update_whereI] split: if_splits)
qed

lemma evolves_mono: "evolves P d d' \<Longrightarrow> (\<And>r. P r \<Longrightarrow> Q r) \<Longrightarrow> evolves Q d d'"
  unfolding evolves_def by blast

lemma evolves_devices:
  assumes "\<And>r. r \<in> set (devices d) \<Longrightarrow> \<exists>r' \<in> set (devices d'). d_id r' = d_id r \<and> d_person r' = d_person r \<and>
        d_pubkey r' = d_pubkey r \<and> (d_revoked r \<noteq> None \<longrightarrow> d_revoked r' = d_revoked r)"
    and "\<And>r. r \<in> set (invites d) \<Longrightarrow> \<exists>r' \<in> set (invites d'). i_hash r' = i_hash r \<and> i_email r' = i_email r \<and>
        (i_used r \<noteq> None \<longrightarrow> i_used r' = i_used r)"
    and "tombstones d' = tombstones d" "grants d' = grants d" "threads d' = threads d"
  shows "evolves dropped d d'"
  unfolding evolves_def using assms by simp blast

lemma evolves_grants:
  assumes "\<And>r. r \<in> set (grants d) \<Longrightarrow> \<exists>r' \<in> set (grants d'). g_id r' = g_id r \<and> g_thread r' = g_thread r \<and> g_person r' = g_person r \<and>
        g_direction r' = g_direction r \<and> g_granted r' = g_granted r \<and> (g_revoked r \<noteq> None \<longrightarrow> g_revoked r' = g_revoked r)"
    and "tombstones d' = tombstones d" "devices d' = devices d" "invites d' = invites d" "threads d' = threads d"
  shows "evolves dropped d d'"
  unfolding evolves_def using assms by simp blast

lemma evolves_revoke_device: "evolves dropped d (with_revoked i now d)"
  by (rule evolves_devices) (auto simp: with_revoked_def intro!: bexI [OF _ in_update_whereI] split: if_splits)

lemma evolves_use_invite: "evolves dropped d (used_invite token now d)"
  by (rule evolves_devices) (auto simp: used_invite_def live_invite_def intro!: bexI [OF _ in_update_whereI] split: if_splits)

lemma evolves_enroll:
  assumes "relay_inv d" "enrollTx person_id device_id token pubkey label now d = Inr (x, d')"
  shows "evolves dropped d d'"
proof -
  obtain p dev where x: "x = (p, dev)" by (cases x)
  obtain ps r where d': "d' = (used_invite token now d)\<lparr>persons := ps, devices := devices d @ [r]\<rparr>"
    using assms(2) unfolding x enrollTx_iff [OF relay_inv_schema [OF assms(1)]] by blast
  have "evolves dropped (used_invite token now d) d'"
    unfolding d' by (rule evolves_devices) (auto simp: used_invite_def)
  then show ?thesis by (rule evolves_trans [OF evolves_use_invite])
qed

lemma evolves_deliver: "deliverInTx payload author now d = Inr (rid, d') \<Longrightarrow> evolves dropped d d'"
  by (auto simp: deliverInTx_Inr intro: evolves_ingest)

lemma evolves_decision: "evolves dropped d (with_decision i st g now d)"
  by (rule evolves_same) (simp_all add: with_decision_def)

lemma evolves_edit: "relay_inv d \<Longrightarrow> applyEdit i payload edit d = Inr (payload', d') \<Longrightarrow> evolves dropped d d'"
  by (auto simp: applyEdit_Inr with_envelope_def intro!: evolves_refl evolves_same split: option.splits)

lemma evolves_release:
  assumes "relay_inv d" "releaseDraftTx p i edit now d = Inr (r, d')"
  shows "evolves dropped d d'"
proof -
  obtain rid rel where r: "r = (rid, rel)" by (cases r)
  then obtain payload0 payload d1 where e: "applyEdit i payload0 edit d = Inr (payload, d1)"
      and v: "deliverInTx payload p now (with_decision i Sent False now d1) = Inr (rid, d')"
    using assms(2) unfolding r releaseDraftTx_Inr [OF assms(1)] by blast
  show ?thesis
    by (rule evolves_trans [OF evolves_edit [OF assms(1) e] evolves_trans [OF evolves_decision evolves_deliver [OF v]]])
qed

lemma evolves_grant_release:
  assumes "relay_inv d" "releaseViaGrantTx i g now d = Inr (r, d')"
  shows "evolves dropped d d'"
proof -
  obtain rid rel where r: "r = (rid, rel)" by (cases r)
  show ?thesis
    using assms(2) unfolding r releaseViaGrantTx_cases [OF assms(1)]
    by (auto intro: evolves_refl evolves_trans [OF evolves_decision] evolves_deliver split: if_splits)
qed

lemma evolves_approve_via_grant:
  assumes "relay_inv d" "approveViaGrantTx th p mid now d = Inr (b, d')"
  shows "evolves dropped d d'"
proof -
  have "evolves dropped d ((with_state th st now d)\<lparr>messages := ms\<rparr>)" for st ms
    by (rule evolves_trans [OF evolves_with_state]) (rule evolves_same, simp_all)
  with assms show ?thesis
    by (auto simp: approveViaGrantTx_eq intro: evolves_refl split: if_splits option.splits sum.splits)
qed

lemma evolves_verdict:
  assumes "relay_inv d" "inboundVerdictTx p mid v now d = Inr (st, d')"
  shows "evolves dropped d d'"
  using assms(2) unfolding inboundVerdictTx_iff [OF assms(1)] by (auto intro: evolves_with_state)

lemma evolves_transition:
  assumes "relay_inv d" "transitionInboundTx th v now d = Inr (u, d')"
  shows "evolves dropped d d'"
  using assms
  by (auto simp: transitionInboundTx_def rbind_Inr_iff applyInboundTx_eq intro: evolves_with_state split: option.splits sum.splits)

lemma evolves_set_grant:
  assumes "setGrantTx gid th p dir now d = Inr d'"
  shows "evolves dropped d d'"
proof -
  have "evolves dropped d (d\<lparr>grants := grants d @ new\<rparr>)" for new by (rule evolves_grants) auto
  with assms show ?thesis
    by (auto simp: setGrantTx_def rbind_Inr_iff exec_Inr intro: evolves_refl split: option.splits)
qed

lemma evolves_revoke_grant:
  assumes "relay_inv d" "revokeGrantTx th p dir now d = Inr d'"
  shows "evolves dropped d d'"
proof -
  have "d' = d\<lparr>grants := update_where (active_grant th p dir) (revoked_at (unix_sec now)) (grants d)\<rparr>"
    using assms by (auto simp: revokeGrantTx_eq split: if_splits)
  then show ?thesis
    by (intro evolves_grants)
      (auto simp: active_grant_def revoked_at_def intro!: bexI [OF _ in_update_whereI] split: if_splits)
qed

section \<open>Every transaction\<close>

locale tx_history = tx_keeps fn relay_inv for fn :: "'a tx" +
  fixes dropped :: "tombstone_row \<Rightarrow> bool"
  assumes history: "relay_inv d \<Longrightarrow> fn d = Inr (x, d') \<Longrightarrow> evolves dropped d d'"
begin

lemma op_history:
  assumes "relay_inv (st_db s)" "writeTx fn s = (r, s')"
  shows "relay_inv (st_db s') \<and> evolves dropped (st_db s) (st_db s')"
proof (cases r)
  case (Inl e)
  then have "s' = s" using assms(2) by (auto dest: writeTx_Inl)
  then show ?thesis using assms(1) evolves_refl by simp
next
  case (Inr x)
  then obtain d' where "fn (st_db s) = Inr (x, d')" "st_db s' = d'" using assms(2) by (auto simp: writeTx_Inr)
  then show ?thesis using keeps [OF assms(1)] history [OF assms(1)] by simp
qed

end

text \<open>The instances: nothing is dropped, except by the pruning of tombstones.\<close>

interpretation ingest_hist: tx_history "unit_tx (ingestTx e sender now)" "\<lambda>_. False" for e sender now
  by unfold_locales (auto intro: ingest_keeps_inv evolves_ingest)

interpretation ack_hist: tx_history "unit_tx (ackTx mid dev now)" "\<lambda>_. False" for mid dev now
  by unfold_locales (auto intro: ack_tx.keeps evolves_same simp: ackTx_def rbind_Inr_iff exec_Inr)

interpretation mark_hist: tx_history "unit_tx (markDeliveredTx mid dev now)" "\<lambda>_. False" for mid dev now
  by unfold_locales (auto intro: mark_tx.keeps evolves_same simp: markDeliveredTx_def rbind_Inr_iff exec_Inr)

interpretation transition_hist: tx_history "transitionInboundTx th v now" "\<lambda>_. False" for th v now
  by unfold_locales (auto intro: transitionInboundTx_inv evolves_transition)

interpretation verdict_hist: tx_history "inboundVerdictTx p mid v now" "\<lambda>_. False" for p mid v now
  by unfold_locales (auto intro: inboundVerdictTx_inv evolves_verdict)

interpretation set_grant_hist: tx_history "unit_tx (setGrantTx gid th p dir now)" "\<lambda>_. False" for gid th p dir now
  by unfold_locales (auto intro: setGrantTx_inv evolves_set_grant)

interpretation revoke_grant_hist: tx_history "unit_tx (revokeGrantTx th p dir now)" "\<lambda>_. False" for th p dir now
  by unfold_locales (auto intro: revokeGrantTx_inv evolves_revoke_grant)

interpretation grant_approval_hist: tx_history "approveViaGrantTx th p mid now" "\<lambda>_. False" for th p mid now
  by unfold_locales (auto intro: approveViaGrantTx_inv evolves_approve_via_grant)

interpretation create_draft_hist: tx_history "unit_tx (createDraftTx th author e blob now)" "\<lambda>_. False" for th author e blob now
  by unfold_locales
    (auto intro: createDraftTx_inv evolves_same simp: createDraftTx_def Let_def exec_Inr split: option.splits if_splits)

interpretation release_hist: tx_history "releaseDraftTx p i edit now" "\<lambda>_. False" for p i edit now
  by unfold_locales (auto intro: releaseDraftTx_inv evolves_release)

interpretation discard_hist: tx_history "unit_tx (discardDraftTx p i now)" "\<lambda>_. False" for p i now
  by unfold_locales (auto intro: discardDraftTx_inv evolves_decision simp: discardDraftTx_Inr)

interpretation grant_release_hist: tx_history "releaseViaGrantTx i g now" "\<lambda>_. False" for i g now
  by unfold_locales (auto intro: releaseViaGrantTx_inv evolves_grant_release)

interpretation create_invite_hist: tx_history "createInviteTx token email ttl now" "\<lambda>_. False" for token email ttl now
proof unfold_locales
  fix d x d'
  assume i: "relay_inv d" and r: "createInviteTx token email ttl now d = Inr (x, d')"
  show "evolves (\<lambda>_. False) d d'"
    using r unfolding createInviteTx_iff [OF relay_inv_schema [OF i]] by (intro evolves_devices) auto
qed

interpretation enroll_hist: tx_history "enrollTx person_id device_id token pubkey label now" "\<lambda>_. False"
  for person_id device_id token pubkey label now
  by unfold_locales (auto intro: enrollTx_inv evolves_enroll)

interpretation revoke_device_hist: tx_history "revokeDeviceTx i now" "\<lambda>_. False" for i now
  by unfold_locales (auto simp: revokeDeviceTx_eq relay_inv_schema with_revoked_inv intro: evolves_revoke_device split: if_splits)

interpretation start_thread_hist: tx_history "unit_tx (startThreadTx i a b now)" "\<lambda>_. False" for i a b now
proof unfold_locales
  fix d x d'
  assume i: "relay_inv d" and r: "unit_tx (startThreadTx i a b now) d = Inr (x, d')"
  show "evolves (\<lambda>_. False) d d'"
    using r by (intro evolves_threads) (auto simp: startThreadTx_def exec_Inr)
qed

interpretation sweep_messages_hist: tx_history "sweepMessagesTx p now" "\<lambda>_. False" for p now
  by unfold_locales (auto simp: sweepMessagesTx_eq relay_inv_schema swept_messages_def intro!: evolves_same)

interpretation sweep_drafts_hist: tx_history "sweepDraftsTx p now" "\<lambda>_. False" for p now
  by unfold_locales (auto simp: sweepDraftsTx_eq relay_inv_schema delete_drafts_inv intro: evolves_same)

interpretation prune_hist: tx_history "pruneTx fresh now" "stale_tombstone fresh now" for fresh now
proof unfold_locales
  fix d x d'
  assume i: "relay_inv d" and r: "pruneTx fresh now d = Inr (x, d')"
  have "d' = d\<lparr>tombstones := delete_where (stale_tombstone fresh now) (tombstones d)\<rparr>"
    using r by (simp add: pruneTx_eq [OF relay_inv_schema [OF i]])
  then show "evolves (stale_tombstone fresh now) d d'" unfolding evolves_def by simp blast
qed

interpretation register_client_hist: tx_history "registerClientTx new_id uris name now" "\<lambda>_. False" for new_id uris name now
  by unfold_locales (auto simp: registerClientTx_def rbind_Inr_iff exec_Inr oauth_inv1 intro: evolves_same)

interpretation create_code_hist: tx_history "createAuthCodeTx code b expiresAt now" "\<lambda>_. False" for code b expiresAt now
  by unfold_locales (auto simp: createAuthCodeTx_def rbind_Inr_iff exec_Inr oauth_inv1 intro: evolves_same)

interpretation consume_code_hist: tx_history "consumeAuthCodeTx code now" "\<lambda>_. False" for code now
  by unfold_locales
    (auto simp: consumeAuthCodeTx_def rbind_Inr_iff exec_Inr oauth_inv1 intro: evolves_same split: if_splits)

interpretation create_refresh_hist: tx_history "createRefreshTx token g expiresAt now" "\<lambda>_. False" for token g expiresAt now
  by unfold_locales (auto simp: createRefreshTx_def rbind_Inr_iff exec_Inr oauth_inv1 intro: evolves_same)

lemma evolves_consume_refresh:
  assumes i: "relay_inv d" and r: "consumeRefreshTx token now d = Inr (x, d')"
  shows "evolves dropped d d'"
  using r by (auto simp: consumeRefreshTx_def rbind_Inr_iff exec_Inr intro: evolves_same split: if_splits option.splits)

interpretation consume_refresh_hist: tx_history "consumeRefreshTx token now" "\<lambda>_. False" for token now
  by unfold_locales (auto intro: consumeRefreshTx_inv evolves_consume_refresh)

interpretation sweep_oauth_hist: tx_history "sweepOAuthTx now" "\<lambda>_. False" for now
proof unfold_locales
  fix d x d'
  assume i: "relay_inv d" and r: "sweepOAuthTx now d = Inr (x, d')"
  have "d' = swept_oauth now d" using sweepOAuthTx_eq [OF relay_inv_schema [OF i], of now] r by auto
  then show "evolves (\<lambda>_. False) d d'" by (intro evolves_same) (simp_all add: swept_oauth_def)
qed

end
