(* ===== verification/StoreMachine.thy ===== *)
theory StoreMachine
  imports History
begin

text \<open>
  The store as a state machine. Its state is the clock and the store; a step runs one exported
  operation of \<open>internal/relay/store\<close> that can write, at a time the clock has reached, or the
  connection breaks or recovers. Every writer holds the mutex for its whole transaction, so the
  interleavings of concurrent callers are the runs of this machine. The ingest path and the
  pruning of tombstones share one freshness policy, as \<open>cmd/askrelay\<close> sets them up.
\<close>

section \<open>Operations\<close>

datatype store_op =
    OpIngest envelope string
  | OpMarkDelivered string string
  | OpAck string string
  | OpApproveInbound string
  | OpDeclineInbound string
  | OpApproveMessage string string
  | OpDeclineMessage string string
  | OpSetGrant string string string direction
  | OpRevokeGrant string string direction
  | OpApproveViaGrant string string string
  | OpCreateDraft string string envelope
  | OpRelease string string "string option"
  | OpDiscard string string
  | OpReleaseViaGrant string string
  | OpCreateInvite string string duration
  | OpEnroll string string string string string
  | OpRevokeDevice string
  | OpStartThread string string string
  | OpSweepMessages retention_policy
  | OpSweepDrafts retention_policy
  | OpPrune
  | OpRegisterClient string "string list" string
  | OpCreateCode string auth_code instant
  | OpConsumeCode string
  | OpCreateRefresh string refresh_grant instant
  | OpConsumeRefresh string
  | OpSweepOAuth

text \<open>The result is kept only as far as success or the error.\<close>

definition outcome :: "(store_error + 'a) \<times> store \<Rightarrow> (store_error + unit) \<times> store" where
  "outcome = map_prod (map_sum id (\<lambda>_. ())) id"

fun run_op :: "(string \<Rightarrow> bool) \<Rightarrow> freshness \<Rightarrow> store_op \<Rightarrow> instant \<Rightarrow> store \<Rightarrow> (store_error + unit) \<times> store" where
  "run_op uuid_ok f (OpIngest e sender) now s = IngestMessage uuid_ok e sender f now s"
| "run_op uuid_ok f (OpMarkDelivered mid dev) now s = MarkDelivered mid dev now s"
| "run_op uuid_ok f (OpAck mid dev) now s = Ack mid dev now s"
| "run_op uuid_ok f (OpApproveInbound th) now s = ApproveInbound th now s"
| "run_op uuid_ok f (OpDeclineInbound th) now s = DeclineInbound th now s"
| "run_op uuid_ok f (OpApproveMessage p mid) now s = outcome (ApproveInboundMessage p mid now s)"
| "run_op uuid_ok f (OpDeclineMessage p mid) now s = outcome (DeclineInboundMessage p mid now s)"
| "run_op uuid_ok f (OpSetGrant gid th p dir) now s = SetThreadGrant gid th p dir now s"
| "run_op uuid_ok f (OpRevokeGrant th p dir) now s = RevokeThreadGrant th p dir now s"
| "run_op uuid_ok f (OpApproveViaGrant th p mid) now s = outcome (ApproveInboundViaGrant th p mid now s)"
| "run_op uuid_ok f (OpCreateDraft th author e) now s = outcome (CreateDraft uuid_ok th author e now s)"
| "run_op uuid_ok f (OpRelease p i edit) now s = outcome (ReleaseDraft p i edit now s)"
| "run_op uuid_ok f (OpDiscard p i) now s = DiscardDraft p i now s"
| "run_op uuid_ok f (OpReleaseViaGrant i g) now s = outcome (ReleaseReplyViaGrant i g now s)"
| "run_op uuid_ok f (OpCreateInvite raw email ttl) now s = outcome (CreateInvite raw email ttl now s)"
| "run_op uuid_ok f (OpEnroll pid did tok pk label) now s = outcome (Enroll pid did tok pk label now s)"
| "run_op uuid_ok f (OpRevokeDevice i) now s = RevokeDevice i now s"
| "run_op uuid_ok f (OpStartThread i a b) now s = outcome (StartThread i a b now s)"
| "run_op uuid_ok f (OpSweepMessages p) now s = outcome (SweepMessages p now s)"
| "run_op uuid_ok f (OpSweepDrafts p) now s = outcome (SweepDrafts p now s)"
| "run_op uuid_ok f OpPrune now s = outcome (PruneTombstones f now s)"
| "run_op uuid_ok f (OpRegisterClient i uris name) now s = outcome (RegisterClient i uris name now s)"
| "run_op uuid_ok f (OpCreateCode code b expiresAt) now s = CreateAuthCode code b expiresAt now s"
| "run_op uuid_ok f (OpConsumeCode code) now s = ConsumeAuthCode code now s"
| "run_op uuid_ok f (OpCreateRefresh tok g expiresAt) now s = CreateRefreshToken tok g expiresAt now s"
| "run_op uuid_ok f (OpConsumeRefresh tok) now s = outcome (ConsumeRefreshToken tok now s)"
| "run_op uuid_ok f OpSweepOAuth now s = outcome (SweepOAuth now s)"

section \<open>Steps and runs\<close>

inductive store_step :: "(string \<Rightarrow> bool) \<Rightarrow> freshness \<Rightarrow> instant \<times> store \<Rightarrow> instant \<times> store \<Rightarrow> bool"
  for uuid_ok :: "string \<Rightarrow> bool" and f :: freshness where
  operate: "t \<le> t' \<Longrightarrow> run_op uuid_ok f op t' s = (r, s') \<Longrightarrow> store_step uuid_ok f (t, s) (t', s')"
| connection: "t \<le> t' \<Longrightarrow> store_step uuid_ok f (t, s) (t', s\<lparr>st_begin_ok := b, st_commit_ok := c\<rparr>)"

inductive store_runs :: "(string \<Rightarrow> bool) \<Rightarrow> freshness \<Rightarrow> instant \<times> store \<Rightarrow> instant \<times> store \<Rightarrow> bool"
  for uuid_ok :: "string \<Rightarrow> bool" and f :: freshness where
  here: "store_runs uuid_ok f x x"
| more: "store_runs uuid_ok f x y \<Longrightarrow> store_step uuid_ok f y z \<Longrightarrow> store_runs uuid_ok f x z"

inductive_cases store_stepE: "store_step uuid_ok f (t, s) y"

definition fresh_store :: store where
  "fresh_store = \<lparr>st_db = empty_db, st_begin_ok = True, st_commit_ok = True\<rparr>"

section \<open>One step\<close>

lemma outcome_snd [simp]: "outcome p = (r, s') \<Longrightarrow> \<exists>q. p = (q, s')"
  by (cases p) (auto simp: outcome_def)

lemma outcome_Inl: "outcome p = (Inl e, s') \<longleftrightarrow> p = (Inl e, s')"
  by (cases p; cases "fst p") (auto simp: outcome_def)

lemma outcome_Inr: "outcome p = (Inr u, s') \<longleftrightarrow> (\<exists>x. p = (Inr x, s'))"
  by (cases p; cases "fst p") (auto simp: outcome_def)

definition dropped_at :: "freshness \<Rightarrow> instant \<Rightarrow> store_op \<Rightarrow> tombstone_row \<Rightarrow> bool" where
  "dropped_at f now op = (if op = OpPrune then stale_tombstone f now else (\<lambda>_. False))"

lemma run_op_history:
  assumes i: "relay_inv (st_db s)" and r: "run_op uuid_ok f op now s = (r, s')"
  shows "relay_inv (st_db s') \<and> evolves (dropped_at f now op) (st_db s) (st_db s')"
proof (cases op)
  case (OpIngest e sender)
  then show ?thesis using r ingest_hist.op_history [OF i] i evolves_refl
    by (auto simp: IngestMessage_def dropped_at_def split: if_splits)
next
  case (OpMarkDelivered mid dev)
  then show ?thesis using r mark_hist.op_history [OF i] by (auto simp: MarkDelivered_def dropped_at_def)
next
  case (OpAck mid dev)
  then show ?thesis using r ack_hist.op_history [OF i] by (auto simp: Ack_def dropped_at_def)
next
  case (OpApproveInbound th)
  then show ?thesis using r transition_hist.op_history [OF i] by (auto simp: ApproveInbound_def transitionInbound_def dropped_at_def)
next
  case (OpDeclineInbound th)
  then show ?thesis using r transition_hist.op_history [OF i] by (auto simp: DeclineInbound_def transitionInbound_def dropped_at_def)
next
  case (OpApproveMessage p mid)
  then show ?thesis using r verdict_hist.op_history [OF i]
    by (auto simp: ApproveInboundMessage_def inboundMessageVerdict_def dropped_at_def dest!: outcome_snd)
next
  case (OpDeclineMessage p mid)
  then show ?thesis using r verdict_hist.op_history [OF i]
    by (auto simp: DeclineInboundMessage_def inboundMessageVerdict_def dropped_at_def dest!: outcome_snd)
next
  case (OpSetGrant gid th p dir)
  then show ?thesis using r set_grant_hist.op_history [OF i] i evolves_refl
    by (auto simp: SetThreadGrant_def dropped_at_def split: if_splits)
next
  case (OpRevokeGrant th p dir)
  then show ?thesis using r revoke_grant_hist.op_history [OF i] i evolves_refl
    by (auto simp: RevokeThreadGrant_def dropped_at_def split: if_splits)
next
  case (OpApproveViaGrant th p mid)
  then show ?thesis using r grant_approval_hist.op_history [OF i]
    by (auto simp: ApproveInboundViaGrant_def dropped_at_def dest!: outcome_snd)
next
  case (OpCreateDraft th author e)
  then show ?thesis using r create_draft_hist.op_history [OF i] i evolves_refl
    by (auto simp: CreateDraft_def dropped_at_def dest!: outcome_snd split: if_splits sum.splits option.splits prod.splits)
next
  case (OpRelease p i edit)
  then show ?thesis using r release_hist.op_history [OF assms(1)] by (auto simp: ReleaseDraft_def dropped_at_def dest!: outcome_snd)
next
  case (OpDiscard p i)
  then show ?thesis using r discard_hist.op_history [OF assms(1)] by (auto simp: DiscardDraft_def dropped_at_def)
next
  case (OpReleaseViaGrant i g)
  then show ?thesis using r grant_release_hist.op_history [OF assms(1)]
    by (auto simp: ReleaseReplyViaGrant_def dropped_at_def dest!: outcome_snd)
next
  case (OpCreateInvite raw email ttl)
  then show ?thesis using r create_invite_hist.op_history [OF i]
    by (auto simp: CreateInvite_def dropped_at_def Let_def dest!: outcome_snd split: prod.splits sum.splits)
next
  case (OpEnroll pid did tok pk label)
  then show ?thesis using r enroll_hist.op_history [OF i] i evolves_refl
    by (auto simp: Enroll_def dropped_at_def dest!: outcome_snd split: if_splits)
next
  case (OpRevokeDevice i)
  then show ?thesis using r revoke_device_hist.op_history [OF assms(1)] by (auto simp: RevokeDevice_def dropped_at_def)
next
  case (OpStartThread i a b)
  then show ?thesis using r start_thread_hist.op_history [OF assms(1)]
    by (auto simp: StartThread_def dropped_at_def dest!: outcome_snd split: prod.splits sum.splits)
next
  case (OpSweepMessages p)
  then show ?thesis using r sweep_messages_hist.op_history [OF i] by (auto simp: SweepMessages_def dropped_at_def dest!: outcome_snd)
next
  case (OpSweepDrafts p)
  then show ?thesis using r sweep_drafts_hist.op_history [OF i] by (auto simp: SweepDrafts_def dropped_at_def dest!: outcome_snd)
next
  case OpPrune
  then show ?thesis using r prune_hist.op_history [OF i] by (auto simp: PruneTombstones_def dropped_at_def dest!: outcome_snd)
next
  case (OpRegisterClient i uris name)
  then show ?thesis using r register_client_hist.op_history [OF assms(1)]
    by (auto simp: RegisterClient_def dropped_at_def dest!: outcome_snd split: prod.splits sum.splits)
next
  case (OpCreateCode code b expiresAt)
  then show ?thesis using r create_code_hist.op_history [OF i] by (auto simp: CreateAuthCode_def dropped_at_def)
next
  case (OpConsumeCode code)
  then show ?thesis using r consume_code_hist.op_history [OF i] by (auto simp: ConsumeAuthCode_def dropped_at_def)
next
  case (OpCreateRefresh tok g expiresAt)
  then show ?thesis using r create_refresh_hist.op_history [OF i] by (auto simp: CreateRefreshToken_def dropped_at_def)
next
  case (OpConsumeRefresh tok)
  then show ?thesis using r consume_refresh_hist.op_history [OF i]
    by (auto simp: ConsumeRefreshToken_def dropped_at_def dest!: outcome_snd split: prod.splits sum.splits refresh_outcome.splits)
next
  case OpSweepOAuth
  then show ?thesis using r sweep_oauth_hist.op_history [OF i] by (auto simp: SweepOAuth_def dropped_at_def dest!: outcome_snd)
qed

lemma tx_atomic: "writeTx fn s = (Inl e, s') \<Longrightarrow> s' = s"
  by (rule writeTx_Inl)

lemma tx_refused: "fn (st_db s) = Inl e \<Longrightarrow> \<exists>err. writeTx fn s = (Inl err, s)"
  by (auto simp: writeTx_def)

lemma run_op_atomic:
  assumes "run_op uuid_ok f op now s = (Inl e, s')"
  shows "s' = s \<or> (\<exists>tok. op = OpConsumeRefresh tok) \<and> e \<in> {ErrRefreshReused, ErrRefreshInvalid}"
  using assms
  by (cases op)
    (auto simp: outcome_Inl IngestMessage_def MarkDelivered_def Ack_def ApproveInbound_def DeclineInbound_def transitionInbound_def
      ApproveInboundMessage_def DeclineInboundMessage_def inboundMessageVerdict_def SetThreadGrant_def RevokeThreadGrant_def
      ApproveInboundViaGrant_def CreateDraft_def ReleaseDraft_def DiscardDraft_def ReleaseReplyViaGrant_def CreateInvite_def Let_def
      Enroll_def RevokeDevice_def StartThread_def SweepMessages_def SweepDrafts_def PruneTombstones_def RegisterClient_def
      CreateAuthCode_def ConsumeAuthCode_def CreateRefreshToken_def ConsumeRefreshToken_def SweepOAuth_def
      consumeRefreshTx_def writeTx_Inr rbind_Inr_iff exec_Inr
      dest: tx_atomic split: if_splits sum.splits option.splits prod.splits refresh_outcome.splits)

section \<open>Runs\<close>

definition horizon :: "freshness \<Rightarrow> instant \<Rightarrow> tombstone_row \<Rightarrow> bool" where
  "horizon f t r \<longleftrightarrow> ts_sent r < unix_sec (t - MaxAge f)"

lemma horizon_mono: "t \<le> t' \<Longrightarrow> horizon f t r \<Longrightarrow> horizon f t' r"
  unfolding horizon_def using unix_sec_mono [of "t - MaxAge f" "t' - MaxAge f"] by simp

lemma step_history:
  assumes "store_step uuid_ok f (t, s) (t', s')" "relay_inv (st_db s)"
  shows "t \<le> t' \<and> relay_inv (st_db s') \<and> evolves (horizon f t') (st_db s) (st_db s')"
  using assms(1)
proof (rule store_stepE)
  fix t2 op r s2
  assume "(t', s') = (t2, s2)" "t \<le> t2" "run_op uuid_ok f op t2 s = (r, s2)"
  then show ?thesis
    using run_op_history [OF assms(2), of uuid_ok f op t' r s']
    by (auto simp: dropped_at_def stale_tombstone_def horizon_def elim: evolves_mono split: if_splits)
next
  fix t2 b c
  assume "(t', s') = (t2, s\<lparr>st_begin_ok := b, st_commit_ok := c\<rparr>)" "t \<le> t2"
  then show ?thesis using assms(2) evolves_refl by simp
qed

lemma runs_history:
  assumes "store_runs uuid_ok f x y" "relay_inv (st_db (snd x))"
  shows "fst x \<le> fst y \<and> relay_inv (st_db (snd y)) \<and> evolves (horizon f (fst y)) (st_db (snd x)) (st_db (snd y))"
  using assms
proof (induction rule: store_runs.induct)
  case (here x)
  then show ?case using evolves_refl by simp
next
  case (more x y z)
  obtain t s t' s' where y: "y = (t, s)" and z: "z = (t', s')" by (cases y; cases z)
  have IH: "fst x \<le> t" "relay_inv (st_db s)" "evolves (horizon f t) (st_db (snd x)) (st_db s)"
    using more.IH [OF more.prems] by (simp_all add: y)
  have step: "t \<le> t'" "relay_inv (st_db s')" "evolves (horizon f t') (st_db s) (st_db s')"
    using step_history [OF _ IH(2)] more.hyps(2) by (auto simp: y z)
  have "evolves (horizon f t') (st_db (snd x)) (st_db s)"
    using IH(3) by (rule evolves_mono) (rule horizon_mono [OF step(1)])
  then have "evolves (horizon f t') (st_db (snd x)) (st_db s')" using step(3) by (rule evolves_trans)
  then show ?case using IH(1) step by (simp add: z)
qed

lemma runs_trans: "store_runs uuid_ok f x y \<Longrightarrow> store_runs uuid_ok f y z \<Longrightarrow> store_runs uuid_ok f x z"
proof (rotate_tac, induction rule: store_runs.induct)
  case (more y z w)
  then show ?case by (blast intro: store_runs.more)
qed

section \<open>Properties\<close>

lemma Inbox_parties:
  assumes "relay_inv d" "i \<in> set (Inbox dev d)"
  shows "\<exists>r \<in> set (devices d). d_id r = dev \<and> d_person r \<noteq> ii_SenderID i \<and>
    is_party d (ii_ThreadID i) (d_person r) \<and> is_party d (ii_ThreadID i) (ii_SenderID i)"
proof -
  have "\<exists>m \<in> set (messages d). \<exists>dl \<in> set (deliveries d). dl_message dl = m_id m \<and> dl_device dl = dev \<and>
      ii_ThreadID i = m_thread m \<and> ii_SenderID i = m_sender m"
    using assms(2) by (auto simp: Inbox_def) metis
  then obtain m dl where m: "m \<in> set (messages d)" "dl \<in> set (deliveries d)" "dl_message dl = m_id m" "dl_device dl = dev"
    and i: "ii_ThreadID i = m_thread m" "ii_SenderID i = m_sender m" by blast
  have "delivery_to_other d dl" using assms(1) m(2) by (simp add: relay_inv_def list_all_iff)
  then obtain m' r where m': "m' \<in> set (messages d)" "m_id m' = dl_message dl"
    and r: "r \<in> set (devices d)" "d_id r = dev" "d_person r \<noteq> m_sender m'" "is_party d (m_thread m') (d_person r)"
    using m(4) by (auto simp: delivery_to_other_def)
  have "m' = m"
    using distinct_key_unique [of m_id "messages d" m' m] m' m schema_okD(5) [OF relay_inv_schema [OF assms(1)]] by (simp add: messages_ok_def)
  moreover have "is_party d (m_thread m) (m_sender m)" using assms(1) m(1) by (simp add: relay_inv_def list_all_iff)
  ultimately show ?thesis using r i by auto
qed

text \<open>
  C5: isolation. Start from the empty database, or any database satisfying the invariant. Then
  in every state some run reaches, whatever the interleaving of operations, connection faults
  and clock readings, the declared constraints hold and a device's inbox contains only messages
  from the other party of a thread its owner takes part in.
\<close>

theorem inbox_isolation:
  assumes "relay_inv (st_db s0) \<or> s0 = fresh_store" "store_runs uuid_ok f (t0, s0) (t, s)"
    and "i \<in> set (Inbox dev (st_db s))"
  shows "schema_ok (st_db s) \<and> (\<exists>r \<in> set (devices (st_db s)). d_id r = dev \<and> d_person r \<noteq> ii_SenderID i \<and>
    is_party (st_db s) (ii_ThreadID i) (d_person r) \<and> is_party (st_db s) (ii_ThreadID i) (ii_SenderID i))"
proof -
  have inv: "relay_inv (st_db s)" using runs_history [OF assms(2)] assms(1) relay_inv_empty by (auto simp: fresh_store_def)
  then show ?thesis using Inbox_parties [OF inv assms(3)] relay_inv_schema by blast
qed

theorem inbox_isolation_witness:
  "\<exists>s i. store_runs (\<lambda>_. True) \<lparr>MaxAge = 10, MaxSkew = 10\<rparr> (0, sample_store) (7, s) \<and> i \<in> set (Inbox ''db'' (st_db s)) \<and>
     ii_SenderID i = ''alice'' \<and> schema_ok (st_db s)"
proof -
  define s where "s = sample_store\<lparr>st_db := with_revoked ''da'' 7 sample_db\<rparr>"
  define i where "i = \<lparr>ii_ID = ''m1'', ii_ThreadID = ''th'', ii_SenderID = ''alice'', ii_Envelope = ''{}'', ii_ReceivedAt = from_unix 100\<rparr>"
  have "RevokeDevice ''da'' 7 sample_store = (Inr (), s)"
    by (simp add: RevokeDevice_def writeTx_healthy revokeDeviceTx_eq [OF sample_db_ok] s_def)
      (simp add: has_device_def sample_simps)
  then have "run_op (\<lambda>_. True) \<lparr>MaxAge = 10, MaxSkew = 10\<rparr> (OpRevokeDevice ''da'') 7 sample_store = (Inr (), s)" by simp
  then have "store_step (\<lambda>_. True) \<lparr>MaxAge = 10, MaxSkew = 10\<rparr> (0, sample_store) (7, s)"
    by (intro operate [of 0 7 _ _ "OpRevokeDevice ''da''" sample_store "Inr ()"]) simp_all
  then have run: "store_runs (\<lambda>_. True) \<lparr>MaxAge = 10, MaxSkew = 10\<rparr> (0, sample_store) (7, s)" by (rule more [OF here])
  have i: "i \<in> set (Inbox ''db'' (st_db s))"
    by (simp add: s_def i_def Inbox_def with_revoked_def sample_simps)
  have "schema_ok (st_db s)" using inbox_isolation [OF disjI1 [OF sample_store_inv] run i] by (rule conjunct1)
  with run i show ?thesis by (intro exI [of _ s] exI [of _ i] conjI) (simp_all add: i_def)
qed

text \<open>
  C6: no replay. Once an envelope has been accepted, no later ingest of an envelope with that id
  and that sent time is accepted, whoever sends it and whatever happened in between, sweeps and
  pruning included; the attempt leaves the store as it is.
\<close>

theorem no_replay:
  assumes "relay_inv (st_db s0)" "IngestMessage uuid_ok e p f t0 s0 = (Inr (), s1)" "t0 \<le> t1"
    and "store_runs uuid_ok f (t1, s1) (t2, s2)" "t2 \<le> t"
    and "env_ID e' = env_ID e" "t_ns (env_SentAt e') = t_ns (env_SentAt e)"
  shows "\<exists>err. IngestMessage uuid_ok e' p' f t s2 = (Inl err, s2)"
proof -
  let ?r = "\<lparr>ts_id = env_ID e, ts_sent = unix_sec (t_ns (env_SentAt e))\<rparr>"
  have run: "ingestTx e p t0 (st_db s0) = Inr (st_db s1)"
    using assms(2) by (auto simp: IngestMessage_def writeTx_Inr split: if_splits)
  then have r1: "?r \<in> set (tombstones (st_db s1))" by (rule ingestTx_Inr) simp
  have i1: "relay_inv (st_db s1)" using ingest_keeps_inv [OF assms(1) run] .
  have kept: "horizon f t2 ?r \<or> ?r \<in> set (tombstones (st_db s2))"
    using runs_history [OF assms(4)] i1 r1 unfolding evolves_def by auto
  show ?thesis
  proof (cases "fresh_at f t (t_ns (env_SentAt e'))")
    case True
    then have "unix_sec (t2 - MaxAge f) \<le> unix_sec (t_ns (env_SentAt e))" using fresh_not_stale [OF assms(5)] assms(7) by simp
    then have "?r \<in> set (tombstones (st_db s2))" using kept by (auto simp: horizon_def)
    then have "ts_id ?r \<in> ts_id ` set (tombstones (st_db s2))" by (rule imageI)
    then have "tombstoneSeen (st_db s2) (env_ID e')" using assms(6) by (simp add: tombstoneSeen_iff)
    then have "unit_tx (ingestTx e' p' t) (st_db s2) = Inl ErrReplay" by (simp add: ingestTx_def)
    then have "\<exists>err. writeTx (unit_tx (ingestTx e' p' t)) s2 = (Inl err, s2)" by (rule tx_refused)
    then show ?thesis using True by (auto simp: IngestMessage_def)
  next
    case False
    then show ?thesis by (auto simp: IngestMessage_def)
  qed
qed

theorem no_replay_witness:
  "\<exists>s1 s2 err. IngestMessage (\<lambda>_. True) sample_envelope ''alice'' \<lparr>MaxAge = 10, MaxSkew = 10\<rparr> 200000000005 sample_store = (Inr (), s1) \<and>
     store_runs (\<lambda>_. True) \<lparr>MaxAge = 10, MaxSkew = 10\<rparr> (200000000006, s1) (200000000007, s2) \<and>
     IngestMessage (\<lambda>_. True) sample_envelope ''alice'' \<lparr>MaxAge = 10, MaxSkew = 10\<rparr> 200000000008 s2 = (Inl err, s2)"
proof -
  obtain s1 where acc: "IngestMessage (\<lambda>_. True) sample_envelope ''alice'' \<lparr>MaxAge = 10, MaxSkew = 10\<rparr> 200000000005 sample_store = (Inr (), s1)"
    using sample_accepted by blast
  obtain r s2 where "run_op (\<lambda>_. True) \<lparr>MaxAge = 10, MaxSkew = 10\<rparr> OpPrune 200000000007 s1 = (r, s2)" by fastforce
  then have "store_step (\<lambda>_. True) \<lparr>MaxAge = 10, MaxSkew = 10\<rparr> (200000000006, s1) (200000000007, s2)"
    by (intro operate [of _ _ _ _ OpPrune]) simp_all
  then have run: "store_runs (\<lambda>_. True) \<lparr>MaxAge = 10, MaxSkew = 10\<rparr> (200000000006, s1) (200000000007, s2)" by (rule more [OF here])
  from no_replay [OF sample_store_inv acc _ run, of 200000000008 sample_envelope "''alice''"] acc run show ?thesis by auto
qed

text \<open>What the steps between two states of the database leave of a revoked or used row.\<close>

lemma revoked_device_dead:
  assumes "relay_inv d'" "evolves Q d d'" "r \<in> set (devices d)" "d_revoked r \<noteq> None"
  shows "ActiveDeviceByID (d_id r) d' = Inl ErrNotFound" "ActiveDeviceByPubkey (d_pubkey r) d' = Inl ErrNotFound"
proof -
  note ok = schema_okD(2) [OF relay_inv_schema [OF assms(1)]]
  obtain r' where r': "r' \<in> set (devices d')" "d_id r' = d_id r" "d_pubkey r' = d_pubkey r" "d_revoked r' \<noteq> None"
    using assms(2-4) unfolding evolves_def by metis
  have "d_revoked x \<noteq> None" if x: "x \<in> set (devices d')" "d_id x = d_id r" for x
    using distinct_key_unique [OF _ x(1) r'(1), of d_id] x(2) r'(2,4) ok by (simp add: devices_ok_def)
  moreover have "d_revoked x \<noteq> None" if x: "x \<in> set (devices d')" "d_pubkey x = d_pubkey r" for x
    using distinct_key_unique [OF _ x(1) r'(1), of d_pubkey] x(2) r'(3,4) ok by (simp add: devices_ok_def)
  ultimately have "select_first (\<lambda>x. d_id x = d_id r \<and> d_revoked x = None) (devices d') = None"
    "select_first (\<lambda>x. d_pubkey x = d_pubkey r \<and> d_revoked x = None) (devices d') = None"
    unfolding select_first_None by blast+
  then show "ActiveDeviceByID (d_id r) d' = Inl ErrNotFound" "ActiveDeviceByPubkey (d_pubkey r) d' = Inl ErrNotFound"
    by (simp_all add: ActiveDeviceByID_def ActiveDeviceByPubkey_def)
qed

lemma used_invite_dead:
  assumes "relay_inv (st_db s)" "evolves Q d (st_db s)" "r \<in> set (invites d)" "i_hash r = hashToken tok" "i_used r \<noteq> None"
  shows "\<exists>e. Enroll pid did tok pk label t s = (Inl e, s)"
proof -
  note ok = relay_inv_schema [OF assms(1)]
  obtain r' where r': "r' \<in> set (invites (st_db s))" "i_hash r' = hashToken tok" "i_used r' \<noteq> None"
    using assms(2-5) unfolding evolves_def by metis
  have "i_used x \<noteq> None" if x: "x \<in> set (invites (st_db s))" "i_hash x = hashToken tok" for x
    using distinct_key_unique [OF _ x(1) r'(1), of i_hash] x(2) r'(2,3) schema_okD(3) [OF ok] by (simp add: invites_ok_def)
  then have "enrollTx pid did tok pk label t (st_db s) = Inl ErrInviteInvalid" by (rule enrollTx_used [OF _ ok])
  then show ?thesis by (auto simp: Enroll_def writeTx_def)
qed

lemma revoked_grant_stays:
  assumes "relay_inv d'" "evolves Q d d'" "r \<in> set (grants d)" "g_revoked r \<noteq> None" "r' \<in> set (grants d')" "g_id r' = g_id r"
  shows "g_revoked r' = g_revoked r"
proof -
  obtain r2 where "r2 \<in> set (grants d')" "g_id r2 = g_id r" "g_revoked r2 = g_revoked r"
    using assms(2-4) unfolding evolves_def by metis
  moreover from this have "r' = r2"
    using assms(5,6) schema_okD(9) [OF relay_inv_schema [OF assms(1)]] distinct_key_unique [of g_id "grants d'" r' r2]
    by (simp add: grants_ok_def)
  ultimately show ?thesis by simp
qed

lemma parties_stay:
  assumes "relay_inv d" "relay_inv d'" "evolves Q d d'" "has_thread d th"
  shows "is_party d' th p = is_party d th p"
proof -
  obtain x where x: "x \<in> set (threads d)" "t_id x = th" using assms(4) by (auto simp: has_thread_def)
  obtain y where y: "y \<in> set (threads d')" "t_id y = th" "t_initiator y = t_initiator x" "t_recipient y = t_recipient x"
    using assms(3) x unfolding evolves_def by metis
  have "is_party d th p \<longleftrightarrow> p = t_initiator x \<or> p = t_recipient x"
    using is_party_unique [OF relay_inv_schema [OF assms(1)] x] x by (auto simp: is_party_def)
  moreover have "is_party d' th p \<longleftrightarrow> p = t_initiator y \<or> p = t_recipient y"
    using is_party_unique [OF relay_inv_schema [OF assms(2)] y(1,2)] y(1,2) by (auto simp: is_party_def)
  ultimately show ?thesis using y(3,4) by simp
qed

text \<open>
  C7: what is revoked stays revoked. After any run, a device that was revoked resolves to no
  active device, a used invite enrolls nothing, a revoked grant is not active again as that row,
  and every thread still has the same two parties.
\<close>

theorem revocation_is_permanent:
  assumes "relay_inv (st_db s1)" "store_runs uuid_ok f (t1, s1) (t2, s2)"
  shows "(\<forall>r \<in> set (devices (st_db s1)). d_revoked r \<noteq> None \<longrightarrow>
        ActiveDeviceByID (d_id r) (st_db s2) = Inl ErrNotFound \<and> ActiveDeviceByPubkey (d_pubkey r) (st_db s2) = Inl ErrNotFound) \<and>
    (\<forall>r \<in> set (invites (st_db s1)). i_hash r = hashToken tok \<and> i_used r \<noteq> None \<longrightarrow>
        (\<exists>e. Enroll pid did tok pk label t s2 = (Inl e, s2))) \<and>
    (\<forall>r \<in> set (grants (st_db s1)). g_revoked r \<noteq> None \<longrightarrow>
        (\<forall>r' \<in> set (grants (st_db s2)). g_id r' = g_id r \<longrightarrow> g_revoked r' = g_revoked r)) \<and>
    (\<forall>th p. has_thread (st_db s1) th \<longrightarrow> is_party (st_db s2) th p = is_party (st_db s1) th p)"
proof -
  have inv: "relay_inv (st_db s2)" and ev: "evolves (horizon f t2) (st_db s1) (st_db s2)"
    using runs_history [OF assms(2)] assms(1) by simp_all
  show ?thesis
    using revoked_device_dead [OF inv ev] used_invite_dead [OF inv ev] revoked_grant_stays [OF inv ev] parties_stay [OF assms(1) inv ev]
    by blast
qed

theorem revocation_is_permanent_witness:
  "\<exists>s1. RevokeDevice ''db'' 7 sample_store = (Inr (), s1) \<and> ActiveDeviceByID ''db'' (st_db s1) = Inl ErrNotFound"
proof -
  define s1 where "s1 = sample_store\<lparr>st_db := with_revoked ''db'' 7 sample_db\<rparr>"
  have "RevokeDevice ''db'' 7 sample_store = (Inr (), s1)"
    by (simp add: RevokeDevice_def writeTx_healthy revokeDeviceTx_eq [OF sample_db_ok] s1_def)
      (simp add: has_device_def sample_simps)
  moreover have inv: "relay_inv (st_db s1)" by (simp add: s1_def with_revoked_inv)
  have "\<exists>r \<in> set (devices (st_db s1)). d_id r = ''db'' \<and> d_revoked r \<noteq> None"
    by (simp add: s1_def with_revoked_def sample_simps sql_simps)
  then have "ActiveDeviceByID ''db'' (st_db s1) = Inl ErrNotFound"
    using conjunct1 [OF revocation_is_permanent [OF inv here]] by auto
  ultimately show ?thesis by blast
qed

lemma refresh_error:
  assumes "relay_inv (st_db s)" "ConsumeRefreshToken tok now s = (Inl e, s')"
  shows "s' = s \<or> e = ErrRefreshReused \<and> (\<exists>x. st_db s' = (st_db s)\<lparr>oauth_refresh := x\<rparr>)"
proof (cases "writeTx (consumeRefreshTx tok now) s")
  case (Pair q s2)
  note ok = relay_inv_schema [OF assms(1)]
  show ?thesis
  proof (cases q)
    case (Inl e2)
    then show ?thesis using Pair assms(2) by (auto simp: ConsumeRefreshToken_def dest: tx_atomic)
  next
    case (Inr x)
    then obtain d' where d': "consumeRefreshTx tok now (st_db s) = Inr (x, d')" "s2 = s\<lparr>st_db := d'\<rparr>"
      using Pair by (auto simp: writeTx_Inr)
    have x: "x = Refused e" "s' = s2" using Pair Inr assms(2) by (auto simp: ConsumeRefreshToken_def split: refresh_outcome.splits)
    then have "\<not> (\<exists>r \<in> set (oauth_refresh (st_db s)). live_refresh tok now r)"
      using d'(1) consumeRefreshTx_live [OF ok] by auto
    then show ?thesis
      using d' x consumeRefreshTx_dead [OF ok, of tok now] by (auto simp: revoked_family_def split: option.splits)
  qed
qed

text \<open>
  C8: atomicity. An operation that reports an error has left the store exactly as it was; the
  one exception is presenting a consumed refresh token, which revokes its family and says so.
\<close>

theorem errors_change_nothing:
  assumes "relay_inv (st_db s)" "run_op uuid_ok f op now s = (Inl e, s')"
  shows "s' = s \<or> (\<exists>tok. op = OpConsumeRefresh tok) \<and> e = ErrRefreshReused \<and>
    (\<exists>x. st_db s' = (st_db s)\<lparr>oauth_refresh := x\<rparr>)"
proof (cases "s' = s")
  case False
  then obtain tok where tok: "op = OpConsumeRefresh tok" using run_op_atomic [OF assms(2)] by blast
  then have "ConsumeRefreshToken tok now s = (Inl e, s')" using assms(2) by (simp add: outcome_Inl)
  then show ?thesis using refresh_error [OF assms(1)] False tok by blast
qed simp

theorem errors_change_nothing_witness:
  "run_op (\<lambda>_. True) \<lparr>MaxAge = 10, MaxSkew = 10\<rparr> (OpAck ''nope'' ''db'') 7 sample_store = (Inl ErrNotFound, sample_store)"
proof -
  have "ackTx ''nope'' ''db'' 7 sample_db = Inl ErrNotFound"
    by (simp add: ackTx_def requireDelivery_def sample_simps sql_simps)
  then have "\<exists>s'. run_op (\<lambda>_. True) \<lparr>MaxAge = 10, MaxSkew = 10\<rparr> (OpAck ''nope'' ''db'') 7 sample_store = (Inl ErrNotFound, s')"
    by (simp add: Ack_def writeTx_healthy unit_tx_def)
  then show ?thesis using errors_change_nothing [OF sample_store_inv] by blast
qed

end
