(* ===== verification/McpWait.thy ===== *)
theory McpWait
  imports StoreMachine "HOL-Library.Word" "HOL-Library.Multiset"
begin

text \<open>
  The MCP handler's state and its long poll: \<open>internal/relay/mcp/handler.go\<close> and
  \<open>wait.go\<close>. A \<open>time.Duration\<close> and an \<open>int\<close> are 64-bit words here, because a client
  chooses the number that is multiplied. What a waiting call sees at its n-th poll (the store, the
  clock, whether its context is done) is an argument: other calls run between the polls.
\<close>

section \<open>The handler\<close>

datatype tool_error =
    errInternal | errNotFound | errNotAwaiting | errNotReviewable | errTooLong
  | errNotOnRoster | errSelf | errDirection | errCanceled

record handler =
  h_store :: store
  h_waiting :: "string \<Rightarrow> nat option"
  h_notifier :: "string list option"

text \<open>The notifier is absent (nil) or records whom it was asked to signal.\<close>

definition NewHandler :: "store \<Rightarrow> bool \<Rightarrow> handler" where
  "NewHandler st notifier = \<lparr>h_store = st, h_waiting = (\<lambda>_. None), h_notifier = (if notifier then Some [] else None)\<rparr>"

definition notify :: "string \<Rightarrow> handler \<Rightarrow> handler" where
  "notify personID h = (case h_notifier h of None \<Rightarrow> h | Some log \<Rightarrow> h\<lparr>h_notifier := Some (log @ [personID])\<rparr>)"

text \<open>A read on the store: it fails when the connection does.\<close>

definition reads :: "(database \<Rightarrow> store_error + 'a) \<Rightarrow> store \<Rightarrow> store_error + 'a" where
  "reads q s = (if st_begin_ok s then q (st_db s) else Inl DBErr)"

section \<open>Waiting slots\<close>

definition maxPerPerson :: nat where
  "maxPerPerson = 2"

definition waiting_count :: "handler \<Rightarrow> string \<Rightarrow> nat" where
  "waiting_count h person = (case h_waiting h person of None \<Rightarrow> 0 | Some n \<Rightarrow> n)"

definition waitAcquire :: "string \<Rightarrow> handler \<Rightarrow> bool \<times> handler" where
  "waitAcquire person h =
     (if maxPerPerson \<le> waiting_count h person then (False, h)
      else (True, h\<lparr>h_waiting := (h_waiting h)(person \<mapsto> waiting_count h person + 1)\<rparr>))"

definition waitRelease :: "string \<Rightarrow> handler \<Rightarrow> handler" where
  "waitRelease person h =
     (let h1 = (if 0 < waiting_count h person
                then h\<lparr>h_waiting := (h_waiting h)(person \<mapsto> waiting_count h person - 1)\<rparr> else h)
      in if waiting_count h1 person = 0 then h1\<lparr>h_waiting := (h_waiting h1)(person := None)\<rparr> else h1)"

section \<open>Timeouts\<close>

definition Second :: "64 word" where
  "Second = 1000000000"

definition Minute :: "64 word" where
  "Minute = 60 * Second"

definition pollInterval :: "64 word" where
  "pollInterval = Second"

definition profileCap :: "string \<Rightarrow> 64 word" where
  "profileCap clientType =
     (if clientType = ''claude.ai'' \<or> clientType = ''claude-desktop'' then 240 * Second
      else if clientType = ''claude-code-remote'' then 25 * Minute
      else 45 * Second)"

definition effectiveTimeout :: "64 word \<Rightarrow> string \<Rightarrow> 64 word" where
  "effectiveTimeout requestedSecs clientType =
     (let d = requestedSecs * Second; capped = profileCap clientType
      in if sint d \<le> 0 \<or> sint capped < sint d then capped else d)"

section \<open>The long poll\<close>

record poll =
  po_store :: store
  po_time :: instant
  po_done :: bool

text \<open>
  One round: the answer, or \<open>None\<close> to sleep \<open>min(pollInterval, remaining)\<close> and look
  again. Where the context is done and the timer has fired, \<open>select\<close> takes either branch:
  \<open>po_done\<close> says which one it took.
\<close>

definition poll_once :: "string \<Rightarrow> instant \<Rightarrow> poll \<Rightarrow> (tool_error + bool) option" where
  "poll_once person deadline p =
     (case reads (\<lambda>d. Inr (HasActivity person d)) (po_store p) of
        Inl _ \<Rightarrow> Some (Inl errInternal)
      | Inr has \<Rightarrow>
          if has then Some (Inr True)
          else if deadline - po_time p \<le> 0 then Some (Inr False)
          else if po_done p then Some (Inl errCanceled)
          else None)"

partial_function (option) wait_loop :: "string \<Rightarrow> instant \<Rightarrow> (nat \<Rightarrow> poll) \<Rightarrow> nat \<Rightarrow> (tool_error + bool) option" where
  "wait_loop person deadline env n =
     (case poll_once person deadline (env n) of
        Some r \<Rightarrow> Some r
      | None \<Rightarrow> wait_loop person deadline env (Suc n))"

definition wait_for_activity :: "string \<Rightarrow> string \<Rightarrow> 64 word \<Rightarrow> instant \<Rightarrow> (nat \<Rightarrow> poll) \<Rightarrow>
    handler \<Rightarrow> (tool_error + bool) option \<times> handler" where
  "wait_for_activity person clientType timeoutSeconds now env h =
     (case waitAcquire person h of
        (False, h1) \<Rightarrow> (Some (Inr False), h1)
      | (True, h1) \<Rightarrow>
          (wait_loop person (now + sint (effectiveTimeout timeoutSeconds clientType)) env 0, waitRelease person h1))"

section \<open>Slots are neither leaked nor exceeded\<close>

text \<open>Calls that wait: a call takes a slot or is turned away; a call that ends gives its slot back.\<close>

inductive slot_step :: "handler \<times> string multiset \<Rightarrow> handler \<times> string multiset \<Rightarrow> bool" where
  enter: "waitAcquire p h = (True, h') \<Longrightarrow> slot_step (h, w) (h', add_mset p w)"
| turned_away: "waitAcquire p h = (False, h') \<Longrightarrow> slot_step (h, w) (h', w)"
| leave: "p \<in># w \<Longrightarrow> slot_step (h, w) (waitRelease p h, w - {#p#})"

inductive slot_runs :: "handler \<times> string multiset \<Rightarrow> handler \<times> string multiset \<Rightarrow> bool" where
  slot_start: "slot_runs x x"
| slot_more: "slot_runs x y \<Longrightarrow> slot_step y z \<Longrightarrow> slot_runs x z"

inductive_cases slot_stepE: "slot_step (h, w) y"

definition slots_ok :: "handler \<Rightarrow> string multiset \<Rightarrow> bool" where
  "slots_ok h w \<longleftrightarrow> (\<forall>p. h_waiting h p = (if count w p = 0 then None else Some (count w p)) \<and> count w p \<le> maxPerPerson)"

lemma slots_okD:
  assumes "slots_ok h w"
  shows "waiting_count h p = count w p" "count w p \<le> maxPerPerson" "h_waiting h p = (if count w p = 0 then None else Some (count w p))"
  using assms by (auto simp: slots_ok_def waiting_count_def)

lemma slot_step_ok:
  assumes "slot_step (h, w) (h', w')" "slots_ok h w"
  shows "slots_ok h' w'"
  using assms(1)
proof (rule slot_stepE)
  fix p h2
  assume "(h', w') = (h2, add_mset p w)" "waitAcquire p h = (True, h2)"
  then show ?thesis using slots_okD [OF assms(2)] by (auto simp: waitAcquire_def slots_ok_def split: if_splits)
next
  fix p h2
  assume "(h', w') = (h2, w)" "waitAcquire p h = (False, h2)"
  then show ?thesis using assms(2) by (auto simp: waitAcquire_def split: if_splits)
next
  fix p
  assume e: "(h', w') = (waitRelease p h, w - {#p#})" "p \<in># w"
  then have "0 < count w p" by simp
  then obtain n where n: "count w p = Suc n" by (cases "count w p") auto
  then have h: "waitRelease p h = h\<lparr>h_waiting := (h_waiting h)(p := (if count w p = 1 then None else Some (count w p - 1)))\<rparr>"
    using slots_okD [OF assms(2), of p] by (simp add: waitRelease_def waiting_count_def Let_def)
  show ?thesis
    unfolding slots_ok_def
  proof (intro allI conjI)
    fix q
    have "count w' q = (if q = p then n else count w q)" using e n by auto
    moreover have "h_waiting h' q = (if q = p then (if n = 0 then None else Some n) else h_waiting h q)"
      using e h n by simp
    ultimately show "h_waiting h' q = (if count w' q = 0 then None else Some (count w' q))"
      using slots_okD(3) [OF assms(2), of q] by (cases "q = p") (simp_all only: if_True if_False refl)
    show "count w' q \<le> maxPerPerson" using e slots_okD(2) [OF assms(2), of q] by auto
  qed
qed

lemma slot_runs_ok: "slot_runs x y \<Longrightarrow> slots_ok (fst x) (snd x) \<Longrightarrow> slots_ok (fst y) (snd y)"
proof (induction rule: slot_runs.induct)
  case (slot_more x y z)
  then show ?case using slot_step_ok [of "fst y" "snd y" "fst z" "snd z"] by simp
qed

text \<open>
  C31: waiting slots. Whatever calls start, are turned away and end, in any order, no person ever
  has more than two calls waiting, the recorded count is the number of calls that wait, a person
  with none has no entry left, and a call is turned away only when two are waiting.
\<close>

theorem wait_slots:
  assumes "slot_runs (NewHandler st n, {#}) (h, w)"
  shows "count w p \<le> 2 \<and> waiting_count h p = count w p \<and> (count w p = 0 \<longleftrightarrow> h_waiting h p = None) \<and>
    (fst (waitAcquire p h) \<longleftrightarrow> count w p < 2)"
proof -
  have "slots_ok (NewHandler st n) {#}" by (simp add: slots_ok_def NewHandler_def)
  then have ok: "slots_ok h w" using slot_runs_ok [OF assms] by simp
  then show ?thesis
    using slots_okD [OF ok, of p] by (auto simp: waitAcquire_def maxPerPerson_def)
qed

theorem wait_slots_witness:
  "\<exists>h w. slot_runs (NewHandler sample_store True, {#}) (h, w) \<and> count w ''bob'' = 2 \<and> \<not> fst (waitAcquire ''bob'' h)"
proof -
  let ?h0 = "NewHandler sample_store True"
  obtain h1 where h1: "waitAcquire ''bob'' ?h0 = (True, h1)" "waiting_count h1 ''bob'' = 1"
    by (simp add: waitAcquire_def NewHandler_def waiting_count_def maxPerPerson_def)
  then obtain h2 where h2: "waitAcquire ''bob'' h1 = (True, h2)"
    by (simp add: waitAcquire_def maxPerPerson_def)
  have run: "slot_runs (?h0, {#}) (h2, {#''bob'', ''bob''#})"
    by (rule slot_more [OF slot_more [OF slot_start enter [OF h1(1)]] enter [OF h2]])
  then have "\<not> fst (waitAcquire ''bob'' h2)" using wait_slots [OF run, of "''bob''"] by simp
  with run show ?thesis by (intro exI [of _ h2] exI [of _ "{#''bob'', ''bob''#}"]) simp
qed

section \<open>The timeout\<close>

lemma profileCap_cases: "sint (profileCap ct) = 240000000000 \<or> sint (profileCap ct) = 1500000000000 \<or> sint (profileCap ct) = 45000000000"
  by (simp add: profileCap_def Second_def Minute_def)

lemma seconds_exact:
  assumes "0 < sint r" "sint r \<le> 1500"
  shows "sint (r * Second) = sint r * 1000000000"
proof -
  have "sint (r * Second) = signed_take_bit 63 (sint r * sint Second)" by (simp add: sint_word_ariths(3))
  also have "sint r * sint Second = sint r * 1000000000" by (simp add: Second_def)
  also have "signed_take_bit 63 \<dots> = sint r * 1000000000"
    using assms by (intro signed_take_bit_int_eq_self) simp_all
  finally show ?thesis .
qed

lemma effectiveTimeout_within: "0 < sint (effectiveTimeout r ct)" "sint (effectiveTimeout r ct) \<le> sint (profileCap ct)"
  using profileCap_cases [of ct] by (auto simp: effectiveTimeout_def Let_def)

text \<open>
  C32: the clamp. The wait is positive and never above the cap of the client's profile, not even
  when the multiplication by a second overflows; a request of at least a second and within the
  cap is honoured exactly, and a request of zero seconds gets the cap.
\<close>

theorem effectiveTimeout_bounds:
  "0 < sint (effectiveTimeout r ct) \<and> sint (effectiveTimeout r ct) \<le> sint (profileCap ct) \<and>
   sint (profileCap ct) \<le> 25 * 60 * 1000000000 \<and>
   (0 < sint r \<and> sint r * 1000000000 \<le> sint (profileCap ct) \<longrightarrow> sint (effectiveTimeout r ct) = sint r * 1000000000) \<and>
   effectiveTimeout 0 ct = profileCap ct"
proof -
  have "sint (effectiveTimeout r ct) = sint r * 1000000000" if "0 < sint r" "sint r * 1000000000 \<le> sint (profileCap ct)"
  proof -
    have "sint r \<le> 1500" using that profileCap_cases [of ct] by linarith
    then show ?thesis using that seconds_exact [of r] by (simp add: effectiveTimeout_def Let_def)
  qed
  then show ?thesis using profileCap_cases [of ct] by (auto simp: effectiveTimeout_def Let_def)
qed

theorem effectiveTimeout_bounds_witness:
  "sint (effectiveTimeout 60 ''claude.ai'') = 60000000000"
  using effectiveTimeout_bounds [of 60 "''claude.ai''"] by (simp add: profileCap_def Second_def)

text \<open>
  A request far above the cap does not always become the cap: the product wraps around, and
  18446744074 seconds are 0.29 seconds.
\<close>

lemma effectiveTimeout_overflow:
  "sint (effectiveTimeout 18446744074 ''claude.ai'') = 290448384"
  by (simp add: effectiveTimeout_def profileCap_def Second_def Let_def)

section \<open>The long poll returns\<close>

lemma wait_loop_skips:
  "(\<And>m. m < n \<Longrightarrow> poll_once p deadline (env (k + m)) = None) \<Longrightarrow>
     wait_loop p deadline env k = wait_loop p deadline env (k + n)"
proof (induction n)
  case (Suc n)
  then have "wait_loop p deadline env k = wait_loop p deadline env (k + n)" by simp
  also have "\<dots> = wait_loop p deadline env (k + Suc n)"
    using Suc.prems [of n] by (subst wait_loop.simps) simp
  finally show ?case .
qed simp

lemma wait_loop_first:
  assumes "poll_once p deadline (env n) = Some r" "\<And>m. m < n \<Longrightarrow> poll_once p deadline (env m) = None"
  shows "wait_loop p deadline env 0 = Some r"
proof -
  have "wait_loop p deadline env 0 = wait_loop p deadline env n"
    using wait_loop_skips [of n p deadline env 0] assms(2) by simp
  then show ?thesis using assms(1) by (subst (asm) (2) wait_loop.simps) simp
qed

lemma poll_once_None:
  "poll_once p deadline q = None \<longleftrightarrow>
     st_begin_ok (po_store q) \<and> \<not> HasActivity p (st_db (po_store q)) \<and> po_time q < deadline \<and> \<not> po_done q"
  by (auto simp: poll_once_def reads_def)

lemma poll_once_False:
  "poll_once p deadline q = Some (Inr False) \<longleftrightarrow>
     st_begin_ok (po_store q) \<and> \<not> HasActivity p (st_db (po_store q)) \<and> deadline \<le> po_time q"
  by (auto simp: poll_once_def reads_def)

text \<open>
  A timer never fires early. Then the time left shrinks by a second per round, so some round
  within the timeout, counted in seconds, gives an answer.
\<close>

definition timers_ok :: "instant \<Rightarrow> (nat \<Rightarrow> poll) \<Rightarrow> bool" where
  "timers_ok deadline env \<longleftrightarrow>
     (\<forall>n. po_time (env n) + min (sint pollInterval) (deadline - po_time (env n)) \<le> po_time (env (Suc n)))"

lemma remaining_shrinks:
  assumes "timers_ok deadline env"
  shows "deadline - po_time (env n) \<le> max 0 (deadline - po_time (env 0) - int n * 1000000000)"
proof (induction n)
  case (Suc n)
  have "po_time (env n) + min 1000000000 (deadline - po_time (env n)) \<le> po_time (env (Suc n))"
    using assms by (simp add: timers_ok_def pollInterval_def Second_def)
  with Suc show ?case by (auto simp: min_def max_def algebra_simps split: if_splits)
qed simp

lemma some_poll_answers:
  assumes "timers_ok deadline env" "deadline - po_time (env 0) \<le> int N * 1000000000"
  shows "\<exists>n \<le> N. \<exists>r. poll_once p deadline (env n) = Some r \<and> (\<forall>m < n. poll_once p deadline (env m) = None)"
proof -
  have "poll_once p deadline (env N) \<noteq> None"
    using remaining_shrinks [OF assms(1), of N] assms(2) by (auto simp: poll_once_None)
  then obtain n where n: "n = (LEAST n. poll_once p deadline (env n) \<noteq> None)" "n \<le> N" "poll_once p deadline (env n) \<noteq> None"
    by (metis (mono_tags, lifting) LeastI Least_le)
  then have "poll_once p deadline (env m) = None" if "m < n" for m using that not_less_Least by blast
  with n show ?thesis by blast
qed

text \<open>The lateness of the polls: what passes beyond the sleep, the wake-up and the poll itself, is at most \<open>late\<close>.\<close>

definition polls_within :: "int \<Rightarrow> instant \<Rightarrow> instant \<Rightarrow> (nat \<Rightarrow> poll) \<Rightarrow> bool" where
  "polls_within late now deadline env \<longleftrightarrow> po_time (env 0) \<le> now + late \<and>
     (\<forall>n. po_time (env (Suc n)) \<le> po_time (env n) + min (sint pollInterval) (deadline - po_time (env n)) + late)"

lemma answer_in_time:
  assumes "polls_within late now deadline env" "now \<le> deadline" "\<forall>m < n. poll_once p deadline (env m) = None"
  shows "po_time (env n) \<le> deadline + late"
proof (cases n)
  case 0
  then show ?thesis using assms(1,2) by (simp add: polls_within_def)
next
  case (Suc m)
  have "po_time (env (Suc m)) \<le> po_time (env m) + min (sint pollInterval) (deadline - po_time (env m)) + late"
    using assms(1) by (simp add: polls_within_def)
  then show ?thesis unfolding Suc by linarith
qed

text \<open>The caps of the clients, in seconds.\<close>

definition cap_seconds :: "string \<Rightarrow> nat" where
  "cap_seconds ct = (if ct \<in> {''claude.ai'', ''claude-desktop''} then 240 else if ct = ''claude-code-remote'' then 1500 else 45)"

lemma profileCap_seconds: "sint (profileCap ct) = 1000000000 * int (cap_seconds ct)"
  by (simp add: profileCap_def cap_seconds_def Second_def Minute_def)

lemma slot_given_back:
  assumes "fst (waitAcquire p h)"
  shows "waiting_count (snd (wait_for_activity p ct secs now env h)) p = waiting_count h p"
  using assms by (auto simp: wait_for_activity_def waitAcquire_def waitRelease_def waiting_count_def Let_def split: if_splits)

text \<open>
  C30: \<open>wait_for_activity\<close> returns, within the cap of the client: 240 seconds for claude.ai and the
  desktop, 25 minutes for remote Claude Code, 45 seconds for everybody else. If timers do not
  fire early, the store is polled at most once per second of that cap and once more, and the answer is that of
  the first poll that has one; if each sleep and poll is late by at most \<open>late\<close>, the answer is
  there by the end of the cap plus \<open>late\<close>. No activity is reported only after the deadline and only if no
  poll saw any. The slot is given back.
\<close>

theorem wait_returns:
  assumes deadline: "deadline = now + sint (effectiveTimeout secs ct)"
    and timers: "timers_ok deadline env" "now \<le> po_time (env 0)" and slot: "fst (waitAcquire p h)"
  shows "\<exists>n \<le> cap_seconds ct. \<exists>r. fst (wait_for_activity p ct secs now env h) = Some r \<and>
    poll_once p deadline (env n) = Some r \<and> (\<forall>m < n. poll_once p deadline (env m) = None \<and> po_time (env m) < now + 1000000000 * int (cap_seconds ct)) \<and>
    (\<forall>late. polls_within late now deadline env \<longrightarrow> po_time (env n) \<le> now + 1000000000 * int (cap_seconds ct) + late) \<and>
    (r = Inr False \<longrightarrow> (\<forall>m \<le> n. \<not> HasActivity p (st_db (po_store (env m)))) \<and> deadline \<le> po_time (env n)) \<and>
    waiting_count (snd (wait_for_activity p ct secs now env h)) p = waiting_count h p"
proof -
  have dl: "now \<le> deadline" "deadline \<le> now + 1000000000 * int (cap_seconds ct)"
    using effectiveTimeout_within [of secs ct] profileCap_seconds [of ct] by (auto simp: deadline)
  then have "deadline - po_time (env 0) \<le> int (cap_seconds ct) * 1000000000" using assms(3) by simp
  then obtain n r where n: "n \<le> cap_seconds ct" "poll_once p deadline (env n) = Some r" "\<forall>m < n. poll_once p deadline (env m) = None"
    using some_poll_answers [OF timers(1)] by blast
  have "fst (wait_for_activity p ct secs now env h) = wait_loop p deadline env 0"
    using slot by (auto simp: wait_for_activity_def deadline split: prod.split bool.split)
  also have "\<dots> = Some r" using wait_loop_first [of p deadline env n r] n by blast
  finally have run: "fst (wait_for_activity p ct secs now env h) = Some r" .
  have before: "po_time (env m) < now + 1000000000 * int (cap_seconds ct)" if "m < n" for m
    using n(3) that dl(2) by (fastforce simp: poll_once_None)
  have late: "po_time (env n) \<le> now + 1000000000 * int (cap_seconds ct) + late" if "polls_within late now deadline env" for late
    using answer_in_time [OF that dl(1) n(3)] dl(2) by linarith
  have quiet: "(\<forall>m \<le> n. \<not> HasActivity p (st_db (po_store (env m)))) \<and> deadline \<le> po_time (env n)" if "r = Inr False"
    using n that by (auto simp: poll_once_False poll_once_None le_less)
  show ?thesis
    using n run before late quiet slot_given_back [OF slot] by (intro exI [of _ n] exI [of _ r] conjI) blast+
qed

theorem wait_returns_witness:
  "\<exists>n r. fst (wait_for_activity ''eve'' ''chatgpt'' 3 0 (\<lambda>n. \<lparr>po_store = sample_store, po_time = min (int n * 1000000000) 3000000000, po_done = False\<rparr>)
      (NewHandler sample_store True)) = Some r \<and> n \<le> (45 :: nat) \<and>
    polls_within 0 0 3000000000 (\<lambda>n. \<lparr>po_store = sample_store, po_time = min (int n * 1000000000) 3000000000, po_done = False\<rparr>)"
proof -
  let ?env = "\<lambda>n. \<lparr>po_store = sample_store, po_time = min (int n * 1000000000) 3000000000, po_done = False\<rparr>"
  have three: "3000000000 = 0 + sint (effectiveTimeout 3 ''chatgpt'')"
    by (simp add: effectiveTimeout_def profileCap_def Second_def Let_def)
  have t: "timers_ok 3000000000 ?env"
    by (auto simp: timers_ok_def pollInterval_def Second_def min_def algebra_simps)
  have slot: "fst (waitAcquire ''eve'' (NewHandler sample_store True))"
    by (simp add: waitAcquire_def waiting_count_def NewHandler_def maxPerPerson_def)
  have "0 \<le> po_time (?env 0)" by simp
  from wait_returns [OF three t this slot] obtain n r where "n \<le> cap_seconds ''chatgpt''" "fst (wait_for_activity ''eve'' ''chatgpt'' 3 0 ?env (NewHandler sample_store True)) = Some r" by blast
  moreover have "cap_seconds ''chatgpt'' = 45" by (simp add: cap_seconds_def)
  moreover have "polls_within 0 0 3000000000 ?env"
    by (auto simp: polls_within_def pollInterval_def Second_def min_def algebra_simps)
  ultimately show ?thesis by auto
qed

end
