(* ===== verification/Runes.thy ===== *)
theory Runes
  imports Codec "HOL-Library.Sublist"
begin

text \<open>
  A text as a list of runes, for the regular expressions of \<open>spotlight.go\<close> and
  \<open>redact.go\<close>: a chunk is the bytes of one rune with its value, an invalid byte a chunk
  of its own with the value \<open>RuneError\<close>. A list of chunks is well cut when cutting its
  bytes gives it back; the lemmas say when a text put together from pieces stays well cut.
\<close>

section \<open>Runes of a text\<close>

type_synonym chunk = "string \<times> nat"

function chunks :: "string \<Rightarrow> chunk list" where
  "chunks s = (if s = [] then []
     else let (r, w) = decode_rune (map byte_of s) in (take w s, r) # chunks (drop w s))"
  by pat_completeness auto
termination
proof (relation "measure length", simp)
  fix s :: string and x r w
  assume "s \<noteq> []" "x = decode_rune (map byte_of s)" "(r, w) = x"
  moreover from this have "1 \<le> w" using decode_rune_size [of "map byte_of s"] by (metis Nil_is_map_conv snd_conv)
  ultimately show "(drop w s, s) \<in> measure length" by (cases s) auto
qed

declare chunks.simps [simp del]

definition bytes_of :: "chunk list \<Rightarrow> string" where
  "bytes_of cs = concat (map fst cs)"

definition ascii :: "string \<Rightarrow> chunk list" where
  "ascii s = map (\<lambda>c. ([c], byte_of c)) s"

section \<open>Classes of runes\<close>

definition letter :: "nat \<Rightarrow> bool" where
  "letter r \<longleftrightarrow> 65 \<le> r \<and> r \<le> 90 \<or> 97 \<le> r \<and> r \<le> 122 \<or> r = 383 \<or> r = 8490"

definition fold_rune :: "nat \<Rightarrow> nat" where
  "fold_rune r = (if 65 \<le> r \<and> r \<le> 90 then r + 32 else if r = 383 then 115 else if r = 8490 then 107 else r)"

definition word_char :: "nat \<Rightarrow> bool" where
  "word_char r \<longleftrightarrow> 48 \<le> r \<and> r \<le> 57 \<or> 65 \<le> r \<and> r \<le> 90 \<or> 97 \<le> r \<and> r \<le> 122 \<or> r = 95"

definition boundary :: "nat option \<Rightarrow> nat \<Rightarrow> bool" where
  "boundary prev r \<longleftrightarrow> (case prev of None \<Rightarrow> False | Some p \<Rightarrow> word_char p) \<noteq> word_char r"

section \<open>Cutting a text into runes\<close>

lemma decode_rune_width: "bs \<noteq> [] \<Longrightarrow> snd (decode_rune bs) \<le> length bs"
  by (cases bs) (auto split: list.splits)

lemma decode_rune_small:
  assumes "decode_rune bs = (r, w)" "r < 128" "bs \<noteq> []"
  shows "w = 1 \<and> r = hd bs"
proof -
  obtain b0 t where b: "bs = b0 # t" using assms(3) by (cases bs) auto
  have two: "128 \<le> (b0 - 192) * 64 + (b1 - 128)" if "194 \<le> b0" for b1 :: nat using that by linarith
  have three: "128 \<le> (b0 - 224) * 4096 + (b1 - 128) * 64 + (b2 - 128)" if "224 \<le> b0" "accept2 b0 b1" for b1 b2 :: nat
  proof (cases "b0 = 224")
    case True
    with that have "160 \<le> b1" by (simp add: accept2_def)
    then show ?thesis by linarith
  qed (use that in linarith)
  have four: "128 \<le> (b0 - 240) * 262144 + (b1 - 128) * 4096 + (b2 - 128) * 64 + (b3 - 128)"
    if "240 \<le> b0" "accept2 b0 b1" for b1 b2 b3 :: nat
  proof (cases "b0 = 240")
    case True
    with that have "144 \<le> b1" by (simp add: accept2_def)
    then show ?thesis by linarith
  qed (use that in linarith)
  have "128 \<le> fst (decode_rune bs)" if "\<not> b0 < 128"
    using that unfolding b by (simp add: RuneError_def two three four split: list.split)
  then have "b0 < 128" using assms(1,2) by fastforce
  then show ?thesis using assms(1) by (simp add: b)
qed

text \<open>What follows an ASCII byte does not matter to the rune before it.\<close>

lemma decode_rune_local:
  assumes "p \<noteq> []" "a < 128" "b < 128"
  shows "decode_rune (p @ a # q) = decode_rune (p @ b # q')"
proof -
  have n: "\<not> accept2 x a" "\<not> accept2 x b" "\<not> cont a" "\<not> cont b" for x
    using assms(2,3) by (auto simp: accept2_def cont_def)
  obtain b0 p1 where p: "p = b0 # p1" using assms(1) by (cases p) auto
  have k: "(case v of [] \<Rightarrow> z | _ # _ \<Rightarrow> z) = z" "(case v of [] \<Rightarrow> z | [_] \<Rightarrow> z | _ # _ # _ \<Rightarrow> z) = z"
    for v :: "nat list" and z :: "nat \<times> nat" by (simp_all split: list.split)
  show ?thesis unfolding p by (cases p1; cases "tl p1"; cases "tl (tl p1)") (simp_all add: n k)
qed

definition well_cut :: "chunk list \<Rightarrow> bool" where
  "well_cut cs \<longleftrightarrow> chunks (bytes_of cs) = cs"

lemma chunks_Nil [simp]: "chunks [] = []"
  by (simp add: chunks.simps)

lemma bytes_of_simps [simp]:
  "bytes_of [] = []" "bytes_of (c # cs) = fst c @ bytes_of cs" "bytes_of (xs @ ys) = bytes_of xs @ bytes_of ys"
  by (simp_all add: bytes_of_def)

lemma bytes_of_ascii [simp]: "bytes_of (ascii s) = s"
  by (induction s) (simp_all add: ascii_def)

lemma ascii_brackets:
  "ascii ''[:]'' = [(''['', 91), ('':'', 58), ('']'', 93)]" "ascii '':]'' = [('':'', 58), ('']'', 93)]"
  by (simp_all add: ascii_def byte_of_def)

lemma bytes_of_chunks [simp]: "bytes_of (chunks s) = s"
proof (induction s rule: chunks.induct)
  case (1 s)
  show ?case
  proof (cases "s = []")
    case False
    obtain r w where rw: "decode_rune (map byte_of s) = (r, w)" by (cases "decode_rune (map byte_of s)")
    with 1 False have "bytes_of (chunks (drop w s)) = drop w s" by simp
    with False rw show ?thesis by (subst chunks.simps) simp
  qed simp
qed

lemma well_cut_chunks [simp]: "well_cut (chunks s)"
  by (simp add: well_cut_def)

lemma well_cut_Nil [simp]: "well_cut []"
  by (simp add: well_cut_def)

lemma well_cut_Cons:
  "well_cut (c # cs) \<longleftrightarrow> fst c \<noteq> [] \<and>
     decode_rune (map byte_of (fst c @ bytes_of cs)) = (snd c, length (fst c)) \<and> well_cut cs"
proof -
  let ?s = "fst c @ bytes_of cs"
  obtain r w where rw: "decode_rune (map byte_of ?s) = (r, w)" by (cases "decode_rune (map byte_of ?s)")
  have u: "chunks ?s = (take w ?s, r) # chunks (drop w ?s)" if "?s \<noteq> []"
    using that rw by (subst chunks.simps) simp
  show ?thesis
  proof
    assume wc: "well_cut (c # cs)"
    then have ne: "?s \<noteq> []" by (auto simp: well_cut_def)
    with wc u have c: "c = (take w ?s, r)" "cs = chunks (drop w ?s)" by (simp_all add: well_cut_def)
    have "1 \<le> w" "w \<le> length ?s"
      using decode_rune_size [of "map byte_of ?s"] decode_rune_width [of "map byte_of ?s"] ne rw by auto
    then have "fst c \<noteq> []" "length (fst c) = w" using c(1) ne by (metis fst_conv length_take min.absorb2 list.size(3) not_one_le_zero)+
    moreover have "well_cut cs" by (subst c(2)) simp
    ultimately show "fst c \<noteq> [] \<and> decode_rune (map byte_of ?s) = (snd c, length (fst c)) \<and> well_cut cs"
      using rw c(1) by (metis snd_conv)
  next
    assume "fst c \<noteq> [] \<and> decode_rune (map byte_of ?s) = (snd c, length (fst c)) \<and> well_cut cs"
    then show "well_cut (c # cs)" using u rw by (auto simp: well_cut_def prod_eq_iff)
  qed
qed

lemma well_cut_append: "well_cut (xs @ ys) \<Longrightarrow> well_cut ys"
  by (induction xs) (simp_all add: well_cut_Cons)

lemma well_cut_ascii: "list_all (\<lambda>a. byte_of a < 128) s \<Longrightarrow> well_cut (ascii s @ cs) \<longleftrightarrow> well_cut cs"
  by (induction s) (simp_all add: ascii_def well_cut_Cons)

lemma well_cut_small:
  assumes "well_cut (c # cs)" "snd c < 128"
  shows "c = ([to_byte (snd c)], snd c)"
proof -
  have "decode_rune (map byte_of (fst c @ bytes_of cs)) = (snd c, length (fst c))" "fst c \<noteq> []"
    using assms(1) by (auto simp: well_cut_Cons)
  then have "length (fst c) = 1 \<and> snd c = byte_of (hd (fst c))"
    using decode_rune_small [of "map byte_of (fst c @ bytes_of cs)" "snd c"] assms(2) by (cases "fst c") auto
  then show ?thesis by (cases "fst c") (auto simp: prod_eq_iff)
qed

lemma well_cut_switch:
  assumes "well_cut (xs @ a # ys)" "snd a < 128" "well_cut (b # zs)" "snd b < 128"
  shows "well_cut (xs @ b # zs)"
  using assms(1)
proof (induction xs)
  case Nil
  with assms(3) show ?case by simp
next
  case (Cons c xs)
  have "a = ([to_byte (snd a)], snd a)" "b = ([to_byte (snd b)], snd b)"
    using well_cut_small [OF _ assms(2)] well_cut_small [OF assms(3,4)] well_cut_append [of "c # xs" "a # ys"] Cons.prems by auto
  then obtain x y where x: "fst a = [x]" "fst b = [y]" "x = to_byte (snd a)" "y = to_byte (snd b)"
    by (metis fst_conv)
  then have "byte_of x < 128" "byte_of y < 128" using assms(2,4) by simp_all
  note x = x(1,2) this
  have "fst c \<noteq> []" using Cons.prems by (simp add: well_cut_Cons)
  then have "decode_rune (map byte_of (fst c @ bytes_of (xs @ a # ys))) = decode_rune (map byte_of (fst c @ bytes_of (xs @ b # zs)))"
    using x decode_rune_local [of "map byte_of (fst c @ bytes_of xs)" "byte_of x" "byte_of y"] by simp
  with Cons show ?case by (simp add: well_cut_Cons)
qed

section \<open>Replacing the end of a text\<close>

lemma decode_rune_swap:
  assumes "decode_rune (p @ q) = (r, w)" "w \<le> length p" "p \<noteq> []" "z = [] \<or> \<not> cont (hd z)"
  shows "decode_rune (p @ z) = (r, w)"
proof -
  have n: "\<not> accept2 x b" if "\<not> cont b" for x b using that by (auto simp: accept2_def cont_def split: if_splits)
  obtain b0 p1 where p: "p = b0 # p1" using assms(3) by (cases p) auto
  show ?thesis
  proof (cases "length p1 < 3")
    case False
    then obtain b1 b2 b3 p4 where "p1 = b1 # b2 # b3 # p4" by (cases p1; cases "tl p1"; cases "tl (tl p1)") auto
    then have "decode_rune (p @ z) = decode_rune (p @ q)" using p by simp
    then show ?thesis using assms(1) by simp
  next
    case True
    then show ?thesis
      using assms(1,2,4) unfolding p
      by (cases p1; cases "tl p1"; cases "tl (tl p1)"; cases z)
        (auto simp: n split: if_splits list.splits)
  qed
qed

lemma well_cut_replace:
  assumes "well_cut (xs @ ys)" "well_cut zs" "zs = [] \<or> \<not> cont (byte_of (hd (bytes_of zs)))"
  shows "well_cut (xs @ zs)"
  using assms(1)
proof (induction xs)
  case Nil
  show ?case using assms(2) by simp
next
  case (Cons c xs)
  let ?p = "map byte_of (fst c @ bytes_of xs)"
  have c: "fst c \<noteq> []" "decode_rune (?p @ map byte_of (bytes_of ys)) = (snd c, length (fst c))" "well_cut (xs @ ys)"
    using Cons.prems by (simp_all add: well_cut_Cons)
  have "bytes_of zs = [] \<longrightarrow> zs = []" using assms(2) by (cases zs) (auto simp: well_cut_Cons)
  then have z: "map byte_of (bytes_of zs) = [] \<or> \<not> cont (hd (map byte_of (bytes_of zs)))"
    using assms(3) by (cases "bytes_of zs") auto
  have "decode_rune (?p @ map byte_of (bytes_of zs)) = (snd c, length (fst c))"
    by (rule decode_rune_swap [OF c(2) _ _ z]) (use c(1) in auto)
  then show ?case using c(1) Cons.IH [OF c(3)] by (simp add: well_cut_Cons)
qed

text \<open>The chunks of an ASCII part of a text are its characters.\<close>

lemma decode_rune_high:
  assumes "decode_rune (p @ q) = (r, length p)" "2 \<le> length p" "b \<in> set p" shows "128 \<le> b"
proof -
  obtain b0 b1 p2 where p: "p = b0 # b1 # p2" using assms(2) by (cases p; cases "tl p") auto
  have a: "accept2 x y \<Longrightarrow> 128 \<le> y" for x y by (auto simp: accept2_def cont_def split: if_splits)
  show ?thesis
    using assms(1,3) unfolding p
    by (cases p2; cases "tl p2") (auto dest: a simp: cont_def split: if_splits list.splits)
qed

lemma chunk_bytes:
  assumes "well_cut (c # cs)"
  shows "length (fst c) = 1 \<or> (\<forall>x \<in> set (fst c). 128 \<le> byte_of x)"
proof (cases "length (fst c) = 1")
  case False
  then have "2 \<le> length (map byte_of (fst c))" using assms by (cases "fst c") (auto simp: well_cut_Cons Suc_le_eq)
  then show ?thesis
    using decode_rune_high [of "map byte_of (fst c)" "map byte_of (bytes_of cs)" "snd c"] assms by (auto simp: well_cut_Cons)
qed simp

lemma chunk_ascii:
  assumes "well_cut (c # cs)" "x \<in> set (fst c)" "byte_of x < 128"
  shows "c = ([x], byte_of x)"
proof -
  have "fst c = [x]" using chunk_bytes [OF assms(1)] assms(2,3) by (cases "fst c") fastforce+
  then show ?thesis using assms(1,3) by (cases c) (simp add: well_cut_Cons)
qed

lemma ascii_prefix:
  "well_cut cs \<Longrightarrow> bytes_of cs = k @ post \<Longrightarrow> list_all (\<lambda>x. byte_of x < 128) k \<Longrightarrow> \<exists>c3. cs = ascii k @ c3"
proof (induction k arbitrary: cs)
  case Nil
  then show ?case by (simp add: ascii_def)
next
  case (Cons x k)
  obtain c cs' where cs: "cs = c # cs'" using Cons.prems(2) by (cases cs) auto
  have ne: "fst c \<noteq> []" and wc: "well_cut cs'" using Cons.prems(1) cs by (simp_all add: well_cut_Cons)
  have "hd (fst c) = x" using Cons.prems(2) ne cs by (cases "fst c") auto
  then have "x \<in> set (fst c)" using ne hd_in_set by blast
  with chunk_ascii have c: "c = ([x], byte_of x)" using Cons.prems(1,3) cs by auto
  then have "bytes_of cs' = k @ post" using Cons.prems(2) cs by simp
  from Cons.IH [OF wc this] show ?case using Cons.prems(3) cs c by (auto simp: ascii_def)
qed

lemma ascii_part:
  assumes "well_cut cs" "bytes_of cs = pre @ k @ post" "list_all (\<lambda>x. byte_of x < 128) k"
  shows "\<exists>c1 c3. cs = c1 @ ascii k @ c3"
  using assms
proof (induction cs arbitrary: pre k)
  case Nil
  then show ?case by (simp add: ascii_def)
next
  case (Cons c cs)
  have wc: "well_cut cs" and ne: "fst c \<noteq> []" using Cons.prems(1) by (simp_all add: well_cut_Cons)
  show ?case
  proof (cases "k = []")
    case True
    then have "c # cs = [] @ ascii k @ c # cs" by (simp add: ascii_def)
    then show ?thesis by blast
  next
    case False
    then obtain x k' where k: "k = x # k'" by (cases k) auto
    show ?thesis
    proof (cases "length (fst c) \<le> length pre")
      case True
      then obtain pre' where "pre = fst c @ pre'"
        using Cons.prems(2) by (metis append_eq_append_conv_if append_take_drop_id bytes_of_simps(2))
      then have "bytes_of cs = pre' @ k @ post" using Cons.prems(2) by simp
      from Cons.IH [OF wc this Cons.prems(3)] obtain c1 c3 where "cs = c1 @ ascii k @ c3" by blast
      then show ?thesis by (metis append_Cons)
    next
      case False
      have "(fst c @ bytes_of cs) ! length pre = x" using Cons.prems(2) by (simp add: k)
      then have "fst c ! length pre = x" using False by (simp add: nth_append)
      then have "c = ([x], byte_of x)"
        using chunk_ascii [OF Cons.prems(1)] Cons.prems(3) False nth_mem [of "length pre" "fst c"] by (simp add: k)
      then have "bytes_of (c # cs) = k @ post" using False Cons.prems(2) by (cases pre) auto
      from ascii_prefix [OF Cons.prems(1) this Cons.prems(3)] show ?thesis by (metis append_Nil)
    qed
  qed
qed

end
