(* ===== verification/Mcp.thy ===== *)
theory Mcp
  imports McpWait Spotlight
begin

text \<open>
  The MCP tools: \<open>internal/relay/mcp/\<close> (\<open>check_inbox.go\<close>, \<open>get_thread.go\<close>,
  \<open>verdicts.go\<close>, \<open>outbound.go\<close>). A tool is a function of the authenticated person, its
  input, the clock readings it takes and the handler; it returns the output the client gets, or
  the sanitized error, with the handler afterwards. Fresh ids are arguments (the code draws
  UUIDs), as are the nonces of the spotlighted messages.
\<close>

section \<open>Reading\<close>

record inbox_entry =
  ie_ID :: string
  ie_ThreadID :: string
  ie_Kind :: string

record inbox_output =
  io_ToApprove :: "inbox_entry list"
  io_ToReview :: "inbox_entry list"

text \<open>\<open>strings.TrimRight(s, "\n")\<close>\<close>

definition trim_newlines :: "string \<Rightarrow> string" where
  "trim_newlines s = rev (dropWhile (\<lambda>c. c = nl) (rev s))"

definition decodable :: "string \<Rightarrow> bool" where
  "decodable blob \<longleftrightarrow> (case Decode blob of Inl _ \<Rightarrow> False | Inr _ \<Rightarrow> True)"

text \<open>
  The text of a list of stored messages \<open>(envelope, sender's email)\<close>, each shown in its own
  block; one that does not decode is skipped. \<open>rnd n\<close> is the nonce of the n-th block.
\<close>

fun spotlight_all :: "(nat \<Rightarrow> bool) \<Rightarrow> (nat \<Rightarrow> string) \<Rightarrow> string \<Rightarrow> nat \<Rightarrow> (string \<times> string) list \<Rightarrow> string" where
  "spotlight_all pr rnd state n [] = []"
| "spotlight_all pr rnd state n ((blob, email) # ms) =
     (case Decode blob of
        Inl _ \<Rightarrow> spotlight_all pr rnd state n ms
      | Inr e \<Rightarrow> Spotlight pr (rnd n) e (email @ '' (device verified)'') state @ [nl, nl] @
                 spotlight_all pr rnd state (Suc n) ms)"

definition draft_entry :: "draft_item \<Rightarrow> inbox_entry" where
  "draft_entry d = \<lparr>ie_ID = di_DraftID d, ie_ThreadID = di_ThreadID d, ie_Kind = ''draft''\<rparr>"

definition check_inbox :: "(nat \<Rightarrow> bool) \<Rightarrow> (nat \<Rightarrow> string) \<Rightarrow> string \<Rightarrow> handler \<Rightarrow> (tool_error + inbox_output \<times> string) \<times> handler" where
  "check_inbox pr rnd person h =
     (case reads (\<lambda>d. Inr (InboundAwaiting person d)) (h_store h) of
        Inl _ \<Rightarrow> (Inl errInternal, h)
      | Inr inbound \<Rightarrow>
         (case reads (\<lambda>d. Inr (DraftsAwaitingReview person d)) (h_store h) of
            Inl _ \<Rightarrow> (Inl errInternal, h)
          | Inr ds \<Rightarrow>
              (Inr (\<lparr>io_ToApprove = map (\<lambda>it. \<lparr>ie_ID = ib_MessageID it, ie_ThreadID = ib_ThreadID it, ie_Kind = ''message''\<rparr>)
                        (filter (\<lambda>it. decodable (ib_Envelope it)) inbound),
                     io_ToReview = map draft_entry ds\<rparr>,
                    trim_newlines (spotlight_all pr rnd ''input-required'' 0
                      (map (\<lambda>it. (ib_Envelope it, ib_SenderEmail it)) inbound))), h)))"

record thread_msg =
  tg_ID :: string
  tg_From :: string

record thread_output =
  to_ThreadID :: string
  to_State :: string
  to_Messages :: "thread_msg list"
  to_Drafts :: "inbox_entry list"

definition get_thread :: "(nat \<Rightarrow> bool) \<Rightarrow> (nat \<Rightarrow> string) \<Rightarrow> string \<Rightarrow> string \<Rightarrow> handler \<Rightarrow> (tool_error + thread_output \<times> string) \<times> handler" where
  "get_thread pr rnd person threadID h =
     (case reads (ThreadFor person threadID) (h_store h) of
        Inl ErrNotFound \<Rightarrow> (Inl errNotFound, h)
      | Inl _ \<Rightarrow> (Inl errInternal, h)
      | Inr view \<Rightarrow>
          (Inr (\<lparr>to_ThreadID = tv_ThreadID view, to_State = tv_State view,
                 to_Messages = map (\<lambda>m. \<lparr>tg_ID = tm_MessageID m, tg_From = tm_SenderEmail m\<rparr>)
                   (filter (\<lambda>m. decodable (tm_Envelope m)) (tv_Messages view)),
                 to_Drafts = map draft_entry (tv_Drafts view)\<rparr>,
                trim_newlines (spotlight_all pr rnd (tv_State view) 0
                  (map (\<lambda>m. (tm_Envelope m, tm_SenderEmail m)) (tv_Messages view)))), h))"

section \<open>Verdicts on inbound messages\<close>

record verdict_output =
  vo_ID :: string
  vo_ThreadState :: string

definition verdict_tool :: "(string \<Rightarrow> store \<Rightarrow> (store_error + thread_state) \<times> store) \<Rightarrow> string \<Rightarrow> handler \<Rightarrow>
    (tool_error + verdict_output) \<times> handler" where
  "verdict_tool apply_verdict i h =
     (case apply_verdict i (h_store h) of
        (r, s') \<Rightarrow>
          ((case r of
              Inl ErrNotFound \<Rightarrow> Inl errNotFound
            | Inl (GateErr ErrIllegalTransition) \<Rightarrow> Inl errNotAwaiting
            | Inl _ \<Rightarrow> Inl errInternal
            | Inr state \<Rightarrow> Inr \<lparr>vo_ID = i, vo_ThreadState = state\<rparr>), h\<lparr>h_store := s'\<rparr>))"

definition approve_message :: "string \<Rightarrow> string \<Rightarrow> instant \<Rightarrow> handler \<Rightarrow> (tool_error + verdict_output) \<times> handler" where
  "approve_message person i now = verdict_tool (\<lambda>i. ApproveInboundMessage person i now) i"

definition decline_message :: "string \<Rightarrow> string \<Rightarrow> instant \<Rightarrow> handler \<Rightarrow> (tool_error + verdict_output) \<times> handler" where
  "decline_message person i now = verdict_tool (\<lambda>i. DeclineInboundMessage person i now) i"

record grant_io =
  gi_ThreadID :: string
  gi_Direction :: string
  gi_Enabled :: bool

definition set_thread_grant :: "string \<Rightarrow> string \<Rightarrow> grant_io \<Rightarrow> instant \<Rightarrow> handler \<Rightarrow> (tool_error + grant_io) \<times> handler" where
  "set_thread_grant gid person i now h =
     (case (if gi_Enabled i then SetThreadGrant gid (gi_ThreadID i) person (gi_Direction i) now (h_store h)
            else RevokeThreadGrant (gi_ThreadID i) person (gi_Direction i) now (h_store h)) of
        (r, s') \<Rightarrow>
          ((case r of
              Inl (GateErr ErrWrongDirection) \<Rightarrow> Inl errDirection
            | Inl ErrNotParticipant \<Rightarrow> Inl errNotFound
            | Inl ErrNotFound \<Rightarrow> if \<not> gi_Enabled i then Inr i else Inl errInternal
            | Inl _ \<Rightarrow> Inl errInternal
            | Inr _ \<Rightarrow> Inr i), h\<lparr>h_store := s'\<rparr>))"

section \<open>Outbound messages\<close>

record send_input =
  si_To :: string
  si_Text :: string
  si_Thread :: string

record send_output =
  so_DraftID :: string
  so_ThreadID :: string
  so_State :: string

text \<open>
  \<open>fresh\<close>: the ids that \<open>StartThread\<close> and \<open>envelope.New\<close> mint and the time
  \<open>envelope.New\<close> reads.
\<close>

record fresh_ids =
  fr_thread :: string
  fr_message :: string
  fr_sent :: instant

definition ask_envelope :: "fresh_ids \<Rightarrow> string \<Rightarrow> string \<Rightarrow> string \<Rightarrow> string \<Rightarrow> envelope" where
  "ask_envelope fr person recipient threadID body =
     New \<lparr>pt_person = person, pt_device = [], pt_agent = []\<rparr> recipient threadID StateSubmitted True
       \<lparr>msg_role = ''agent'', msg_parts = Some [\<lparr>part_type = ''text'', part_text = body\<rparr>]\<rparr>
       (fr_thread fr) (fr_message fr) (fr_sent fr)"

definition send_message :: "(string \<Rightarrow> bool) \<Rightarrow> fresh_ids \<Rightarrow> string \<Rightarrow> send_input \<Rightarrow> instant \<Rightarrow> handler \<Rightarrow>
    (tool_error + send_output) \<times> handler" where
  "send_message uuid_ok fr person i now h =
     (if MaxBodyBytes < length (si_Text i) then (Inl errTooLong, h)
      else case reads (PersonByEmail (si_To i)) (h_store h) of
        Inl ErrNotFound \<Rightarrow> (Inl errNotOnRoster, h)
      | Inl _ \<Rightarrow> (Inl errInternal, h)
      | Inr recipient \<Rightarrow>
          if pe_ID recipient = person then (Inl errSelf, h)
          else case (if si_Thread i = [] then StartThread (fr_thread fr) person (pe_ID recipient) now (h_store h)
                     else (Inr (si_Thread i), h_store h)) of
            (Inl _, s1) \<Rightarrow> (Inl errInternal, h\<lparr>h_store := s1\<rparr>)
          | (Inr threadID, s1) \<Rightarrow>
              (case CreateDraft uuid_ok threadID person (ask_envelope fr person (pe_ID recipient) threadID (si_Text i)) now s1 of
                 (Inl er, s2) \<Rightarrow>
                   (Inl (if er = ErrNotParticipant \<or> er = ErrNotFound then errNotFound else errInternal), h\<lparr>h_store := s2\<rparr>)
               | (Inr draftID, s2) \<Rightarrow>
                   (case ReleaseReplyViaGrant draftID person now s2 of
                      (Inl _, s3) \<Rightarrow> (Inl errInternal, h\<lparr>h_store := s3\<rparr>)
                    | (Inr (recipientID, rel), s3) \<Rightarrow>
                        (case rel of
                           None \<Rightarrow> (Inr \<lparr>so_DraftID = draftID, so_ThreadID = threadID, so_State = ''pending_review''\<rparr>,
                                    h\<lparr>h_store := s3\<rparr>)
                         | Some _ \<Rightarrow> (Inr \<lparr>so_DraftID = draftID, so_ThreadID = threadID, so_State = ''sent''\<rparr>,
                                      notify recipientID (h\<lparr>h_store := s3\<rparr>))))))"

definition mapReplyErr :: "store_error \<Rightarrow> tool_error" where
  "mapReplyErr err =
     (case err of ErrNotFound \<Rightarrow> errNotFound
      | GateErr ErrIllegalTransition \<Rightarrow> errNotReviewable
      | _ \<Rightarrow> errInternal)"

record reply_output =
  ro_ID :: string
  ro_State :: string

definition approve_reply :: "string \<Rightarrow> string \<Rightarrow> string option \<Rightarrow> instant \<Rightarrow> handler \<Rightarrow> (tool_error + reply_output) \<times> handler" where
  "approve_reply person i edited now h =
     (if (case edited of None \<Rightarrow> False | Some body \<Rightarrow> MaxBodyBytes < length body) then (Inl errTooLong, h)
      else case ReleaseDraft person i edited now (h_store h) of
        (Inl err, s') \<Rightarrow> (Inl (mapReplyErr err), h\<lparr>h_store := s'\<rparr>)
      | (Inr (recipientID, _), s') \<Rightarrow>
          (Inr \<lparr>ro_ID = i, ro_State = ''sent''\<rparr>, notify recipientID (h\<lparr>h_store := s'\<rparr>)))"

definition discard_reply :: "string \<Rightarrow> string \<Rightarrow> instant \<Rightarrow> handler \<Rightarrow> (tool_error + reply_output) \<times> handler" where
  "discard_reply person i now h =
     (case DiscardDraft person i now (h_store h) of
        (Inl err, s') \<Rightarrow> (Inl (mapReplyErr err), h\<lparr>h_store := s'\<rparr>)
      | (Inr _, s') \<Rightarrow> (Inr \<lparr>ro_ID = i, ro_State = ''discarded''\<rparr>, h\<lparr>h_store := s'\<rparr>))"

section \<open>The server of a request\<close>

datatype tool_call =
    CheckInbox
  | GetThread string
  | WaitForActivity "64 word" "nat \<Rightarrow> poll"
  | ApproveMessage string
  | DeclineMessage string
  | SetThreadGrantCall string grant_io
  | SendMessage fresh_ids send_input
  | ApproveReply string "string option"
  | DiscardReply string

datatype tool_output =
    InboxOut inbox_output string
  | ThreadOut thread_output string
  | WaitOut bool
  | VerdictOut verdict_output
  | GrantOut grant_io
  | SendOut send_output
  | ReplyOut reply_output

definition answer :: "('a \<Rightarrow> tool_output) \<Rightarrow> (tool_error + 'a) \<times> handler \<Rightarrow> (tool_error + tool_output) option \<times> handler" where
  "answer f = map_prod (Some \<circ> map_sum id f) id"

text \<open>\<open>serverFor\<close>: every tool, bound to the person; no answer stands for a call that never returns.\<close>

fun serverFor :: "(string \<Rightarrow> bool) \<Rightarrow> (nat \<Rightarrow> bool) \<Rightarrow> (nat \<Rightarrow> string) \<Rightarrow> string \<Rightarrow> string \<Rightarrow> tool_call \<Rightarrow> instant \<Rightarrow> handler \<Rightarrow>
    (tool_error + tool_output) option \<times> handler" where
  "serverFor uuid_ok pr rnd person ct CheckInbox now h = answer (\<lambda>(out, t). InboxOut out t) (check_inbox pr rnd person h)"
| "serverFor uuid_ok pr rnd person ct (GetThread th) now h = answer (\<lambda>(out, t). ThreadOut out t) (get_thread pr rnd person th h)"
| "serverFor uuid_ok pr rnd person ct (WaitForActivity secs env) now h =
     map_prod (map_option (map_sum id WaitOut)) id (wait_for_activity person ct secs now env h)"
| "serverFor uuid_ok pr rnd person ct (ApproveMessage i) now h = answer VerdictOut (approve_message person i now h)"
| "serverFor uuid_ok pr rnd person ct (DeclineMessage i) now h = answer VerdictOut (decline_message person i now h)"
| "serverFor uuid_ok pr rnd person ct (SetThreadGrantCall gid i) now h = answer GrantOut (set_thread_grant gid person i now h)"
| "serverFor uuid_ok pr rnd person ct (SendMessage fr i) now h = answer SendOut (send_message uuid_ok fr person i now h)"
| "serverFor uuid_ok pr rnd person ct (ApproveReply i edited) now h = answer ReplyOut (approve_reply person i edited now h)"
| "serverFor uuid_ok pr rnd person ct (DiscardReply i) now h = answer ReplyOut (discard_reply person i now h)"

text \<open>
  \<open>getServer\<close>: the person and client type the bearer middleware put into the request's
  context; without them the server has no tools, and nothing runs.
\<close>

definition getServer :: "(string \<Rightarrow> bool) \<Rightarrow> (nat \<Rightarrow> bool) \<Rightarrow> (nat \<Rightarrow> string) \<Rightarrow> (string \<times> string) option \<Rightarrow>
    tool_call \<Rightarrow> instant \<Rightarrow> handler \<Rightarrow> (tool_error + tool_output) option \<times> handler" where
  "getServer uuid_ok pr rnd ctx call now h =
     (case ctx of None \<Rightarrow> (None, h)
      | Some (person, clientType) \<Rightarrow> serverFor uuid_ok pr rnd person clientType call now h)"

end
