(* ===== verification/Confinement.thy ===== *)
theory Confinement
  imports Mcp
begin

text \<open>
  What a tool call can do to the relay: everything a call changes belongs to the person it was
  made for. \<open>confined p\<close> says so of a change of the database; the locale \<open>confined_tx\<close>
  carries it from a transaction to the store operation that runs it, the locale
  \<open>tool_relation\<close> from the operations to the tools.
\<close>

section \<open>Confined changes\<close>

definition confined :: "string \<Rightarrow> database \<Rightarrow> database \<Rightarrow> bool" where
  "confined p d d' \<longleftrightarrow>
     persons d' = persons d \<and> devices d' = devices d \<and> invites d' = invites d \<and>
     oauth_clients d' = oauth_clients d \<and> oauth_codes d' = oauth_codes d \<and> oauth_refresh d' = oauth_refresh d \<and>
     (\<exists>new. messages d' = messages d @ new \<and> (\<forall>m \<in> set new. m_sender m = p)) \<and>
     (\<exists>new. deliveries d' = deliveries d @ new) \<and>
     (\<exists>new. tombstones d' = tombstones d @ new) \<and>
     filter (\<lambda>r. dr_author r \<noteq> p) (drafts d') = filter (\<lambda>r. dr_author r \<noteq> p) (drafts d) \<and>
     filter (\<lambda>r. g_person r \<noteq> p) (grants d') = filter (\<lambda>r. g_person r \<noteq> p) (grants d) \<and>
     filter (\<lambda>t. \<not> in_thread p t) (threads d') = filter (\<lambda>t. \<not> in_thread p t) (threads d)"

lemma confined_refl [simp]: "confined p d d"
  by (simp add: confined_def)

lemma confined_trans: "confined p d1 d2 \<Longrightarrow> confined p d2 d3 \<Longrightarrow> confined p d1 d3"
  unfolding confined_def by (elim conjE exE, intro conjI) auto

lemma filter_update_where:
  "(\<And>r. r \<in> set rows \<Longrightarrow> P r \<Longrightarrow> \<not> Q r \<and> \<not> Q (f r)) \<Longrightarrow> filter Q (update_where P f rows) = filter Q rows"
  by (induction rows) (auto simp: sql_simps)

lemma confined_drafts:
  "filter (\<lambda>r. dr_author r \<noteq> p) ds = filter (\<lambda>r. dr_author r \<noteq> p) (drafts d) \<Longrightarrow> confined p d (d\<lparr>drafts := ds\<rparr>)"
  and confined_grants:
  "filter (\<lambda>r. g_person r \<noteq> p) gs = filter (\<lambda>r. g_person r \<noteq> p) (grants d) \<Longrightarrow> confined p d (d\<lparr>grants := gs\<rparr>)"
  and confined_threads:
  "filter (\<lambda>t. \<not> in_thread p t) ts = filter (\<lambda>t. \<not> in_thread p t) (threads d) \<Longrightarrow> confined p d (d\<lparr>threads := ts\<rparr>)"
  by (simp_all add: confined_def)

lemma only_thread:
  assumes "schema_ok d" "t \<in> set (threads d)" "t' \<in> set (threads d)" "t_id t' = t_id t"
  shows "t' = t"
  using distinct_key_unique [of t_id "threads d" t' t] schema_okD(4) [OF assms(1)] assms by (simp add: threads_ok_def)

lemma confined_with_state:
  assumes "schema_ok d" "t \<in> set (threads d)" "t_id t = th" "in_thread p t"
  shows "confined p d (with_state th st now d)"
  unfolding with_state_def
  using only_thread [OF assms(1,2)] assms(3,4)
  by (intro confined_threads filter_update_where) (auto simp: in_thread_def)

text \<open>A draft of one's own: marking it or editing it is confined.\<close>

lemma own_draft:
  assumes "relay_inv d" "loadDraft i d = Inr (th, p, st, payload)" "r \<in> set (drafts d)" "dr_id r = i"
  shows "dr_author r = p"
proof -
  obtain r' where "r' \<in> set (drafts d)" "dr_id r' = i" "dr_author r' = p"
    using assms(2) by (auto simp: loadDraft_Inr [OF assms(1)])
  then show ?thesis
    using distinct_key_unique [of dr_id "drafts d" r r'] assms schema_okD(8) [OF relay_inv_schema [OF assms(1)]]
    by (simp add: drafts_ok_def)
qed

lemma confined_decision:
  "(\<And>r. r \<in> set (drafts d) \<Longrightarrow> dr_id r = i \<Longrightarrow> dr_author r = p) \<Longrightarrow> confined p d (with_decision i st b now d)"
  unfolding with_decision_def by (intro confined_drafts filter_update_where) (auto simp: decided_draft_def)

lemma confined_edit:
  "(\<And>r. r \<in> set (drafts d) \<Longrightarrow> dr_id r = i \<Longrightarrow> dr_author r = p) \<Longrightarrow> confined p d (with_envelope i blob d)"
  unfolding with_envelope_def by (intro confined_drafts filter_update_where) auto

lemma with_envelope_owner:
  assumes "r \<in> set (drafts (with_envelope i blob d))"
  obtains r0 where "r0 \<in> set (drafts d)" "dr_id r0 = dr_id r" "dr_author r0 = dr_author r"
proof -
  from assms have "r \<in> set (update_where (\<lambda>r. dr_id r = i) (\<lambda>r. r\<lparr>dr_envelope := blob\<rparr>) (drafts d))"
    by (simp add: with_envelope_def)
  then obtain r0 where "r0 \<in> set (drafts d)" "r = (if dr_id r0 = i then r0\<lparr>dr_envelope := blob\<rparr> else r0)"
    by (rule in_update_whereE)
  then show ?thesis using that [of r0] by simp
qed

text \<open>A message of one's own joins a thread one is a party of.\<close>

lemma confined_ingest:
  assumes "ingestTx e p now d = Inr d'" "schema_ok d"
  shows "confined p d d'"
proof -
  let ?t = "thread_of e p now d"
  let ?f = "\<lambda>r. r\<lparr>t_state := StateInputRequired, t_updated := unix_sec now\<rparr>"
  obtain blob new where new: "new = (if select_first (\<lambda>r. t_id r = env_Thread e) (threads d) = None then [?t] else [])"
    and parts: "{p, env_To e} = {t_initiator ?t, t_recipient ?t}"
    and d': "d' = d\<lparr>messages := messages d @ [ingested e p now blob],
                tombstones := tombstones d @ [\<lparr>ts_id = env_ID e, ts_sent = unix_sec (t_ns (env_SentAt e))\<rparr>],
                threads := update_where (\<lambda>r. t_id r = env_Thread e) ?f (threads d @ new),
                deliveries := deliveries d @
                  map (\<lambda>i. \<lparr>dl_message = env_ID e, dl_device = i, dl_delivered = None, dl_acked = None\<rparr>)
                    (active_devices d (env_To e))\<rparr>"
    using assms(1) by (elim ingestTx_Inr) blast
  have "p \<in> {t_initiator ?t, t_recipient ?t}" using parts by blast
  then have t: "in_thread p ?t" "t_id ?t = env_Thread e" using thread_of_in [OF new] by (auto simp: in_thread_def)
  have mine: "in_thread p r" if "r \<in> set (threads d @ new)" "t_id r = env_Thread e" for r
  proof (cases "select_first (\<lambda>r. t_id r = env_Thread e) (threads d)")
    case None
    then have "r \<in> set new" using that by (auto simp: select_first_None)
    then show ?thesis using new t by (simp split: if_splits)
  next
    case (Some x)
    then have "x \<in> set (threads d)" "t_id x = env_Thread e" "?t = x" "new = []"
      using new by (auto dest: select_first_Some simp: thread_of_def)
    then have "r = ?t" using only_thread [OF assms(2), of x r] that by simp
    then show ?thesis using t by simp
  qed
  have "filter (\<lambda>r. \<not> in_thread p r) (update_where (\<lambda>r. t_id r = env_Thread e) ?f (threads d @ new)) =
      filter (\<lambda>r. \<not> in_thread p r) (threads d @ new)"
    using mine by (intro filter_update_where) (auto simp: in_thread_def)
  also have "\<dots> = filter (\<lambda>r. \<not> in_thread p r) (threads d)" using new t by simp
  finally show ?thesis by (auto simp: confined_def d' ingested_def)
qed

lemma confined_deliver:
  assumes "deliverInTx payload p now d = Inr (rid, d')" "relay_inv d"
  shows "confined p d d'"
  using assms(1) by (auto simp: deliverInTx_Inr intro: confined_ingest [OF _ relay_inv_schema [OF assms(2)]])

section \<open>Confined transactions\<close>

locale confined_tx = tx_keeps fn relay_inv for fn :: "'a tx" +
  fixes p :: string
  assumes stays: "relay_inv d \<Longrightarrow> fn d = Inr (x, d') \<Longrightarrow> confined p d d'"
begin

lemma op_confined:
  assumes "relay_inv (st_db s)" "writeTx fn s = (r, s')"
  shows "relay_inv (st_db s') \<and> confined p (st_db s) (st_db s')"
proof (cases r)
  case (Inl e)
  then show ?thesis using assms by (auto dest: writeTx_Inl)
next
  case (Inr x)
  then obtain d' where "fn (st_db s) = Inr (x, d')" "st_db s' = d'" using assms(2) by (auto simp: writeTx_Inr)
  then show ?thesis using keeps [OF assms(1)] stays [OF assms(1)] by simp
qed

end

interpretation verdict_confined: confined_tx "inboundVerdictTx p mid v now" p for p mid v now
proof unfold_locales
  fix d x d'
  assume i: "relay_inv d" and r: "inboundVerdictTx p mid v now d = Inr (x, d')"
  then obtain m t where "(m, t) \<in> set (verdict_rows mid d)" "may_decide p m t" "d' = with_state (m_thread m) x now d"
    unfolding inboundVerdictTx_iff [OF i] by blast
  then show "confined p d d'"
    using confined_with_state [OF relay_inv_schema [OF i], of t "m_thread m" p]
    by (auto simp: set_verdict_rows may_decide_def in_thread_def)
qed

interpretation set_grant_confined: confined_tx "unit_tx (setGrantTx gid th p dir now)" p for gid th p dir now
proof unfold_locales
  fix d x d'
  assume "unit_tx (setGrantTx gid th p dir now) d = Inr (x, d')"
  then show "confined p d d'"
    by (auto simp: setGrantTx_def rbind_Inr_iff exec_Inr intro: confined_grants split: option.splits)
qed

interpretation revoke_grant_confined: confined_tx "unit_tx (revokeGrantTx th p dir now)" p for th p dir now
proof unfold_locales
  fix d x d'
  assume i: "relay_inv d" and r: "unit_tx (revokeGrantTx th p dir now) d = Inr (x, d')"
  then have "d' = d\<lparr>grants := update_where (active_grant th p dir) (revoked_at (unix_sec now)) (grants d)\<rparr>"
    by (auto simp: revokeGrantTx_eq split: if_splits)
  then show "confined p d d'"
    by (auto simp: active_grant_def revoked_at_def intro!: confined_grants filter_update_where)
qed

interpretation start_thread_confined: confined_tx "unit_tx (startThreadTx i p b now)" p for i p b now
  by unfold_locales (auto simp: startThreadTx_def exec_Inr in_thread_def intro!: confined_threads)

interpretation create_draft_confined: confined_tx "unit_tx (createDraftTx th p e blob now)" p for th p e blob now
proof unfold_locales
  fix d x d'
  assume i: "relay_inv d" and r: "unit_tx (createDraftTx th p e blob now) d = Inr (x, d')"
  then show "confined p d d'" by (auto simp: createDraftTx_iff intro: confined_drafts)
qed

interpretation discard_confined: confined_tx "unit_tx (discardDraftTx p i now)" p for p i now
proof unfold_locales
  fix d x d'
  assume i: "relay_inv d" and r: "unit_tx (discardDraftTx p i now) d = Inr (x, d')"
  then show "confined p d d'" using own_draft [OF i] by (auto simp: discardDraftTx_Inr intro!: confined_decision)
qed

interpretation release_confined: confined_tx "releaseDraftTx p i edit now" p for p i edit now
proof unfold_locales
  fix d x d'
  assume inv: "relay_inv d" and r: "releaseDraftTx p i edit now d = Inr (x, d')"
  obtain rid rel where x: "x = (rid, rel)" by (cases x)
  then obtain th payload0 payload d1 where l: "loadDraft i d = Inr (th, p, PendingReview, payload0)"
      and e: "applyEdit i payload0 edit d = Inr (payload, d1)"
      and v: "deliverInTx payload p now (with_decision i Sent False now d1) = Inr (rid, d')"
    using r unfolding x releaseDraftTx_Inr [OF inv] by blast
  note own = own_draft [OF inv l]
  have inv1: "relay_inv d1" by (rule applyEdit_inv [OF inv e])
  have edit: "confined p d (with_envelope i blob d) \<and> (\<forall>r \<in> set (drafts (with_envelope i blob d)). dr_id r = i \<longrightarrow> dr_author r = p)" for blob
  proof
    show "confined p d (with_envelope i blob d)" using own by (rule confined_edit)
    show "\<forall>r \<in> set (drafts (with_envelope i blob d)). dr_id r = i \<longrightarrow> dr_author r = p"
      using own with_envelope_owner by metis
  qed
  have "d1 = d \<or> (\<exists>blob. d1 = with_envelope i blob d)"
    using e unfolding applyEdit_Inr [OF inv] by (cases edit) auto
  then have "confined p d d1 \<and> (\<forall>r \<in> set (drafts d1). dr_id r = i \<longrightarrow> dr_author r = p)"
  proof
    assume "d1 = d"
    then show ?thesis using own by (simp only: confined_refl) blast
  next
    assume "\<exists>blob. d1 = with_envelope i blob d"
    then obtain blob where d1: "d1 = with_envelope i blob d" by blast
    show ?thesis unfolding d1 by (rule edit)
  qed
  moreover from this have "confined p d1 (with_decision i Sent False now d1)" by (intro confined_decision) blast
  moreover have "confined p (with_decision i Sent False now d1) d'"
    using confined_deliver [OF v with_decision_inv [OF inv1]] by simp
  ultimately show "confined p d d'" by (blast intro: confined_trans)
qed

interpretation grant_release_confined: confined_tx "releaseViaGrantTx i p now" p for i p now
proof unfold_locales
  fix d x d'
  assume inv: "relay_inv d" and r: "releaseViaGrantTx i p now d = Inr (x, d')"
  obtain rid rel where x: "x = (rid, rel)" by (cases x)
  obtain th author cur payload where l: "loadDraft i d = Inr (th, author, cur, payload)"
    and c: "d' = d \<or> author = p \<and> deliverInTx payload p now (with_decision i Sent True now d) = Inr (rid, d')"
    using r unfolding x releaseViaGrantTx_cases [OF inv] by (auto split: if_splits)
  from c show "confined p d d'"
  proof
    assume a: "author = p \<and> deliverInTx payload p now (with_decision i Sent True now d) = Inr (rid, d')"
    have "confined p d (with_decision i Sent True now d)" using own_draft [OF inv] l a by (intro confined_decision) blast
    moreover have "confined p (with_decision i Sent True now d) d'"
      using confined_deliver [OF _ with_decision_inv [OF inv]] a by blast
    ultimately show ?thesis by (rule confined_trans)
  qed simp
qed

section \<open>Tools as sequences of operations\<close>

lemma notify_store [simp]: "h_store (notify q h) = h_store h"
  by (simp add: notify_def split: option.split)

lemma wait_store: "wait_for_activity p ct secs now env h = (r, h') \<Longrightarrow> h_store h' = h_store h"
  by (auto simp: wait_for_activity_def waitAcquire_def waitRelease_def Let_def split: prod.splits bool.splits if_splits)

lemma check_inbox_same: "snd (check_inbox pr rnd p h) = h"
  and get_thread_same: "snd (get_thread pr rnd p th h) = h"
  by (simp_all add: check_inbox_def get_thread_def split: sum.split store_error.split)

text \<open>
  A relation between the store before and after that every operation a tool may call satisfies, for
  the caller's person, and that sequences of operations preserve: then every tool call satisfies it.
\<close>

locale tool_relation =
  fixes p :: string and uuid_ok :: "string \<Rightarrow> bool" and R :: "instant \<Rightarrow> store \<Rightarrow> store \<Rightarrow> bool"
  assumes refl: "R now s s"
    and trans: "R now s1 s2 \<Longrightarrow> R now s2 s3 \<Longrightarrow> R now s1 s3"
    and approve: "ApproveInboundMessage p mid now s = (r1, s') \<Longrightarrow> R now s s'"
    and decline: "DeclineInboundMessage p mid now s = (r1, s') \<Longrightarrow> R now s s'"
    and set_grant: "SetThreadGrant gid th p dir now s = (r2, s') \<Longrightarrow> R now s s'"
    and revoke_grant: "RevokeThreadGrant th p dir now s = (r2, s') \<Longrightarrow> R now s s'"
    and start: "StartThread i p b now s = (r3, s') \<Longrightarrow> R now s s'"
    and create: "CreateDraft uuid_ok th p e now s = (r3, s') \<Longrightarrow> R now s s'"
    and release: "ReleaseDraft p i edit now s = (r4, s') \<Longrightarrow> R now s s'"
    and discard: "DiscardDraft p i now s = (r2, s') \<Longrightarrow> R now s s'"
    and via_grant: "ReleaseReplyViaGrant i p now s = (r4, s') \<Longrightarrow> R now s s'"
begin

lemma set_thread_grant_related:
  "set_thread_grant gid p i now h = (r, h') \<Longrightarrow> R now (h_store h) (h_store h')"
  by (auto simp: set_thread_grant_def split: prod.splits if_splits dest: set_grant revoke_grant)

lemma verdict_tool_related:
  "approve_message p i now h = (r, h') \<Longrightarrow> R now (h_store h) (h_store h')"
  "decline_message p i now h = (r, h') \<Longrightarrow> R now (h_store h) (h_store h')"
  by (auto simp: approve_message_def decline_message_def verdict_tool_def split: prod.splits dest: approve decline)

lemma reply_related:
  "approve_reply p i edited now h = (r, h') \<Longrightarrow> R now (h_store h) (h_store h')"
  "discard_reply p i now h = (r, h') \<Longrightarrow> R now (h_store h) (h_store h')"
  by (auto simp: approve_reply_def discard_reply_def split: prod.splits sum.splits if_splits option.splits
      intro: refl dest: release discard)

text \<open>\<open>send_message\<close> runs up to three operations.\<close>

lemma send_message_related:
  assumes "send_message uuid_ok fr p i now h = (r, h')"
  shows "R now (h_store h) (h_store h')"
proof (cases "\<exists>q. \<not> MaxBodyBytes < length (si_Text i) \<and> reads (PersonByEmail (si_To i)) (h_store h) = Inr q \<and> pe_ID q \<noteq> p")
  case False
  then have "h' = h" using assms by (auto simp: send_message_def split: if_splits sum.splits store_error.splits)
  then show ?thesis using refl by simp
next
  case True
  then obtain q where q: "\<not> MaxBodyBytes < length (si_Text i)" "reads (PersonByEmail (si_To i)) (h_store h) = Inr q" "pe_ID q \<noteq> p"
    by blast
  obtain a s1 where a: "(if si_Thread i = [] then StartThread (fr_thread fr) p (pe_ID q) now (h_store h)
      else (Inr (si_Thread i), h_store h)) = (a, s1)" by fastforce
  have 1: "R now (h_store h) s1" using a start refl by (auto split: if_splits)
  show ?thesis
  proof (cases a)
    case (Inl e)
    then have "h_store h' = s1" using assms q a by (auto simp: send_message_def)
    with 1 show ?thesis by simp
  next
    case (Inr th)
    obtain b s2 where b: "CreateDraft uuid_ok th p (ask_envelope fr p (pe_ID q) th (si_Text i)) now s1 = (b, s2)" by fastforce
    have 2: "R now (h_store h) s2" using trans [OF 1 create [OF b]] .
    show ?thesis
    proof (cases b)
      case (Inl e)
      then have "h_store h' = s2" using assms q a Inr b by (auto simp: send_message_def)
      with 2 show ?thesis by simp
    next
      case (Inr di)
      obtain c s3 where c: "ReleaseReplyViaGrant di p now s2 = (c, s3)" by fastforce
      have "h_store h' = s3"
        using assms q a \<open>a = Inr th\<close> b Inr c by (auto simp: send_message_def split: sum.splits prod.splits option.splits)
      with trans [OF 2 via_grant [OF c]] show ?thesis by simp
    qed
  qed
qed

lemma serverFor_related:
  assumes "serverFor uuid_ok pr rnd p ct call now h = (r, h')"
  shows "R now (h_store h) (h_store h')"
proof -
  have a: "snd (answer f x) = snd x" for f :: "'a \<Rightarrow> tool_output" and x by (simp add: answer_def)
  have h': "h' = snd (serverFor uuid_ok pr rnd p ct call now h)" using assms by simp
  show ?thesis
  proof (cases call)
    case (WaitForActivity secs env)
    then show ?thesis using wait_store [of p ct secs now env h] h' refl by (cases "wait_for_activity p ct secs now env h") simp
  next
    case (SetThreadGrantCall gid i)
    then show ?thesis using set_thread_grant_related [of gid i now h] h' by (cases "set_thread_grant gid p i now h") (simp add: a)
  next
    case (SendMessage fr i)
    then show ?thesis using send_message_related [of fr i now h] h' by (cases "send_message uuid_ok fr p i now h") (simp add: a)
  next
    case (ApproveMessage i)
    then show ?thesis using verdict_tool_related(1) [of i now h] h' by (cases "approve_message p i now h") (simp add: a)
  next
    case (DeclineMessage i)
    then show ?thesis using verdict_tool_related(2) [of i now h] h' by (cases "decline_message p i now h") (simp add: a)
  next
    case (ApproveReply i ed)
    then show ?thesis using reply_related(1) [of i ed now h] h' by (cases "approve_reply p i ed now h") (simp add: a)
  next
    case (DiscardReply i)
    then show ?thesis using reply_related(2) [of i now h] h' by (cases "discard_reply p i now h") (simp add: a)
  qed (simp_all add: h' a check_inbox_same get_thread_same refl)
qed

end

section \<open>Tool calls are confined\<close>

definition op_stays :: "string \<Rightarrow> store \<Rightarrow> store \<Rightarrow> bool" where
  "op_stays p s s' \<longleftrightarrow> (relay_inv (st_db s) \<longrightarrow> relay_inv (st_db s') \<and> confined p (st_db s) (st_db s'))"

lemma op_stays_refl [simp]: "op_stays p s s"
  by (simp add: op_stays_def)

lemma op_stays_trans: "op_stays p s1 s2 \<Longrightarrow> op_stays p s2 s3 \<Longrightarrow> op_stays p s1 s3"
  by (auto simp: op_stays_def intro: confined_trans)

lemma verdict_stays: "inboundMessageVerdict p mid v now s = (r, s') \<Longrightarrow> op_stays p s s'"
  by (auto simp: op_stays_def inboundMessageVerdict_def dest: verdict_confined.op_confined [rotated])

lemma SetThreadGrant_stays: "SetThreadGrant gid th p dir now s = (r, s') \<Longrightarrow> op_stays p s s'"
  by (auto simp: op_stays_def SetThreadGrant_def dest: set_grant_confined.op_confined [rotated] split: if_splits)

lemma RevokeThreadGrant_stays: "RevokeThreadGrant th p dir now s = (r, s') \<Longrightarrow> op_stays p s s'"
  by (auto simp: op_stays_def RevokeThreadGrant_def dest: revoke_grant_confined.op_confined [rotated] split: if_splits)

lemma StartThread_stays: "StartThread i p b now s = (r, s') \<Longrightarrow> op_stays p s s'"
  by (auto simp: op_stays_def StartThread_def dest: start_thread_confined.op_confined [rotated] split: prod.splits sum.splits)

lemma CreateDraft_stays: "CreateDraft uuid_ok th p e now s = (r, s') \<Longrightarrow> op_stays p s s'"
  by (auto simp: op_stays_def CreateDraft_def dest: create_draft_confined.op_confined [rotated]
      split: prod.splits sum.splits option.splits if_splits)

lemma ReleaseDraft_stays: "ReleaseDraft p i edit now s = (r, s') \<Longrightarrow> op_stays p s s'"
  by (auto simp: op_stays_def ReleaseDraft_def dest: release_confined.op_confined [rotated])

lemma DiscardDraft_stays: "DiscardDraft p i now s = (r, s') \<Longrightarrow> op_stays p s s'"
  by (auto simp: op_stays_def DiscardDraft_def dest: discard_confined.op_confined [rotated])

lemma ReleaseReplyViaGrant_stays: "ReleaseReplyViaGrant i p now s = (r, s') \<Longrightarrow> op_stays p s s'"
  by (auto simp: op_stays_def ReleaseReplyViaGrant_def dest: grant_release_confined.op_confined [rotated])

lemmas operations_stay = SetThreadGrant_stays RevokeThreadGrant_stays StartThread_stays CreateDraft_stays ReleaseDraft_stays
  DiscardDraft_stays ReleaseReplyViaGrant_stays

interpretation stays: tool_relation p uuid_ok "\<lambda>_. op_stays p" for p uuid_ok
  by unfold_locales
    (auto simp: ApproveInboundMessage_def DeclineInboundMessage_def intro: op_stays_trans verdict_stays operations_stay)

section \<open>Properties\<close>

text \<open>
  C10: confinement of tool calls. A request without an authenticated person changes nothing. A call
  made for a person keeps the relay's invariant and whatever it does, successful or not, is theirs:
  the accounts, devices, invites and OAuth tables do not change; the only messages added are sent
  by that person; drafts, grants and threads that are not theirs stay as they are; and no
  delivery or tombstone is touched, only added.
\<close>

theorem tool_confinement:
  assumes "relay_inv (st_db (h_store h))" "getServer uuid_ok pr rnd ctx call now h = (r, h')"
  shows "relay_inv (st_db (h_store h')) \<and>
    (case ctx of None \<Rightarrow> r = None \<and> h' = h
     | Some (p, ct) \<Rightarrow> confined p (st_db (h_store h)) (st_db (h_store h')))"
proof (cases ctx)
  case None
  then show ?thesis using assms by (simp add: getServer_def)
next
  case (Some pc)
  obtain p ct where pc: "pc = (p, ct)" by (cases pc)
  have "op_stays p (h_store h) (h_store h')" using assms(2) Some pc by (intro stays.serverFor_related [of uuid_ok pr rnd p ct call now h r]) (simp add: getServer_def)
  then show ?thesis using assms(1) Some pc by (simp add: op_stays_def)
qed

theorem tool_confinement_witness:
  "\<exists>r h'. getServer (\<lambda>_. True) (\<lambda>_. True) (\<lambda>_. []) (Some (''bob'', ''claude.ai'')) (ApproveMessage ''m1'') 7
       (NewHandler sample_store True) = (r, h') \<and> confined ''bob'' sample_db (st_db (h_store h'))"
proof -
  obtain r h' where run: "getServer (\<lambda>_. True) (\<lambda>_. True) (\<lambda>_. []) (Some (''bob'', ''claude.ai'')) (ApproveMessage ''m1'') 7
       (NewHandler sample_store True) = (r, h')" by fastforce
  have h: "h_store (NewHandler sample_store True) = sample_store" by (simp add: NewHandler_def)
  have "relay_inv (st_db (h_store (NewHandler sample_store True)))" unfolding h by (rule sample_store_inv)
  from tool_confinement [OF this run] run show ?thesis by (simp add: h)
qed

end
