(* ===== verification/McpFacts.thy ===== *)
theory McpFacts
  imports Confinement
begin

text \<open>
  What the MCP tools promise a person: an inbox whose entries can be acted on, no message sent
  without review unless they granted it, and nothing learnt about other people's threads. Each
  property puts a tool together with the store operations behind it.
\<close>

section \<open>The inbox\<close>

lemma may_decide_verdict:
  assumes "healthy s" "relay_inv (st_db s)" "mid \<in> ib_MessageID ` set (InboundAwaiting p (st_db s))"
  shows "fst (ApproveInboundMessage p mid now s) = Inr StateWorking" "fst (DeclineInboundMessage p mid now s) = Inr StateRejected"
proof -
  let ?d = "st_db s"
  obtain m t where mt: "(m, t) \<in> set (verdict_rows mid ?d)" "may_decide p m t" "t_state t = StateInputRequired"
    using assms(3) awaiting_ids [OF relay_inv_schema [OF assms(2)]] by blast
  have "inboundVerdictTx p mid v now ?d = Inr (st, with_state (m_thread m) st now ?d)"
    if "ApplyInbound (t_state t) v = Inr st" for v st
    using mt that unfolding inboundVerdictTx_iff [OF assms(2)] by blast
  from this [of Approve StateWorking] this [of Reject StateRejected]
  show "fst (ApproveInboundMessage p mid now s) = Inr StateWorking" "fst (DeclineInboundMessage p mid now s) = Inr StateRejected"
    using mt(3) by (simp_all add: ApproveInboundMessage_def DeclineInboundMessage_def inboundMessageVerdict_def
      writeTx_healthy [OF assms(1)] ApplyInbound_Inr)
qed

lemma reads_healthy: "healthy s \<Longrightarrow> reads q s = q (st_db s)"
  by (simp add: reads_def healthy_def)

text \<open>
  The inbox is actionable and complete. \<open>check_inbox\<close> lists exactly the awaiting messages
  whose stored envelope decodes and the drafts awaiting review, oldest first, and every listed
  message can be approved and declined right away through the tools, which then report the
  thread's new state.
\<close>

theorem inbox_actionable:
  assumes "healthy (h_store h)" "relay_inv (st_db (h_store h))"
  shows "\<exists>out body. check_inbox pr rnd p h = (Inr (out, body), h) \<and>
    map ie_ID (io_ToApprove out) = map ib_MessageID (filter (\<lambda>i. decodable (ib_Envelope i)) (InboundAwaiting p (st_db (h_store h)))) \<and>
    map ie_ID (io_ToReview out) = map di_DraftID (DraftsAwaitingReview p (st_db (h_store h))) \<and>
    (\<forall>x \<in> set (io_ToApprove out).
       fst (approve_message p (ie_ID x) now h) = Inr \<lparr>vo_ID = ie_ID x, vo_ThreadState = StateWorking\<rparr> \<and>
       fst (decline_message p (ie_ID x) now h) = Inr \<lparr>vo_ID = ie_ID x, vo_ThreadState = StateRejected\<rparr>)"
proof -
  let ?d = "st_db (h_store h)"
  define out where "out = \<lparr>io_ToApprove = map (\<lambda>it. \<lparr>ie_ID = ib_MessageID it, ie_ThreadID = ib_ThreadID it, ie_Kind = ''message''\<rparr>)
        (filter (\<lambda>it. decodable (ib_Envelope it)) (InboundAwaiting p ?d)),
      io_ToReview = map draft_entry (DraftsAwaitingReview p ?d)\<rparr>"
  then obtain body where run: "check_inbox pr rnd p h = (Inr (out, body), h)"
    using assms(1) by (simp add: check_inbox_def reads_healthy)
  have out: "io_ToApprove out = map (\<lambda>it. \<lparr>ie_ID = ib_MessageID it, ie_ThreadID = ib_ThreadID it, ie_Kind = ''message''\<rparr>)
        (filter (\<lambda>it. decodable (ib_Envelope it)) (InboundAwaiting p ?d))"
      "io_ToReview out = map draft_entry (DraftsAwaitingReview p ?d)" by (simp_all add: out_def)
  have "fst (approve_message p (ie_ID x) now h) = Inr \<lparr>vo_ID = ie_ID x, vo_ThreadState = StateWorking\<rparr> \<and>
       fst (decline_message p (ie_ID x) now h) = Inr \<lparr>vo_ID = ie_ID x, vo_ThreadState = StateRejected\<rparr>"
    if x: "x \<in> set (io_ToApprove out)" for x
  proof -
    have "ie_ID x \<in> ib_MessageID ` set (InboundAwaiting p ?d)" using x by (auto simp: out)
    note v = may_decide_verdict [OF assms this]
    show ?thesis
      using v(1) [of now] v(2) [of now]
      by (cases "ApproveInboundMessage p (ie_ID x) now (h_store h)"; cases "DeclineInboundMessage p (ie_ID x) now (h_store h)")
        (simp add: approve_message_def decline_message_def verdict_tool_def)
  qed
  with run show ?thesis by (intro exI [of _ out] exI [of _ body]) (simp add: out draft_entry_def)
qed

theorem inbox_actionable_witness:
  "\<exists>out body. check_inbox (\<lambda>_. True) (\<lambda>_. []) ''bob'' (NewHandler sample_store True) = (Inr (out, body), NewHandler sample_store True) \<and>
     io_ToReview out = []"
proof -
  have h: "h_store (NewHandler sample_store True) = sample_store" by (simp add: NewHandler_def)
  have "DraftsAwaitingReview ''bob'' sample_db = []" by (simp add: DraftsAwaitingReview_def sample_simps)
  then show ?thesis
    using inbox_actionable [of "NewHandler sample_store True" "\<lambda>_. True" "\<lambda>_. []" "''bob''" 7] sample_healthy sample_store_inv
    unfolding h by auto
qed

section \<open>Sending\<close>

lemma StartThread_Inr:
  assumes "relay_inv (st_db s)" "StartThread i a b now s = (Inr th, s')"
  shows "th = i \<and> \<not> has_thread (st_db s) i \<and> relay_inv (st_db s') \<and> messages (st_db s') = messages (st_db s) \<and>
    deliveries (st_db s') = deliveries (st_db s) \<and> drafts (st_db s') = drafts (st_db s) \<and>
    grants (st_db s') = grants (st_db s) \<and> devices (st_db s') = devices (st_db s)"
proof -
  have "writeTx (unit_tx (startThreadTx i a b now)) s = (Inr (), s')" "th = i"
    using assms(2) by (auto simp: StartThread_def split: prod.splits sum.splits)
  then obtain d' where d': "startThreadTx i a b now (st_db s) = Inr d'" "s' = s\<lparr>st_db := d'\<rparr>" by (auto simp: writeTx_Inr)
  moreover have "relay_inv d'" using start_thread_tx.keeps [OF assms(1)] d'(1) by simp
  ultimately show ?thesis using \<open>th = i\<close>
    by (auto simp: startThreadTx_iff [OF relay_inv_schema [OF assms(1)]] has_thread_def image_iff)
qed

lemma CreateDraft_Inr:
  assumes "relay_inv (st_db s)" "CreateDraft uuid_ok th p e now s = (Inr i, s')"
  shows "\<exists>r. i = env_ID e \<and> dr_id r = i \<and> dr_author r = p \<and> dr_thread r = th \<and> dr_state r = PendingReview \<and>
    Marshal e = Some (dr_envelope r) \<and>
    st_db s' = (st_db s)\<lparr>drafts := drafts (st_db s) @ [r]\<rparr> \<and> relay_inv (st_db s') \<and> healthy s'"
proof -
  obtain blob where b: "Marshal e = Some blob" and w: "writeTx (unit_tx (createDraftTx th p e blob now)) s = (Inr (), s')" and "i = env_ID e"
    using assms(2) by (auto simp: CreateDraft_def split: prod.splits sum.splits option.splits if_splits)
  then obtain d' where d': "createDraftTx th p e blob now (st_db s) = Inr d'" "s' = s\<lparr>st_db := d'\<rparr>" "healthy s"
    by (auto simp: writeTx_Inr healthy_def)
  let ?r = "\<lparr>dr_id = env_ID e, dr_thread = th, dr_author = p, dr_envelope = blob, dr_state = PendingReview,
        dr_via_grant = 0, dr_created = unix_sec now, dr_decided = None\<rparr>"
  have "d' = (st_db s)\<lparr>drafts := drafts (st_db s) @ [?r]\<rparr>" using d'(1) by (simp add: createDraftTx_iff [OF assms(1)])
  then show ?thesis
    using \<open>i = env_ID e\<close> b createDraftTx_inv [OF assms(1) d'(1)] d'(2,3)
    by (intro exI [of _ ?r]) (simp add: healthy_def)
qed

text \<open>What the automatic release does to a draft of one's own.\<close>

lemma own_release:
  assumes "relay_inv (st_db s)" "r \<in> set (drafts (st_db s))" "dr_author r = p"
    and "ReleaseReplyViaGrant (dr_id r) p now s = (Inr (rid, rel), s')"
  shows "if has_active_grant (st_db s) (dr_thread r) p Outbound
    then rel \<noteq> None \<and> (\<exists>e blob. Decode (dr_envelope r) = Inr e \<and> rid = env_To e \<and> Marshal (e\<lparr>env_SentAt := UTC now\<rparr>) = Some blob \<and>
       messages (st_db s') = messages (st_db s) @ [ingested (e\<lparr>env_SentAt := UTC now\<rparr>) p now blob] \<and>
       deliveries (st_db s') = deliveries (st_db s) @ map (\<lambda>dev. \<lparr>dl_message = env_ID e, dl_device = dev, dl_delivered = None, dl_acked = None\<rparr>)
         (active_devices (st_db s) rid) \<and>
       drafts (st_db s') = drafts (with_decision (dr_id r) Sent True now (st_db s)))
    else rel = None \<and> s' = s"
proof -
  let ?d = "st_db s" and ?i = "dr_id r"
  obtain d' where run: "releaseViaGrantTx ?i p now ?d = Inr ((rid, rel), d')" and s': "s' = s\<lparr>st_db := d'\<rparr>"
    using assms(4) by (auto simp: ReleaseReplyViaGrant_Inr)
  then obtain th author cur payload where l: "loadDraft ?i ?d = Inr (th, author, cur, payload)"
    and c: "if author = p \<and> has_active_grant ?d th p Outbound
        then th \<noteq> [] \<and> cur = PendingReview \<and>
          rel = Some \<lparr>rel_thread = th, rel_id = ?i, rel_payload = payload, rel_viaGrant = True\<rparr> \<and>
          deliverInTx payload p now (with_decision ?i Sent True now ?d) = Inr (rid, d')
        else rid = [] \<and> rel = None \<and> d' = ?d"
    unfolding releaseViaGrantTx_cases [OF assms(1)] by blast
  obtain r' where r': "r' \<in> set (drafts ?d)" "dr_id r' = ?i" "dr_thread r' = th" "dr_author r' = author" "Decode (dr_envelope r') = Inr payload"
    using l by (auto simp: loadDraft_Inr [OF assms(1)])
  have "r' = r"
    using distinct_key_unique [of dr_id "drafts ?d" r' r] r' assms(2) schema_okD(8) [OF relay_inv_schema [OF assms(1)]]
    by (simp add: drafts_ok_def)
  then have th: "th = dr_thread r" "author = p" "Decode (dr_envelope r) = Inr payload" using r' assms(3) by auto
  show ?thesis
  proof (cases "has_active_grant ?d th p Outbound")
    case True
    then have v: "ingestTx (payload\<lparr>env_SentAt := UTC now\<rparr>) p now (with_decision ?i Sent True now ?d) = Inr d'"
      and rel: "rel \<noteq> None" "rid = env_To payload" using c th by (auto simp: deliverInTx_Inr)
    from v obtain blob where "Marshal (payload\<lparr>env_SentAt := UTC now\<rparr>) = Some blob"
        "messages d' = messages ?d @ [ingested (payload\<lparr>env_SentAt := UTC now\<rparr>) p now blob]"
        "deliveries d' = deliveries ?d @ map (\<lambda>dev. \<lparr>dl_message = env_ID payload, dl_device = dev, dl_delivered = None, dl_acked = None\<rparr>)
          (active_devices (with_decision ?i Sent True now ?d) (env_To payload))"
      by (elim ingestTx_Inr) (simp add: with_decision_def)
    moreover have "active_devices (with_decision ?i Sent True now ?d) (env_To payload) = active_devices ?d rid"
      by (simp add: active_devices_def with_decision_def rel)
    moreover have "drafts d' = drafts (with_decision ?i Sent True now ?d)" using ingest_drafts [OF v] .
    ultimately show ?thesis
      using True rel th s' by (simp add: rel)
  next
    case False
    then show ?thesis using c th s' by simp
  qed
qed

lemma send_message_Inr:
  assumes "send_message uuid_ok fr p i now h = (Inr out, h')"
  obtains q s1 s2 rid rel s3 where "length (si_Text i) \<le> MaxBodyBytes" "reads (PersonByEmail (si_To i)) (h_store h) = Inr q" "pe_ID q \<noteq> p"
    "(if si_Thread i = [] then StartThread (fr_thread fr) p (pe_ID q) now (h_store h) else (Inr (si_Thread i), h_store h)) = (Inr (so_ThreadID out), s1)"
    "CreateDraft uuid_ok (so_ThreadID out) p (ask_envelope fr p (pe_ID q) (so_ThreadID out) (si_Text i)) now s1 = (Inr (so_DraftID out), s2)"
    "ReleaseReplyViaGrant (so_DraftID out) p now s2 = (Inr (rid, rel), s3)" "h_store h' = s3"
    "so_State out = (if rel = None then ''pending_review'' else ''sent'')"
    "h_notifier h' = (if rel = None then h_notifier h else map_option (\<lambda>l. l @ [rid]) (h_notifier h))"
proof -
  obtain q where q: "\<not> MaxBodyBytes < length (si_Text i)" "reads (PersonByEmail (si_To i)) (h_store h) = Inr q" "pe_ID q \<noteq> p"
    using assms by (auto simp: send_message_def split: if_splits sum.splits store_error.splits)
  obtain a s1 where a: "(if si_Thread i = [] then StartThread (fr_thread fr) p (pe_ID q) now (h_store h)
      else (Inr (si_Thread i), h_store h)) = (a, s1)" by fastforce
  then obtain th where th: "a = Inr th" using assms q by (cases a) (simp_all add: send_message_def)
  obtain b s2 where b: "CreateDraft uuid_ok th p (ask_envelope fr p (pe_ID q) th (si_Text i)) now s1 = (b, s2)" by fastforce
  then obtain di where di: "b = Inr di" using assms q a th by (cases b) (simp_all add: send_message_def)
  obtain c s3 where c: "ReleaseReplyViaGrant di p now s2 = (c, s3)" by fastforce
  then obtain rid rel where rr: "c = Inr (rid, rel)" using assms q a th b di by (cases c) (auto simp: send_message_def)
  have eq: "(case rel of
      None \<Rightarrow> (Inr \<lparr>so_DraftID = di, so_ThreadID = th, so_State = ''pending_review''\<rparr>, h\<lparr>h_store := s3\<rparr>)
    | Some _ \<Rightarrow> (Inr \<lparr>so_DraftID = di, so_ThreadID = th, so_State = ''sent''\<rparr>, notify rid (h\<lparr>h_store := s3\<rparr>))) = (Inr out :: tool_error + send_output, h')"
    using assms q a th b di c rr by (simp add: send_message_def)
  show ?thesis
  proof (cases rel)
    case None
    then have "out = \<lparr>so_DraftID = di, so_ThreadID = th, so_State = ''pending_review''\<rparr>" "h' = h\<lparr>h_store := s3\<rparr>"
      using eq by auto
    then show ?thesis using that [of q s1 s2 rid rel s3] None q a th b di c rr by simp
  next
    case (Some x)
    then have "out = \<lparr>so_DraftID = di, so_ThreadID = th, so_State = ''sent''\<rparr>" "h' = notify rid (h\<lparr>h_store := s3\<rparr>)"
      using eq by auto
    moreover have "h_notifier (notify rid (h\<lparr>h_store := s3\<rparr>)) = map_option (\<lambda>l. l @ [rid]) (h_notifier h)"
      by (simp add: notify_def split: option.split)
    ultimately show ?thesis using that [of q s1 s2 rid rel s3] Some q a th b di c rr by simp
  qed
qed

text \<open>The envelope a draft of \<open>send_message\<close> is read back as: the texts of the request, as valid UTF-8.\<close>

lemma ask_decodes:
  assumes "Marshal (ask_envelope fr p to th txt) = Some blob" "Decode blob = Inr e"
  shows "env_ID e = to_valid (fr_message fr)" "env_To e = to_valid to" "pt_person (env_From e) = to_valid p"
    "th \<noteq> [] \<Longrightarrow> env_Thread e = to_valid th"
    "msg_parts (env_Body e) = Some [\<lparr>part_type = ''text'', part_text = to_valid txt\<rparr>]"
proof -
  have "t_off (env_SentAt (ask_envelope fr p to th txt)) mod 60 = 0" "env_V (ask_envelope fr p to th txt) = Version"
    by (simp_all add: ask_envelope_def New_def UTC_def)
  with decode_marshal_valid [OF assms(1)] have e: "e = valid_envelope (ask_envelope fr p to th txt)" using assms(2) by simp
  have "to_valid ''text'' = ''text''" by code_simp
  then show "env_ID e = to_valid (fr_message fr)" "env_To e = to_valid to" "pt_person (env_From e) = to_valid p"
    "th \<noteq> [] \<Longrightarrow> env_Thread e = to_valid th"
    "msg_parts (env_Body e) = Some [\<lparr>part_type = ''text'', part_text = to_valid txt\<rparr>]"
    by (simp_all add: e valid_envelope_def ask_envelope_def New_def valid_party_def valid_message_def valid_part_def)
qed

text \<open>
  C9: nothing is sent without review or a grant, and what is sent is the draft. A successful
  \<open>send_message\<close> stores one draft: by the caller, for the thread of the answer, with the request's text addressed to the
  person the request names. Either the answer says it is pending review, and then no message and
  no delivery was added and nobody was signalled; or it says it was sent, and then the caller named an
  existing thread on which they hold an active outbound grant, the draft is marked as sent by that grant, and exactly one
  message was added: this draft, stamped with the time of sending, with the request's text as its only
  part, on the named thread, delivered to exactly the active devices of the named recipient, who
  was signalled. A fresh ask is never sent at once.
\<close>

theorem send_message_gate:
  assumes "relay_inv (st_db (h_store h))" "send_message uuid_ok fr p i now h = (Inr out, h')"
  shows "\<exists>q r. PersonByEmail (si_To i) (st_db (h_store h)) = Inr q \<and> pe_ID q \<noteq> p \<and> (si_Thread i \<noteq> [] \<longrightarrow> so_ThreadID out = si_Thread i) \<and>
    so_DraftID out = fr_message fr \<and> dr_id r = so_DraftID out \<and> dr_thread r = so_ThreadID out \<and> dr_author r = p \<and> dr_state r = PendingReview \<and>
    Marshal (ask_envelope fr p (pe_ID q) (so_ThreadID out) (si_Text i)) = Some (dr_envelope r) \<and>
    (so_State out = ''pending_review'' \<and> \<not> has_active_grant (st_db (h_store h)) (so_ThreadID out) p Outbound \<and>
      drafts (st_db (h_store h')) = drafts (st_db (h_store h)) @ [r] \<and>
      messages (st_db (h_store h')) = messages (st_db (h_store h)) \<and>
      deliveries (st_db (h_store h')) = deliveries (st_db (h_store h)) \<and> h_notifier h' = h_notifier h \<or>
     so_State out = ''sent'' \<and> si_Thread i \<noteq> [] \<and> has_active_grant (st_db (h_store h)) (si_Thread i) p Outbound \<and>
      (\<exists>r' \<in> set (drafts (st_db (h_store h'))). dr_id r' = so_DraftID out \<and> dr_state r' = Sent \<and> dr_via_grant r' = 1 \<and> dr_envelope r' = dr_envelope r) \<and>
      (\<exists>e m. Decode (dr_envelope r) = Inr e \<and> msg_parts (env_Body e) = Some [\<lparr>part_type = ''text'', part_text = to_valid (si_Text i)\<rparr>] \<and>
         env_To e = to_valid (pe_ID q) \<and> env_Thread e = to_valid (si_Thread i) \<and> env_ID e = to_valid (so_DraftID out) \<and>
         Marshal (e\<lparr>env_SentAt := UTC now\<rparr>) = Some (m_envelope m) \<and> m_sender m = p \<and> m_thread m = env_Thread e \<and> m_id m = env_ID e \<and>
         messages (st_db (h_store h')) = messages (st_db (h_store h)) @ [m] \<and>
         deliveries (st_db (h_store h')) = deliveries (st_db (h_store h)) @
           map (\<lambda>dev. \<lparr>dl_message = m_id m, dl_device = dev, dl_delivered = None, dl_acked = None\<rparr>)
             (active_devices (st_db (h_store h)) (to_valid (pe_ID q))) \<and>
         h_notifier h' = map_option (\<lambda>l. l @ [to_valid (pe_ID q)]) (h_notifier h)))"
proof -
  let ?d = "st_db (h_store h)" and ?th = "so_ThreadID out"
  obtain q :: person and s1 s2 rid rel s3 where who: "reads (PersonByEmail (si_To i)) (h_store h) = Inr q" "pe_ID q \<noteq> p"
    and start: "(if si_Thread i = [] then StartThread (fr_thread fr) p (pe_ID q) now (h_store h)
        else (Inr (si_Thread i), h_store h)) = (Inr ?th, s1)"
    and create: "CreateDraft uuid_ok ?th p (ask_envelope fr p (pe_ID q) ?th (si_Text i)) now s1 = (Inr (so_DraftID out), s2)"
    and rel: "ReleaseReplyViaGrant (so_DraftID out) p now s2 = (Inr (rid, rel), s3)" and h': "h_store h' = s3"
    and state: "so_State out = (if rel = None then ''pending_review'' else ''sent'')"
    and signal: "h_notifier h' = (if rel = None then h_notifier h else map_option (\<lambda>l. l @ [rid]) (h_notifier h))"
    using assms(2) by (rule send_message_Inr) blast
  have q: "PersonByEmail (si_To i) ?d = Inr q" using who(1) by (simp add: reads_def split: if_splits)
  have s1: "relay_inv (st_db s1)" "messages (st_db s1) = messages ?d" "deliveries (st_db s1) = deliveries ?d" "drafts (st_db s1) = drafts ?d"
      "grants (st_db s1) = grants ?d" "devices (st_db s1) = devices ?d"
      and fresh: "si_Thread i = [] \<Longrightarrow> \<not> has_thread ?d ?th" and named: "si_Thread i \<noteq> [] \<Longrightarrow> ?th = si_Thread i"
    using start assms(1) StartThread_Inr [OF assms(1), of "fr_thread fr" p "pe_ID q" now ?th s1] by (auto split: if_splits)
  obtain r where r: "dr_id r = so_DraftID out" "dr_author r = p" "dr_thread r = ?th" "dr_state r = PendingReview"
      "st_db s2 = (st_db s1)\<lparr>drafts := drafts (st_db s1) @ [r]\<rparr>" "relay_inv (st_db s2)"
    and blob: "Marshal (ask_envelope fr p (pe_ID q) ?th (si_Text i)) = Some (dr_envelope r)"
    and i: "so_DraftID out = fr_message fr"
    using CreateDraft_Inr [OF s1(1) create] by (auto simp: ask_envelope_def New_def)
  have grant: "has_active_grant (st_db s2) ?th p Outbound \<longleftrightarrow> has_active_grant ?d ?th p Outbound"
    and act: "active_devices (st_db s2) = active_devices ?d"
    and same: "messages (st_db s2) = messages ?d" "deliveries (st_db s2) = deliveries ?d" "drafts (st_db s2) = drafts ?d @ [r]"
    by (simp_all add: has_active_grant_def active_devices_def r(5) s1 fun_eq_iff)
  have "r \<in> set (drafts (st_db s2))" by (simp add: r(5))
  note own = own_release [OF r(6) this r(2) rel [unfolded r(1) [symmetric]], unfolded r(3) grant same(1,2) act]
  note common = q who(2) named i r(1-4) blob
  show ?thesis
  proof (cases "has_active_grant ?d ?th p Outbound")
    case True
    then have "has_thread ?d ?th"
      using assms(1) is_party_has [OF assms(1)] by (auto simp: has_active_grant_def active_grant_def relay_inv_def list_all_iff)
    then have th: "si_Thread i \<noteq> []" "?th = si_Thread i" using fresh named by blast+
    obtain e blob' where e: "Decode (dr_envelope r) = Inr e" "rid = env_To e" "Marshal (e\<lparr>env_SentAt := UTC now\<rparr>) = Some blob'"
        "messages (st_db s3) = messages ?d @ [ingested (e\<lparr>env_SentAt := UTC now\<rparr>) p now blob']"
        "deliveries (st_db s3) = deliveries ?d @ map (\<lambda>dev. \<lparr>dl_message = env_ID e, dl_device = dev, dl_delivered = None, dl_acked = None\<rparr>)
          (active_devices ?d rid)"
        "drafts (st_db s3) = drafts (with_decision (dr_id r) Sent True now (st_db s2))" "rel \<noteq> None"
      using own True by auto
    note ask = ask_decodes [OF blob e(1)]
    have marked: "\<exists>r' \<in> set (drafts (st_db s3)). dr_id r' = so_DraftID out \<and> dr_state r' = Sent \<and> dr_via_grant r' = 1 \<and> dr_envelope r' = dr_envelope r"
      unfolding e(6) with_decision_def using r(1) \<open>r \<in> set (drafts (st_db s2))\<close>
      by (auto simp: decided_draft_def intro!: bexI [OF _ in_update_whereI])
    have "so_State out = ''sent''" "h_notifier h' = map_option (\<lambda>l. l @ [rid]) (h_notifier h)" using state signal e(7) by simp_all
    then show ?thesis
      using common True th marked e(1,3-5) ask h'
      by (intro exI [of _ q] exI [of _ r] conjI disjI2 exI [of _ e] exI [of _ "ingested (e\<lparr>env_SentAt := UTC now\<rparr>) p now blob'"])
        (simp_all add: ingested_def e(2) i)
  next
    case False
    then show ?thesis using own common state signal h' same
      by (intro exI [of _ q] exI [of _ r] conjI disjI1) simp_all
  qed
qed

text \<open>The examples: Alice answers on a thread, without and with a grant for it.\<close>

definition sample_fresh :: fresh_ids where
  "sample_fresh = \<lparr>fr_thread = ''t9'', fr_message = ''m9'', fr_sent = 200000000000\<rparr>"

definition sample_ask :: envelope where
  "sample_ask = ask_envelope sample_fresh ''alice'' ''bob'' ''th'' ''hi''"

lemma sample_ask_facts:
  "format_rfc3339 (env_SentAt sample_ask) = Some ''1970-01-01T00:03:20Z''" "env_V sample_ask = Version"
  "t_off (env_SentAt sample_ask) mod 60 = 0" "bodySize (env_Body sample_ask) = 2" "length (parts_of (env_Body sample_ask)) = 1"
  "length (utf8_encode (print_json (canon_json sample_ask ''1970-01-01T00:03:20Z''))) < 1000"
  "env_ID sample_ask = ''m9''" "env_To sample_ask = ''bob''"
  by code_simp+

lemma sample_ask_valid: "Validate sample_ask = Inr ()"
  using Canonical_eq [OF sample_ask_facts(1,2)] sample_ask_facts
  by (simp add: Validate_def rbind_Inr_iff check_iff MaxParts_def MaxBodyBytes_def MaxWireBytes_def)

lemma sample_valid:
  "env_ID (valid_envelope sample_ask) = ''m9''" "env_To (valid_envelope sample_ask) = ''bob''" "env_Thread (valid_envelope sample_ask) = ''th''"
  "Marshal ((valid_envelope sample_ask)\<lparr>env_SentAt := UTC 200000000000\<rparr>) \<noteq> None"
  by code_simp+

text \<open>The same request with and without a grant: Alice's for the thread.\<close>

definition sample_granted :: store where
  "sample_granted = sample_store\<lparr>st_db := sample_db\<lparr>grants := [new_grant ''g1'' ''th'' ''alice'' Outbound 0]\<rparr>\<rparr>"

lemma sample_granted_inv: "relay_inv (st_db sample_granted)"
proof -
  have "setGrantTx ''g1'' ''th'' ''alice'' Outbound 0 sample_db = Inr (sample_db\<lparr>grants := [new_grant ''g1'' ''th'' ''alice'' Outbound 0]\<rparr>)"
    by (subst setGrantTx_eq [OF sample_db_inv]) (simp_all add: sample_simps is_party_def has_active_grant_def)
  then show ?thesis using set_grant_tx.keeps [OF sample_db_inv, of "''g1''" "''th''" "''alice''" Outbound 0]
    by (simp add: sample_granted_def unit_tx_def)
qed

lemma sample_send:
  assumes "s \<in> {sample_store, sample_granted}"
  shows "\<exists>out h'. send_message (\<lambda>_. True) sample_fresh ''alice'' \<lparr>si_To = ''b@x'', si_Text = ''hi'', si_Thread = ''th''\<rparr> 200000000000
     (NewHandler s True) = (Inr out, h')"
proof -
  let ?now = "200000000000"
  define d where "d = st_db s"
  define gs where "gs = grants d"
  have d: "d = sample_db\<lparr>grants := gs\<rparr>" "relay_inv d" "healthy s"
    using assms sample_granted_inv sample_store_inv sample_healthy(1)
    by (auto simp: d_def gs_def sample_granted_def healthy_def sample_simps)
  obtain blob where blob: "Marshal sample_ask = Some blob"
    using sample_ask_facts(1) by (simp add: Marshal_def envelope_json_def)
  define r where "r = \<lparr>dr_id = ''m9'', dr_thread = ''th'', dr_author = ''alice'', dr_envelope = blob, dr_state = PendingReview,
        dr_via_grant = 0, dr_created = unix_sec ?now, dr_decided = None\<rparr>"
  define d2 where "d2 = d\<lparr>drafts := [r]\<rparr>"
  have tx: "createDraftTx ''th'' ''alice'' sample_ask blob ?now d = Inr d2"
    unfolding createDraftTx_iff [OF d(2)]
    by (simp add: d2_def r_def sample_ask_facts) (simp add: d(1) sample_simps doubleton_eq_iff)
  have create: "CreateDraft (\<lambda>_. True) ''th'' ''alice'' sample_ask ?now s = (Inr ''m9'', s\<lparr>st_db := d2\<rparr>)"
    using d(3) by (simp add: CreateDraft_def sample_ask_valid blob writeTx_healthy unit_tx_def tx [unfolded d_def] sample_ask_facts)
  have inv: "relay_inv d2" by (rule createDraftTx_inv [OF d(2) tx])
  have l: "loadDraft ''m9'' d2 = Inr (''th'', ''alice'', PendingReview, valid_envelope sample_ask)"
    using decode_marshal_valid [OF blob sample_ask_facts(2,3)]
    by (simp add: loadDraft_Inr [OF inv]) (simp add: d2_def r_def)
  let ?d3 = "with_decision ''m9'' Sent True ?now d2" and ?e = "valid_envelope sample_ask\<lparr>env_SentAt := UTC 200000000000\<rparr>"
  have inv3: "relay_inv ?d3" by (rule with_decision_inv [OF inv]) simp
  have "may_join ?e ''alice'' ?d3" "\<not> tombstoneSeen ?d3 (env_ID ?e)" "\<not> has_message ?d3 (env_ID ?e)"
    by (simp_all add: may_join_def with_decision_def tombstoneSeen_iff sample_valid d2_def d(1) sample_simps has_message_def select_first_def
        insert_commute)
  then obtain d4 where "ingestTx ?e ''alice'' ?now ?d3 = Inr d4"
    using ingestTx_iff [OF inv3, of ?e "''alice''" ?now] sample_valid(4) by auto
  then have deliver: "deliverInTx (valid_envelope sample_ask) ''alice'' ?now ?d3 = Inr (''bob'', d4)"
    by (simp add: deliverInTx_Inr sample_valid)
  have "\<exists>rid rel d'. releaseViaGrantTx ''m9'' ''alice'' ?now d2 = Inr ((rid, rel), d')"
    unfolding releaseViaGrantTx_cases [OF inv] using l deliver by (cases "has_active_grant d2 ''th'' ''alice'' Outbound") auto
  then obtain rid rel d' where "releaseViaGrantTx ''m9'' ''alice'' ?now d2 = Inr ((rid, rel), d')" by blast
  then have rel: "ReleaseReplyViaGrant ''m9'' ''alice'' ?now (s\<lparr>st_db := d2\<rparr>) = (Inr (rid, rel), s\<lparr>st_db := d'\<rparr>)"
    using d(3) by (simp add: ReleaseReplyViaGrant_Inr healthy_def)
  have who: "reads (PersonByEmail ''b@x'') s = Inr \<lparr>pe_ID = ''bob'', pe_Email = ''b@x'', pe_Label = [], pe_CreatedAt = 0\<rparr>"
    by (simp add: reads_healthy [OF d(3)] d_def [symmetric] d(1))
      (simp add: PersonByEmail_def personBy_def person_of_row_def sample_simps sql_simps from_unix_def)
  show ?thesis
    using create rel by (simp add: send_message_def NewHandler_def who MaxBodyBytes_def sample_ask_def [symmetric] split: option.split)
qed

theorem send_message_gate_witness:
  "\<exists>out h' out2 h2.
     send_message (\<lambda>_. True) sample_fresh ''alice'' \<lparr>si_To = ''b@x'', si_Text = ''hi'', si_Thread = ''th''\<rparr> 200000000000
       (NewHandler sample_store True) = (Inr out, h') \<and>
     so_State out = ''pending_review'' \<and> messages (st_db (h_store h')) = messages sample_db \<and>
     send_message (\<lambda>_. True) sample_fresh ''alice'' \<lparr>si_To = ''b@x'', si_Text = ''hi'', si_Thread = ''th''\<rparr> 200000000000
       (NewHandler sample_granted True) = (Inr out2, h2) \<and>
     so_State out2 = ''sent'' \<and> map m_id (messages (st_db (h_store h2))) = [''m1'', ''m9''] \<and> h_notifier h2 = Some [''bob'']"
proof -
  let ?i = "\<lparr>si_To = ''b@x'', si_Text = ''hi'', si_Thread = ''th''\<rparr>"
  obtain out h' where run: "send_message (\<lambda>_. True) sample_fresh ''alice'' ?i 200000000000 (NewHandler sample_store True) = (Inr out, h')"
    using sample_send by blast
  obtain out2 h2 where run2: "send_message (\<lambda>_. True) sample_fresh ''alice'' ?i 200000000000 (NewHandler sample_granted True) = (Inr out2, h2)"
    using sample_send by blast
  have h: "h_store (NewHandler s True) = s" "h_notifier (NewHandler s True) = Some []" for s by (simp_all add: NewHandler_def)
  have no: "\<not> has_active_grant sample_db ''th'' ''alice'' Outbound" by (simp add: has_active_grant_def sample_simps)
  have yes: "has_active_grant (st_db sample_granted) ''th'' ''alice'' Outbound"
    by (simp add: has_active_grant_def sample_granted_def new_grant_def active_grant_def sql_simps)
  have who: "PersonByEmail ''b@x'' (st_db sample_granted) = Inr q \<Longrightarrow> pe_ID q = ''bob''" for q
    by (auto simp: PersonByEmail_def personBy_def person_of_row_def sample_granted_def sample_simps sql_simps)
  have v: "to_valid ''m9'' = ''m9''" "to_valid ''bob'' = ''bob''" by code_simp+
  have pending: "so_State out = ''pending_review'' \<and> messages (st_db (h_store h')) = messages sample_db"
    using send_message_gate [OF _ run] sample_store_inv no unfolding h by auto
  have "so_State out2 = ''sent'' \<and> (\<exists>m. m_id m = ''m9'' \<and> messages (st_db (h_store h2)) = messages (st_db sample_granted) @ [m]) \<and>
      h_notifier h2 = Some [''bob'']"
    using send_message_gate [OF _ run2] sample_granted_inv yes who v unfolding h by (auto simp: sample_fresh_def)
  then have "so_State out2 = ''sent'' \<and> map m_id (messages (st_db (h_store h2))) = [''m1'', ''m9''] \<and> h_notifier h2 = Some [''bob'']"
    by (auto simp: sample_granted_def sample_simps)
  with run run2 pending show ?thesis
    by (intro exI [of _ out] exI [of _ h'] exI [of _ out2] exI [of _ h2] conjI) simp_all
qed

section \<open>Other people's threads\<close>

lemma ThreadFor_stranger:
  assumes "\<not> is_party d th p"
  shows "ThreadFor p th d = Inl ErrNotFound"
proof (cases "select_first (\<lambda>r. t_id r = th) (threads d)")
  case (Some t)
  then have "t \<in> set (threads d)" "t_id t = th" by (auto dest: select_first_Some)
  with Some assms show ?thesis by (auto simp: ThreadFor_def is_party_def)
qed (simp add: ThreadFor_def)

lemma createDraftTx_stranger:
  assumes "\<not> is_party d th p"
  shows "createDraftTx th p e blob now d = Inl ErrNotFound \<or> createDraftTx th p e blob now d = Inl ErrNotParticipant"
proof (cases "select_first (\<lambda>r. t_id r = th) (threads d)")
  case (Some t)
  then have "t \<in> set (threads d)" "t_id t = th" by (auto dest: select_first_Some)
  with Some assms show ?thesis by (auto simp: createDraftTx_def is_party_def)
qed (simp add: createDraftTx_def)

lemma verdict_stranger:
  assumes "relay_inv d" "\<And>m. m \<in> set (messages d) \<Longrightarrow> m_id m = mid \<Longrightarrow> \<not> is_party d (m_thread m) p"
  shows "inboundVerdictTx p mid v now d = Inl ErrNotFound"
proof (cases "verdict_rows mid d")
  case Nil
  then show ?thesis by (rule inboundVerdictTx_none)
next
  case (Cons x xs)
  obtain m t where mt: "(m, t) \<in> set (verdict_rows mid d)" using Cons by (cases x) auto
  then have m: "m \<in> set (messages d)" "t \<in> set (threads d)" "t_id t = m_thread m" "m_id m = mid" by (auto simp: set_verdict_rows)
  then have "\<not> may_decide p m t" using assms(2) [OF m(1,4)] by (auto simp: may_decide_def is_party_def)
  then show ?thesis using inboundVerdictTx_found [OF assms(1) mt] by simp
qed

lemma CreateDraft_stranger:
  assumes "\<not> is_party (st_db s) th p" "healthy s"
  shows "\<exists>err. CreateDraft uuid_ok th p e now s = (Inl err, s) \<and>
    (uuid_ok (env_ID e) \<and> Validate e = Inr () \<and> Marshal e \<noteq> None \<longrightarrow> err = ErrNotFound \<or> err = ErrNotParticipant)"
proof -
  have "\<exists>err. writeTx (unit_tx (createDraftTx th p e blob now)) s = (Inl err, s) \<and> (err = ErrNotFound \<or> err = ErrNotParticipant)" for blob
    using createDraftTx_stranger [OF assms(1), of e blob now] by (auto simp: writeTx_healthy [OF assms(2)] unit_tx_def)
  note w = this
  show ?thesis
  proof (cases "Marshal e")
    case None
    then show ?thesis by (auto simp: CreateDraft_def split: sum.split)
  next
    case (Some blob)
    obtain err where "writeTx (unit_tx (createDraftTx th p e blob now)) s = (Inl err, s)" "err = ErrNotFound \<or> err = ErrNotParticipant"
      using w [of blob] by blast
    then show ?thesis using Some by (auto simp: CreateDraft_def split: sum.split)
  qed
qed

text \<open>
  No oracle. To a person who is not a party of a thread the tools answer the same whether it
  exists or not, and change nothing: \<open>get_thread\<close>, \<open>set_thread_grant\<close> and a valid
  \<open>send_message\<close> on it report that it was not found, and so do the verdicts on a message that
  is in no thread of theirs.
\<close>

theorem no_thread_oracle:
  assumes "healthy (h_store h)" "relay_inv (st_db (h_store h))" "\<not> is_party (st_db (h_store h)) th p"
  shows "get_thread pr rnd p th h = (Inl errNotFound, h) \<and>
    (dir = Inbound \<or> dir = Outbound \<longrightarrow>
       set_thread_grant gid p \<lparr>gi_ThreadID = th, gi_Direction = dir, gi_Enabled = on\<rparr> now h = (Inl errNotFound, h)) \<and>
    (th \<noteq> [] \<longrightarrow> (\<exists>e. send_message uuid_ok fr p \<lparr>si_To = to, si_Text = txt, si_Thread = th\<rparr> now h = (Inl e, h) \<and>
       (\<forall>q. length txt \<le> MaxBodyBytes \<and> PersonByEmail to (st_db (h_store h)) = Inr q \<and> pe_ID q \<noteq> p \<and> uuid_ok (fr_message fr) \<and>
          Validate (ask_envelope fr p (pe_ID q) th txt) = Inr () \<and> Marshal (ask_envelope fr p (pe_ID q) th txt) \<noteq> None \<longrightarrow>
          e = errNotFound))) \<and>
    ((\<forall>m \<in> set (messages (st_db (h_store h))). m_id m = mid \<longrightarrow> \<not> is_party (st_db (h_store h)) (m_thread m) p) \<longrightarrow>
       approve_message p mid now h = (Inl errNotFound, h) \<and> decline_message p mid now h = (Inl errNotFound, h))"
proof (intro conjI impI)
  let ?s = "h_store h" and ?d = "st_db (h_store h)"
  show "get_thread pr rnd p th h = (Inl errNotFound, h)"
    using assms(1) ThreadFor_stranger [OF assms(3)] by (simp add: get_thread_def reads_healthy)
  show "set_thread_grant gid p \<lparr>gi_ThreadID = th, gi_Direction = dir, gi_Enabled = on\<rparr> now h = (Inl errNotFound, h)"
    if "dir = Inbound \<or> dir = Outbound"
  proof -
    have "setGrantTx gid th p dir now ?d = Inl ErrNotParticipant" "revokeGrantTx th p dir now ?d = Inl ErrNotParticipant"
      using assms(3) by (simp_all add: setGrantTx_def revokeGrantTx_def requireParticipant_Inr [OF assms(2)])
    then show ?thesis
      using that by (cases on) (simp_all add: set_thread_grant_def SetThreadGrant_def RevokeThreadGrant_def
        writeTx_healthy [OF assms(1)] unit_tx_def)
  qed
  show "approve_message p mid now h = (Inl errNotFound, h)" "decline_message p mid now h = (Inl errNotFound, h)"
    if "\<forall>m \<in> set (messages ?d). m_id m = mid \<longrightarrow> \<not> is_party ?d (m_thread m) p"
    using verdict_stranger [OF assms(2), of mid p] that
    by (simp_all add: approve_message_def decline_message_def verdict_tool_def ApproveInboundMessage_def DeclineInboundMessage_def
        inboundMessageVerdict_def writeTx_healthy [OF assms(1)])
  show "\<exists>e. send_message uuid_ok fr p \<lparr>si_To = to, si_Text = txt, si_Thread = th\<rparr> now h = (Inl e, h) \<and>
       (\<forall>q. length txt \<le> MaxBodyBytes \<and> PersonByEmail to ?d = Inr q \<and> pe_ID q \<noteq> p \<and> uuid_ok (fr_message fr) \<and>
          Validate (ask_envelope fr p (pe_ID q) th txt) = Inr () \<and> Marshal (ask_envelope fr p (pe_ID q) th txt) \<noteq> None \<longrightarrow>
          e = errNotFound)" if "th \<noteq> []"
  proof (cases "\<exists>q. length txt \<le> MaxBodyBytes \<and> PersonByEmail to ?d = Inr q \<and> pe_ID q \<noteq> p")
    case True
    then obtain q where q: "length txt \<le> MaxBodyBytes" "PersonByEmail to ?d = Inr q" "pe_ID q \<noteq> p" by blast
    obtain err where err: "CreateDraft uuid_ok th p (ask_envelope fr p (pe_ID q) th txt) now ?s = (Inl err, ?s)"
        "uuid_ok (fr_message fr) \<and> Validate (ask_envelope fr p (pe_ID q) th txt) = Inr () \<and>
           Marshal (ask_envelope fr p (pe_ID q) th txt) \<noteq> None \<longrightarrow> err = ErrNotFound \<or> err = ErrNotParticipant"
      using CreateDraft_stranger [OF assms(3,1), of uuid_ok "ask_envelope fr p (pe_ID q) th txt" now]
      by (auto simp: ask_envelope_def New_def)
    then show ?thesis using q that assms(1) by (auto simp: send_message_def reads_healthy)
  next
    case False
    then show ?thesis using assms(1)
      by (auto simp: send_message_def reads_healthy split: sum.splits store_error.splits)
  qed
qed

theorem no_thread_oracle_witness:
  "get_thread (\<lambda>_. True) (\<lambda>_. []) ''eve'' ''th'' (NewHandler sample_store True) =
     get_thread (\<lambda>_. True) (\<lambda>_. []) ''eve'' ''nope'' (NewHandler sample_store True)"
proof -
  have h: "h_store (NewHandler sample_store True) = sample_store" by (simp add: NewHandler_def)
  have "\<not> is_party sample_db ''th'' ''eve''" "\<not> is_party sample_db ''nope'' ''eve''"
    by (simp_all add: is_party_def sample_simps)
  then show ?thesis
    using no_thread_oracle [of "NewHandler sample_store True" "''th''" "''eve''"]
      no_thread_oracle [of "NewHandler sample_store True" "''nope''" "''eve''"] sample_healthy sample_store_inv
    unfolding h by simp
qed

text \<open>
  A fresh ask is not atomic: when the draft is refused after the thread was created, for instance
  because the text exceeds the wire cap once escaped, the caller gets an error and the empty
  thread stays.
\<close>

lemma send_message_leaves_thread:
  assumes "StartThread (fr_thread fr) p (pe_ID q) now (h_store h) = (Inr th, s1)" "reads (PersonByEmail to) (h_store h) = Inr q"
    and "pe_ID q \<noteq> p" "length txt \<le> MaxBodyBytes" "uuid_ok (fr_message fr)"
    and "Validate (ask_envelope fr p (pe_ID q) th txt) = Inl ErrTooLarge"
  shows "send_message uuid_ok fr p \<lparr>si_To = to, si_Text = txt, si_Thread = []\<rparr> now h = (Inl errInternal, h\<lparr>h_store := s1\<rparr>)"
  using assms by (auto simp: send_message_def CreateDraft_def ask_envelope_def New_def)

end
