(* ===== verification/Redact.thy ===== *)
theory Redact
  imports Runes "HOL-Library.List_Lexorder" "HOL-Library.Char_ord"
begin

text \<open>
  Client-side secret redaction: \<open>internal/redact/redact.go\<close> and \<open>hook.go\<close>. Go's
  regular expressions are leftmost-first: the matcher \<open>run\<close> lists the ways an expression
  matches at a place, the preferred one first, as a backtracking matcher tries them. A place is the
  rune before it (for \<open>\b\<close> and \<open>^\<close>) with the chunks that follow; positions are
  lengths of what follows. \<open>Redact\<close> applies the rules in the order of the table. The hook
  is another program: the writes it makes on its standard output and how it ends are arguments.
\<close>

section \<open>Regular expressions\<close>

datatype re =
    Eps
  | Cls "nat \<Rightarrow> bool"
  | Seq re re
  | Alt re re
  | Star re
  | Lazy re
  | Group re
  | WordB
  | LineStart
  | TextEnd

type_synonym span = "nat \<times> nat"

text \<open>A place, and the span of the capturing group if it took part in the match.\<close>

type_synonym place = "nat option \<times> chunk list \<times> span option"

fun step_cls :: "(nat \<Rightarrow> bool) \<Rightarrow> place \<Rightarrow> place list" where
  "step_cls P (p, [], k) = []"
| "step_cls P (p, c # cs, k) = (if P (snd c) then [(Some (snd c), cs, k)] else [])"

definition shorter :: "place \<Rightarrow> place \<Rightarrow> bool" where
  "shorter s' s \<longleftrightarrow> length (fst (snd s')) < length (fst (snd s))"

text \<open>Repetition: a round that consumes nothing is not repeated, so n rounds are enough for n runes.\<close>

primrec greedy :: "nat \<Rightarrow> (place \<Rightarrow> place list) \<Rightarrow> place \<Rightarrow> place list" where
  "greedy 0 f s = [s]"
| "greedy (Suc n) f s = concat (map (greedy n f) (filter (\<lambda>s'. shorter s' s) (f s))) @ [s]"

primrec lazy :: "nat \<Rightarrow> (place \<Rightarrow> place list) \<Rightarrow> place \<Rightarrow> place list" where
  "lazy 0 f s = [s]"
| "lazy (Suc n) f s = s # concat (map (lazy n f) (filter (\<lambda>s'. shorter s' s) (f s)))"

definition word_at :: "chunk list \<Rightarrow> bool" where
  "word_at cs = (case cs of [] \<Rightarrow> False | c # _ \<Rightarrow> word_char (snd c))"

definition word_before :: "nat option \<Rightarrow> bool" where
  "word_before p = (case p of None \<Rightarrow> False | Some r \<Rightarrow> word_char r)"

fun capture :: "nat \<Rightarrow> place \<Rightarrow> place" where
  "capture start (p, cs, k) = (p, cs, Some (start, length cs))"

primrec run :: "re \<Rightarrow> place \<Rightarrow> place list" where
  "run Eps s = [s]"
| "run (Cls P) s = step_cls P s"
| "run (Seq a b) s = concat (map (run b) (run a s))"
| "run (Alt a b) s = run a s @ run b s"
| "run (Star a) s = greedy (length (fst (snd s))) (run a) s"
| "run (Lazy a) s = lazy (length (fst (snd s))) (run a) s"
| "run (Group a) s = map (capture (length (fst (snd s)))) (run a s)"
| "run WordB s = (if word_before (fst s) \<noteq> word_at (fst (snd s)) then [s] else [])"
| "run LineStart s = (if fst s = None \<or> fst s = Some 10 then [s] else [])"
| "run TextEnd s = (if fst (snd s) = [] then [s] else [])"

text \<open>The usual abbreviations.\<close>

definition Plus :: "re \<Rightarrow> re" where "Plus r = Seq r (Star r)"
definition Opt :: "re \<Rightarrow> re" where "Opt r = Alt r Eps"

primrec Rep :: "nat \<Rightarrow> re \<Rightarrow> re" where
  "Rep 0 r = Eps"
| "Rep (Suc n) r = Seq r (Rep n r)"

definition AtLeast :: "nat \<Rightarrow> re \<Rightarrow> re" where "AtLeast n r = Seq (Rep n r) (Star r)"

primrec Lit :: "string \<Rightarrow> re" where
  "Lit [] = Eps"
| "Lit (c # s) = Seq (Cls (\<lambda>r. r = byte_of c)) (Lit s)"

primrec LitI :: "string \<Rightarrow> re" where
  "LitI [] = Eps"
| "LitI (c # s) = Seq (Cls (\<lambda>r. fold_rune r = fold_rune (byte_of c))) (LitI s)"

fun Any :: "re list \<Rightarrow> re" where
  "Any [] = Cls (\<lambda>_. False)"
| "Any [r] = r"
| "Any (r # s # rs) = Alt r (Any (s # rs))"

text \<open>The leftmost match, and \<open>FindAllStringSubmatchIndex\<close>: the search goes on after each match.\<close>

fun search :: "re \<Rightarrow> nat option \<Rightarrow> chunk list \<Rightarrow> (nat \<times> place) option" where
  "search r p cs =
     (case run r (p, cs, None) of
        s # _ \<Rightarrow> Some (length cs, s)
      | [] \<Rightarrow> (case cs of [] \<Rightarrow> None | c # cs' \<Rightarrow> search r (Some (snd c)) cs'))"

declare search.simps [simp del]

type_synonym match = "span \<times> span option"

function find_all :: "re \<Rightarrow> nat option \<Rightarrow> chunk list \<Rightarrow> match list" where
  "find_all r p cs =
     (case search r p cs of
        None \<Rightarrow> []
      | Some (start, p', cs', k) \<Rightarrow>
          ((start, length cs'), k) # (if length cs' < length cs then find_all r p' cs' else []))"
  by pat_completeness auto
termination by (relation "measure (\<lambda>(r, p, cs). length cs)") auto

declare find_all.simps [simp del]

section \<open>The rules\<close>

text \<open>
  A marker is \<open>redacted:<kind>\<close> between the brackets U+27E6 and U+27E7, in UTF-8.
\<close>

definition marker_open :: string where "marker_open = [CHR 0xE2, CHR 0x9F, CHR 0xA6]"
definition marker_close :: string where "marker_close = [CHR 0xE2, CHR 0x9F, CHR 0xA7]"

definition marker :: "string \<Rightarrow> string" where
  "marker kind = marker_open @ ''redacted:'' @ kind @ marker_close"

definition lower_dash :: "nat \<Rightarrow> bool" where
  "lower_dash r \<longleftrightarrow> 97 \<le> r \<and> r \<le> 122 \<or> r = 45"

definition markerRe :: re where
  "markerRe = Seq (Cls (\<lambda>r. r = 0x27E6)) (Seq (Lit ''redacted:'') (Seq (Plus (Cls lower_dash)) (Seq (Cls (\<lambda>r. r = 0x27E7)) TextEnd)))"

text \<open>The expression is anchored at both ends.\<close>

definition is_marker :: "string \<Rightarrow> bool" where
  "is_marker v \<longleftrightarrow> run markerRe (None, chunks v, None) \<noteq> []"

record rule =
  ru_kind :: string
  ru_re :: re
  ru_group :: nat

definition digit :: "nat \<Rightarrow> bool" where "digit r \<longleftrightarrow> 48 \<le> r \<and> r \<le> 57"
definition upper :: "nat \<Rightarrow> bool" where "upper r \<longleftrightarrow> 65 \<le> r \<and> r \<le> 90"
definition lower :: "nat \<Rightarrow> bool" where "lower r \<longleftrightarrow> 97 \<le> r \<and> r \<le> 122"
definition alnum :: "nat \<Rightarrow> bool" where "alnum r \<longleftrightarrow> digit r \<or> upper r \<or> lower r"
definition b64url :: "nat \<Rightarrow> bool" where "b64url r \<longleftrightarrow> alnum r \<or> r = 95 \<or> r = 45"
definition space :: "nat \<Rightarrow> bool" where "space r \<longleftrightarrow> r \<in> {9, 10, 12, 13, 32}"
definition blank :: "nat \<Rightarrow> bool" where "blank r \<longleftrightarrow> r = 32 \<or> r = 9"
definition pem_char :: "nat \<Rightarrow> bool" where "pem_char r \<longleftrightarrow> upper r \<or> digit r \<or> r = 32"
definition aws_char :: "nat \<Rightarrow> bool" where "aws_char r \<longleftrightarrow> digit r \<or> upper r"

text \<open>\<open>[^\s,}]\<close>, and \<open>[A-Za-z0-9_.-]\<close> under \<open>(?i)\<close>.\<close>

definition value_char :: "nat \<Rightarrow> bool" where "value_char r \<longleftrightarrow> \<not> space r \<and> r \<noteq> 44 \<and> r \<noteq> 125"
definition name_char :: "nat \<Rightarrow> bool" where "name_char r \<longleftrightarrow> letter r \<or> digit r \<or> r = 95 \<or> r = 46 \<or> r = 45"

definition Is :: "nat \<Rightarrow> re" where "Is c = Cls (\<lambda>r. r = c)"
definition IsNot :: "nat \<Rightarrow> re" where "IsNot c = Cls (\<lambda>r. r \<noteq> c)"

text \<open>A value in the given quotes with what directly follows the closing quote.\<close>

definition quoted :: "nat \<Rightarrow> re" where
  "quoted q = Seq (Is q) (Seq (Star (IsNot q)) (Seq (Is q) (Star (Cls value_char))))"

definition gcpRe :: re where
  "gcpRe = Seq (Is 34) (Seq (Lit ''private_key'') (Seq (Is 34) (Seq (Star (Cls space)) (Seq (Is 58)
     (Seq (Star (Cls space)) (Group (Alt (quoted 34) (Plus (Cls value_char)))))))))"

definition pem_line :: "string \<Rightarrow> re" where
  "pem_line w = Seq (Lit (''-----'' @ w @ '' '')) (Seq (Star (Cls pem_char)) (Lit ''PRIVATE KEY-----''))"

definition pemRe :: re where
  "pemRe = Seq (pem_line ''BEGIN'') (Seq (Lazy (Cls (\<lambda>_. True))) (Alt (pem_line ''END'') TextEnd))"

definition jwtRe :: re where
  "jwtRe = Seq WordB (Seq (Lit ''eyJ'') (Seq (Plus (Cls b64url)) (Seq (Lit ''.eyJ'') (Seq (Plus (Cls b64url))
     (Opt (Seq (Is 46) (Star (Cls b64url))))))))"

definition awsRe :: re where
  "awsRe = Seq (Alt (Lit ''AKIA'') (Lit ''ASIA'')) (Rep 16 (Cls aws_char))"

definition githubRe :: re where
  "githubRe = Seq WordB (Seq (Alt
     (Seq (Lit ''gh'') (Seq (Cls (\<lambda>r. r \<in> {112, 111, 117, 115, 114})) (Seq (Is 95) (Rep 36 (Cls alnum)))))
     (Seq (Lit ''github_pat_'') (AtLeast 40 (Cls word_char)))) WordB)"

definition slackRe :: re where
  "slackRe = Seq WordB (Seq (Alt
     (Seq (Lit ''xox'') (Seq (Cls (\<lambda>r. r \<in> {98, 97, 112, 114, 115, 101})) (Is 45))) (Lit ''xapp-''))
     (Seq (AtLeast 10 (Cls (\<lambda>r. alnum r \<or> r = 46 \<or> r = 45))) WordB))"

definition envRe :: re where
  "envRe = Seq (Alt LineStart (Cls (\<lambda>r. space r \<or> r = 123 \<or> r = 44)))
     (Seq (Opt (Cls (\<lambda>r. r = 34 \<or> r = 39))) (Seq (Star (Cls name_char))
     (Seq (Any (map LitI [''TOKEN'', ''SECRET'', ''KEY'', ''PASSWORD'', ''PASSWD'', ''CREDENTIAL'']))
     (Seq (Star (Cls name_char)) (Seq (Opt (Cls (\<lambda>r. r = 34 \<or> r = 39)))
     (Seq (Star (Cls blank)) (Seq (Cls (\<lambda>r. r = 58 \<or> r = 61)) (Seq (Star (Cls blank))
     (Group (Any [quoted 34, quoted 39, Plus (Cls value_char)]))))))))))"

definition rules :: "rule list" where
  "rules =
     [\<lparr>ru_kind = ''gcp-service-account'', ru_re = gcpRe, ru_group = 1\<rparr>,
      \<lparr>ru_kind = ''private-key'', ru_re = pemRe, ru_group = 0\<rparr>,
      \<lparr>ru_kind = ''jwt'', ru_re = jwtRe, ru_group = 0\<rparr>,
      \<lparr>ru_kind = ''aws-access-key'', ru_re = awsRe, ru_group = 0\<rparr>,
      \<lparr>ru_kind = ''github-token'', ru_re = githubRe, ru_group = 0\<rparr>,
      \<lparr>ru_kind = ''slack-token'', ru_re = slackRe, ru_group = 0\<rparr>,
      \<lparr>ru_kind = ''env-secret'', ru_re = envRe, ru_group = 1\<rparr>]"

section \<open>Applying a rule\<close>

text \<open>
  The loop of \<open>apply\<close> over the matches; \<open>rest\<close> is what follows \<open>last\<close>, and a
  group that did not take part is skipped.
\<close>

definition from_end :: "nat \<Rightarrow> chunk list \<Rightarrow> chunk list" where
  "from_end n cs = drop (length cs - n) cs"

fun splice :: "rule \<Rightarrow> chunk list \<Rightarrow> match list \<Rightarrow> chunk list \<times> nat" where
  "splice ru rest [] = (rest, 0)"
| "splice ru rest ((whole, cap) # locs) =
     (case (if ru_group ru = 0 then Some whole else cap) of
        None \<Rightarrow> splice ru rest locs
      | Some (gs, ge) \<Rightarrow>
          if is_marker (bytes_of (take (gs - ge) (from_end gs rest))) then splice ru rest locs
          else let (out, n) = splice ru (from_end ge rest) locs
               in (take (length rest - gs) rest @ chunks (marker (ru_kind ru)) @ out, n + 1))"

definition apply_rule :: "rule \<Rightarrow> string \<Rightarrow> string \<times> nat" where
  "apply_rule ru s =
     (let cs = chunks s; locs = find_all (ru_re ru) None cs
      in if locs = [] then (s, 0) else (let (out, n) = splice ru cs locs in (bytes_of out, n)))"

record result =
  rs_Text :: string
  rs_Counts :: "(string \<times> nat) list"

text \<open>The kinds of the table are distinct, so \<open>counts[kind] += n\<close> adds a new entry.\<close>

definition Redact :: "string \<Rightarrow> result" where
  "Redact s =
     (let (out, counts) = foldl (\<lambda>(s, counts) ru.
        let (s', n) = apply_rule ru s in (s', if 0 < n then counts @ [(ru_kind ru, n)] else counts)) (s, []) rules
      in \<lparr>rs_Text = out, rs_Counts = counts\<rparr>)"

definition Redacted :: "result \<Rightarrow> bool" where
  "Redacted r \<longleftrightarrow> 0 < length (rs_Counts r)"

definition times_sign :: string where "times_sign = [CHR 0xC3, CHR 0x97]"

fun commas :: "string list \<Rightarrow> string" where
  "commas [] = []"
| "commas [x] = x"
| "commas (x # y # ys) = x @ '', '' @ commas (y # ys)"

definition Summary :: "result \<Rightarrow> string" where
  "Summary r =
     (if rs_Counts r = [] then []
      else commas (map (\<lambda>k. k @ times_sign @ itoa (int (the (map_of (rs_Counts r) k)))) (sort (map fst (rs_Counts r)))))"

section \<open>The hook\<close>

definition maxHookOutput :: nat where
  "maxHookOutput = 2 ^ 20"

record cappedWriter =
  cw_buf :: string
  cw_n :: nat
  cw_max :: nat

text \<open>\<open>Write\<close>: \<open>None\<close> is the error.\<close>

definition capped_Write :: "string \<Rightarrow> cappedWriter \<Rightarrow> cappedWriter option" where
  "capped_Write p w =
     (if cw_max w < cw_n w + length p then None
      else Some (w\<lparr>cw_n := cw_n w + length p, cw_buf := cw_buf w @ p\<rparr>))"

text \<open>
  \<open>cmd.Run\<close> copies the writes of the program to the capped writer and fails when a copy fails
  or when the program does not end well (\<open>ends_well\<close>: exit status zero, within the deadline,
  no descendant keeping the pipe open, no spawn error).
\<close>

fun copy_output :: "string list \<Rightarrow> cappedWriter \<Rightarrow> cappedWriter option" where
  "copy_output [] w = Some w"
| "copy_output (p # ps) w = Option.bind (capped_Write p w) (copy_output ps)"

datatype hook_error = HookFailed | HookEmpty

definition Hook :: "string list \<Rightarrow> bool \<Rightarrow> string \<Rightarrow> hook_error + string" where
  "Hook outs ends_well txt =
     (case (if ends_well then copy_output outs \<lparr>cw_buf = [], cw_n = 0, cw_max = maxHookOutput\<rparr> else None) of
        None \<Rightarrow> Inl HookFailed
      | Some w \<Rightarrow> if txt \<noteq> [] \<and> cw_buf w = [] then Inl HookEmpty else Inr (cw_buf w))"

end
