(* ===== verification/RedactFacts.thy ===== *)
theory RedactFacts
  imports Redact
begin

text \<open>
  What redaction guarantees. A set of words (runes) that avoid the marker's brackets and contain an
  upper-case letter cannot arise by inserting markers; a rule whose expression matches every such
  word removes them all, wherever they stand. For AWS key ids and for the header line of a PEM
  private key this gives: none is left in the result, whatever the input. The loop of a rule
  rewrites matched spans only, the counts say whether anything changed, and the hook returns a text
  only when the program ended well within the size limit.
\<close>

section \<open>Completeness of the matcher\<close>

lemma run_Seq_I: "t \<in> set (run a s) \<Longrightarrow> u \<in> set (run b t) \<Longrightarrow> u \<in> set (run (Seq a b) s)"
  by auto

lemma run_Lit: "map snd w = map byte_of t \<Longrightarrow> \<exists>q. (q, rest, k) \<in> set (run (Lit t) (p, w @ rest, k))"
proof (induction t arbitrary: w p)
  case (Cons x t)
  then obtain c w' where w: "w = c # w'" "snd c = byte_of x" "map snd w' = map byte_of t" by (cases w) auto
  from Cons.IH [OF w(3)] show ?case by (simp add: w(1,2))
qed simp

lemma greedy_cls:
  "list_all (\<lambda>c. P (snd c)) w \<Longrightarrow> length w \<le> n \<Longrightarrow> \<exists>q. (q, rest, k) \<in> set (greedy n (step_cls P) (p, w @ rest, k))"
proof (induction w arbitrary: n p)
  case Nil
  then show ?case by (cases n) auto
next
  case (Cons c w)
  then obtain n' where n: "n = Suc n'" by (cases n) auto
  from Cons.IH [of n' "Some (snd c)"] Cons.prems obtain q where
    "(q, rest, k) \<in> set (greedy n' (step_cls P) (Some (snd c), w @ rest, k))" by (auto simp: n)
  then show ?case using Cons.prems by (auto simp: n shorter_def)
qed

lemma run_Cls [simp]: "run (Cls P) = step_cls P"
  by (rule ext) simp

lemma run_Star_cls: "list_all (\<lambda>c. P (snd c)) w \<Longrightarrow> \<exists>q. (q, rest, k) \<in> set (run (Star (Cls P)) (p, w @ rest, k))"
  using greedy_cls [of P w "length (w @ rest)"] by simp

lemma lazy_end: "length cs \<le> n \<Longrightarrow> \<exists>q. (q, [], k) \<in> set (lazy n (step_cls (\<lambda>_. True)) (p, cs, k))"
proof (induction cs arbitrary: n p)
  case Nil
  then show ?case by (cases n) auto
next
  case (Cons c cs)
  then obtain n' where n: "n = Suc n'" by (cases n) auto
  from Cons.IH [of n' "Some (snd c)"] Cons.prems show ?case by (auto simp: n shorter_def)
qed

lemma run_Rep_cls:
  "list_all (\<lambda>c. P (snd c)) w \<Longrightarrow> length w = n \<Longrightarrow> \<exists>q. (q, rest, k) \<in> set (run (Rep n (Cls P)) (p, w @ rest, k))"
proof (induction n arbitrary: w p)
  case (Suc n)
  then obtain c w' where w: "w = c # w'" by (cases w) auto
  with Suc.IH [of w' "Some (snd c)"] Suc.prems show ?case by auto
qed simp

definition aws_word :: "nat list \<Rightarrow> bool" where
  "aws_word ws \<longleftrightarrow> length ws = 20 \<and> (take 4 ws = map byte_of ''AKIA'' \<or> take 4 ws = map byte_of ''ASIA'') \<and>
     list_all aws_char (drop 4 ws)"

definition pem_word :: "nat list \<Rightarrow> bool" where
  "pem_word ws \<longleftrightarrow> (\<exists>mid. ws = map byte_of ''-----BEGIN '' @ mid @ map byte_of ''PRIVATE KEY-----'' \<and> list_all pem_char mid)"

lemma aws_hit:
  assumes "aws_word (map snd w)" shows "run awsRe (p, w @ rest, k) \<noteq> []"
proof -
  have w: "w = take 4 w @ drop 4 w" by simp
  have "map snd (take 4 w) = map byte_of ''AKIA'' \<or> map snd (take 4 w) = map byte_of ''ASIA''"
    using assms by (simp add: aws_word_def take_map)
  then have "\<exists>q. (q, drop 4 w @ rest, k) \<in> set (run (Alt (Lit ''AKIA'') (Lit ''ASIA'')) (p, take 4 w @ drop 4 w @ rest, k))"
  proof
    assume "map snd (take 4 w) = map byte_of ''AKIA''"
    from run_Lit [OF this] show ?thesis unfolding run.simps set_append by blast
  next
    assume "map snd (take 4 w) = map byte_of ''ASIA''"
    from run_Lit [OF this] show ?thesis unfolding run.simps set_append by blast
  qed
  then obtain q where q: "(q, drop 4 w @ rest, k) \<in> set (run (Alt (Lit ''AKIA'') (Lit ''ASIA'')) (p, w @ rest, k))"
    by (metis append.assoc w)
  have "list_all (\<lambda>c. aws_char (snd c)) (drop 4 w)" "length (drop 4 w) = 16"
    using assms by (auto simp: aws_word_def list_all_iff drop_map)
  from run_Rep_cls [OF this] obtain q' where "(q', rest, k) \<in> set (run (Rep 16 (Cls aws_char)) (q, drop 4 w @ rest, k))" by blast
  with q have "(q', rest, k) \<in> set (run awsRe (p, w @ rest, k))" unfolding awsRe_def by (rule run_Seq_I)
  then show ?thesis by auto
qed

lemma pem_hit:
  assumes "pem_word (map snd w)" shows "run pemRe (p, w @ rest, k) \<noteq> []"
proof -
  obtain mid where mid: "map snd w = map byte_of ''-----BEGIN '' @ mid @ map byte_of ''PRIVATE KEY-----''" "list_all pem_char mid"
    using assms by (auto simp: pem_word_def)
  from map_eq_append_conv [THEN iffD1, OF mid(1)] obtain a w' where a: "w = a @ w'" "map snd a = map byte_of ''-----BEGIN ''"
    "map snd w' = mid @ map byte_of ''PRIVATE KEY-----''" by (elim exE conjE) (rule that, assumption, erule sym, erule sym)
  from map_eq_append_conv [THEN iffD1, OF a(3)] obtain b c where "w' = b @ c" "map snd b = mid"
    "map snd c = map byte_of ''PRIVATE KEY-----''" by (elim exE conjE) (rule that, assumption, erule sym, erule sym)
  with a have w: "w = a @ b @ c" "map snd a = map byte_of ''-----BEGIN ''" "map snd b = mid"
    "map snd c = map byte_of ''PRIVATE KEY-----''" by (simp_all only: append.assoc)
  obtain q1 where q1: "(q1, b @ c @ rest, k) \<in> set (run (Lit ''-----BEGIN '') (p, a @ b @ c @ rest, k))"
    using run_Lit [OF w(2)] by blast
  have "list_all (\<lambda>x. pem_char (snd x)) b" using mid(2) w(3) by (force simp: list_all_iff)
  then obtain q2 where q2: "(q2, c @ rest, k) \<in> set (run (Star (Cls pem_char)) (q1, b @ c @ rest, k))"
    using run_Star_cls by blast
  obtain q3 where q3: "(q3, rest, k) \<in> set (run (Lit ''PRIVATE KEY-----'') (q2, c @ rest, k))"
    using run_Lit [OF w(4)] by blast
  have head: "(q3, rest, k) \<in> set (run (pem_line ''BEGIN'') (p, a @ b @ c @ rest, k))"
    unfolding pem_line_def using run_Seq_I [OF q1 run_Seq_I [OF q2 q3]] by simp
  obtain q4 where q4: "(q4, [], k) \<in> set (run (Lazy (Cls (\<lambda>_. True))) (q3, rest, k))"
    using lazy_end [of rest "length rest"] by auto
  have "(q4, [], k) \<in> set (run (Alt (pem_line ''END'') TextEnd) (q4, [], k))" by simp
  from run_Seq_I [OF head run_Seq_I [OF q4 this]]
  have "(q4, [], k) \<in> set (run pemRe (p, w @ rest, k))" unfolding pemRe_def w append.assoc .
  then show ?thesis by (metis empty_iff list.set(1))
qed

section \<open>Every match consumes\<close>

primrec consumes :: "re \<Rightarrow> bool" where
  "consumes Eps = False"
| "consumes (Cls P) = True"
| "consumes (Seq a b) = (consumes a \<or> consumes b)"
| "consumes (Alt a b) = (consumes a \<and> consumes b)"
| "consumes (Star a) = False"
| "consumes (Lazy a) = False"
| "consumes (Group a) = consumes a"
| "consumes WordB = False"
| "consumes LineStart = False"
| "consumes TextEnd = False"

abbreviation after :: "place \<Rightarrow> chunk list" where
  "after s \<equiv> fst (snd s)"

lemma step_cls_D: "s' \<in> set (step_cls P s) \<Longrightarrow> \<exists>c. after s = c # after s' \<and> P (snd c)"
  by (cases "(P, s)" rule: step_cls.cases) (auto split: if_splits)

lemma suffix_step: "suffix x y \<Longrightarrow> suffix y z \<Longrightarrow> suffix x z"
  by (auto simp: suffix_def)

lemma repeat_suffix:
  assumes f: "\<And>s s'. s' \<in> set (f s) \<Longrightarrow> suffix (after s') (after s)"
  shows "s' \<in> set (greedy n f s) \<union> set (lazy n f s) \<Longrightarrow> suffix (after s') (after s)"
proof (induction n arbitrary: s)
  case (Suc n)
  then consider "s' = s" | t where "t \<in> set (f s)" "s' \<in> set (greedy n f t) \<union> set (lazy n f t)" by auto
  then show ?case
  proof cases
    case (2 t)
    then show ?thesis using suffix_step [OF Suc.IH f] by blast
  qed simp
qed simp

lemma capture_after [simp]: "after (capture n s) = after s"
  by (cases s rule: prod_cases3) simp

lemma run_suffix: "s' \<in> set (run r s) \<Longrightarrow> suffix (after s') (after s)"
proof (induction r arbitrary: s s')
  case (Cls P)
  then show ?case using step_cls_D [of s' P s] by (auto simp: suffix_Cons)
next
  case (Seq a b)
  then obtain t where "t \<in> set (run a s)" "s' \<in> set (run b t)" by auto
  then show ?case using suffix_step [OF Seq.IH(2) Seq.IH(1)] by blast
next
  case (Star a)
  then show ?case using repeat_suffix [of "run a" s' "length (after s)" s] by (simp only: run.simps Un_iff) blast
next
  case (Lazy a)
  then show ?case using repeat_suffix [of "run a" s' "length (after s)" s] by (simp only: run.simps Un_iff) blast
qed (auto split: if_splits)

lemma run_consumes: "consumes r \<Longrightarrow> s' \<in> set (run r s) \<Longrightarrow> shorter s' s"
proof (induction r arbitrary: s s')
  case (Cls P)
  then show ?case using step_cls_D [of s' P s] by (auto simp: shorter_def)
next
  case (Seq a b)
  then obtain t where t: "t \<in> set (run a s)" "s' \<in> set (run b t)" by auto
  have "length (after t) \<le> length (after s)" "length (after s') \<le> length (after t)"
    using run_suffix [OF t(1)] run_suffix [OF t(2)] by (auto dest: suffix_length_le)
  moreover have "shorter t s \<or> shorter s' t" using Seq.IH(1) [OF _ t(1)] Seq.IH(2) [OF _ t(2)] Seq.prems(1) by (simp only: consumes.simps) blast
  ultimately show ?case by (auto simp: shorter_def)
next
  case (Group a)
  then obtain t n where t: "t \<in> set (run a s)" "s' = capture n t" by auto
  then show ?case using Group.IH [OF _ t(1)] Group.prems(1) by (simp add: shorter_def)
qed (auto split: if_splits)

lemma rules_consume: "ru \<in> set rules \<Longrightarrow> consumes (ru_re ru)"
  by (auto simp: rules_def gcpRe_def pemRe_def jwtRe_def awsRe_def githubRe_def slackRe_def envRe_def pem_line_def Is_def
      Plus_def)

section \<open>The leftmost match\<close>

lemma search_Some:
  "search r p cs = Some (st, s) \<Longrightarrow> \<exists>u v q. cs = u @ v \<and> st = length v \<and> s \<in> set (run r (q, v, None)) \<and>
     (\<forall>u1 u2. u = u1 @ u2 \<longrightarrow> u2 \<noteq> [] \<longrightarrow> (\<exists>q'. run r (q', u2 @ v, None) = []))"
proof (induction cs arbitrary: p)
  case Nil
  then have "s \<in> set (run r (p, [], None))" "st = 0" by (subst (asm) search.simps, simp split: list.splits)+
  then show ?case by (intro exI [of _ "[]"]) auto
next
  case (Cons c cs)
  show ?case
  proof (cases "run r (p, c # cs, None)")
    case Nil
    with Cons.prems have "search r (Some (snd c)) cs = Some (st, s)" by (subst (asm) search.simps) simp
    from Cons.IH [OF this] obtain u v q where uv: "cs = u @ v" "st = length v" "s \<in> set (run r (q, v, None))"
      "\<forall>u1 u2. u = u1 @ u2 \<longrightarrow> u2 \<noteq> [] \<longrightarrow> (\<exists>q'. run r (q', u2 @ v, None) = [])" by blast
    have "\<exists>q'. run r (q', u2 @ v, None) = []" if "c # u = u1 @ u2" "u2 \<noteq> []" for u1 u2
      using that uv(1,4) Nil by (cases u1) auto
    then show ?thesis using uv by (intro exI [of _ "c # u"] exI [of _ v] exI [of _ q]) simp
  next
    case (Cons x xs)
    with Cons.prems have "s \<in> set (run r (p, c # cs, None))" "st = length (c # cs)" by (subst (asm) search.simps, simp)+
    then show ?thesis by (intro exI [of _ "[]"] exI [of _ "c # cs"] exI [of _ p]) simp
  qed
qed

lemma search_None: "search r p (u @ v) = None \<Longrightarrow> \<exists>q. run r (q, v, None) = []"
proof (induction u arbitrary: p)
  case Nil
  then show ?case by (subst (asm) search.simps) (auto split: list.splits)
next
  case (Cons c u)
  then show ?case by (subst (asm) search.simps) (auto split: list.splits)
qed

section \<open>One round of the loop\<close>

lemma splice_cases:
  obtains (skip) "splice ru rest (m # locs) = splice ru rest locs"
  | (cut) gs ge where
      "fst (splice ru rest (m # locs)) =
         take (length rest - gs) rest @ chunks (marker (ru_kind ru)) @ fst (splice ru (from_end ge rest) locs)"
      "snd (splice ru rest (m # locs)) = Suc (snd (splice ru (from_end ge rest) locs))"
      "(if ru_group ru = 0 then Some (fst m) else snd m) = Some (gs, ge)"
      "\<not> is_marker (bytes_of (take (gs - ge) (from_end gs rest)))"
proof -
  obtain whole cap where m: "m = (whole, cap)" by (cases m)
  show ?thesis
  proof (cases "if ru_group ru = 0 then Some whole else cap")
    case None
    then show ?thesis using skip by (simp add: m)
  next
    case (Some x)
    obtain gs ge where x: "x = (gs, ge)" by (cases x)
    show ?thesis
    proof (cases "is_marker (bytes_of (take (gs - ge) (from_end gs rest)))")
      case True
      then show ?thesis using skip Some x by (simp add: m)
    next
      case False
      show ?thesis by (rule cut [of gs ge]) (use False Some x in \<open>auto simp: m Let_def case_prod_unfold split: if_splits\<close>)
    qed
  qed
qed

section \<open>Inserting markers creates no secret\<close>

definition has_word :: "(nat list \<Rightarrow> bool) \<Rightarrow> chunk list \<Rightarrow> bool" where
  "has_word L cs \<longleftrightarrow> (\<exists>ws. L ws \<and> sublist ws (map snd cs))"

definition plain_kind :: "string \<Rightarrow> bool" where
  "plain_kind k \<longleftrightarrow> list_all (\<lambda>c. lower_dash (byte_of c)) k"

lemma marker_chunks:
  assumes "plain_kind k"
  shows "chunks (marker k @ s) = (marker_open, 0x27E6) # ascii (''redacted:'' @ k) @ (marker_close, 0x27E7) # chunks s"
proof -
  have a: "list_all (\<lambda>c. byte_of c < 128) (''redacted:'' @ k)"
    using assms by (auto simp: plain_kind_def lower_dash_def list_all_iff byte_of_def)
  have d: "decode_rune (226 # 159 # 166 # bs) = (0x27E6, 3)" "decode_rune (226 # 159 # 167 # bs) = (0x27E7, 3)" for bs
    by (simp_all add: accept2_def cont_def)
  have "well_cut ((marker_open, 0x27E6) # ascii (''redacted:'' @ k) @ (marker_close, 0x27E7) # chunks s)"
    using well_cut_ascii [OF a] d by (simp add: well_cut_Cons marker_open_def marker_close_def byte_of_def)
  then show ?thesis unfolding well_cut_def by (simp add: marker_def)
qed

lemma has_word_append: "has_word L u \<Longrightarrow> has_word L (x @ u @ y)"
  unfolding has_word_def sublist_def by (metis append.assoc map_append)

lemma has_word_append_D: "has_word L (take n cs) \<Longrightarrow> has_word L cs" "has_word L (drop n cs) \<Longrightarrow> has_word L cs"
  using has_word_append [of L "take n cs" "[]" "drop n cs"] has_word_append [of L "drop n cs" "take n cs" "[]"] by simp_all

locale secret_words =
  fixes L :: "nat list \<Rightarrow> bool"
  assumes avoids: "L ws \<Longrightarrow> 0x27E6 \<notin> set ws \<and> 0x27E7 \<notin> set ws"
    and has_upper: "L ws \<Longrightarrow> \<exists>r \<in> set ws. upper r"
begin

lemma sublist_cut: "a \<notin> set ws \<Longrightarrow> sublist ws (x @ a # y) \<Longrightarrow> sublist ws x \<or> sublist ws y"
proof -
  assume a: "a \<notin> set ws" and "sublist ws (x @ a # y)"
  then obtain p q where eq: "x @ a # y = p @ ws @ q" by (auto simp: sublist_def)
  show ?thesis
  proof (cases "length p \<le> length x")
    case True
    then obtain p' where x: "x = p @ p'" using eq by (metis append_eq_append_conv_if append_take_drop_id)
    then have "p' @ a # y = ws @ q" using eq by simp
    then have "\<exists>z. p' = ws @ z" using a by (auto simp: append_eq_append_conv2 Cons_eq_append_conv)
    then show ?thesis using x by (auto simp: sublist_def)
  next
    case False
    then obtain z where "p = x @ a # z"
      using eq by (auto simp: append_eq_append_conv2 Cons_eq_append_conv)
    then show ?thesis using eq by (auto simp: sublist_def)
  qed
qed

lemma marker_insert:
  assumes "plain_kind k" "has_word L (u @ chunks (marker k) @ v)"
  shows "has_word L u \<or> has_word L v"
proof -
  let ?m = "map byte_of (''redacted:'' @ k)"
  have c: "chunks (marker k) = (marker_open, 0x27E6) # ascii (''redacted:'' @ k) @ [(marker_close, 0x27E7)]"
    using marker_chunks [OF assms(1), of "[]"] by simp
  have sa: "map snd (ascii s) = map byte_of s" for s by (simp add: ascii_def)
  obtain ws where ws: "L ws" "sublist ws (map snd u @ 0x27E6 # ?m @ 0x27E7 # map snd v)"
    using assms(2) unfolding has_word_def c by (auto simp: sa)
  have "\<not> upper r" if "r \<in> set ?m" for r
    using that assms(1) by (auto simp: plain_kind_def list_all_iff lower_dash_def upper_def byte_of_def)
  then have "\<not> sublist ws ?m" using has_upper [OF ws(1)] by (meson set_mono_sublist subsetD)
  then have "sublist ws (map snd u) \<or> sublist ws (map snd v)"
    using avoids [OF ws(1)] sublist_cut [OF _ ws(2)] sublist_cut [of "0x27E7" ws ?m "map snd v"] by blast
  then show ?thesis using ws(1) by (auto simp: has_word_def)
qed

lemma splice_keeps:
  "plain_kind (ru_kind ru) \<Longrightarrow> \<not> has_word L rest \<Longrightarrow> \<not> has_word L (fst (splice ru rest locs))"
proof (induction locs arbitrary: rest)
  case (Cons m locs)
  have d: "\<not> has_word L (take n rest)" "\<not> has_word L (from_end n rest)" for n
    using has_word_append_D(1) [of L n rest] has_word_append_D(2) [of L "length rest - n" rest] Cons.prems(2)
    unfolding from_end_def by blast+
  show ?case
  proof (cases rule: splice_cases [of ru rest m locs])
    case skip
    show ?thesis unfolding skip by (rule Cons.IH [OF Cons.prems])
  next
    case (cut gs ge)
    show ?thesis
      using marker_insert [OF Cons.prems(1), of "take (length rest - gs) rest" "fst (splice ru (from_end ge rest) locs)"]
        d(1) Cons.IH [OF Cons.prems(1) d(2)] unfolding cut(1) by blast
  qed
qed simp

end

interpretation aws: secret_words aws_word
proof
  fix ws assume ws: "aws_word ws"
  have "ws = take 4 ws @ drop 4 ws" by simp
  then have "set ws = set (take 4 ws) \<union> set (drop 4 ws)" by (metis set_append)
  then show "0x27E6 \<notin> set ws \<and> 0x27E7 \<notin> set ws" "\<exists>r \<in> set ws. upper r"
    using ws by (auto simp: aws_word_def list_all_iff aws_char_def digit_def upper_def byte_of_def)
qed

interpretation pem: secret_words pem_word
  by unfold_locales (auto simp: pem_word_def list_all_iff pem_char_def digit_def upper_def byte_of_def, fastforce+)

section \<open>A rule removes every word its expression covers\<close>

lemma from_end_suffix [simp]: "from_end (length v) (u @ v) = v"
  by (simp add: from_end_def)

text \<open>
  The matches of a rule whose group is the whole match are all replaced: they consume, and they do
  not start with the bracket of a marker.
\<close>

locale covering = secret_words L for L :: "nat list \<Rightarrow> bool" +
  fixes ru :: rule
  assumes whole: "ru_group ru = 0"
    and kind: "plain_kind (ru_kind ru)"
    and eats: "consumes (ru_re ru)"
    and covers: "L (map snd w) \<Longrightarrow> run (ru_re ru) (p, w @ rest, None) \<noteq> []"
    and starts_ascii: "run (ru_re ru) (p, c # cs, None) \<noteq> [] \<Longrightarrow> snd c < 128"
begin

lemma no_word_before:
  assumes "\<And>u1 u2. u = u1 @ u2 \<Longrightarrow> u2 \<noteq> [] \<Longrightarrow> \<exists>q'. run (ru_re ru) (q', u2 @ v, None) = []"
  shows "\<not> has_word L u"
proof
  assume "has_word L u"
  then obtain ws where ws: "L ws" "sublist ws (map snd u)" by (auto simp: has_word_def)
  then obtain a b where "map snd u = a @ ws @ b" by (auto simp: sublist_def)
  then obtain u1 w u3 where u: "u = u1 @ w @ u3" "map snd w = ws" by (auto simp: map_eq_append_conv append_eq_map_conv)
  have "w \<noteq> []" using has_upper [OF ws(1)] u(2) by auto
  then obtain q where "run (ru_re ru) (q, (w @ u3) @ v, None) = []" using assms [of u1 "w @ u3"] u(1) by auto
  then show False using covers [of w q "u3 @ v"] ws(1) u(2) by simp
qed

lemma match_no_marker:
  assumes "s \<in> set (run (ru_re ru) (q, v, None))" "well_cut v"
  shows "\<not> is_marker (bytes_of (take n v))"
proof -
  have "shorter s (q, v, None)" by (rule run_consumes [OF eats assms(1)])
  then obtain c v' where v: "v = c # v'" by (cases v) (auto simp: shorter_def)
  have "run (ru_re ru) (q, c # v', None) \<noteq> []" using assms(1) v by (metis empty_iff list.set(1))
  then have small: "snd c < 128" by (rule starts_ascii)
  show ?thesis
  proof (cases n)
    case 0
    then show ?thesis by (simp add: is_marker_def markerRe_def)
  next
    case (Suc n')
    have c: "c = ([to_byte (snd c)], snd c)" using well_cut_small [of c v'] assms(2) small v by simp
    then have "bytes_of (take n v) = to_byte (snd c) # bytes_of (take n' v')"
      by (metis Suc append_Cons append_Nil bytes_of_simps(2) fst_conv take_Suc_Cons v)
    moreover have "chunks (to_byte (snd c) # z) = ([to_byte (snd c)], snd c) # chunks z" for z
      using small by (subst chunks.simps) simp
    ultimately show ?thesis using small by (simp add: is_marker_def markerRe_def)
  qed
qed

lemma rule_kills: "well_cut cs \<Longrightarrow> \<not> has_word L (fst (splice ru cs (find_all (ru_re ru) p cs)))"
proof (induction "length cs" arbitrary: p cs rule: less_induct)
  case less
  show ?case
  proof (cases "search (ru_re ru) p cs")
    case None
    have "\<exists>q. run (ru_re ru) (q, u2, None) = []" if "cs = u1 @ u2" for u1 u2
      using search_None [of "ru_re ru" p u1 u2] None that by simp
    then have "\<not> has_word L cs" using no_word_before [of cs "[]"] by simp
    then show ?thesis using None by (subst find_all.simps) simp
  next
    case (Some x)
    then obtain st q' cs' k where x: "search (ru_re ru) p cs = Some (st, q', cs', k)" by (cases x) auto
    from search_Some [OF this] obtain u v q where uv: "cs = u @ v" "st = length v" "(q', cs', k) \<in> set (run (ru_re ru) (q, v, None))"
      and left: "\<And>u1 u2. u = u1 @ u2 \<Longrightarrow> u2 \<noteq> [] \<Longrightarrow> \<exists>q'. run (ru_re ru) (q', u2 @ v, None) = []" by blast
    have short: "length cs' < length v" using run_consumes [OF eats uv(3)] by (simp add: shorter_def)
    obtain m where v: "v = m @ cs'" using run_suffix [OF uv(3)] by (auto simp: suffix_def)
    have wc: "well_cut v" "well_cut cs'" using less.prems uv(1) v by (metis append.assoc well_cut_append)+
    have find: "find_all (ru_re ru) p cs = ((length v, length cs'), k) # find_all (ru_re ru) q' cs'"
      using x uv(2) short uv(1) by (subst find_all.simps) simp
    have "from_end (length v) cs = v" "from_end (length cs') cs = cs'" "take (length cs - length v) cs = u"
      using from_end_suffix [of v u] from_end_suffix [of cs' "u @ m"] uv(1) v by simp_all
    then have eq: "fst (splice ru cs (find_all (ru_re ru) p cs)) =
        u @ chunks (marker (ru_kind ru)) @ fst (splice ru cs' (find_all (ru_re ru) q' cs'))"
      using match_no_marker [OF uv(3) wc(1), of "length v - length cs'"] unfolding find
      by (simp add: whole Let_def case_prod_unfold)
    have nu: "\<not> has_word L u" by (rule no_word_before) (rule left)
    have "\<not> has_word L (fst (splice ru cs' (find_all (ru_re ru) q' cs')))"
      using less.hyps [of cs' q'] short uv(1) wc(2) by simp
    then show ?thesis unfolding eq using marker_insert [OF kind] nu by blast
  qed
qed

end

lemma aws_head: "run awsRe (p, c # cs, k) \<noteq> [] \<Longrightarrow> snd c < 128"
  by (auto simp: awsRe_def byte_of_def split: if_splits)

lemma pem_head: "run pemRe (p, c # cs, k) \<noteq> [] \<Longrightarrow> snd c < 128"
  by (auto simp: pemRe_def pem_line_def byte_of_def split: if_splits)

interpretation aws_rule: covering aws_word "\<lparr>ru_kind = ''aws-access-key'', ru_re = awsRe, ru_group = 0\<rparr>"
  by unfold_locales
    (auto simp: plain_kind_def lower_dash_def byte_of_def aws_hit aws_head, simp add: awsRe_def)

interpretation pem_rule: covering pem_word "\<lparr>ru_kind = ''private-key'', ru_re = pemRe, ru_group = 0\<rparr>"
  by unfold_locales
    (auto simp: plain_kind_def lower_dash_def byte_of_def pem_hit pem_head, simp add: pemRe_def pem_line_def)

section \<open>The rules in order\<close>

lemma splice_well_cut: "plain_kind (ru_kind ru) \<Longrightarrow> well_cut rest \<Longrightarrow> well_cut (fst (splice ru rest locs))"
proof (induction locs arbitrary: rest)
  case (Cons m locs)
  have wc: "well_cut (from_end n rest)" for n
    using Cons.prems(2) unfolding from_end_def by (metis append_take_drop_id well_cut_append)
  show ?case
  proof (cases rule: splice_cases [of ru rest m locs])
    case skip
    show ?thesis unfolding skip by (rule Cons.IH [OF Cons.prems])
  next
    case (cut gs ge)
    let ?out = "fst (splice ru (from_end ge rest) locs)"
    have out: "chunks (bytes_of ?out) = ?out" using Cons.IH [OF Cons.prems(1) wc] by (simp add: well_cut_def)
    have m: "chunks (marker (ru_kind ru)) @ ?out = chunks (marker (ru_kind ru) @ bytes_of ?out)"
      using marker_chunks [OF Cons.prems(1), of "[]"] marker_chunks [OF Cons.prems(1), of "bytes_of ?out"] out by simp
    have "well_cut (chunks (marker (ru_kind ru)) @ ?out)" unfolding m by simp
    moreover have "\<not> cont (byte_of (hd (bytes_of (chunks (marker (ru_kind ru)) @ ?out))))"
      by (simp add: marker_def marker_open_def byte_of_def cont_def)
    ultimately show ?thesis
      unfolding cut(1) using well_cut_replace [of "take (length rest - gs) rest" "drop (length rest - gs) rest"] Cons.prems(2)
      by simp
  qed
qed simp

lemma apply_rule_eq:
  "apply_rule ru s = map_prod bytes_of id (splice ru (chunks s) (find_all (ru_re ru) None (chunks s)))"
  by (simp add: apply_rule_def Let_def case_prod_unfold map_prod_def)

lemma apply_chunks:
  "plain_kind (ru_kind ru) \<Longrightarrow> chunks (fst (apply_rule ru s)) = fst (splice ru (chunks s) (find_all (ru_re ru) None (chunks s)))"
  using splice_well_cut [of ru "chunks s"] by (simp add: apply_rule_eq well_cut_def)

definition pass :: "rule list \<Rightarrow> string \<Rightarrow> string" where
  "pass rs s = fold (\<lambda>ru s. fst (apply_rule ru s)) rs s"

lemma Redact_pass: "rs_Text (Redact s) = pass rules s"
proof -
  have "fst (foldl (\<lambda>(s, counts) ru. let (s', n) = apply_rule ru s in (s', if 0 < n then counts @ [(ru_kind ru, n)] else counts))
      (s, c) rs) = pass rs s" for rs c
    by (induction rs arbitrary: s c) (simp_all add: pass_def case_prod_unfold Let_def)
  then show ?thesis by (simp add: Redact_def case_prod_unfold Let_def)
qed

lemma plain_kinds: "ru \<in> set rules \<Longrightarrow> plain_kind (ru_kind ru)"
  by (auto simp: rules_def plain_kind_def lower_dash_def byte_of_def)

lemma pass_keeps_aws: "list_all (\<lambda>ru. plain_kind (ru_kind ru)) rs \<Longrightarrow> \<not> has_word aws_word (chunks s) \<Longrightarrow> \<not> has_word aws_word (chunks (pass rs s))"
  and pass_keeps_pem: "list_all (\<lambda>ru. plain_kind (ru_kind ru)) rs \<Longrightarrow> \<not> has_word pem_word (chunks s) \<Longrightarrow> \<not> has_word pem_word (chunks (pass rs s))"
  by (induction rs arbitrary: s) (simp_all add: pass_def apply_chunks aws.splice_keeps pem.splice_keeps)

definition aws_key :: "string \<Rightarrow> bool" where
  "aws_key k \<longleftrightarrow> length k = 20 \<and> (take 4 k = ''AKIA'' \<or> take 4 k = ''ASIA'') \<and> list_all (\<lambda>c. aws_char (byte_of c)) (drop 4 k)"

definition pem_header :: "string \<Rightarrow> bool" where
  "pem_header k \<longleftrightarrow> (\<exists>mid. k = ''-----BEGIN '' @ mid @ ''PRIVATE KEY-----'' \<and> list_all (\<lambda>c. pem_char (byte_of c)) mid)"

lemma aws_key_word: "aws_key k \<Longrightarrow> aws_word (map byte_of k) \<and> list_all (\<lambda>c. byte_of c < 128) k"
proof
  assume k: "aws_key k"
  show "aws_word (map byte_of k)" using k by (auto simp: aws_key_def aws_word_def take_map drop_map list_all_iff)
  have "set k = set (take 4 k) \<union> set (drop 4 k)" by (metis append_take_drop_id set_append)
  then show "list_all (\<lambda>c. byte_of c < 128) k"
    using k by (auto simp: aws_key_def list_all_iff aws_char_def digit_def upper_def byte_of_def)
qed

lemma pem_small: "pem_char r \<Longrightarrow> r < 128"
  by (auto simp: pem_char_def upper_def digit_def)

lemma pem_header_word: "pem_header k \<Longrightarrow> pem_word (map byte_of k) \<and> list_all (\<lambda>c. byte_of c < 128) k"
  using pem_small by (auto simp: pem_header_def pem_word_def list_all_iff byte_of_def)

lemma word_at_bytes:
  assumes "t = pre @ k @ post" "list_all (\<lambda>c. byte_of c < 128) k" "L (map byte_of k)"
  shows "has_word L (chunks t)"
proof -
  obtain c1 c3 where "chunks t = c1 @ ascii k @ c3"
    using ascii_part [of "chunks t" pre k post] assms(1,2) by auto
  moreover have "map snd (ascii k) = map byte_of k" by (simp add: ascii_def)
  ultimately show ?thesis unfolding has_word_def using assms(3) by (metis map_append sublist_appendI)
qed

text \<open>
  C27: safety of redaction. Whatever the input (any bytes, several keys, keys next to each other,
  truncated keys, keys inside assignments), the redacted text contains no AWS access-key id and no
  header line of a PEM private key: the rule that covers them replaces every occurrence, and no
  rule that runs later can bring one back together.
\<close>

theorem Redact_clean:
  "\<not> (\<exists>pre k post. rs_Text (Redact s) = pre @ k @ post \<and> (aws_key k \<or> pem_header k))"
proof -
  let ?t = "rs_Text (Redact s)"
  have r: "rules = take 1 rules @ [rules ! 1] @ drop 2 rules" "rules = take 3 rules @ [rules ! 3] @ drop 4 rules"
    "rules ! 1 = \<lparr>ru_kind = ''private-key'', ru_re = pemRe, ru_group = 0\<rparr>"
    "rules ! 3 = \<lparr>ru_kind = ''aws-access-key'', ru_re = awsRe, ru_group = 0\<rparr>"
    by (simp_all add: rules_def numeral_eq_Suc)
  have k: "list_all (\<lambda>ru. plain_kind (ru_kind ru)) (drop n rules)" for n
    using plain_kinds by (auto simp: list_all_iff dest: in_set_dropD)
  have p: "pass (as @ [ru] @ bs) z = pass bs (fst (apply_rule ru (pass as z)))" for as ru bs z
    by (simp add: pass_def)
  have "?t = pass (drop 2 rules) (fst (apply_rule (rules ! 1) (pass (take 1 rules) s)))"
    unfolding Redact_pass using p r(1) by metis
  moreover have "\<not> has_word pem_word (chunks (fst (apply_rule (rules ! 1) z)))" for z
    using pem_rule.rule_kills [of "chunks z" None] pem_rule.kind unfolding r(3) by (simp add: apply_chunks)
  ultimately have pem: "\<not> has_word pem_word (chunks ?t)" using pass_keeps_pem [OF k] by metis
  have "?t = pass (drop 4 rules) (fst (apply_rule (rules ! 3) (pass (take 3 rules) s)))"
    unfolding Redact_pass using p r(2) by metis
  moreover have "\<not> has_word aws_word (chunks (fst (apply_rule (rules ! 3) z)))" for z
    using aws_rule.rule_kills [of "chunks z" None] aws_rule.kind unfolding r(4) by (simp add: apply_chunks)
  ultimately have "\<not> has_word aws_word (chunks ?t)" using pass_keeps_aws [OF k] by metis
  with pem show ?thesis using word_at_bytes aws_key_word pem_header_word by blast
qed

text \<open>
  The comment on \<open>markerRe\<close> says that re-running finds nothing new. It can: a marker ends
  with a rune that is not a word character, so a token that had no word boundary before it gets one.
  Here a token glued to an AWS key id survives the first run and is found by the second.
\<close>

lemma Redact_not_idempotent:
  "rs_Counts (Redact ''AKIA0123456789ABCDEFeyJa.eyJb'') = [(''aws-access-key'', 1)] \<and>
   rs_Counts (Redact (rs_Text (Redact ''AKIA0123456789ABCDEFeyJa.eyJb''))) = [(''jwt'', 1)]"
  by code_simp

section \<open>Only matched spans are rewritten\<close>

fun span_in :: "nat \<Rightarrow> nat \<Rightarrow> span option \<Rightarrow> bool" where
  "span_in lo hi None \<longleftrightarrow> True"
| "span_in lo hi (Some (gs, ge)) \<longleftrightarrow> lo \<le> ge \<and> ge \<le> gs \<and> gs \<le> hi"

lemma span_wider: "span_in lo hi k \<Longrightarrow> lo' \<le> lo \<Longrightarrow> hi \<le> hi' \<Longrightarrow> span_in lo' hi' k"
  by (cases k) auto

text \<open>What a run may do to the capture: keep it, or set it to a span of what it consumed.\<close>

definition kept :: "place \<Rightarrow> place \<Rightarrow> bool" where
  "kept s s' \<longleftrightarrow> length (after s') \<le> length (after s) \<and>
     (snd (snd s') = snd (snd s) \<or> span_in (length (after s')) (length (after s)) (snd (snd s')))"

lemma kept_refl: "kept s s"
  by (simp add: kept_def)

lemma kept_trans: "kept s t \<Longrightarrow> kept t s' \<Longrightarrow> kept s s'"
  unfolding kept_def
  using span_wider [of "length (after t)" "length (after s)" "snd (snd t)" "length (after s')" "length (after s)"]
    span_wider [of "length (after s')" "length (after t)" "snd (snd s')" "length (after s')" "length (after s)"]
  by (elim conjE disjE) simp_all

lemma repeat_kept:
  assumes f: "\<And>s s'. s' \<in> set (f s) \<Longrightarrow> kept s s'"
  shows "s' \<in> set (greedy n f s) \<union> set (lazy n f s) \<Longrightarrow> kept s s'"
proof (induction n arbitrary: s)
  case (Suc n)
  then consider "s' = s" | t where "t \<in> set (f s)" "s' \<in> set (greedy n f t) \<union> set (lazy n f t)" by auto
  then show ?case
  proof cases
    case (2 t)
    then show ?thesis using kept_trans [OF f Suc.IH] by blast
  qed (simp add: kept_refl)
qed (simp add: kept_refl)

lemma run_kept: "s' \<in> set (run r s) \<Longrightarrow> kept s s'"
proof (induction r arbitrary: s s')
  case (Cls P)
  then show ?case by (cases "(P, s)" rule: step_cls.cases) (auto simp: kept_def split: if_splits)
next
  case (Seq a b)
  then obtain t where "t \<in> set (run a s)" "s' \<in> set (run b t)" by auto
  then show ?case using kept_trans [OF Seq.IH(1) Seq.IH(2)] by blast
next
  case (Star a)
  then show ?case using repeat_kept [of "run a" s' "length (after s)" s] by (simp only: run.simps Un_iff) blast
next
  case (Lazy a)
  then show ?case using repeat_kept [of "run a" s' "length (after s)" s] by (simp only: run.simps Un_iff) blast
next
  case (Group a)
  then obtain t where t: "t \<in> set (run a s)" "s' = capture (length (after s)) t" by auto
  then have "length (after t) \<le> length (after s)" using Group.IH by (simp only: kept_def)
  then show ?case using t(2) by (cases t) (simp add: kept_def)
next
  case (Alt a b)
  then show ?case by (metis Un_iff run.simps(4) set_append)
qed (auto simp: kept_def split: if_splits)

fun ordered :: "nat \<Rightarrow> match list \<Rightarrow> bool" where
  "ordered n [] \<longleftrightarrow> True"
| "ordered n (((st, en), k) # locs) \<longleftrightarrow> st \<le> n \<and> en \<le> st \<and> span_in en st k \<and> ordered en locs"

lemma find_all_ordered: "length cs \<le> n \<Longrightarrow> ordered n (find_all r p cs)"
proof (induction "length cs" arbitrary: n p cs rule: less_induct)
  case less
  show ?case
  proof (cases "search r p cs")
    case None
    then show ?thesis by (subst find_all.simps) simp
  next
    case (Some x)
    then obtain st q' cs' k where x: "search r p cs = Some (st, q', cs', k)" by (cases x) auto
    from search_Some [OF this] obtain u v q where uv: "cs = u @ v" "st = length v" "(q', cs', k) \<in> set (run r (q, v, None))" by blast
    then have "length cs' \<le> length v \<and> (k = None \<or> span_in (length cs') (length v) k)"
      using run_kept [OF uv(3)] by (auto simp: kept_def)
    then show ?thesis using less.hyps [of cs' "length cs'" q'] less.prems x uv(1,2)
      by (subst find_all.simps) auto
  qed
qed

text \<open>The input as untouched texts and replaced values, in order.\<close>

lemma splice_pieces:
  "ordered n locs \<Longrightarrow> n \<le> length rest \<Longrightarrow> \<exists>pieces end.
     rest = concat (map (\<lambda>(u, v). u @ v) pieces) @ end \<and>
     fst (splice ru rest locs) = concat (map (\<lambda>(u, v). u @ chunks (marker (ru_kind ru))) pieces) @ end \<and>
     snd (splice ru rest locs) = length pieces \<and> list_all (\<lambda>(u, v). \<not> is_marker (bytes_of v)) pieces"
proof (induction locs arbitrary: rest n)
  case Nil
  show ?case by (intro exI [of _ "[]"] exI [of _ rest]) simp
next
  case (Cons m locs)
  obtain st en k where m: "m = ((st, en), k)" by (cases m) auto
  have o: "st \<le> n" "en \<le> st" "span_in en st k" "ordered en locs" using Cons.prems(1) by (simp_all add: m)
  show ?case
  proof (cases rule: splice_cases [of ru rest m locs])
    case skip
    show ?thesis unfolding skip using Cons.IH [OF o(4)] o(1,2) Cons.prems(2) by simp
  next
    case (cut gs ge)
    have g: "en \<le> ge" "ge \<le> gs" "gs \<le> length rest"
      using cut(3) o Cons.prems(2) by (auto simp: m split: if_splits)
    let ?u = "take (length rest - gs) rest" and ?v = "take (gs - ge) (from_end gs rest)"
    have "length (from_end ge rest) = ge" using g by (simp add: from_end_def)
    then obtain pieces e where ih: "from_end ge rest = concat (map (\<lambda>(u, v). u @ v) pieces) @ e"
      "fst (splice ru (from_end ge rest) locs) = concat (map (\<lambda>(u, v). u @ chunks (marker (ru_kind ru))) pieces) @ e"
      "snd (splice ru (from_end ge rest) locs) = length pieces" "list_all (\<lambda>(u, v). \<not> is_marker (bytes_of v)) pieces"
      using Cons.IH [OF o(4), of "from_end ge rest"] g(1) by auto
    have "from_end ge rest = drop (gs - ge) (from_end gs rest)" using g by (simp add: from_end_def)
    then have "rest = ?u @ ?v @ from_end ge rest" by (metis append_take_drop_id from_end_def)
    then have "rest = concat (map (\<lambda>(u, v). u @ v) ((?u, ?v) # pieces)) @ e" using ih(1) by simp
    moreover have "fst (splice ru rest (m # locs)) =
        concat (map (\<lambda>(u, v). u @ chunks (marker (ru_kind ru))) ((?u, ?v) # pieces)) @ e"
      unfolding cut(1) ih(2) by simp
    moreover have "snd (splice ru rest (m # locs)) = length ((?u, ?v) # pieces)" unfolding cut(2) ih(3) by simp
    moreover have "list_all (\<lambda>(u, v). \<not> is_marker (bytes_of v)) ((?u, ?v) # pieces)" using ih(4) cut(4) by simp
    ultimately show ?thesis by blast
  qed
qed

lemma Redact_counts:
  "rs_Counts (Redact s) = [] \<Longrightarrow> rs_Text (Redact s) = s"
proof -
  let ?f = "\<lambda>(s, counts) ru. let (s', n) = apply_rule ru s in (s', if 0 < n then counts @ [(ru_kind ru, n)] else counts)"
  have grow: "snd (foldl ?f (z, c) rs) = [] \<Longrightarrow> c = []" for z c rs
    by (induction rs arbitrary: z c) (auto simp: case_prod_unfold Let_def split: if_splits)
  have "fst (foldl ?f (z, []) rs) = z" if "snd (foldl ?f (z, []) rs) = []" "set rs \<subseteq> set rules" for z rs
    using that
  proof (induction rs arbitrary: z)
    case (Cons ru rs)
    have "snd (apply_rule ru z) = 0"
      using Cons.prems(1) grow [of "fst (apply_rule ru z)" "[(ru_kind ru, snd (apply_rule ru z))]" rs]
      by (auto simp: case_prod_unfold Let_def split: if_splits)
    moreover from this have "fst (apply_rule ru z) = z"
    proof -
      have "ordered (length (chunks z)) (find_all (ru_re ru) None (chunks z))" by (rule find_all_ordered) simp
      from splice_pieces [OF this, of "chunks z" ru] obtain pieces e where
        "chunks z = concat (map (\<lambda>(u, v). u @ v) pieces) @ e"
        "fst (splice ru (chunks z) (find_all (ru_re ru) None (chunks z))) =
           concat (map (\<lambda>(u, v). u @ chunks (marker (ru_kind ru))) pieces) @ e"
        "snd (splice ru (chunks z) (find_all (ru_re ru) None (chunks z))) = length pieces" by blast
      then show ?thesis using \<open>snd (apply_rule ru z) = 0\<close> by (simp add: apply_rule_eq) (metis bytes_of_chunks)
    qed
    ultimately show ?case using Cons by (simp add: case_prod_unfold Let_def)
  qed simp
  from this [of s rules] show "rs_Counts (Redact s) = [] \<Longrightarrow> rs_Text (Redact s) = s"
    by (simp add: Redact_def case_prod_unfold Let_def)
qed

text \<open>
  A rule rewrites nothing but the spans it counts. The input of a rule is a sequence of
  untouched texts and values, the output is the same sequence with the marker in place of each
  value, the count is the number of values, and no value was a marker already. A text in which
  nothing was found comes back as it was, with an empty summary; and a non-empty count always
  yields a warning.
\<close>

theorem Redact_rewrites:
  "(\<exists>pieces end. s = concat (map (\<lambda>(u, v). u @ v) pieces) @ end \<and>
      apply_rule ru s = (concat (map (\<lambda>(u, v). u @ marker (ru_kind ru)) pieces) @ end, length pieces) \<and>
      list_all (\<lambda>(u, v). \<not> is_marker v) pieces) \<and>
   (rs_Text (Redact s) = s \<or> Redacted (Redact s)) \<and>
   (Summary (Redact s) = [] \<longleftrightarrow> rs_Counts (Redact s) = [])"
proof (intro conjI)
  have "ordered (length (chunks s)) (find_all (ru_re ru) None (chunks s))" by (rule find_all_ordered) simp
  from splice_pieces [OF this, of "chunks s" ru] obtain pieces e where
    p: "chunks s = concat (map (\<lambda>(u, v). u @ v) pieces) @ e"
    "fst (splice ru (chunks s) (find_all (ru_re ru) None (chunks s))) =
       concat (map (\<lambda>(u, v). u @ chunks (marker (ru_kind ru))) pieces) @ e"
    "snd (splice ru (chunks s) (find_all (ru_re ru) None (chunks s))) = length pieces"
    "list_all (\<lambda>(u, v). \<not> is_marker (bytes_of v)) pieces" by blast
  let ?ps = "map (map_prod bytes_of bytes_of) pieces"
  have "bytes_of (concat (map (\<lambda>(u, v). u @ v) pieces)) = concat (map (\<lambda>(u, v). u @ v) ?ps)"
    "bytes_of (concat (map (\<lambda>(u, v). u @ chunks (marker (ru_kind ru))) pieces)) = concat (map (\<lambda>(u, v). u @ marker (ru_kind ru)) ?ps)"
    by (induction pieces) auto
  then have "s = concat (map (\<lambda>(u, v). u @ v) ?ps) @ bytes_of e"
    "apply_rule ru s = (concat (map (\<lambda>(u, v). u @ marker (ru_kind ru)) ?ps) @ bytes_of e, length ?ps)"
    using arg_cong [OF p(1), of bytes_of] p(2,3) by (simp_all add: apply_rule_eq map_prod_def case_prod_unfold)
  moreover have "list_all (\<lambda>(u, v). \<not> is_marker v) ?ps" using p(4) by (auto simp: list_all_iff)
  ultimately show "\<exists>pieces end. s = concat (map (\<lambda>(u, v). u @ v) pieces) @ end \<and>
      apply_rule ru s = (concat (map (\<lambda>(u, v). u @ marker (ru_kind ru)) pieces) @ end, length pieces) \<and>
      list_all (\<lambda>(u, v). \<not> is_marker v) pieces" by blast
  show "rs_Text (Redact s) = s \<or> Redacted (Redact s)" using Redact_counts [of s] by (auto simp: Redacted_def)
  have "commas (map f xs) \<noteq> []" if "xs \<noteq> []" "\<And>x. f x \<noteq> []" for f :: "string \<Rightarrow> string" and xs
    using that by (cases "map f xs" rule: commas.cases) auto
  moreover have "sort (map fst (rs_Counts (Redact s))) = [] \<longleftrightarrow> rs_Counts (Redact s) = []"
    by (metis length_0_conv length_map length_sort)
  ultimately show "Summary (Redact s) = [] \<longleftrightarrow> rs_Counts (Redact s) = []"
    by (auto simp: Summary_def times_sign_def simp del: commas.simps(2,3))
qed

section \<open>The hook fails closed\<close>

lemma copy_output_iff:
  "copy_output outs w = Some w' \<longleftrightarrow> cw_n w + length (concat outs) \<le> cw_max w \<and>
     w' = w\<lparr>cw_n := cw_n w + length (concat outs), cw_buf := cw_buf w @ concat outs\<rparr> \<or>
   outs = [] \<and> w' = w"
proof (induction outs arbitrary: w)
  case (Cons p ps)
  show ?case
  proof (cases "cw_max w < cw_n w + length p")
    case False
    then have "cw_n w + length p \<le> cw_max w" by simp
    then show ?thesis using False Cons.IH by (auto simp: capped_Write_def add.assoc)
  qed (auto simp: capped_Write_def)
qed auto

text \<open>
  C28: the hook fails closed. It returns a text exactly when the program ended well, its whole
  output is at most one MiB, and the output is not an empty replacement of a non-empty message;
  the text is then exactly what the program wrote. Every other run is an error.
\<close>

theorem hook_fail_closed:
  "Hook outs ends_well txt = Inr out \<longleftrightarrow>
     ends_well \<and> length (concat outs) \<le> 1048576 \<and> out = concat outs \<and> \<not> (txt \<noteq> [] \<and> out = [])"
proof -
  let ?w = "\<lparr>cw_buf = [], cw_n = 0, cw_max = maxHookOutput\<rparr>"
  have "copy_output outs ?w =
      (if length (concat outs) \<le> maxHookOutput then Some \<lparr>cw_buf = concat outs, cw_n = length (concat outs), cw_max = maxHookOutput\<rparr> else None)"
  proof (cases "length (concat outs) \<le> maxHookOutput")
    case True
    then show ?thesis using copy_output_iff [of outs ?w] by simp
  next
    case False
    then have "copy_output outs ?w \<noteq> Some w'" for w' using copy_output_iff [of outs ?w w'] by auto
    then show ?thesis using False by (simp add: option.discI) (metis option.exhaust)
  qed
  then show ?thesis by (auto simp: Hook_def maxHookOutput_def split: if_splits)
qed

end
