(* ===== verification/Url.thy ===== *)
theory Url
  imports Codec
begin

text \<open>
  The part of \<open>net/url\<close> (Go 1.26) the relay relies on: \<open>url.Parse\<close> up to the fields it
  reads (scheme, opaque part, host, fragment), with every error, and \<open>Hostname\<close>. Whether
  the text between the brackets of an IP literal is an IPv6 address (\<open>netip.ParseAddr\<close>) is the
  parameter \<open>ip6\<close>. On it stand the checks of \<open>oauth_dcr.go\<close> and
  \<open>oauth_authorize.go\<close> on redirect URIs and the client profile of a host.
\<close>

section \<open>Strings\<close>

definition cut_at :: "char \<Rightarrow> string \<Rightarrow> string \<times> string" where
  "cut_at c s = (takeWhile (\<lambda>x. x \<noteq> c) s, tl (dropWhile (\<lambda>x. x \<noteq> c) s))"

text \<open>The text up to the last \<open>c\<close>, and what follows it, if there is one.\<close>

definition last_cut :: "char \<Rightarrow> string \<Rightarrow> (string \<times> string) option" where
  "last_cut c s =
     (if c \<in> set s then Some (rev (tl (dropWhile (\<lambda>x. x \<noteq> c) (rev s))), rev (takeWhile (\<lambda>x. x \<noteq> c) (rev s))) else None)"

definition has_prefix :: "string \<Rightarrow> string \<Rightarrow> bool" where
  "has_prefix p s \<longleftrightarrow> take (length p) s = p"

definition has_suffix :: "string \<Rightarrow> string \<Rightarrow> bool" where
  "has_suffix p s \<longleftrightarrow> length p \<le> length s \<and> drop (length s - length p) s = p"

fun contains :: "string \<Rightarrow> string \<Rightarrow> bool" where
  "contains p [] \<longleftrightarrow> p = []"
| "contains p (c # s) \<longleftrightarrow> has_prefix p (c # s) \<or> contains p s"

definition is_lower :: "char \<Rightarrow> bool" where "is_lower c \<longleftrightarrow> 97 \<le> byte_of c \<and> byte_of c \<le> 122"
definition is_upper :: "char \<Rightarrow> bool" where "is_upper c \<longleftrightarrow> 65 \<le> byte_of c \<and> byte_of c \<le> 90"
definition is_digit :: "char \<Rightarrow> bool" where "is_digit c \<longleftrightarrow> 48 \<le> byte_of c \<and> byte_of c \<le> 57"
definition is_alpha :: "char \<Rightarrow> bool" where "is_alpha c \<longleftrightarrow> is_lower c \<or> is_upper c"

definition lower_char :: "char \<Rightarrow> char" where
  "lower_char c = (if is_upper c then to_byte (byte_of c + 32) else c)"

section \<open>Percent escapes\<close>

datatype mode = ModePath | ModeHost | ModeZone

definition hex_value :: "char \<Rightarrow> nat option" where
  "hex_value c =
     (if is_digit c then Some (byte_of c - 48)
      else if 97 \<le> byte_of c \<and> byte_of c \<le> 102 then Some (byte_of c - 87)
      else if 65 \<le> byte_of c \<and> byte_of c \<le> 70 then Some (byte_of c - 55)
      else None)"

definition host_char :: "char \<Rightarrow> bool" where
  "host_char c \<longleftrightarrow> is_alpha c \<or> is_digit c \<or> c \<in> set (CHR 0x27 # CHR 0x22 # ''!$&()*+,;=:[]<>-_.~'')"

text \<open>
  \<open>unescape\<close>; the path mode also stands for the user and fragment modes. In a host only
  \<open>%25\<close> and non-ASCII bytes may be escaped, and ASCII bytes must be allowed ones.
\<close>

fun unescape :: "mode \<Rightarrow> string \<Rightarrow> string option" where
  "unescape md [] = Some []"
| "unescape md (c # s) =
     (if c = CHR ''%'' then
        (case s of
           x # y # t \<Rightarrow>
             (case (hex_value x, hex_value y) of
                (Some h, Some l) \<Rightarrow>
                  (if md = ModeHost \<and> h < 8 \<and> \<not> (x = CHR ''2'' \<and> y = CHR ''5'') then None
                   else if md = ModeZone \<and> \<not> (x = CHR ''2'' \<and> y = CHR ''5'') \<and> 16 * h + l \<noteq> 32 \<and> \<not> host_char (to_byte (16 * h + l)) then None
                   else map_option (Cons (to_byte (16 * h + l))) (unescape md t))
              | _ \<Rightarrow> None)
         | _ \<Rightarrow> None)
      else if md \<noteq> ModePath \<and> byte_of c < 128 \<and> \<not> host_char c then None
      else map_option (Cons c) (unescape md s))"

section \<open>Parse\<close>

record url =
  u_Scheme :: string
  u_Opaque :: string
  u_Host :: string
  u_Fragment :: string

definition scheme_byte :: "char \<Rightarrow> bool" where
  "scheme_byte c \<longleftrightarrow> is_alpha c \<or> is_digit c \<or> c = CHR ''+'' \<or> c = CHR ''-'' \<or> c = CHR ''.''"

text \<open>\<open>None\<close> is \<open>missing protocol scheme\<close>.\<close>

definition getScheme :: "string \<Rightarrow> (string \<times> string) option" where
  "getScheme s =
     (case s of
        [] \<Rightarrow> Some ([], s)
      | c # _ \<Rightarrow>
          if c = CHR '':'' then None
          else if \<not> is_alpha c then Some ([], s)
          else (case dropWhile scheme_byte s of
                  [] \<Rightarrow> Some ([], s)
                | d # t \<Rightarrow> if d = CHR '':'' then Some (takeWhile scheme_byte s, t) else Some ([], s)))"

definition validOptionalPort :: "string \<Rightarrow> bool" where
  "validOptionalPort p \<longleftrightarrow> p = [] \<or> (hd p = CHR '':'' \<and> list_all is_digit (tl p))"

fun split_zone :: "string \<Rightarrow> string \<times> string" where
  "split_zone s =
     (case s of [] \<Rightarrow> ([], [])
      | c # t \<Rightarrow> if has_prefix ''%25'' s then ([], s) else (case split_zone t of (a, b) \<Rightarrow> (c # a, b)))"

declare split_zone.simps [simp del]

definition parseHost :: "(string \<Rightarrow> bool) \<Rightarrow> string \<Rightarrow> string option" where
  "parseHost ip6 host =
     (case last_cut (CHR ''['') host of
        Some (pre, inside) \<Rightarrow>
          if pre \<noteq> [] then None
          else (case last_cut (CHR '']'') inside of
                  None \<Rightarrow> None
                | Some (literal, port) \<Rightarrow>
                    if \<not> validOptionalPort port then None
                    else (case split_zone literal of (addr, zone) \<Rightarrow>
                      (case (unescape ModeHost addr, unescape ModeZone zone) of
                         (Some a, Some z) \<Rightarrow> if ip6 (a @ z) then Some (''['' @ a @ z @ '']'' @ port) else None
                       | _ \<Rightarrow> None)))
      | None \<Rightarrow>
          if CHR '':'' \<in> set host \<and> \<not> validOptionalPort (dropWhile (\<lambda>x. x \<noteq> CHR '':'') host) then None
          else unescape ModeHost host)"

definition user_char :: "char \<Rightarrow> bool" where
  "user_char c \<longleftrightarrow> is_alpha c \<or> is_digit c \<or> c \<in> set (CHR 0x27 # ''-._:~!$&()*+,;=%@'')"

definition parseAuthority :: "(string \<Rightarrow> bool) \<Rightarrow> string \<Rightarrow> string option" where
  "parseAuthority ip6 authority =
     (case last_cut (CHR ''@'') authority of
        None \<Rightarrow> parseHost ip6 authority
      | Some (user, host) \<Rightarrow>
          (case parseHost ip6 host of
             None \<Rightarrow> None
           | Some h \<Rightarrow> if list_all user_char user \<and> unescape ModePath user \<noteq> None then Some h else None))"

definition ctl :: "char \<Rightarrow> bool" where
  "ctl c \<longleftrightarrow> byte_of c < 32 \<or> byte_of c = 127"

definition Parse :: "(string \<Rightarrow> bool) \<Rightarrow> string \<Rightarrow> url option" where
  "Parse ip6 raw =
     (let (u, frag) = cut_at (CHR ''#'') raw
      in if list_ex ctl u then None
         else if u = ''*'' then map_option (\<lambda>f. \<lparr>u_Scheme = [], u_Opaque = [], u_Host = [], u_Fragment = f\<rparr>) (unescape ModePath frag)
         else (case getScheme u of
           None \<Rightarrow> None
         | Some (sch, rest0) \<Rightarrow>
            (let scheme = map lower_char sch;
                 rest = fst (cut_at (CHR ''?'') rest0);
                 done = (\<lambda>opaque host. map_option (\<lambda>f. \<lparr>u_Scheme = scheme, u_Opaque = opaque, u_Host = host, u_Fragment = f\<rparr>)
                           (unescape ModePath frag))
             in if \<not> has_prefix ''/'' rest \<and> scheme \<noteq> [] then done rest []
                else if \<not> has_prefix ''/'' rest \<and> CHR '':'' \<in> set (fst (cut_at (CHR ''/'') rest)) then None
                else if (scheme \<noteq> [] \<or> \<not> has_prefix ''///'' rest) \<and> has_prefix ''//'' rest then
                  (let authority = takeWhile (\<lambda>x. x \<noteq> CHR ''/'') (drop 2 rest);
                       path = dropWhile (\<lambda>x. x \<noteq> CHR ''/'') (drop 2 rest)
                   in case parseAuthority ip6 authority of
                        None \<Rightarrow> None
                      | Some h \<Rightarrow> if unescape ModePath path = None then None else done [] h)
                else if unescape ModePath rest = None then None
                else done [] [])))"

definition IsAbs :: "url \<Rightarrow> bool" where
  "IsAbs u \<longleftrightarrow> u_Scheme u \<noteq> []"

definition Hostname :: "url \<Rightarrow> string" where
  "Hostname u =
     (let host = (case last_cut (CHR '':'') (u_Host u) of
                    None \<Rightarrow> u_Host u
                  | Some (h, p) \<Rightarrow> if list_all is_digit p then h else u_Host u)
      in if has_prefix ''['' host \<and> has_suffix '']'' host then butlast (tl host) else host)"

section \<open>Redirect URIs and client profiles\<close>

definition validRedirectURI :: "(string \<Rightarrow> bool) \<Rightarrow> string \<Rightarrow> bool" where
  "validRedirectURI ip6 raw =
     (case Parse ip6 raw of
        None \<Rightarrow> False
      | Some u \<Rightarrow>
          if \<not> IsAbs u \<or> u_Fragment u \<noteq> [] then False
          else if u_Scheme u = ''https'' then u_Host u \<noteq> []
          else if u_Scheme u = ''http'' then Hostname u \<in> {''localhost'', ''127.0.0.1'', ''::1''}
          else False)"

text \<open>
  \<open>strings.ToLower\<close> as far as ASCII names can tell: the ASCII letters, and the two other letters
  whose lower case is an ASCII letter, U+0130 (i) and U+212A (k).
\<close>

fun ToLower :: "string \<Rightarrow> string" where
  "ToLower [] = []"
| "ToLower (a # s) =
     (case s of
        b # t \<Rightarrow>
          if a = CHR 0xC4 \<and> b = CHR 0xB0 then CHR ''i'' # ToLower t
          else if a = CHR 0xE2 \<and> b = CHR 0x84 \<and> has_prefix [CHR 0xAA] t then CHR ''k'' # ToLower (tl t)
          else lower_char a # ToLower s
      | [] \<Rightarrow> [lower_char a])"

definition clientTypeFor :: "string \<Rightarrow> string" where
  "clientTypeFor host =
     (let h = ToLower host
      in if h = ''claude.ai'' \<or> has_suffix ''.claude.ai'' h then ''claude.ai''
         else if contains ''chatgpt.com'' h \<or> contains ''openai.com'' h then ''chatgpt''
         else [])"

end
