(* ===== verification/Config.thy ===== *)
theory Config
  imports Url Float64 GoTime
begin

text \<open>
  The configuration of the relay, \<open>internal/relay/config.go\<close>, with what it uses of the
  standard library: \<open>time.ParseDuration\<close>, the argument parser of the \<open>flag\<close>
  package, \<open>filepath.Dir\<close> and \<open>Join\<close>. The environment is a function from names to
  values, empty when unset.
\<close>

section \<open>Durations\<close>

definition unit_ns :: "string \<Rightarrow> nat option" where
  "unit_ns u = map_of
     [(''ns'', 1), (''us'', 1000), ([CHR 0xC2, CHR 0xB5, CHR ''s''], 1000), ([CHR 0xCE, CHR 0xBC, CHR ''s''], 1000),
      (''ms'', 1000000), (''s'', 1000000000), (''m'', 60000000000), (''h'', 3600000000000)] u"

text \<open>The digits after the point, until another one would not fit; the scale is a power of ten.\<close>

fun leadingFraction :: "string \<Rightarrow> nat \<Rightarrow> nat \<Rightarrow> nat \<times> nat" where
  "leadingFraction [] x scale = (x, scale)"
| "leadingFraction (c # cs) x scale =
     (let y = x * 10 + (byte_of c - 48)
      in if (2 ^ 63 - 1) div 10 < x \<or> 2 ^ 63 < y then (x, scale) else leadingFraction cs y (scale * 10))"

text \<open>\<open>uint64(float64(f) * (float64(unit) / scale))\<close>, each operation rounded.\<close>

definition fraction_ns :: "nat \<Rightarrow> nat \<Rightarrow> nat \<Rightarrow> nat" where
  "fraction_ns f un scale =
     (case (round_double f 1, round_double un scale) of
        (Some (m1, e1), Some (m2, e2)) \<Rightarrow>
          (case round_double (scale2 (m1 * m2) (e1 + e2)) (scale2 1 (- (e1 + e2))) of
             Some (m, e) \<Rightarrow> scale2 m e div scale2 1 (- e) | None \<Rightarrow> 0)
      | _ \<Rightarrow> 0)"

definition unit_end :: "char \<Rightarrow> bool" where
  "unit_end c \<longleftrightarrow> c = CHR ''.'' \<or> Codec.is_digit c"

text \<open>One number with its unit: the nanoseconds and what follows; \<open>None\<close> is an error.\<close>

definition duration_part :: "string \<Rightarrow> (nat \<times> string) option" where
  "duration_part s =
     (let ip = takeWhile Codec.is_digit s; v = nat_of_digits 0 ip; s1 = dropWhile Codec.is_digit s;
          point = (s1 \<noteq> [] \<and> hd s1 = CHR ''.'');
          fp = (if point then takeWhile Codec.is_digit (tl s1) else []);
          s2 = (if point then dropWhile Codec.is_digit (tl s1) else s1);
          (f, scale) = leadingFraction fp 0 1;
          u = takeWhile (\<lambda>c. \<not> unit_end c) s2; s3 = dropWhile (\<lambda>c. \<not> unit_end c) s2
      in if 2 ^ 63 < v \<or> ip = [] \<and> fp = [] \<or> u = [] then None
         else (case unit_ns u of
                 None \<Rightarrow> None
               | Some un \<Rightarrow>
                   if 2 ^ 63 div un < v then None
                   else let w = v * un + (if 0 < f then fraction_ns f un scale else 0)
                        in if 2 ^ 63 < w then None else Some (w, s3)))"

lemma duration_part_shorter: "duration_part s = Some (w, t) \<Longrightarrow> length t < length s"
proof -
  have drop: "length (dropWhile P xs) \<le> length xs" for P :: "char \<Rightarrow> bool" and xs by (rule length_dropWhile_le)
  have unit: "length (dropWhile P xs) < length xs" if "takeWhile P xs \<noteq> []" for P :: "char \<Rightarrow> bool" and xs
    using that by (cases xs) (auto simp: less_Suc_eq_le length_dropWhile_le split: if_splits)
  assume "duration_part s = Some (w, t)"
  then obtain s2 where s2: "takeWhile (\<lambda>c. \<not> unit_end c) s2 \<noteq> []" "t = dropWhile (\<lambda>c. \<not> unit_end c) s2"
    "s2 = dropWhile Codec.is_digit s \<or> s2 = dropWhile Codec.is_digit (tl (dropWhile Codec.is_digit s))"
    by (auto simp: duration_part_def Let_def split: if_splits option.splits prod.splits)
  have "length (dropWhile Codec.is_digit (tl (dropWhile Codec.is_digit s))) \<le> length s"
    using drop [of Codec.is_digit "tl (dropWhile Codec.is_digit s)"] drop [of Codec.is_digit s] by simp
  then have "length s2 \<le> length s" using s2(3) drop by auto
  then show ?thesis using unit [OF s2(1)] s2(2) by simp
qed

text \<open>The loop; the sum is an unsigned 64-bit number.\<close>

function duration_sum :: "string \<Rightarrow> nat \<Rightarrow> nat option" where
  "duration_sum s d =
     (if s = [] then Some d
      else (case duration_part s of
              None \<Rightarrow> None
            | Some (w, t) \<Rightarrow> let d' = (d + w) mod 2 ^ 64 in if 2 ^ 63 < d' then None else duration_sum t d'))"
  by pat_completeness auto
termination by (relation "measure (\<lambda>(s, d). length s)") (auto dest: duration_part_shorter)

declare duration_sum.simps [simp del]

definition ParseDuration :: "string \<Rightarrow> duration option" where
  "ParseDuration orig =
     (let neg = (orig \<noteq> [] \<and> hd orig = CHR ''-'');
          s = (if orig \<noteq> [] \<and> (hd orig = CHR ''-'' \<or> hd orig = CHR ''+'') then tl orig else orig)
      in if s = ''0'' then Some 0
         else if s = [] then None
         else (case duration_sum s 0 of
                 None \<Rightarrow> None
               | Some d \<Rightarrow> if neg then Some (- int d) else if 2 ^ 63 - 1 < d then None else Some (int d)))"

section \<open>Flags\<close>

datatype flag_error = BadSyntax string | HelpRequested | Undefined string | NeedsArgument string | InvalidValue string string

text \<open>
  \<open>FlagSet.Parse\<close> for flags that take a value. A flag is a setter of the options
  (\<open>None\<close>: the value is refused); parsing stops at the first argument that is not a flag and
  returns what remains.
\<close>

type_synonym 'c flags = "string \<Rightarrow> (string \<Rightarrow> 'c \<Rightarrow> 'c option) option"

definition flag_name :: "string \<Rightarrow> string \<times> string option" where
  "flag_name s =
     (case s of
        [] \<Rightarrow> ([], None)
      | c # t \<Rightarrow> if CHR ''='' \<in> set t then (c # fst (cut_at (CHR ''='') t), Some (snd (cut_at (CHR ''='') t))) else (s, None))"

definition set_flag :: "'c flags \<Rightarrow> string \<Rightarrow> string \<Rightarrow> 'c \<Rightarrow> flag_error + 'c" where
  "set_flag fl name v c =
     (case fl name of
        None \<Rightarrow> if name = ''help'' \<or> name = ''h'' then Inl HelpRequested else Inl (Undefined name)
      | Some f \<Rightarrow> (case f v c of None \<Rightarrow> Inl (InvalidValue v name) | Some c' \<Rightarrow> Inr c'))"

fun parse_flags :: "'c flags \<Rightarrow> string list \<Rightarrow> 'c \<Rightarrow> flag_error + 'c \<times> string list" where
  "parse_flags fl [] c = Inr (c, [])"
| "parse_flags fl (s # args) c =
     (if length s < 2 \<or> hd s \<noteq> CHR ''-'' then Inr (c, s # args)
      else if s = ''--'' then Inr (c, args)
      else let body = (if s ! 1 = CHR ''-'' then drop 2 s else drop 1 s)
           in if hd body = CHR ''-'' \<or> hd body = CHR ''='' then Inl (BadSyntax s)
              else (case flag_name body of
                      (name, Some v) \<Rightarrow> (case set_flag fl name v c of Inl e \<Rightarrow> Inl e | Inr c' \<Rightarrow> parse_flags fl args c')
                    | (name, None) \<Rightarrow>
                        (case args of
                           v # args' \<Rightarrow> (case set_flag fl name v c of Inl e \<Rightarrow> Inl e | Inr c' \<Rightarrow> parse_flags fl args' c')
                         | [] \<Rightarrow>
                             if fl name = None then (if name = ''help'' \<or> name = ''h'' then Inl HelpRequested else Inl (Undefined name))
                             else Inl (NeedsArgument name))))"

section \<open>Paths\<close>

fun split_slash :: "string \<Rightarrow> string list" where
  "split_slash [] = [[]]"
| "split_slash (c # s) =
     (if c = CHR ''/'' then [] # split_slash s else (case split_slash s of w # ws \<Rightarrow> (c # w) # ws | [] \<Rightarrow> [[c]]))"

fun join_slash :: "string list \<Rightarrow> string" where
  "join_slash [] = []"
| "join_slash [w] = w"
| "join_slash (w # ws) = w @ ''/'' @ join_slash ws"

text \<open>\<open>filepath.Clean\<close>: the elements kept so far, newest first.\<close>

definition clean_step :: "bool \<Rightarrow> string list \<Rightarrow> string \<Rightarrow> string list" where
  "clean_step rooted kept w =
     (if w = [] \<or> w = ''.'' then kept
      else if w = ''..'' then (if kept \<noteq> [] \<and> hd kept \<noteq> ''..'' then tl kept else if rooted then kept else w # kept)
      else w # kept)"

definition Clean :: "string \<Rightarrow> string" where
  "Clean p =
     (let rooted = (p \<noteq> [] \<and> hd p = CHR ''/'');
          out = (if rooted then ''/'' else []) @ join_slash (rev (foldl (clean_step rooted) [] (split_slash p)))
      in if out = [] then ''.'' else out)"

definition Dir :: "string \<Rightarrow> string" where
  "Dir p = Clean (rev (dropWhile (\<lambda>c. c \<noteq> CHR ''/'') (rev p)))"

definition Join2 :: "string \<Rightarrow> string \<Rightarrow> string" where
  "Join2 a b = (if a = [] then (if b = [] then [] else Clean b) else if b = [] then Clean a else Clean (a @ ''/'' @ b))"

definition TrimRight :: "char \<Rightarrow> string \<Rightarrow> string" where
  "TrimRight c s = rev (dropWhile (\<lambda>x. x = c) (rev s))"

section \<open>The configuration\<close>

record config =
  c_ListenAddr :: string
  c_DBPath :: string
  c_BaseURL :: string
  c_SigningKeyPath :: string
  c_InviteTTL :: duration
  c_AckGrace :: duration
  c_HardTTL :: duration
  c_MaxAge :: duration
  c_MaxSkew :: duration

abbreviation hour :: duration where "hour \<equiv> 3600 * 1000000000"

datatype config_error = FlagError flag_error | NoListen | NoDB | BadBaseURL string | BelowFloor string duration | BadSkew duration

definition envOr :: "(string \<Rightarrow> string) \<Rightarrow> string \<Rightarrow> string \<Rightarrow> string" where
  "envOr getenv key def = (if getenv key \<noteq> [] then getenv key else def)"

definition envDur :: "(string \<Rightarrow> string) \<Rightarrow> string \<Rightarrow> duration \<Rightarrow> duration" where
  "envDur getenv key def =
     (if getenv key \<noteq> [] then (case ParseDuration (getenv key) of Some d \<Rightarrow> d | None \<Rightarrow> def) else def)"

definition default_config :: "(string \<Rightarrow> string) \<Rightarrow> config" where
  "default_config getenv =
     \<lparr>c_ListenAddr = envOr getenv ''ASKRELAY_LISTEN'' ''127.0.0.1:8080'',
      c_DBPath = envOr getenv ''ASKRELAY_DB'' ''askrelay.db'',
      c_BaseURL = getenv ''ASKRELAY_BASE_URL'',
      c_SigningKeyPath = getenv ''ASKRELAY_SIGNING_KEY'',
      c_InviteTTL = envDur getenv ''ASKRELAY_INVITE_TTL'' (24 * hour),
      c_AckGrace = envDur getenv ''ASKRELAY_ACK_GRACE'' (72 * hour),
      c_HardTTL = envDur getenv ''ASKRELAY_HARD_TTL'' (720 * hour),
      c_MaxAge = envDur getenv ''ASKRELAY_FRESH_MAX_AGE'' (24 * hour),
      c_MaxSkew = envDur getenv ''ASKRELAY_FRESH_MAX_SKEW'' (5 * 60 * 1000000000)\<rparr>"

text \<open>\<open>StringVar\<close> takes any value, \<open>DurationVar\<close> what \<open>ParseDuration\<close> accepts.\<close>

definition serve_flags :: "config flags" where
  "serve_flags = map_of
     [(''listen'', \<lambda>v c. Some (c\<lparr>c_ListenAddr := v\<rparr>)),
      (''db'', \<lambda>v c. Some (c\<lparr>c_DBPath := v\<rparr>)),
      (''base-url'', \<lambda>v c. Some (c\<lparr>c_BaseURL := v\<rparr>)),
      (''signing-key'', \<lambda>v c. Some (c\<lparr>c_SigningKeyPath := v\<rparr>)),
      (''invite-ttl'', \<lambda>v c. map_option (\<lambda>d. c\<lparr>c_InviteTTL := d\<rparr>) (ParseDuration v)),
      (''ack-grace'', \<lambda>v c. map_option (\<lambda>d. c\<lparr>c_AckGrace := d\<rparr>) (ParseDuration v)),
      (''hard-ttl'', \<lambda>v c. map_option (\<lambda>d. c\<lparr>c_HardTTL := d\<rparr>) (ParseDuration v)),
      (''fresh-max-age'', \<lambda>v c. map_option (\<lambda>d. c\<lparr>c_MaxAge := d\<rparr>) (ParseDuration v)),
      (''fresh-max-skew'', \<lambda>v c. map_option (\<lambda>d. c\<lparr>c_MaxSkew := d\<rparr>) (ParseDuration v))]"

definition Validate_config :: "(string \<Rightarrow> bool) \<Rightarrow> config \<Rightarrow> config_error + unit" where
  "Validate_config ip6 c =
     (if c_ListenAddr c = [] then Inl NoListen
      else if c_DBPath c = [] then Inl NoDB
      else if (case Parse ip6 (c_BaseURL c) of
                 None \<Rightarrow> True
               | Some u \<Rightarrow> u_Scheme u \<noteq> ''http'' \<and> u_Scheme u \<noteq> ''https'' \<or> u_Host u = []) then Inl (BadBaseURL (c_BaseURL c))
      else (case find (\<lambda>(name, v). v < hour)
                   [(''invite-ttl'', c_InviteTTL c), (''ack-grace'', c_AckGrace c),
                    (''hard-ttl'', c_HardTTL c), (''fresh-max-age'', c_MaxAge c)] of
              Some (name, v) \<Rightarrow> Inl (BelowFloor name v)
            | None \<Rightarrow> if c_MaxSkew c \<le> 0 \<or> hour < c_MaxSkew c then Inl (BadSkew (c_MaxSkew c)) else Inr ()))"

definition LoadConfig :: "(string \<Rightarrow> bool) \<Rightarrow> (string \<Rightarrow> string) \<Rightarrow> string list \<Rightarrow> config_error + config" where
  "LoadConfig ip6 getenv args =
     (case parse_flags serve_flags args (default_config getenv) of
        Inl e \<Rightarrow> Inl (FlagError e)
      | Inr (c0, _) \<Rightarrow>
          let c1 = c0\<lparr>c_BaseURL := TrimRight (CHR ''/'') (c_BaseURL c0)\<rparr>;
              c = (if c_SigningKeyPath c1 = [] then c1\<lparr>c_SigningKeyPath := Join2 (Dir (c_DBPath c1)) ''signing.key''\<rparr> else c1)
          in (case Validate_config ip6 c of Inl e \<Rightarrow> Inl e | Inr _ \<Rightarrow> Inr c))"

end
