(* ===== verification/Migrate.thy ===== *)
theory Migrate
  imports Url "HOL-Library.List_Lexorder" "HOL-Library.Char_ord"
begin

text \<open>
  Opening the database: \<open>internal/relay/store/migrate.go\<close> and \<open>Open\<close> of
  \<open>store.go\<close>. The file system is the list of its paths and a read function; SQLite's
  execution of a migration's text is the parameter \<open>ddl\<close> on an abstract schema and data,
  \<open>None\<close> when it fails. A transaction that does not commit leaves the database as it was.
  The faults of one run (a begin, version bump or commit that fails) are another argument.
\<close>

section \<open>Versions of migration files\<close>

datatype migrate_error =
    NoPrefix string | BadPrefix string | NonContiguous string int nat | ErrSchemaTooNew
  | VersionUnreadable | MigrationUnreadable string | BeginFailed int | ApplyFailed string | BumpFailed int | CommitFailed int

text \<open>\<open>path.Base\<close>: trailing slashes are stripped, then everything up to the last slash.\<close>

definition Base :: "string \<Rightarrow> string" where
  "Base p =
     (if p = [] then ''.''
      else let q = rev (dropWhile (\<lambda>c. c = CHR ''/'') (rev p))
           in if q = [] then ''/'' else (case last_cut (CHR ''/'') q of None \<Rightarrow> q | Some (_, b) \<Rightarrow> b))"

text \<open>\<open>strconv.Atoi\<close> on a 64-bit platform: an optional sign and decimal digits, in range.\<close>

definition Atoi :: "string \<Rightarrow> int option" where
  "Atoi s =
     (let neg = (s \<noteq> [] \<and> hd s = CHR ''-'');
          ds = (if s \<noteq> [] \<and> (hd s = CHR ''-'' \<or> hd s = CHR ''+'') then tl s else s);
          n = int (nat_of_digits 0 ds)
      in if ds = [] \<or> \<not> list_all Codec.is_digit ds then None
         else if neg then (if n \<le> 2 ^ 63 then Some (- n) else None)
         else if n < 2 ^ 63 then Some n else None)"

definition migrationVersion :: "string \<Rightarrow> migrate_error + int" where
  "migrationVersion name =
     (let b = Base name
      in if CHR ''_'' \<notin> set b then Inl (NoPrefix name)
         else (case Atoi (fst (cut_at (CHR ''_'') b)) of
                 None \<Rightarrow> Inl (BadPrefix name)
               | Some v \<Rightarrow> if v < 1 then Inl (BadPrefix name) else Inr v))"

section \<open>Applying migrations\<close>

record file_system =
  fs_paths :: "string list"
  fs_read :: "string \<Rightarrow> string option"

text \<open>\<open>fs.Glob(fsys, "migrations/*.sql")\<close>: the star matches no slash.\<close>

definition sql_file :: "string \<Rightarrow> bool" where
  "sql_file p \<longleftrightarrow> has_prefix ''migrations/'' p \<and> has_suffix ''.sql'' (drop 11 p) \<and> CHR ''/'' \<notin> set (drop 11 p)"

record 'd versioned =
  user_version :: int
  content :: 'd

record faults =
  version_reads :: bool
  begins :: "int \<Rightarrow> bool"
  bumps :: "int \<Rightarrow> bool"
  commits :: "int \<Rightarrow> bool"

text \<open>The transaction of one migration.\<close>

definition migration_tx :: "(string \<Rightarrow> 'd \<Rightarrow> 'd option) \<Rightarrow> file_system \<Rightarrow> faults \<Rightarrow> string \<Rightarrow> int \<Rightarrow> 'd versioned \<Rightarrow> migrate_error + 'd versioned" where
  "migration_tx ddl fsys env name v db =
     (case fs_read fsys name of
        None \<Rightarrow> Inl (MigrationUnreadable name)
      | Some sql \<Rightarrow>
          if \<not> begins env v then Inl (BeginFailed v)
          else (case ddl sql (content db) of
                  None \<Rightarrow> Inl (ApplyFailed name)
                | Some d \<Rightarrow>
                    if \<not> bumps env v then Inl (BumpFailed v)
                    else if \<not> commits env v then Inl (CommitFailed v)
                    else Inr \<lparr>user_version = v, content = d\<rparr>))"

fun migrate_loop :: "(string \<Rightarrow> 'd \<Rightarrow> 'd option) \<Rightarrow> file_system \<Rightarrow> faults \<Rightarrow> int \<Rightarrow> nat \<Rightarrow> string list \<Rightarrow>
    'd versioned \<Rightarrow> (migrate_error + unit) \<times> 'd versioned" where
  "migrate_loop ddl fsys env version i [] db = (Inr (), db)"
| "migrate_loop ddl fsys env version i (name # names) db =
     (case migrationVersion name of
        Inl e \<Rightarrow> (Inl e, db)
      | Inr v \<Rightarrow>
          if v \<noteq> int i + 1 then (Inl (NonContiguous name v (i + 1)), db)
          else if v \<le> version then migrate_loop ddl fsys env version (i + 1) names db
          else (case migration_tx ddl fsys env name v db of
                  Inl e \<Rightarrow> (Inl e, db)
                | Inr db' \<Rightarrow> migrate_loop ddl fsys env version (i + 1) names db'))"

definition migrations :: "file_system \<Rightarrow> string list" where
  "migrations fsys = sort (filter sql_file (fs_paths fsys))"

definition migrate :: "(string \<Rightarrow> 'd \<Rightarrow> 'd option) \<Rightarrow> file_system \<Rightarrow> faults \<Rightarrow> 'd versioned \<Rightarrow> (migrate_error + unit) \<times> 'd versioned" where
  "migrate ddl fsys env db =
     (let names = migrations fsys
      in if \<not> version_reads env then (Inl VersionUnreadable, db)
         else if int (length names) < user_version db then (Inl ErrSchemaTooNew, db)
         else migrate_loop ddl fsys env (user_version db) 0 names db)"

text \<open>
  \<open>Open\<close>: the data source name carries the pragmas of every connection; a failed migration
  closes the handle (\<open>None\<close>).
\<close>

definition data_source :: "string \<Rightarrow> string" where
  "data_source path = ''file:'' @ path @ ''?_pragma=journal_mode(WAL)&_pragma=busy_timeout(5000)&_pragma=foreign_keys(1)&_pragma=synchronous(NORMAL)''"

definition Open :: "(string \<Rightarrow> 'd \<Rightarrow> 'd option) \<Rightarrow> file_system \<Rightarrow> faults \<Rightarrow> bool \<Rightarrow> 'd versioned \<Rightarrow> bool \<times> 'd versioned" where
  "Open ddl fsys env opens db =
     (if \<not> opens then (False, db)
      else (case migrate ddl fsys env db of (Inl e, db') \<Rightarrow> (False, db') | (Inr _, db') \<Rightarrow> (True, db')))"

section \<open>Stages\<close>

text \<open>The content after the first \<open>k\<close> migrations of an initial content, each applied once, in order.\<close>

fun applied :: "(string \<Rightarrow> 'd \<Rightarrow> 'd option) \<Rightarrow> file_system \<Rightarrow> string list \<Rightarrow> 'd \<Rightarrow> 'd option" where
  "applied ddl fsys [] d = Some d"
| "applied ddl fsys (name # names) d = Option.bind (Option.bind (fs_read fsys name) (\<lambda>sql. ddl sql d)) (applied ddl fsys names)"

definition at_stage :: "(string \<Rightarrow> 'd \<Rightarrow> 'd option) \<Rightarrow> file_system \<Rightarrow> 'd \<Rightarrow> nat \<Rightarrow> 'd versioned \<Rightarrow> bool" where
  "at_stage ddl fsys d0 k db \<longleftrightarrow> k \<le> length (migrations fsys) \<and> user_version db = int k \<and>
     applied ddl fsys (take k (migrations fsys)) d0 = Some (content db)"

lemma applied_append: "applied ddl fsys (xs @ ys) d = Option.bind (applied ddl fsys xs d) (applied ddl fsys ys)"
  by (induction xs arbitrary: d) (auto simp: Option.bind_assoc fun_eq_iff intro!: arg_cong2 [where f = Option.bind])

lemma at_stage_next:
  assumes "at_stage ddl fsys d0 k db" "k < length (migrations fsys)"
    "migration_tx ddl fsys env (migrations fsys ! k) (int k + 1) db = Inr db'"
  shows "at_stage ddl fsys d0 (Suc k) db'"
  using assms
  by (auto simp: at_stage_def migration_tx_def take_Suc_conv_app_nth applied_append split: option.splits if_splits)

text \<open>The loop from the migration after those already seen: what is at most \<open>version\<close> is skipped.\<close>

lemma migrate_loop_stages:
  assumes "names = drop i (migrations fsys)" "i \<le> length (migrations fsys)" "at_stage ddl fsys d0 k db"
    "version = int k0" "k = max i k0"
  shows "\<exists>k' r db'. migrate_loop ddl fsys env version i names db = (r, db') \<and> k \<le> k' \<and> at_stage ddl fsys d0 k' db' \<and>
    (r = Inr () \<longrightarrow> k' = length (migrations fsys))"
  using assms
proof (induction names arbitrary: i k db)
  case Nil
  then have "i = length (migrations fsys)" by simp
  moreover have "k \<le> length (migrations fsys)" using Nil.prems(3) by (simp add: at_stage_def)
  ultimately have "k = length (migrations fsys)" using Nil.prems(5) by simp
  then show ?case using Nil.prems(3) by auto
next
  case (Cons name names)
  have i: "i < length (migrations fsys)" using Cons.prems(1) by (metis drop_eq_Nil linorder_not_le list.distinct(1))
  have n: "name = migrations fsys ! i" "names = drop (Suc i) (migrations fsys)"
    using Cons.prems(1) i by (simp_all add: Cons_nth_drop_Suc [symmetric])
  show ?case
  proof (cases "migrationVersion name")
    case (Inl e)
    then show ?thesis using Cons.prems(3) by auto
  next
    case (Inr v)
    consider "v \<noteq> int i + 1" | "v = int i + 1" "v \<le> version" | "v = int i + 1" "\<not> v \<le> version" by blast
    then show ?thesis
    proof cases
      case 1
      then show ?thesis using Inr Cons.prems(3) by auto
    next
      case 2
      then have "k = max (i + 1) k0" using Cons.prems(4,5) by auto
      then show ?thesis using Cons.IH [of "i + 1" k db] n(2) Cons.prems(3,4) i 2 Inr by simp
    next
      case 3
      then have k: "k = i" using Cons.prems(4,5) by auto
      show ?thesis
      proof (cases "migration_tx ddl fsys env name v db")
        case (Inl e)
        then show ?thesis using Inr 3 Cons.prems(3) by auto
      next
        case ok: (Inr db1)
        have "at_stage ddl fsys d0 (i + 1) db1"
          using at_stage_next [of ddl fsys d0 i db env db1] Cons.prems(3) i n(1) ok 3(1) k by (simp add: add.commute)
        moreover have "i + 1 = max (i + 1) k0" using k Cons.prems(5) by simp
        ultimately obtain k' r db' where "migrate_loop ddl fsys env version (i + 1) names db1 = (r, db')"
          "i + 1 \<le> k'" "at_stage ddl fsys d0 k' db'" "r = Inr () \<longrightarrow> k' = length (migrations fsys)"
          using Cons.IH [of "i + 1" "i + 1" db1] n(2) i Cons.prems(4) by auto
        then show ?thesis using Inr 3 ok k by (intro exI [of _ k'] exI [of _ r] exI [of _ db']) auto
      qed
    qed
  qed
qed

text \<open>With every migration already applied the loop only checks the names.\<close>

lemma migrate_loop_idle:
  assumes "int i + int (length names) \<le> version"
  shows "snd (migrate_loop ddl fsys env version i names db) = db"
  using assms by (induction names arbitrary: i) (auto split: sum.splits)

lemma migrate_loop_names:
  assumes "fst (migrate_loop ddl fsys env version i names db) = Inr ()" "int i + int (length names) \<le> version'"
  shows "migrate_loop ddl' fsys env' version' i names db' = (Inr (), db')"
  using assms
proof (induction names arbitrary: i db)
  case (Cons name names)
  then obtain v where v: "migrationVersion name = Inr v" "v = int i + 1" by (auto split: sum.splits if_splits)
  obtain db1 where "fst (migrate_loop ddl fsys env version (i + 1) names db1) = Inr ()"
    using Cons.prems(1) v by (auto split: sum.splits if_splits)
  from Cons.IH [OF this] Cons.prems(2) v show ?case by simp
qed simp

text \<open>
  C24: migrations are staged. From a database at stage \<open>k\<close> (the first \<open>k\<close> migrations
  applied, each once and in order, and \<open>user_version\<close> saying so) every run, whatever fails in
  it, ends at a stage not before \<open>k\<close>, so an interrupted upgrade resumes where it stopped; a run
  that succeeds ends at the last stage, and then a further run, with any statements and faults but a
  readable version, succeeds and changes nothing. A database of a newer binary is refused untouched.
\<close>

theorem migrate_stages:
  assumes "at_stage ddl fsys d0 k db"
  shows "(\<exists>k' r db'. migrate ddl fsys env db = (r, db') \<and> k \<le> k' \<and> at_stage ddl fsys d0 k' db' \<and>
      (r = Inr () \<longrightarrow> k' = length (migrations fsys) \<and>
         (version_reads env' \<longrightarrow> migrate ddl' fsys env' db' = (Inr (), db')))) \<and>
    (int (length (migrations fsys)) < user_version newer \<longrightarrow>
      (\<exists>e. migrate ddl fsys env newer = (Inl e, newer) \<and> (version_reads env \<longrightarrow> e = ErrSchemaTooNew)))"
proof (intro conjI impI)
  have k: "user_version db = int k" "k \<le> length (migrations fsys)" using assms by (simp_all add: at_stage_def)
  show "\<exists>k' r db'. migrate ddl fsys env db = (r, db') \<and> k \<le> k' \<and> at_stage ddl fsys d0 k' db' \<and>
      (r = Inr () \<longrightarrow> k' = length (migrations fsys) \<and> (version_reads env' \<longrightarrow> migrate ddl' fsys env' db' = (Inr (), db')))"
  proof (cases "version_reads env")
    case False
    then show ?thesis using assms by (auto simp: migrate_def Let_def)
  next
    case True
    then have m: "migrate ddl fsys env db = migrate_loop ddl fsys env (int k) 0 (migrations fsys) db"
      using k by (simp add: migrate_def Let_def)
    obtain k' r db' where run: "migrate_loop ddl fsys env (int k) 0 (migrations fsys) db = (r, db')" "k \<le> k'"
      "at_stage ddl fsys d0 k' db'" "r = Inr () \<longrightarrow> k' = length (migrations fsys)"
      using migrate_loop_stages [of "migrations fsys" 0 fsys ddl d0 k db "int k" k env] assms by auto
    have "migrate ddl' fsys env' db' = (Inr (), db')" if "r = Inr ()" "version_reads env'"
    proof -
      have v: "user_version db' = int (length (migrations fsys))" using run(3,4) that(1) by (simp add: at_stage_def)
      then show ?thesis
        using migrate_loop_names [of ddl fsys env "int k" 0 "migrations fsys" db "user_version db'" ddl' env' db'] run(1) that
        by (simp add: migrate_def Let_def)
    qed
    then show ?thesis using run m by auto
  qed
next
  assume "int (length (migrations fsys)) < user_version newer"
  then show "\<exists>e. migrate ddl fsys env newer = (Inl e, newer) \<and> (version_reads env \<longrightarrow> e = ErrSchemaTooNew)"
    by (auto simp: migrate_def Let_def)
qed

text \<open>The two migrations of the relay, on a content that records what ran.\<close>

definition embedded :: file_system where
  "embedded = \<lparr>fs_paths = [''migrations/0002_oauth.sql'', ''migrations/0001_init.sql''], fs_read = Some\<rparr>"

definition calm :: faults where
  "calm = \<lparr>version_reads = True, begins = (\<lambda>_. True), bumps = (\<lambda>_. True), commits = (\<lambda>_. True)\<rparr>"

lemma embedded_migrations: "migrations embedded = [''migrations/0001_init.sql'', ''migrations/0002_oauth.sql'']"
  by code_simp

lemma embedded_run:
  "migrate (\<lambda>sql d. Some (d @ [sql])) embedded calm \<lparr>user_version = 0, content = []\<rparr> =
     (Inr (), \<lparr>user_version = 2, content = [''migrations/0001_init.sql'', ''migrations/0002_oauth.sql'']\<rparr>)"
  by code_simp

theorem migrate_stages_witness:
  "migrate (\<lambda>sql d. None) embedded calm \<lparr>user_version = 2, content = [''migrations/0001_init.sql'', ''migrations/0002_oauth.sql'']\<rparr> =
     (Inr (), \<lparr>user_version = 2, content = [''migrations/0001_init.sql'', ''migrations/0002_oauth.sql'']\<rparr>)"
proof -
  have s: "at_stage (\<lambda>sql d. Some (d @ [sql])) embedded [] 0 \<lparr>user_version = 0, content = []\<rparr>" by (simp add: at_stage_def)
  have "version_reads calm" by (simp add: calm_def)
  then show ?thesis
    using migrate_stages [OF s, of calm calm "\<lambda>sql d. None" "\<lparr>user_version = 0, content = []\<rparr>"] embedded_run by auto
qed

end
