(* ===== verification/Tokens.thy ===== *)
theory Tokens
  imports Prelude Codec Sha256
begin

text \<open>
  The tokens of the relay: \<open>internal/relay/oauth/token.go\<close>, \<open>device.go\<close>,
  \<open>prm.go\<close> and the keys of \<open>as.go\<close>. The JWT library (golang-jwt) is third-party
  code: its \<open>SignedString\<close> and \<open>ParseWithClaims\<close> (with the options the code passes) are
  the two fields of \<open>jwt_lib\<close>, and \<open>jwt_documented\<close> states what its documentation
  promises about tokens it signed itself. Ed25519 key generation and \<open>NewKeyFromSeed\<close> are
  parameters too; the key file is its content, if it exists.
\<close>

section \<open>Claims and the library\<close>

record claims =
  jc_Subject :: string
  jc_Issuer :: string
  jc_Audience :: "string list"
  jc_IssuedAt :: "int option"
  jc_NotBefore :: "int option"
  jc_ExpiresAt :: "int option"
  jc_Use :: string
  jc_Device :: string
  jc_ClientType :: string

text \<open>
  \<open>jwt_sign key claims\<close> and \<open>jwt_parse key audience now token\<close>: the EdDSA allow-list,
  audience, issuer, required expiration and injected time are options of the one call.
\<close>

record jwt_lib =
  jwt_sign :: "string \<Rightarrow> claims \<Rightarrow> string option"
  jwt_parse :: "string \<Rightarrow> string \<Rightarrow> instant \<Rightarrow> string \<Rightarrow> claims option"

record issuer =
  is_priv :: string
  is_pub :: string
  is_audience :: string
  is_ttl :: duration

definition in_time :: "claims \<Rightarrow> instant \<Rightarrow> bool" where
  "in_time c now \<longleftrightarrow> (case jc_ExpiresAt c of None \<Rightarrow> False | Some e \<Rightarrow> now < e * 1000000000) \<and>
     (case jc_NotBefore c of None \<Rightarrow> True | Some b \<Rightarrow> b * 1000000000 \<le> now)"

definition jwt_documented :: "jwt_lib \<Rightarrow> issuer \<Rightarrow> bool" where
  "jwt_documented lib iss \<longleftrightarrow> (\<forall>c token now. jwt_sign lib (is_priv iss) c = Some token \<longrightarrow>
     jwt_parse lib (is_pub iss) (is_audience iss) now token =
       (if jc_Issuer c = is_audience iss \<and> is_audience iss \<in> set (jc_Audience c) \<and> in_time c now then Some c else None))"

section \<open>Minting and verifying\<close>

datatype token_error = ErrInvalidToken | ErrSign

definition useAccess :: string where "useAccess = ''access''"
definition useDevice :: string where "useDevice = ''device''"

definition token_sign :: "jwt_lib \<Rightarrow> issuer \<Rightarrow> claims \<Rightarrow> token_error + string" where
  "token_sign lib iss c = (case jwt_sign lib (is_priv iss) c of None \<Rightarrow> Inl ErrSign | Some tok \<Rightarrow> Inr tok)"

definition token_parse :: "jwt_lib \<Rightarrow> issuer \<Rightarrow> string \<Rightarrow> instant \<Rightarrow> token_error + claims" where
  "token_parse lib iss token now =
     (case jwt_parse lib (is_pub iss) (is_audience iss) now token of None \<Rightarrow> Inl ErrInvalidToken | Some c \<Rightarrow> Inr c)"

definition AccessTTL :: "issuer \<Rightarrow> duration" where
  "AccessTTL iss = is_ttl iss"

definition access_claims :: "issuer \<Rightarrow> string \<Rightarrow> string \<Rightarrow> instant \<Rightarrow> claims" where
  "access_claims iss personID clientType now =
     \<lparr>jc_Subject = personID, jc_Issuer = is_audience iss, jc_Audience = [is_audience iss],
      jc_IssuedAt = Some (unix_sec now), jc_NotBefore = None, jc_ExpiresAt = Some (unix_sec (now + is_ttl iss)),
      jc_Use = useAccess, jc_Device = [], jc_ClientType = clientType\<rparr>"

definition Mint :: "jwt_lib \<Rightarrow> issuer \<Rightarrow> string \<Rightarrow> string \<Rightarrow> instant \<Rightarrow> token_error + string" where
  "Mint lib iss personID clientType now = token_sign lib iss (access_claims iss personID clientType now)"

definition VerifyAccess :: "jwt_lib \<Rightarrow> issuer \<Rightarrow> string \<Rightarrow> instant \<Rightarrow> token_error + string \<times> string" where
  "VerifyAccess lib iss token now =
     (case token_parse lib iss token now of
        Inl e \<Rightarrow> Inl e
      | Inr c \<Rightarrow> if jc_Use c \<noteq> useAccess then Inl ErrInvalidToken else Inr (jc_Subject c, jc_ClientType c))"

definition deviceCredTTL :: duration where
  "deviceCredTTL = 365 * 24 * 3600 * 1000000000"

definition device_claims :: "issuer \<Rightarrow> string \<Rightarrow> string \<Rightarrow> instant \<Rightarrow> claims" where
  "device_claims iss personID deviceID now =
     \<lparr>jc_Subject = personID, jc_Issuer = is_audience iss, jc_Audience = [is_audience iss],
      jc_IssuedAt = Some (unix_sec now), jc_NotBefore = None, jc_ExpiresAt = Some (unix_sec (now + deviceCredTTL)),
      jc_Use = useDevice, jc_Device = deviceID, jc_ClientType = []\<rparr>"

definition MintDeviceCredential :: "jwt_lib \<Rightarrow> issuer \<Rightarrow> string \<Rightarrow> string \<Rightarrow> instant \<Rightarrow> token_error + string" where
  "MintDeviceCredential lib iss personID deviceID now = token_sign lib iss (device_claims iss personID deviceID now)"

definition VerifyDeviceCredential :: "jwt_lib \<Rightarrow> issuer \<Rightarrow> string \<Rightarrow> instant \<Rightarrow> token_error + string \<times> string" where
  "VerifyDeviceCredential lib iss token now =
     (case token_parse lib iss token now of
        Inl e \<Rightarrow> Inl e
      | Inr c \<Rightarrow> if jc_Use c \<noteq> useDevice then Inl ErrInvalidToken else Inr (jc_Subject c, jc_Device c))"

section \<open>The bearer middleware\<close>

record token_info =
  ti_UserID :: string
  ti_Expiration :: "int option"
  ti_client_type :: string

text \<open>The verifier given to the middleware: its only error is the bare \<open>auth.ErrInvalidToken\<close>.\<close>

definition verifier :: "jwt_lib \<Rightarrow> issuer \<Rightarrow> string \<Rightarrow> instant \<Rightarrow> token_error + token_info" where
  "verifier lib iss token now =
     (case token_parse lib iss token now of
        Inl _ \<Rightarrow> Inl ErrInvalidToken
      | Inr c \<Rightarrow> if jc_Use c \<noteq> useAccess then Inl ErrInvalidToken
                 else Inr \<lparr>ti_UserID = jc_Subject c, ti_Expiration = jc_ExpiresAt c, ti_client_type = jc_ClientType c\<rparr>)"

definition PersonFromContext :: "token_info option \<Rightarrow> (string \<times> string) option" where
  "PersonFromContext info =
     (case info of
        None \<Rightarrow> None
      | Some i \<Rightarrow> if ti_UserID i = [] then None else Some (ti_UserID i, ti_client_type i))"

section \<open>PKCE and the published key\<close>

definition VerifyPKCE :: "string \<Rightarrow> string \<Rightarrow> bool" where
  "VerifyPKCE codeChallenge codeVerifier \<longleftrightarrow> RawURLEncoding_Encode (Sum256 codeVerifier) = codeChallenge"

record jwk =
  jk_Kty :: string
  jk_Crv :: string
  jk_X :: string
  jk_Use :: string
  jk_Alg :: string
  jk_Kid :: string

definition ed25519Thumbprint :: "string \<Rightarrow> string" where
  "ed25519Thumbprint x =
     (let q = [CHR 0x22];
          canon = ''{'' @ q @ ''crv'' @ q @ '':'' @ q @ ''Ed25519'' @ q @ '','' @ q @ ''kty'' @ q @ '':'' @ q @ ''OKP'' @ q @ '','' @
                  q @ ''x'' @ q @ '':'' @ q @ x @ q @ ''}''
      in RawURLEncoding_Encode (Sum256 canon))"

definition PublicJWK :: "issuer \<Rightarrow> jwk" where
  "PublicJWK iss =
     (let x = RawURLEncoding_Encode (is_pub iss)
      in \<lparr>jk_Kty = ''OKP'', jk_Crv = ''Ed25519'', jk_X = x, jk_Use = ''sig'', jk_Alg = ''EdDSA'', jk_Kid = ed25519Thumbprint x\<rparr>)"

section \<open>The signing key\<close>

datatype key_error = KeyGenerate | KeyWrite | KeyCreate | KeyRead | KeySize

definition PrivateKeySize :: nat where "PrivateKeySize = 64"
definition SeedSize :: nat where "SeedSize = 32"

text \<open>What the operating system and the random source do during one load.\<close>

record key_env =
  ke_create_ok :: bool
  ke_generated :: "string option"
  ke_written :: nat
  ke_close_ok :: bool
  ke_read_ok :: bool

definition readKey :: "(string \<Rightarrow> string) \<Rightarrow> bool \<Rightarrow> string \<Rightarrow> key_error + string" where
  "readKey NewKeyFromSeed read_ok b =
     (if \<not> read_ok then Inl KeyRead
      else if length b \<noteq> PrivateKeySize then Inl KeySize
      else Inr (NewKeyFromSeed (take SeedSize b)))"

text \<open>The two steps of a first start: the file is created empty, then written.\<close>

definition create_key :: "key_env \<Rightarrow> string option \<Rightarrow> (key_error + bool) \<times> string option" where
  "create_key env f =
     (case f of
        Some b \<Rightarrow> (Inr False, f)
      | None \<Rightarrow> if ke_create_ok env then (Inr True, Some []) else (Inl KeyCreate, None))"

definition write_key :: "key_env \<Rightarrow> string option \<Rightarrow> (key_error + string) \<times> string option" where
  "write_key env f =
     (case ke_generated env of
        None \<Rightarrow> (Inl KeyGenerate, None)
      | Some priv \<Rightarrow>
          if ke_written env < length priv then (Inl KeyWrite, Some (take (ke_written env) priv))
          else if \<not> ke_close_ok env then (Inl KeyWrite, Some priv)
          else (Inr priv, Some priv))"

definition loadOrCreateKey :: "(string \<Rightarrow> string) \<Rightarrow> key_env \<Rightarrow> string option \<Rightarrow> (key_error + string) \<times> string option" where
  "loadOrCreateKey NewKeyFromSeed env f =
     (case create_key env f of
        (Inl e, f') \<Rightarrow> (Inl e, f')
      | (Inr True, f') \<Rightarrow> write_key env f'
      | (Inr False, f') \<Rightarrow> (case f' of None \<Rightarrow> (Inl KeyRead, f') | Some b \<Rightarrow> (readKey NewKeyFromSeed (ke_read_ok env) b, f')))"

definition NewIssuer :: "(string \<Rightarrow> string) \<Rightarrow> (string \<Rightarrow> string) \<Rightarrow> key_env \<Rightarrow> string \<Rightarrow> duration \<Rightarrow> string option \<Rightarrow>
    (key_error + issuer) \<times> string option" where
  "NewIssuer NewKeyFromSeed public env audience ttl f =
     (case loadOrCreateKey NewKeyFromSeed env f of
        (Inl e, f') \<Rightarrow> (Inl e, f')
      | (Inr priv, f') \<Rightarrow> (Inr \<lparr>is_priv = priv, is_pub = public priv, is_audience = audience, is_ttl = ttl\<rparr>, f'))"

section \<open>The two kinds of token are not interchangeable\<close>

lemma minted_parses:
  assumes "jwt_documented lib iss" "token_sign lib iss c = Inr tok" "jc_Issuer c = is_audience iss" "jc_Audience c = [is_audience iss]"
  shows "token_parse lib iss tok now = (if in_time c now then Inr c else Inl ErrInvalidToken)"
proof -
  have "jwt_sign lib (is_priv iss) c = Some tok" using assms(2) by (simp add: token_sign_def split: option.splits)
  then have "jwt_parse lib (is_pub iss) (is_audience iss) now tok = (if in_time c now then Some c else None)"
    using assms(1,3,4) by (simp add: jwt_documented_def)
  then show ?thesis by (simp add: token_parse_def)
qed

lemma uses_differ [simp]: "useAccess \<noteq> useDevice" "useDevice \<noteq> useAccess"
  by (simp_all add: useAccess_def useDevice_def)

lemma minted_claims [simp]:
  "jc_Issuer (access_claims iss p ct now) = is_audience iss" "jc_Audience (access_claims iss p ct now) = [is_audience iss]"
  "jc_Issuer (device_claims iss p d now) = is_audience iss" "jc_Audience (device_claims iss p d now) = [is_audience iss]"
  "jc_Use (access_claims iss p ct now) = useAccess" "jc_Use (device_claims iss p d now) = useDevice"
  "in_time (access_claims iss p ct now) t \<longleftrightarrow> t < unix_sec (now + is_ttl iss) * 1000000000"
  "in_time (device_claims iss p d now) t \<longleftrightarrow> t < unix_sec (now + deviceCredTTL) * 1000000000"
  by (simp_all add: access_claims_def device_claims_def in_time_def)

text \<open>
  C18: safety of the tokens. An access token identifies its person and client until its lifetime
  ends, and never after; a device credential identifies its person and device for a year; neither
  is ever accepted in place of the other, at any time, by the verifier of access tokens, of device
  credentials, or of the bearer middleware.
\<close>

theorem token_uses:
  assumes "jwt_documented lib iss" "Mint lib iss person ct now = Inr tok"
    "MintDeviceCredential lib iss owner dev since = Inr cred"
  shows "VerifyAccess lib iss tok t =
      (if t < unix_sec (now + is_ttl iss) * 1000000000 then Inr (person, ct) else Inl ErrInvalidToken) \<and>
    VerifyDeviceCredential lib iss cred t =
      (if t < unix_sec (since + deviceCredTTL) * 1000000000 then Inr (owner, dev) else Inl ErrInvalidToken) \<and>
    VerifyAccess lib iss cred t = Inl ErrInvalidToken \<and> verifier lib iss cred t = Inl ErrInvalidToken \<and>
    VerifyDeviceCredential lib iss tok t = Inl ErrInvalidToken \<and>
    (case verifier lib iss tok t of
       Inr info \<Rightarrow> PersonFromContext (Some info) = (if person = [] then None else Some (person, ct))
     | Inl _ \<Rightarrow> \<not> t < unix_sec (now + is_ttl iss) * 1000000000)"
proof -
  have a: "token_parse lib iss tok t =
      (if in_time (access_claims iss person ct now) t then Inr (access_claims iss person ct now) else Inl ErrInvalidToken)"
    by (rule minted_parses [OF assms(1)]) (use assms(2) in \<open>simp_all add: Mint_def\<close>)
  have d: "token_parse lib iss cred t =
      (if in_time (device_claims iss owner dev since) t then Inr (device_claims iss owner dev since) else Inl ErrInvalidToken)"
    by (rule minted_parses [OF assms(1)]) (use assms(3) in \<open>simp_all add: MintDeviceCredential_def\<close>)
  have f: "jc_Subject (access_claims iss person ct now) = person" "jc_ClientType (access_claims iss person ct now) = ct"
    "jc_Subject (device_claims iss owner dev since) = owner" "jc_Device (device_claims iss owner dev since) = dev"
    by (simp_all add: access_claims_def device_claims_def)
  show ?thesis
    by (simp add: VerifyAccess_def VerifyDeviceCredential_def verifier_def PersonFromContext_def a d f)
qed

text \<open>A library that signs the claims of one access token and one credential, for the examples.\<close>

definition sample_issuer :: issuer where
  "sample_issuer = \<lparr>is_priv = ''priv'', is_pub = ''pub'', is_audience = ''https://r'', is_ttl = 3600000000000\<rparr>"

definition sample_jwt :: jwt_lib where
  "sample_jwt = \<lparr>jwt_sign = (\<lambda>_ c.
       if c = access_claims sample_issuer ''bob'' ''chatgpt'' 0 then Some ''access''
       else if c = device_claims sample_issuer ''bob'' ''db'' 0 then Some ''device'' else None),
     jwt_parse = (\<lambda>_ _ now tok.
       let c = (if tok = ''access'' then access_claims sample_issuer ''bob'' ''chatgpt'' 0
                else device_claims sample_issuer ''bob'' ''db'' 0)
       in if (tok = ''access'' \<or> tok = ''device'') \<and> in_time c now then Some c else None)\<rparr>"

lemma sample_claims_differ [simp]:
  "device_claims iss p d s \<noteq> access_claims iss' p' ct s'" "access_claims iss' p' ct s' \<noteq> device_claims iss p d s"
  by (simp_all add: access_claims_def device_claims_def)

lemma sample_jwt_documented: "jwt_documented sample_jwt sample_issuer"
  by (auto simp: jwt_documented_def sample_jwt_def Let_def split: if_splits)

theorem token_uses_witness:
  "VerifyAccess sample_jwt sample_issuer ''access'' 5 = Inr (''bob'', ''chatgpt'') \<and>
   VerifyAccess sample_jwt sample_issuer ''device'' 5 = Inl ErrInvalidToken"
proof -
  have "Mint sample_jwt sample_issuer ''bob'' ''chatgpt'' 0 = Inr ''access''"
    "MintDeviceCredential sample_jwt sample_issuer ''bob'' ''db'' 0 = Inr ''device''"
    by (simp_all add: Mint_def MintDeviceCredential_def token_sign_def sample_jwt_def)
  from token_uses [OF sample_jwt_documented this, of 5] show ?thesis
    by (simp add: sample_issuer_def unix_sec_def)
qed

section \<open>The key survives a restart\<close>

text \<open>
  The signing key. After a first start that succeeded, every later start that can read the file
  gets the same key, whatever it would have generated; the public half stored in the file is not
  trusted (any file of the right size with the same seed gives the same key), and a file of another
  size is refused.
\<close>

theorem key_persists:
  assumes "loadOrCreateKey seedkey env None = (Inr k, f)" "length k = PrivateKeySize" "seedkey (take SeedSize k) = k" "ke_read_ok env'"
  shows "f = Some k \<and> loadOrCreateKey seedkey env' f = (Inr k, f) \<and>
    (\<forall>b. take SeedSize b = take SeedSize k \<and> length b = PrivateKeySize \<longrightarrow> fst (loadOrCreateKey seedkey env' (Some b)) = Inr k) \<and>
    (\<forall>b. length b \<noteq> PrivateKeySize \<longrightarrow> loadOrCreateKey seedkey env' (Some b) = (Inl KeySize, Some b))"
proof -
  have "f = Some k"
    using assms(1) by (cases "ke_generated env")
      (auto simp: loadOrCreateKey_def create_key_def write_key_def split: if_splits)
  then show ?thesis using assms(2-4) by (simp add: loadOrCreateKey_def create_key_def readKey_def)
qed

theorem key_persists_witness:
  "\<exists>f. loadOrCreateKey (\<lambda>s. s @ s) \<lparr>ke_create_ok = True, ke_generated = Some (replicate 64 CHR ''k''), ke_written = 64, ke_close_ok = True, ke_read_ok = True\<rparr> None
     = (Inr (replicate 64 CHR ''k''), f) \<and> loadOrCreateKey (\<lambda>s. s @ s)
     \<lparr>ke_create_ok = True, ke_generated = None, ke_written = 0, ke_close_ok = True, ke_read_ok = True\<rparr> f = (Inr (replicate 64 CHR ''k''), f)"
proof -
  let ?k = "replicate 64 CHR ''k''"
  have r: "loadOrCreateKey (\<lambda>s. s @ s) \<lparr>ke_create_ok = True, ke_generated = Some ?k, ke_written = 64, ke_close_ok = True, ke_read_ok = True\<rparr> None
     = (Inr ?k, Some ?k)"
    by (simp add: loadOrCreateKey_def create_key_def write_key_def)
  have "length ?k = PrivateKeySize" "take SeedSize ?k @ take SeedSize ?k = ?k"
    by (simp_all add: PrivateKeySize_def SeedSize_def flip: replicate_add)
  from key_persists [OF r this, of "\<lparr>ke_create_ok = True, ke_generated = None, ke_written = 0, ke_close_ok = True, ke_read_ok = True\<rparr>"] r
  show ?thesis by auto
qed

text \<open>
  The comment on \<open>loadOrCreateKey\<close> says that of two processes racing a first start one creates
  the key and the other adopts it. Between the creation of the file and the write the other one
  reads an empty file and fails; and a write that fails leaves a file that makes every later start
  fail too (only the failure of the key generation removes it).
\<close>

lemma key_race:
  "create_key env None = (Inr True, f1) \<Longrightarrow> ke_read_ok env' \<Longrightarrow> loadOrCreateKey seedkey env' f1 = (Inl KeySize, f1)"
  by (auto simp: create_key_def loadOrCreateKey_def readKey_def PrivateKeySize_def split: if_splits)

lemma key_write_failure_stays:
  "ke_create_ok env \<Longrightarrow> ke_generated env = Some k \<Longrightarrow> length k = PrivateKeySize \<Longrightarrow> ke_written env < PrivateKeySize \<Longrightarrow> ke_read_ok env' \<Longrightarrow>
     loadOrCreateKey seedkey env None = (Inl KeyWrite, f) \<Longrightarrow> loadOrCreateKey seedkey env' f = (Inl KeySize, f)"
  by (auto simp: loadOrCreateKey_def create_key_def write_key_def readKey_def split: if_splits)

end
