(* ===== verification/OAuthFlow.thy ===== *)
theory OAuthFlow
  imports McpWait Url Tokens
begin

text \<open>
  The authorization server: \<open>internal/relay/oauth_authorize.go\<close>, \<open>oauth_token.go\<close>,
  \<open>oauth_dcr.go\<close> and the documents of \<open>oauth/as.go\<close> and \<open>oauth/prm.go\<close>. A form
  is the function \<open>Get\<close> of its values, \<open>None\<close> when it does not parse or is too long. A
  redirect is the URI it goes to with the query parameters set on it. Random bytes are an argument,
  \<open>None\<close> when the source fails. The JSON decoder of the registration body belongs to a
  third-party package: its result is the argument.
\<close>

section \<open>Requests and replies\<close>

type_synonym form_values = "string \<Rightarrow> string"

record authz_params =
  ap_ResponseType :: string
  ap_ClientID :: string
  ap_RedirectURI :: string
  ap_CodeChallenge :: string
  ap_CodeChallengeMethod :: string
  ap_State :: string
  ap_Resource :: string
  ap_Scope :: string
  ap_ClientType :: string

record authz_reject =
  rj_redirectURI :: string
  rj_oauthErr :: string
  rj_desc :: string
  rj_status :: nat
  rj_msg :: string

record token_response =
  tr_AccessToken :: string
  tr_TokenType :: string
  tr_ExpiresIn :: int
  tr_RefreshToken :: string

record client_meta =
  cm_RedirectURIs :: "string list"
  cm_ClientName :: string

datatype reply =
    HttpError nat string
  | LoginPage authz_params string
  | RedirectTo string "(string \<times> string) list"
  | TokenError nat string
  | TokenOK token_response
  | RegisterError string string
  | Registered client_meta string

text \<open>What the server of these handlers is made of.\<close>

record as_server =
  as_base :: string
  as_jwt :: jwt_lib
  as_issuer :: issuer
  as_ip6 :: "string \<Rightarrow> bool"

section \<open>Authorization requests\<close>

definition codeTTL :: duration where
  "codeTTL = 60 * 1000000000"

definition inline_reject :: "nat \<Rightarrow> string \<Rightarrow> authz_reject" where
  "inline_reject status msg = \<lparr>rj_redirectURI = [], rj_oauthErr = [], rj_desc = [], rj_status = status, rj_msg = msg\<rparr>"

definition redirect_reject :: "string \<Rightarrow> string \<Rightarrow> string \<Rightarrow> authz_reject" where
  "redirect_reject uri err desc = \<lparr>rj_redirectURI = uri, rj_oauthErr = err, rj_desc = desc, rj_status = 0, rj_msg = []\<rparr>"

text \<open>The pairing of client and redirect URI: \<open>Inr None\<close> is \<open>ok = false\<close>.\<close>

definition resolveClient :: "(string \<Rightarrow> bool) \<Rightarrow> string \<Rightarrow> string \<Rightarrow> store \<Rightarrow> store_error + string option" where
  "resolveClient ip6 clientID redirectURI s =
     (case Parse ip6 redirectURI of
        None \<Rightarrow> Inr None
      | Some ru \<Rightarrow>
          if \<not> IsAbs ru then Inr None
          else (let cimd = (case Parse ip6 clientID of
                              Some cu \<Rightarrow> if u_Scheme cu = ''https'' \<and> u_Host cu \<noteq> [] then Some cu else None
                            | None \<Rightarrow> None)
                in case cimd of
                     Some cu \<Rightarrow>
                       if u_Scheme ru = u_Scheme cu \<and> u_Host ru = u_Host cu then Inr (Some (clientTypeFor (u_Host ru)))
                       else Inr None
                   | None \<Rightarrow>
                      (case reads (ClientByID clientID) s of
                         Inl e \<Rightarrow> if e = ErrClientUnknown then Inr None else Inl e
                       | Inr c \<Rightarrow> if redirectURI \<in> set (cl_RedirectURIs c) then Inr (Some (clientTypeFor (u_Host ru)))
                                  else Inr None)))"

definition parseAuthz :: "as_server \<Rightarrow> form_values \<Rightarrow> store \<Rightarrow> authz_reject + authz_params" where
  "parseAuthz sv v s =
     (let p = \<lparr>ap_ResponseType = v ''response_type'', ap_ClientID = v ''client_id'', ap_RedirectURI = v ''redirect_uri'',
               ap_CodeChallenge = v ''code_challenge'', ap_CodeChallengeMethod = v ''code_challenge_method'',
               ap_State = v ''state'', ap_Resource = v ''resource'', ap_Scope = v ''scope'', ap_ClientType = []\<rparr>
      in if ap_ClientID p = [] \<or> ap_RedirectURI p = [] then Inl (inline_reject 400 ''missing client_id or redirect_uri'')
         else (case resolveClient (as_ip6 sv) (ap_ClientID p) (ap_RedirectURI p) s of
                 Inl e \<Rightarrow> Inl (inline_reject 500 ''authorization failed'')
               | Inr None \<Rightarrow> Inl (inline_reject 400 ''invalid client_id or redirect_uri'')
               | Inr (Some clientType) \<Rightarrow>
                   let p = p\<lparr>ap_ClientType := clientType\<rparr>
                   in if ap_ResponseType p \<noteq> ''code''
                      then Inl (redirect_reject (ap_RedirectURI p) ''unsupported_response_type'' ''only response_type=code is supported'')
                      else if ap_CodeChallenge p = [] \<or> ap_CodeChallengeMethod p \<noteq> ''S256''
                      then Inl (redirect_reject (ap_RedirectURI p) ''invalid_request'' ''PKCE with code_challenge_method=S256 is required'')
                      else if ap_Resource p \<noteq> [] \<and> ap_Resource p \<noteq> as_base sv
                      then Inl (redirect_reject (ap_RedirectURI p) ''invalid_target'' ''resource does not match this relay'')
                      else Inr p))"

definition rejectAuthz :: "as_server \<Rightarrow> authz_reject \<Rightarrow> string \<Rightarrow> reply" where
  "rejectAuthz sv rej state =
     (if rj_redirectURI rej = [] then HttpError (rj_status rej) (rj_msg rej)
      else case Parse (as_ip6 sv) (rj_redirectURI rej) of
             None \<Rightarrow> HttpError 400 ''invalid redirect_uri''
           | Some _ \<Rightarrow> RedirectTo (rj_redirectURI rej)
               ([(''error'', rj_oauthErr rej)] @
                (if rj_desc rej \<noteq> [] then [(''error_description'', rj_desc rej)] else []) @
                (if state \<noteq> [] then [(''state'', state)] else [])))"

definition handleAuthorize :: "as_server \<Rightarrow> form_values \<Rightarrow> store \<Rightarrow> reply" where
  "handleAuthorize sv v s =
     (case parseAuthz sv v s of
        Inl rej \<Rightarrow> rejectAuthz sv rej (v ''state'')
      | Inr p \<Rightarrow> LoginPage p [])"

definition newOpaqueToken :: "string option \<Rightarrow> string option" where
  "newOpaqueToken random = map_option RawURLEncoding_Encode random"

definition bad_credential :: string where
  "bad_credential = ''That device credential is not valid. Paste a current one and try again.''"

definition handleAuthorizeSubmit :: "as_server \<Rightarrow> form_values option \<Rightarrow> instant \<Rightarrow> string option \<Rightarrow> store \<Rightarrow> reply \<times> store" where
  "handleAuthorizeSubmit sv form now random s =
     (case form of
        None \<Rightarrow> (HttpError 400 ''invalid form'', s)
      | Some v \<Rightarrow>
        (case parseAuthz sv v s of
           Inl rej \<Rightarrow> (rejectAuthz sv rej (v ''state''), s)
         | Inr p \<Rightarrow>
           (case VerifyDeviceCredential (as_jwt sv) (as_issuer sv) (v ''credential'') now of
              Inl _ \<Rightarrow> (LoginPage p bad_credential, s)
            | Inr (person, device) \<Rightarrow>
              (case reads (ActiveDeviceByID device) s of
                 Inl _ \<Rightarrow> (LoginPage p bad_credential, s)
               | Inr _ \<Rightarrow>
                 (case newOpaqueToken random of
                    None \<Rightarrow> (HttpError 500 ''authorization failed'', s)
                  | Some code \<Rightarrow>
                    (case CreateAuthCode code
                        \<lparr>ac_ClientID = ap_ClientID p, ac_RedirectURI = ap_RedirectURI p, ac_CodeChallenge = ap_CodeChallenge p,
                         ac_Resource = ap_Resource p, ac_PersonID = person, ac_DeviceID = device, ac_ClientType = ap_ClientType p\<rparr>
                        (now + codeTTL) now s of
                       (Inl _, s') \<Rightarrow> (HttpError 500 ''authorization failed'', s')
                     | (Inr _, s') \<Rightarrow>
                         (RedirectTo (ap_RedirectURI p)
                            ([(''code'', code)] @ (if ap_State p \<noteq> [] then [(''state'', ap_State p)] else [])), s')))))))"

section \<open>The token endpoint\<close>

definition refreshTTL :: duration where
  "refreshTTL = 30 * 24 * 3600 * 1000000000"

definition issueTokens :: "as_server \<Rightarrow> refresh_grant \<Rightarrow> instant \<Rightarrow> string option \<Rightarrow> store \<Rightarrow> reply \<times> store" where
  "issueTokens sv g now random s =
     (case reads (ActiveDeviceByID (rg_DeviceID g)) s of
        Inl _ \<Rightarrow> (TokenError 400 ''invalid_grant'', s)
      | Inr _ \<Rightarrow>
        (case Mint (as_jwt sv) (as_issuer sv) (rg_PersonID g) (rg_ClientType g) now of
           Inl _ \<Rightarrow> (TokenError 500 ''server_error'', s)
         | Inr access \<Rightarrow>
           (case newOpaqueToken random of
              None \<Rightarrow> (TokenError 500 ''server_error'', s)
            | Some refresh \<Rightarrow>
              (case CreateRefreshToken refresh g (now + refreshTTL) now s of
                 (Inl _, s') \<Rightarrow> (TokenError 500 ''server_error'', s')
               | (Inr _, s') \<Rightarrow>
                   (TokenOK \<lparr>tr_AccessToken = access, tr_TokenType = ''Bearer'',
                      tr_ExpiresIn = AccessTTL (as_issuer sv) div 1000000000, tr_RefreshToken = refresh\<rparr>, s')))))"

definition grant_of_code :: "auth_code \<Rightarrow> refresh_grant" where
  "grant_of_code b = \<lparr>rg_ClientID = ac_ClientID b, rg_PersonID = ac_PersonID b, rg_DeviceID = ac_DeviceID b,
     rg_ClientType = ac_ClientType b, rg_Resource = ac_Resource b\<rparr>"

definition tokenFromCode :: "as_server \<Rightarrow> form_values \<Rightarrow> instant \<Rightarrow> string option \<Rightarrow> store \<Rightarrow> reply \<times> store" where
  "tokenFromCode sv v now random s =
     (let code = v ''code''; codeVerifier = v ''code_verifier''; clientID = v ''client_id''; redirectURI = v ''redirect_uri''
      in if code = [] \<or> codeVerifier = [] \<or> clientID = [] \<or> redirectURI = [] then (TokenError 400 ''invalid_request'', s)
         else (case reads (AuthCodeByCode code now) s of
                 Inl _ \<Rightarrow> (TokenError 400 ''invalid_grant'', s)
               | Inr b \<Rightarrow>
                   if ac_ClientID b \<noteq> clientID \<or> ac_RedirectURI b \<noteq> redirectURI \<or> \<not> VerifyPKCE (ac_CodeChallenge b) codeVerifier
                   then (TokenError 400 ''invalid_grant'', s)
                   else (case ConsumeAuthCode code now s of
                           (Inl _, s') \<Rightarrow> (TokenError 400 ''invalid_grant'', s')
                         | (Inr _, s') \<Rightarrow> issueTokens sv (grant_of_code b) now random s')))"

definition tokenFromRefresh :: "as_server \<Rightarrow> form_values \<Rightarrow> instant \<Rightarrow> string option \<Rightarrow> store \<Rightarrow> reply \<times> store" where
  "tokenFromRefresh sv v now random s =
     (let rt = v ''refresh_token'' in
      if rt = [] then (TokenError 400 ''invalid_request'', s)
      else (case ConsumeRefreshToken rt now s of
              (Inl _, s') \<Rightarrow> (TokenError 400 ''invalid_grant'', s')
            | (Inr g, s') \<Rightarrow>
                if v ''client_id'' \<noteq> [] \<and> v ''client_id'' \<noteq> rg_ClientID g then (TokenError 400 ''invalid_grant'', s')
                else issueTokens sv g now random s'))"

definition handleToken :: "as_server \<Rightarrow> form_values option \<Rightarrow> instant \<Rightarrow> string option \<Rightarrow> store \<Rightarrow> reply \<times> store" where
  "handleToken sv form now random s =
     (case form of
        None \<Rightarrow> (TokenError 400 ''invalid_request'', s)
      | Some v \<Rightarrow>
          if v ''grant_type'' = ''authorization_code'' then tokenFromCode sv v now random s
          else if v ''grant_type'' = ''refresh_token'' then tokenFromRefresh sv v now random s
          else (TokenError 400 ''unsupported_grant_type'', s))"

section \<open>Dynamic client registration\<close>

definition handleRegister :: "as_server \<Rightarrow> client_meta option \<Rightarrow> instant \<Rightarrow> string \<Rightarrow> store \<Rightarrow> reply \<times> store" where
  "handleRegister sv body now new_id s =
     (case body of
        None \<Rightarrow> (RegisterError ''invalid_client_metadata'' ''malformed registration body'', s)
      | Some meta \<Rightarrow>
          if cm_RedirectURIs meta = [] then (RegisterError ''invalid_redirect_uri'' ''at least one redirect_uri is required'', s)
          else if \<not> list_all (validRedirectURI (as_ip6 sv)) (cm_RedirectURIs meta)
          then (RegisterError ''invalid_redirect_uri'' ''redirect_uri must be an absolute https URL (or http loopback), no fragment'', s)
          else (case RegisterClient new_id (cm_RedirectURIs meta) (cm_ClientName meta) now s of
                  (Inl _, s') \<Rightarrow> (RegisterError ''invalid_client_metadata'' ''registration failed'', s')
                | (Inr i, s') \<Rightarrow> (Registered meta i, s')))"

section \<open>Metadata\<close>

definition AuthServerMetaPath :: string where "AuthServerMetaPath = ''/.well-known/oauth-authorization-server''"
definition AuthorizePath :: string where "AuthorizePath = ''/oauth/authorize''"
definition TokenPath :: string where "TokenPath = ''/oauth/token''"
definition RegisterPath :: string where "RegisterPath = ''/oauth/register''"
definition JWKSPath :: string where "JWKSPath = ''/oauth/jwks''"
definition PRMPath :: string where "PRMPath = ''/.well-known/oauth-protected-resource''"

record as_meta =
  am_Issuer :: string
  am_AuthorizationEndpoint :: string
  am_TokenEndpoint :: string
  am_JWKSURI :: string
  am_RegistrationEndpoint :: string
  am_ResponseTypes :: "string list"
  am_GrantTypes :: "string list"
  am_CodeChallengeMethods :: "string list"
  am_TokenAuthMethods :: "string list"
  am_ClientIDMetadata :: bool

definition AuthServerMetadata :: "string \<Rightarrow> as_meta" where
  "AuthServerMetadata baseURL =
     \<lparr>am_Issuer = baseURL, am_AuthorizationEndpoint = baseURL @ AuthorizePath, am_TokenEndpoint = baseURL @ TokenPath,
      am_JWKSURI = baseURL @ JWKSPath, am_RegistrationEndpoint = baseURL @ RegisterPath, am_ResponseTypes = [''code''],
      am_GrantTypes = [''authorization_code'', ''refresh_token''], am_CodeChallengeMethods = [''S256''],
      am_TokenAuthMethods = [''none''], am_ClientIDMetadata = True\<rparr>"

end
