(* ===== verification/Hub.thy ===== *)
theory Hub
  imports McpWait "HOL-Library.AList"
begin

text \<open>
  The WebSocket hub: \<open>internal/relay/ws.go\<close>. A connection is a number standing for the
  pointer to its \<open>wsConn\<close>; the nested Go maps are association lists. The server's state
  holds the store, the hub, which sockets are closed, which have a wake pending (the channel of
  capacity one) and what has been written to each. The goroutines of a connection are the
  operations \<open>handleWS\<close> (up to the read loop), \<open>read_frame\<close> (one round of it),
  \<open>teardown\<close> (the deferred function) and \<open>writer_round\<close> (one round of
  \<open>writerLoop\<close>). Parameters: \<open>verify\<close> for the device credential,
  \<open>accepts\<close> for \<open>websocket.Accept\<close>, \<open>write_ok n\<close> for the outcome of the n-th
  write of a drain.
\<close>

section \<open>The registry\<close>

type_synonym conn = nat

type_synonym hub = "(string \<times> (string \<times> conn) list) list"

definition newHub :: hub where
  "newHub = []"

definition by_device :: "hub \<Rightarrow> string \<Rightarrow> (string \<times> conn) list" where
  "by_device h person = (case map_of h person of None \<Rightarrow> [] | Some m \<Rightarrow> m)"

text \<open>\<open>add\<close>: the registered socket it supersedes, if any, is to be closed.\<close>

definition hub_add :: "string \<Rightarrow> string \<Rightarrow> conn \<Rightarrow> hub \<Rightarrow> hub \<times> conn option" where
  "hub_add person device c h =
     (AList.update person (AList.update device c (by_device h person)) h, map_of (by_device h person) device)"

definition hub_remove :: "string \<Rightarrow> string \<Rightarrow> conn \<Rightarrow> hub \<Rightarrow> hub" where
  "hub_remove person device c h =
     (case map_of h person of
        None \<Rightarrow> h
      | Some m \<Rightarrow>
          if map_of m device = Some c
          then let m' = AList.delete device m
               in if m' = [] then AList.delete person h else AList.update person m' h
          else h)"

definition hub_closeAll :: "hub \<Rightarrow> hub \<times> conn list" where
  "hub_closeAll h = ([], [c. (_, m) \<leftarrow> h, (_, c) \<leftarrow> m])"

definition hub_snapshot :: "string \<Rightarrow> hub \<Rightarrow> (string \<times> conn) list" where
  "hub_snapshot person h = by_device h person"

definition hub_devices :: "hub \<Rightarrow> (string \<times> conn) list" where
  "hub_devices h = concat (map snd h)"

section \<open>Frames\<close>

record ws_frame =
  wf_Type :: string
  wf_ID :: string
  wf_ThreadID :: string
  wf_SenderID :: string
  wf_Envelope :: string

definition zero_frame :: ws_frame where
  "zero_frame = \<lparr>wf_Type = [], wf_ID = [], wf_ThreadID = [], wf_SenderID = [], wf_Envelope = []\<rparr>"

definition dec_frame_field :: "string \<Rightarrow> jtext json \<Rightarrow> ws_frame \<Rightarrow> ws_frame option" where
  "dec_frame_field n v f =
     (if n = ''type'' then map_option (\<lambda>s. f\<lparr>wf_Type := s\<rparr>) (dec_string v (wf_Type f))
      else if n = ''id'' then map_option (\<lambda>s. f\<lparr>wf_ID := s\<rparr>) (dec_string v (wf_ID f))
      else if n = ''thread_id'' then map_option (\<lambda>s. f\<lparr>wf_ThreadID := s\<rparr>) (dec_string v (wf_ThreadID f))
      else if n = ''sender_id'' then map_option (\<lambda>s. f\<lparr>wf_SenderID := s\<rparr>) (dec_string v (wf_SenderID f))
      else Some f)"

text \<open>\<open>json.Unmarshal(data, &f)\<close>; the raw envelope of an inbound frame is never looked at.\<close>

definition decode_frame :: "string \<Rightarrow> ws_frame option" where
  "decode_frame data =
     Option.bind (parse_document data)
       (\<lambda>j. dec_struct dec_frame_field [''type'', ''id'', ''thread_id'', ''sender_id'', ''envelope''] j zero_frame)"

text \<open>\<open>json.Marshal\<close> of a frame fails iff its raw envelope is not a JSON document.\<close>

definition frame_marshals :: "ws_frame \<Rightarrow> bool" where
  "frame_marshals f \<longleftrightarrow> wf_Envelope f = [] \<or> parse_document (wf_Envelope f) \<noteq> None"

section \<open>The server\<close>

record ws_server =
  ws_store :: store
  ws_hub :: hub
  ws_closed :: "conn list"
  ws_woken :: "conn list"
  ws_sent :: "(conn \<times> ws_frame) list"
  ws_next :: conn

definition close_conn :: "conn \<Rightarrow> ws_server \<Rightarrow> ws_server" where
  "close_conn c w = w\<lparr>ws_closed := c # ws_closed w\<rparr>"

definition wake :: "conn \<Rightarrow> ws_server \<Rightarrow> ws_server" where
  "wake c w = (if c \<in> set (ws_woken w) then w else w\<lparr>ws_woken := c # ws_woken w\<rparr>)"

definition active :: "string \<Rightarrow> ws_server \<Rightarrow> store_error + device" where
  "active device w = reads (ActiveDeviceByID device) (ws_store w)"

definition lower_byte :: "char \<Rightarrow> char" where
  "lower_byte c = (if 65 \<le> byte_of c \<and> byte_of c \<le> 90 then to_byte (byte_of c + 32) else c)"

text \<open>
  \<open>strings.EqualFold\<close> of the first seven bytes with \<open>"Bearer "\<close>: none of its letters has
  a case variant outside ASCII.
\<close>

definition bearerToken :: "string \<Rightarrow> string option" where
  "bearerToken h =
     (if length h \<le> length ''Bearer '' \<or> map lower_byte (take (length ''Bearer '') h) \<noteq> ''bearer '' then None
      else Some (drop (length ''Bearer '') h))"

text \<open>The answer: a status the handler wrote, the library's own refusal, or a registered socket.\<close>

datatype ws_answer = WsUnauthorized | WsAcceptFailed | WsConnected string string conn

definition handleWS :: "(string \<Rightarrow> instant \<Rightarrow> unit + string \<times> string) \<Rightarrow> bool \<Rightarrow> string \<Rightarrow> instant \<Rightarrow> ws_server \<Rightarrow>
    ws_answer \<times> ws_server" where
  "handleWS verify accepts header now w =
     (case bearerToken header of
        None \<Rightarrow> (WsUnauthorized, w)
      | Some tok \<Rightarrow>
        (case verify tok now of
           Inl _ \<Rightarrow> (WsUnauthorized, w)
         | Inr (person, device) \<Rightarrow>
           (case active device w of
              Inl _ \<Rightarrow> (WsUnauthorized, w)
            | Inr dev \<Rightarrow>
                if de_PersonID dev \<noteq> person then (WsUnauthorized, w)
                else if \<not> accepts then (WsAcceptFailed, w)
                else let c = ws_next w;
                         (h, old) = hub_add person device c (ws_hub w);
                         w1 = w\<lparr>ws_hub := h, ws_next := c + 1\<rparr>;
                         w2 = (case old of None \<Rightarrow> w1 | Some o' \<Rightarrow> close_conn o' w1)
                     in (WsConnected person device c, wake c w2))))"

text \<open>One inbound frame: \<open>False\<close> ends the read loop.\<close>

definition read_frame :: "string \<Rightarrow> string \<Rightarrow> instant \<Rightarrow> ws_server \<Rightarrow> bool \<times> ws_server" where
  "read_frame device data now w =
     (case active device w of
        Inl _ \<Rightarrow> (False, w)
      | Inr _ \<Rightarrow>
         (case decode_frame data of
            None \<Rightarrow> (True, w)
          | Some f \<Rightarrow>
              if wf_Type f = ''ack'' then
                (if wf_ID f \<noteq> [] then (True, w\<lparr>ws_store := snd (Ack (wf_ID f) device now (ws_store w))\<rparr>) else (True, w))
              else (True, w)))"

definition teardown :: "string \<Rightarrow> string \<Rightarrow> conn \<Rightarrow> ws_server \<Rightarrow> ws_server" where
  "teardown person device c w = close_conn c (w\<lparr>ws_hub := hub_remove person device c (ws_hub w)\<rparr>)"

definition message_frame :: "inbox_item \<Rightarrow> ws_frame" where
  "message_frame it = \<lparr>wf_Type = ''message'', wf_ID = ii_ID it, wf_ThreadID = ii_ThreadID it,
     wf_SenderID = ii_SenderID it, wf_Envelope = ii_Envelope it\<rparr>"

text \<open>\<open>writeFrame\<close> and the loop over the inbox: \<open>write_ok n\<close> is the outcome of the n-th write.\<close>

fun push_all :: "string \<Rightarrow> conn \<Rightarrow> (nat \<Rightarrow> bool) \<Rightarrow> instant \<Rightarrow> nat \<Rightarrow> inbox_item list \<Rightarrow> ws_server \<Rightarrow> ws_server" where
  "push_all device c write_ok now n [] w = w"
| "push_all device c write_ok now n (it # its) w =
     (if frame_marshals (message_frame it) \<and> write_ok n
      then push_all device c write_ok now (Suc n) its
        (w\<lparr>ws_sent := ws_sent w @ [(c, message_frame it)],
           ws_store := snd (MarkDelivered (ii_ID it) device now (ws_store w))\<rparr>)
      else close_conn c w)"

definition drainInbox :: "string \<Rightarrow> conn \<Rightarrow> (nat \<Rightarrow> bool) \<Rightarrow> instant \<Rightarrow> ws_server \<Rightarrow> ws_server" where
  "drainInbox device c write_ok now w =
     (case active device w of
        Inl _ \<Rightarrow> close_conn c w
      | Inr _ \<Rightarrow>
         (case reads (\<lambda>d. Inr (Inbox device d)) (ws_store w) of
            Inl _ \<Rightarrow> w
          | Inr items \<Rightarrow> push_all device c write_ok now 0 items w))"

definition writer_round :: "string \<Rightarrow> conn \<Rightarrow> (nat \<Rightarrow> bool) \<Rightarrow> instant \<Rightarrow> ws_server \<Rightarrow> ws_server" where
  "writer_round device c write_ok now w =
     (if c \<in> set (ws_woken w) then drainInbox device c write_ok now (w\<lparr>ws_woken := filter (\<lambda>x. x \<noteq> c) (ws_woken w)\<rparr>) else w)"

definition Notify :: "string \<Rightarrow> ws_server \<Rightarrow> ws_server" where
  "Notify personID w = fold (\<lambda>(_, c). wake c) (hub_snapshot personID (ws_hub w)) w"

definition severRevoked :: "ws_server \<Rightarrow> ws_server" where
  "severRevoked w =
     fold (\<lambda>(device, c) w. case active device w of Inl _ \<Rightarrow> close_conn c w | Inr _ \<Rightarrow> w) (hub_devices (ws_hub w)) w"

text \<open>\<open>closeAll\<close> on shutdown.\<close>

definition close_hub :: "ws_server \<Rightarrow> ws_server" where
  "close_hub w = (case hub_closeAll (ws_hub w) of (h, cs) \<Rightarrow> w\<lparr>ws_hub := h, ws_closed := cs @ ws_closed w\<rparr>)"

section \<open>The registry refines a map from devices to sockets\<close>

text \<open>
  What the server relies on: registering replaces, and removing a socket that has been replaced
  changes nothing. An implementation with a lookup and an invariant that satisfies this behaves,
  over any history of connections, like the map.
\<close>

datatype hub_event = Connected string string conn | Gone string string conn | Shutdown

fun spec_step :: "(string \<times> string \<Rightarrow> conn option) \<Rightarrow> hub_event \<Rightarrow> (string \<times> string \<Rightarrow> conn option)" where
  "spec_step m (Connected p d c) = m((p, d) \<mapsto> c)"
| "spec_step m (Gone p d c) = (if m (p, d) = Some c then m((p, d) := None) else m)"
| "spec_step m Shutdown = (\<lambda>_. None)"

locale registry =
  fixes ok :: "'h \<Rightarrow> bool" and look :: "'h \<Rightarrow> string \<times> string \<Rightarrow> conn option"
    and impl_step :: "'h \<Rightarrow> hub_event \<Rightarrow> 'h"
  assumes ok_step: "ok h \<Longrightarrow> ok (impl_step h ev)"
    and look_step: "ok h \<Longrightarrow> look (impl_step h ev) = spec_step (look h) ev"
begin

lemma simulation: "ok h \<Longrightarrow> ok (foldl impl_step h evs) \<and> look (foldl impl_step h evs) = foldl spec_step (look h) evs"
  by (induction evs arbitrary: h) (simp_all add: ok_step look_step)

lemma replacement_stays:
  "ok h \<Longrightarrow> c \<noteq> c' \<Longrightarrow> look (impl_step (impl_step h (Connected p d c')) (Gone p d c)) (p, d) = Some c'"
  by (simp add: look_step ok_step)

end

fun hub_step :: "hub \<Rightarrow> hub_event \<Rightarrow> hub" where
  "hub_step h (Connected p d c) = fst (hub_add p d c h)"
| "hub_step h (Gone p d c) = hub_remove p d c h"
| "hub_step h Shutdown = fst (hub_closeAll h)"

definition hub_ok :: "hub \<Rightarrow> bool" where
  "hub_ok h \<longleftrightarrow> distinct (map fst h) \<and> (\<forall>(p, m) \<in> set h. m \<noteq> [] \<and> distinct (map fst m))"

definition conn_of :: "hub \<Rightarrow> string \<times> string \<Rightarrow> conn option" where
  "conn_of h pd = map_of (by_device h (fst pd)) (snd pd)"

lemma by_device_ok: "hub_ok h \<Longrightarrow> distinct (map fst (by_device h p))"
  by (auto simp: by_device_def hub_ok_def dest: map_of_SomeD split: option.split)

lemma hub_ok_update:
  assumes "hub_ok h" "m \<noteq> []" "distinct (map fst m)"
  shows "hub_ok (AList.update p m h)"
proof -
  have "(\<forall>(q, m') \<in> set (AList.update p m h). m' \<noteq> [] \<and> distinct (map fst m'))"
    using assms by (induction h) (auto simp: hub_ok_def split: if_splits)
  then show ?thesis using assms(1) by (simp add: hub_ok_def distinct_update)
qed

lemma hub_ok_add: "hub_ok h \<Longrightarrow> hub_ok (fst (hub_add p d c h))"
  by (simp add: hub_add_def hub_ok_update distinct_update by_device_ok)

lemma hub_ok_delete: "hub_ok h \<Longrightarrow> hub_ok (AList.delete p h)"
  by (simp add: hub_ok_def distinct_delete) (auto simp: AList.delete_eq)

lemma hub_ok_remove: "hub_ok h \<Longrightarrow> hub_ok (hub_remove p d c h)"
  using by_device_ok [of h p]
  by (auto simp: hub_remove_def Let_def by_device_def distinct_delete intro!: hub_ok_update hub_ok_delete
      split: option.split)

lemma conn_of_add: "conn_of (fst (hub_add p d c h)) = (conn_of h)((p, d) \<mapsto> c)"
  by (auto simp: conn_of_def hub_add_def by_device_def update_conv' fun_eq_iff)

lemma conn_of_remove:
  "conn_of (hub_remove p d c h) = (if conn_of h (p, d) = Some c then (conn_of h)((p, d) := None) else conn_of h)"
proof (cases "map_of h p")
  case None
  then show ?thesis by (simp add: hub_remove_def conn_of_def by_device_def)
next
  case (Some m)
  then have m: "by_device h p = m" by (simp add: by_device_def)
  have other: "q \<noteq> p \<Longrightarrow> by_device (hub_remove p d c h) q = by_device h q" for q
    using Some by (simp add: by_device_def hub_remove_def Let_def delete_conv' update_conv')
  have own: "map_of (by_device (hub_remove p d c h) p) = (map_of m)(d := None)" if "map_of m d = Some c"
  proof -
    have del: "map_of (AList.delete d m) = (map_of m)(d := None)" by (rule delete_conv')
    show ?thesis
    proof (cases "AList.delete d m = []")
      case True
      then show ?thesis using Some that del
        by (simp add: by_device_def hub_remove_def delete_conv')
    next
      case False
      then show ?thesis using Some that del
        by (simp add: by_device_def hub_remove_def update_conv')
    qed
  qed
  show ?thesis
  proof (cases "map_of m d = Some c")
    case True
    show ?thesis
    proof
      fix qe show "conn_of (hub_remove p d c h) qe = (if conn_of h (p, d) = Some c then (conn_of h)((p, d) := None) else conn_of h) qe"
        using own [OF True] True other [of "fst qe"] m by (cases qe, cases "fst qe = p") (auto simp: conn_of_def)
    qed
  next
    case False
    then show ?thesis using Some by (simp add: hub_remove_def conn_of_def by_device_def)
  qed
qed

interpretation hubs: registry hub_ok conn_of hub_step
proof unfold_locales
  fix h ev assume "hub_ok h"
  then show "hub_ok (hub_step h ev)"
    by (cases ev) (simp_all add: hub_ok_add hub_ok_remove hub_closeAll_def, simp add: hub_ok_def)
  show "conn_of (hub_step h ev) = spec_step (conn_of h) ev"
    by (cases ev) (simp_all add: conn_of_add conn_of_remove hub_closeAll_def, simp add: conn_of_def by_device_def fun_eq_iff)
qed

lemma hub_members:
  assumes "hub_ok h"
  shows "set (hub_devices h) = {(d, c). \<exists>p. conn_of h (p, d) = Some c}"
proof -
  have "(\<exists>p. conn_of h (p, d) = Some c) \<longleftrightarrow> (\<exists>p m. (p, m) \<in> set h \<and> (d, c) \<in> set m)" for d c
  proof -
    have "conn_of h (p, d) = Some c \<longleftrightarrow> (\<exists>m. (p, m) \<in> set h \<and> (d, c) \<in> set m)" for p
    proof (cases "map_of h p")
      case None
      then have "(p, m') \<notin> set h" for m' by (force simp: map_of_eq_None_iff)
      then show ?thesis using None by (simp add: conn_of_def by_device_def)
    next
      case (Some m)
      have "map_of h p = Some m' \<longleftrightarrow> (p, m') \<in> set h" for m'
        using assms by (intro map_of_eq_Some_iff) (simp add: hub_ok_def)
      then have one: "(p, m') \<in> set h \<longleftrightarrow> m = m'" for m' using Some by simp
      have "map_of m d = Some c \<longleftrightarrow> (d, c) \<in> set m"
        using by_device_ok [OF assms, of p] Some by (intro map_of_eq_Some_iff) (simp add: by_device_def)
      then show ?thesis using Some by (simp add: conn_of_def by_device_def one)
    qed
    then show ?thesis by blast
  qed
  then have "(d, c) \<in> set (hub_devices h) \<longleftrightarrow> (\<exists>p. conn_of h (p, d) = Some c)" for d c
    by (force simp: hub_devices_def)
  then show ?thesis by auto
qed

lemma closeAll_devices: "snd (hub_closeAll h) = map snd (hub_devices h)"
  by (induction h) (auto simp: hub_closeAll_def hub_devices_def)

text \<open>
  C29: refinement. Over every history of connections, disconnections and shutdowns the nested maps
  of the hub behave like one map from (person, device) to a socket: a reconnect replaces, and the
  late disconnection of a replaced socket removes nothing. The snapshot of a person and the list
  of all devices are views of that map, no person without sockets is kept, and a shutdown closes
  exactly the registered sockets.
\<close>

theorem hub_refines:
  "conn_of (foldl hub_step newHub evs) = foldl spec_step (\<lambda>_. None) evs \<and>
   (\<forall>p d. map_of (hub_snapshot p (foldl hub_step newHub evs)) d = foldl spec_step (\<lambda>_. None) evs (p, d)) \<and>
   set (hub_devices (foldl hub_step newHub evs)) = {(d, c). \<exists>p. foldl spec_step (\<lambda>_. None) evs (p, d) = Some c} \<and>
   set (snd (hub_closeAll (foldl hub_step newHub evs))) = {c. \<exists>p d. foldl spec_step (\<lambda>_. None) evs (p, d) = Some c} \<and>
   (\<forall>p. p \<in> fst ` set (foldl hub_step newHub evs) \<longleftrightarrow> (\<exists>d c. foldl spec_step (\<lambda>_. None) evs (p, d) = Some c))"
proof -
  let ?h = "foldl hub_step newHub evs" and ?m = "foldl spec_step (\<lambda>_. None) evs"
  have "hub_ok newHub" "conn_of newHub = (\<lambda>_. None)" by (simp_all add: hub_ok_def newHub_def conn_of_def by_device_def fun_eq_iff)
  then have ok: "hub_ok ?h" and sim: "conn_of ?h = ?m" using hubs.simulation [of newHub evs] by simp_all
  have dev: "set (hub_devices ?h) = {(d, c). \<exists>p. ?m (p, d) = Some c}" using hub_members [OF ok] sim by simp
  have "set (snd (hub_closeAll ?h)) = snd ` set (hub_devices ?h)" by (simp add: closeAll_devices)
  also have "\<dots> = {c. \<exists>p d. ?m (p, d) = Some c}" unfolding dev by force
  finally have all: "set (snd (hub_closeAll ?h)) = {c. \<exists>p d. ?m (p, d) = Some c}" .
  have "p \<in> fst ` set ?h \<longleftrightarrow> (\<exists>d c. conn_of ?h (p, d) = Some c)" for p
  proof (cases "map_of ?h p")
    case None
    then have "p \<notin> fst ` set ?h" by (simp add: map_of_eq_None_iff)
    then show ?thesis using None by (auto simp: conn_of_def by_device_def)
  next
    case (Some m)
    then have "p \<in> fst ` set ?h" "m \<noteq> []" using ok by (auto simp: hub_ok_def dest: map_of_SomeD intro: rev_image_eqI)
    then show ?thesis using Some by (cases m) (auto simp: conn_of_def by_device_def)
  qed
  then show ?thesis using sim dev all by (auto simp: hub_snapshot_def conn_of_def [symmetric] fun_eq_iff) (simp add: conn_of_def)
qed

section \<open>Revocation severs\<close>

lemma active_iff: "active device w = Inr dev \<longleftrightarrow>
    st_begin_ok (ws_store w) \<and> ActiveDeviceByID device (st_db (ws_store w)) = Inr dev"
  by (auto simp: active_def reads_def)

lemma revoked_not_active:
  assumes "\<forall>r \<in> set (devices (st_db (ws_store w))). d_id r = device \<longrightarrow> d_revoked r \<noteq> None"
  shows "\<exists>e. active device w = Inl e"
proof -
  have "select_first (\<lambda>r. d_id r = device \<and> d_revoked r = None) (devices (st_db (ws_store w))) = None"
    using assms by (auto simp: select_first_None)
  then show ?thesis by (simp add: active_def reads_def ActiveDeviceByID_def)
qed

lemma active_close [simp]: "active d (close_conn c w) = active d w"
  by (simp add: active_def close_conn_def)

lemma severRevoked_shape: "\<exists>cs. severRevoked w = w\<lparr>ws_closed := cs @ ws_closed w\<rparr> \<and>
    set cs = {c. \<exists>d e. (d, c) \<in> set (hub_devices (ws_hub w)) \<and> active d w = Inl e}"
proof -
  let ?f = "\<lambda>(device, c) w. case active device w of Inl _ \<Rightarrow> close_conn c w | Inr _ \<Rightarrow> w"
  have "\<exists>cs. fold ?f ds v = v\<lparr>ws_closed := cs @ ws_closed v\<rparr> \<and>
      set cs = {c. \<exists>d e. (d, c) \<in> set ds \<and> active d v = Inl e}" for ds and v :: ws_server
  proof (induction ds arbitrary: v)
    case Nil
    show ?case by (intro exI [of _ "[]"]) simp
  next
    case (Cons x ds)
    obtain d c where x: "x = (d, c)" by (cases x)
    show ?case
    proof (cases "active d v")
      case (Inl e)
      obtain cs where cs: "fold ?f ds (close_conn c v) = (close_conn c v)\<lparr>ws_closed := cs @ ws_closed (close_conn c v)\<rparr>"
        "set cs = {c'. \<exists>d e. (d, c') \<in> set ds \<and> active d v = Inl e}" using Cons.IH [of "close_conn c v"] by auto
      have "fold ?f (x # ds) v = v\<lparr>ws_closed := (cs @ [c]) @ ws_closed v\<rparr>"
        using cs(1) x Inl by (simp add: close_conn_def)
      moreover have "set (cs @ [c]) = {c'. \<exists>d e. (d, c') \<in> set (x # ds) \<and> active d v = Inl e}"
        using cs(2) x Inl by auto
      ultimately show ?thesis by blast
    next
      case (Inr dev)
      obtain cs where "fold ?f ds v = v\<lparr>ws_closed := cs @ ws_closed v\<rparr>"
        "set cs = {c'. \<exists>d e. (d, c') \<in> set ds \<and> active d v = Inl e}" using Cons.IH [of v] by blast
      then show ?thesis using x Inr by (intro exI [of _ cs]) auto
    qed
  qed
  from this [of "hub_devices (ws_hub w)" w] show ?thesis by (simp add: severRevoked_def)
qed

text \<open>
  C13: safety, the kill switch. Once no row of a device is unrevoked, no credential connects it
  again, the next frame it sends ends its read loop without touching the store, the next push
  closes its socket without sending anything, and the periodic check closes all its sockets
  (and exactly the sockets of devices that are not active), changing nothing else.
\<close>

theorem revoked_is_severed:
  assumes "\<forall>r \<in> set (devices (st_db (ws_store w))). d_id r = device \<longrightarrow> d_revoked r \<noteq> None"
  shows "(\<forall>p c. fst (handleWS verify accepts header now w) \<noteq> WsConnected p device c) \<and>
    read_frame device data now w = (False, w) \<and>
    drainInbox device c write_ok now w = close_conn c w \<and>
    (\<exists>cs. severRevoked w = w\<lparr>ws_closed := cs @ ws_closed w\<rparr> \<and>
       set cs = {c'. \<exists>d e. (d, c') \<in> set (hub_devices (ws_hub w)) \<and> active d w = Inl e} \<and>
       {c'. (device, c') \<in> set (hub_devices (ws_hub w))} \<subseteq> set cs)"
proof -
  obtain e where e: "active device w = Inl e" using revoked_not_active [OF assms] by blast
  have "fst (handleWS verify accepts header now w) \<noteq> WsConnected p device c" for p c
    using e by (auto simp: handleWS_def Let_def split: option.splits sum.splits prod.splits)
  moreover have "\<exists>cs. severRevoked w = w\<lparr>ws_closed := cs @ ws_closed w\<rparr> \<and>
       set cs = {c'. \<exists>d e. (d, c') \<in> set (hub_devices (ws_hub w)) \<and> active d w = Inl e} \<and>
       {c'. (device, c') \<in> set (hub_devices (ws_hub w))} \<subseteq> set cs"
    using severRevoked_shape [of w] e by (metis (mono_tags, lifting) mem_Collect_eq subsetI)
  ultimately show ?thesis using e by (simp add: read_frame_def drainInbox_def)
qed

definition sample_server :: "store \<Rightarrow> ws_server" where
  "sample_server s = \<lparr>ws_store = s, ws_hub = [(''bob'', [(''db'', 0)])], ws_closed = [], ws_woken = [], ws_sent = [], ws_next = 1\<rparr>"

theorem revoked_is_severed_witness:
  "\<exists>s. let w = sample_server s in
     drainInbox ''db'' 0 (\<lambda>_. True) 7 w = close_conn 0 w \<and> (\<exists>cs. severRevoked w = w\<lparr>ws_closed := cs @ ws_closed w\<rparr> \<and> 0 \<in> set cs)"
proof -
  let ?s = "sample_store\<lparr>st_db := sample_db\<lparr>devices := map (\<lambda>r. r\<lparr>d_revoked := Some 5\<rparr>) (devices sample_db)\<rparr>\<rparr>"
  have "\<forall>r \<in> set (devices (st_db (ws_store (sample_server ?s)))). d_id r = ''db'' \<longrightarrow> d_revoked r \<noteq> None"
    by (simp add: sample_server_def)
  note rev = revoked_is_severed [OF this, of "\<lambda>_ _. Inl ()" True "[]" 7 "[]" 0 "\<lambda>_. True"]
  have "(''db'', 0) \<in> set (hub_devices (ws_hub (sample_server ?s)))" by (simp add: sample_server_def hub_devices_def)
  with rev show ?thesis unfolding Let_def by (intro exI [of _ ?s]) blast
qed

section \<open>A drain pushes the inbox in order\<close>

definition delivered_to :: "string \<Rightarrow> database \<Rightarrow> string set" where
  "delivered_to device d = dl_message ` {r \<in> set (deliveries d). dl_device r = device \<and> dl_delivered r \<noteq> None}"

lemma pending_map:
  "(\<And>x. P (g x) = P x) \<Longrightarrow> concat (map (\<lambda>x. if P x then [m] else []) (map g xs)) =
     concat (map (\<lambda>x. if P x then [m] else []) xs)"
  by (simp add: o_def)

lemma markDelivered_Inr:
  "markDeliveredTx mid dev now d = Inr d' \<Longrightarrow> d' = d\<lparr>deliveries := map (\<lambda>r. if dl_message r = mid \<and> dl_device r = dev
     then r\<lparr>dl_delivered := coalesce (dl_delivered r) (unix_sec now)\<rparr> else r) (deliveries d)\<rparr>"
  by (auto simp: markDeliveredTx_def rbind_Inr_iff exec_Inr update_where_def)

lemma Inbox_mark:
  assumes "markDeliveredTx mid dev now d = Inr d'" shows "Inbox device d' = Inbox device d"
proof -
  let ?g = "\<lambda>r. if dl_message r = mid \<and> dl_device r = dev
     then r\<lparr>dl_delivered := coalesce (dl_delivered r) (unix_sec now)\<rparr> else r"
  have "concat (map (\<lambda>dl. if dl_message dl = m_id m \<and> dl_device dl = device \<and> dl_acked dl = None then [m] else []) (map ?g (deliveries d))) =
     concat (map (\<lambda>dl. if dl_message dl = m_id m \<and> dl_device dl = device \<and> dl_acked dl = None then [m] else []) (deliveries d))" for m :: message_row
    by (rule pending_map) simp
  then show ?thesis unfolding Inbox_def markDelivered_Inr [OF assms] by (simp del: map_map)
qed

lemma Inbox_has_row: "it \<in> set (Inbox device d) \<Longrightarrow>
    \<exists>r \<in> set (deliveries d). dl_message r = ii_ID it \<and> dl_device r = device"
  by (auto simp: Inbox_def split: if_splits)

lemma coalesce_Some [simp]: "coalesce x n \<noteq> None"
  by (simp add: coalesce_def split: option.split)

lemma delivered_mark:
  assumes "markDeliveredTx mid device now d = Inr d'"
    and row: "\<exists>r \<in> set (deliveries d). dl_message r = mid \<and> dl_device r = device"
  shows "delivered_to device d' = insert mid (delivered_to device d)"
proof -
  define g :: "delivery_row \<Rightarrow> delivery_row" where "g r = (if dl_message r = mid \<and> dl_device r = device
     then r\<lparr>dl_delivered := coalesce (dl_delivered r) (unix_sec now)\<rparr> else r)" for r
  have d': "deliveries d' = map g (deliveries d)"
    using markDelivered_Inr [OF assms(1)] by (simp add: g_def [abs_def])
  have g: "dl_message (g r) = dl_message r" "dl_device (g r) = dl_device r"
    "dl_delivered (g r) \<noteq> None \<longleftrightarrow> dl_delivered r \<noteq> None \<or> dl_message r = mid \<and> dl_device r = device" for r
    by (auto simp: g_def coalesce_def split: option.splits)
  have 1: "x \<in> delivered_to device d' \<longleftrightarrow>
      (\<exists>r \<in> set (deliveries d). dl_message (g r) = x \<and> dl_device (g r) = device \<and> dl_delivered (g r) \<noteq> None)" for x
    unfolding delivered_to_def d' by (simp only: set_map) blast
  have 2: "x \<in> delivered_to device d \<longleftrightarrow>
      (\<exists>r \<in> set (deliveries d). dl_message r = x \<and> dl_device r = device \<and> dl_delivered r \<noteq> None)" for x
    unfolding delivered_to_def by blast
  have 3: "dl_message r = x \<and> dl_device r = device \<and> (dl_delivered r \<noteq> None \<or> dl_message r = mid \<and> dl_device r = device) \<longleftrightarrow>
      dl_message r = x \<and> dl_device r = device \<and> dl_delivered r \<noteq> None \<or> x = mid \<and> dl_message r = mid \<and> dl_device r = device"
    for r :: delivery_row and x by (cases "dl_message r = mid") auto
  show ?thesis unfolding set_eq_iff insert_iff 1 2 unfolding g 3 bex_disj_distrib using row by auto
qed

lemma mark_store:
  assumes "relay_inv (st_db s)" "MarkDelivered (ii_ID it) device now s = (r, s')" "it \<in> set (Inbox device (st_db s))"
  shows "relay_inv (st_db s') \<and> Inbox device (st_db s') = Inbox device (st_db s) \<and>
    st_begin_ok s' = st_begin_ok s \<and> st_commit_ok s' = st_commit_ok s \<and>
    (st_begin_ok s \<and> st_commit_ok s \<longrightarrow> delivered_to device (st_db s') = insert (ii_ID it) (delivered_to device (st_db s)))"
proof -
  let ?d = "st_db s"
  have "\<exists>d'. markDeliveredTx (ii_ID it) device now ?d = Inr d'"
    using deliveries_update_schema [of ?d "\<lambda>r. dl_message r = ii_ID it \<and> dl_device r = device"
        "\<lambda>r. r\<lparr>dl_delivered := coalesce (dl_delivered r) (unix_sec now)\<rparr>"]
      Inbox_has_row [OF assms(3)] relay_inv_schema [OF assms(1)]
    by (auto simp: markDeliveredTx_def requireDelivery_iff delivery_key_def)
  then obtain d' where d': "markDeliveredTx (ii_ID it) device now ?d = Inr d'" by blast
  have u: "unit_tx (markDeliveredTx (ii_ID it) device now) ?d = Inr ((), d')" using d' by (simp only: unit_tx_Inr)
  have s': "s' = (if st_begin_ok s \<and> st_commit_ok s then s\<lparr>st_db := d'\<rparr> else s)"
    using assms(2) unfolding MarkDelivered_def writeTx_def u by (simp split: if_splits)
  have "relay_inv d'" by (rule markDeliveredTx_inv [OF assms(1) d'])
  moreover have "Inbox device d' = Inbox device ?d" by (rule Inbox_mark [OF d'])
  moreover have "delivered_to device d' = insert (ii_ID it) (delivered_to device ?d)"
    by (rule delivered_mark [OF d' Inbox_has_row [OF assms(3)]])
  ultimately show ?thesis using assms(1) unfolding s' by simp
qed

lemma push_all_spec:
  assumes "relay_inv (st_db (ws_store w))" "set its \<subseteq> set (Inbox device (st_db (ws_store w)))"
  shows "\<exists>k \<le> length its. let w' = push_all device c write_ok now n its w in
    (\<forall>j < k. frame_marshals (message_frame (its ! j)) \<and> write_ok (n + j)) \<and>
    (k < length its \<longrightarrow> \<not> (frame_marshals (message_frame (its ! k)) \<and> write_ok (n + k))) \<and>
    ws_sent w' = ws_sent w @ map (\<lambda>it. (c, message_frame it)) (take k its) \<and>
    ws_closed w' = (if k < length its then c # ws_closed w else ws_closed w) \<and>
    ws_hub w' = ws_hub w \<and> ws_woken w' = ws_woken w \<and> relay_inv (st_db (ws_store w')) \<and>
    Inbox device (st_db (ws_store w')) = Inbox device (st_db (ws_store w)) \<and>
    (st_begin_ok (ws_store w) \<and> st_commit_ok (ws_store w) \<longrightarrow>
       delivered_to device (st_db (ws_store w')) =
         ii_ID ` set (take k its) \<union> delivered_to device (st_db (ws_store w)))"
  using assms
proof (induction its arbitrary: n w)
  case Nil
  then show ?case by simp
next
  case (Cons it its)
  show ?case
  proof (cases "frame_marshals (message_frame it) \<and> write_ok n")
    case False
    then have "push_all device c write_ok now n (it # its) w = close_conn c w" by auto
    then show ?thesis using Cons.prems False
      by (intro exI [of _ 0]) (simp del: push_all.simps add: close_conn_def Let_def)
  next
    case True
    obtain r s' where m: "MarkDelivered (ii_ID it) device now (ws_store w) = (r, s')" by (cases "MarkDelivered (ii_ID it) device now (ws_store w)")
    let ?w1 = "w\<lparr>ws_sent := ws_sent w @ [(c, message_frame it)], ws_store := s'\<rparr>"
    note s' = mark_store [OF Cons.prems(1) m]
    have in': "it \<in> set (Inbox device (st_db (ws_store w)))" using Cons.prems(2) by simp
    have "relay_inv (st_db (ws_store ?w1))" "set its \<subseteq> set (Inbox device (st_db (ws_store ?w1)))"
      using s' [OF in'] Cons.prems(2) by simp_all
    from Cons.IH [OF this, of "Suc n"] obtain k where k: "k \<le> length its" and
      ih: "let w' = push_all device c write_ok now (Suc n) its ?w1 in
    (\<forall>j < k. frame_marshals (message_frame (its ! j)) \<and> write_ok (Suc n + j)) \<and>
    (k < length its \<longrightarrow> \<not> (frame_marshals (message_frame (its ! k)) \<and> write_ok (Suc n + k))) \<and>
    ws_sent w' = ws_sent ?w1 @ map (\<lambda>it. (c, message_frame it)) (take k its) \<and>
    ws_closed w' = (if k < length its then c # ws_closed ?w1 else ws_closed ?w1) \<and>
    ws_hub w' = ws_hub ?w1 \<and> ws_woken w' = ws_woken ?w1 \<and> relay_inv (st_db (ws_store w')) \<and>
    Inbox device (st_db (ws_store w')) = Inbox device (st_db (ws_store ?w1)) \<and>
    (st_begin_ok (ws_store ?w1) \<and> st_commit_ok (ws_store ?w1) \<longrightarrow>
       delivered_to device (st_db (ws_store w')) =
         ii_ID ` set (take k its) \<union> delivered_to device (st_db (ws_store ?w1)))" by blast
    have step: "push_all device c write_ok now n (it # its) w = push_all device c write_ok now (Suc n) its ?w1"
      using True m by simp
    have all: "(\<forall>j < Suc k. P j) \<longleftrightarrow> P 0 \<and> (\<forall>j < k. P (Suc j))" for P :: "nat \<Rightarrow> bool" by (auto simp: less_Suc_eq_0_disj)
    show ?thesis
      using k ih True s' [OF in'] unfolding Let_def step
      by (intro exI [of _ "Suc k"]) (simp only: all, simp)
  qed
qed

text \<open>
  Functional, at-least-once delivery. A drain for an active device writes a prefix of its
  inbox to the socket, in the inbox's order: everything when all writes succeed, otherwise up to
  the first frame that cannot be written, and then the socket is closed. It records exactly the
  written messages as delivered, keeps the database invariant, and leaves the inbox as it was: only
  an acknowledgement removes a message, so the next drain sends it again.
\<close>

theorem drain_pushes:
  assumes "relay_inv (st_db (ws_store w))" "active device w = Inr dev"
  shows "let items = Inbox device (st_db (ws_store w)); w' = drainInbox device c write_ok now w in
    \<exists>k \<le> length items.
      (\<forall>j < k. frame_marshals (message_frame (items ! j)) \<and> write_ok j) \<and>
      (k < length items \<longrightarrow> \<not> (frame_marshals (message_frame (items ! k)) \<and> write_ok k)) \<and>
      ws_sent w' = ws_sent w @ map (\<lambda>it. (c, message_frame it)) (take k items) \<and>
      ws_closed w' = (if k < length items then c # ws_closed w else ws_closed w) \<and>
      ws_hub w' = ws_hub w \<and> relay_inv (st_db (ws_store w')) \<and>
      Inbox device (st_db (ws_store w')) = items \<and>
      (st_commit_ok (ws_store w) \<longrightarrow>
         delivered_to device (st_db (ws_store w')) =
           ii_ID ` set (take k items) \<union> delivered_to device (st_db (ws_store w)))"
proof -
  have "st_begin_ok (ws_store w)" using assms(2) by (simp add: active_iff)
  then show ?thesis
    using assms(2) push_all_spec [OF assms(1) subset_refl, of device c write_ok now 0]
    unfolding drainInbox_def reads_def Let_def by (simp only: sum.case if_True add_0 simp_thms) blast
qed

theorem drain_pushes_witness:
  "let w' = drainInbox ''db'' 0 (\<lambda>_. True) 7 (sample_server sample_store) in
     ws_closed w' = [] \<and> map (wf_ID \<circ> snd) (ws_sent w') = [''m1''] \<and>
     map ii_ID (Inbox ''db'' (st_db (ws_store w'))) = [''m1'']"
proof -
  have "\<exists>dev. active ''db'' (sample_server sample_store) = Inr dev"
    by (simp add: active_iff sample_server_def ActiveDeviceByID_def) (simp add: sample_store_def sample_simps sql_simps)
  then obtain dev where act: "active ''db'' (sample_server sample_store) = Inr dev" by blast
  have box: "Inbox ''db'' sample_db = [\<lparr>ii_ID = ''m1'', ii_ThreadID = ''th'', ii_SenderID = ''alice'',
      ii_Envelope = ''{}'', ii_ReceivedAt = from_unix 100\<rparr>]" (is "_ = [?it]")
    by (simp add: Inbox_def sample_simps)
  have "parse_document ''{}'' \<noteq> None" by code_simp
  then have m: "frame_marshals (message_frame ?it)" by (simp add: frame_marshals_def message_frame_def)
  show ?thesis
    using drain_pushes [OF _ act, where write_ok = "\<lambda>_. True" and c = 0 and now = 7] box m
    by (auto simp: Let_def sample_server_def message_frame_def take_Cons' split: if_splits)
qed

end
