(* ===== verification/Server.thy ===== *)
theory Server
  imports Config Migrate OAuthFlow Hub Mcp StoreRetention
begin

text \<open>
  The HTTP server and the command line: \<open>internal/relay/server.go\<close>, \<open>enroll.go\<close>
  and \<open>cmd/askrelay/main.go\<close>. A request is its method, path, headers and body; a handler is
  modelled by what it answers and the store it leaves. The mux of the standard library is
  \<open>NewServer\<close> over the list \<open>routes\<close>; the bearer middleware and the protocol layer of the MCP endpoint belong to a
  third-party package and are parameters.
\<close>

section \<open>Enrollment\<close>

definition maxEnrollBody :: nat where "maxEnrollBody = 4 * 1024"

record enroll_request =
  eq_PubKey :: string
  eq_Label :: string

record enroll_response =
  er_PersonID :: string
  er_DeviceID :: string
  er_BaseURL :: string
  er_DeviceCredential :: string

datatype enroll_reply = EnrollRefused nat string | Enrolled enroll_response

definition dec_enroll_field :: "string \<Rightarrow> jtext json \<Rightarrow> enroll_request \<Rightarrow> enroll_request option" where
  "dec_enroll_field n v r =
     (if n = ''pubkey'' then map_option (\<lambda>s. r\<lparr>eq_PubKey := s\<rparr>) (dec_string v (eq_PubKey r))
      else if n = ''label'' then map_option (\<lambda>s. r\<lparr>eq_Label := s\<rparr>) (dec_string v (eq_Label r))
      else Some r)"

text \<open>
  The stream decoder over the limited reader: the first value of the first 4096 bytes, whatever
  follows it.
\<close>

definition decode_enroll :: "string \<Rightarrow> enroll_request option" where
  "decode_enroll body =
     (let s = runes (take maxEnrollBody body)
      in case parse_value (2 * length s + 2) maxNestingDepth s of
           None \<Rightarrow> None
         | Some (v, _) \<Rightarrow> dec_struct dec_enroll_field [''pubkey'', ''label''] v \<lparr>eq_PubKey = [], eq_Label = []\<rparr>)"

definition handleEnroll :: "as_server \<Rightarrow> string \<Rightarrow> string \<Rightarrow> string \<Rightarrow> string \<Rightarrow> instant \<Rightarrow> instant \<Rightarrow> store \<Rightarrow> enroll_reply \<times> store" where
  "handleEnroll sv person_id device_id token body now minted s =
     (case decode_enroll body of
        None \<Rightarrow> (EnrollRefused 400 ''invalid request body'', s)
      | Some req \<Rightarrow>
        (case StdEncoding_Decode (eq_PubKey req) of
           None \<Rightarrow> (EnrollRefused 400 ''invalid pubkey'', s)
         | Some pub \<Rightarrow>
             if length pub \<noteq> PublicKeySize then (EnrollRefused 400 ''invalid pubkey'', s)
             else (case Enroll person_id device_id token pub (eq_Label req) now s of
                     (Inl e, s') \<Rightarrow>
                       if e = ErrInviteInvalid then (EnrollRefused 403 ''invalid or expired invite'', s')
                       else if e = ErrKeyInUse then (EnrollRefused 409 ''device key already registered'', s')
                       else (EnrollRefused 500 ''enrollment failed'', s')
                   | (Inr (p, dev), s') \<Rightarrow>
                       (case MintDeviceCredential (as_jwt sv) (as_issuer sv) (pe_ID p) (de_ID dev) minted of
                          Inl _ \<Rightarrow> (EnrollRefused 500 ''enrollment failed'', s')
                        | Inr cred \<Rightarrow> (Enrolled \<lparr>er_PersonID = pe_ID p, er_DeviceID = de_ID dev, er_BaseURL = as_base sv,
                            er_DeviceCredential = cred\<rparr>, s')))))"

section \<open>Retention\<close>

text \<open>One pass: an error of a sweep is logged and the next one runs; a failed sweep counts as 0.\<close>

definition count_of :: "'e + nat \<Rightarrow> nat" where
  "count_of r = (case r of Inl _ \<Rightarrow> 0 | Inr n \<Rightarrow> n)"

definition sweepOnce :: "config \<Rightarrow> instant \<Rightarrow> store \<Rightarrow> (nat \<times> nat \<times> nat \<times> nat) \<times> store" where
  "sweepOnce cfg now s =
     (let pol = \<lparr>AckGrace = c_AckGrace cfg, HardTTL = c_HardTTL cfg\<rparr>;
          fresh = \<lparr>MaxAge = c_MaxAge cfg, MaxSkew = c_MaxSkew cfg\<rparr>;
          (msgs, s1) = SweepMessages pol now s;
          (dfts, s2) = SweepDrafts pol now s1;
          (tombs, s3) = PruneTombstones fresh now s2;
          (rows, s4) = SweepOAuth now s3
      in ((count_of msgs, count_of dfts, count_of tombs, count_of rows), s4))"

section \<open>Writing responses\<close>

text \<open>
  What a handler does to the response writer, in order, and whether it ends in a panic. The writer
  sends the first status; a body without one sends 200. The recorder of the access log keeps the
  last status.
\<close>

datatype act = WriteHeader nat | WriteBody string

type_synonym handling = "act list \<times> bool"

definition writeJSON :: "nat \<Rightarrow> string \<Rightarrow> act list" where
  "writeJSON code body = [WriteHeader code, WriteBody body]"

definition httpError :: "nat \<Rightarrow> string \<Rightarrow> act list" where
  "httpError code msg = writeJSON code (''{'' @ [CHR 0x22] @ ''error'' @ [CHR 0x22] @ '':'' @ [CHR 0x22] @ msg @ [CHR 0x22] @ ''}'')"

definition recoverPanic :: "handling \<Rightarrow> handling" where
  "recoverPanic h = (if snd h then (fst h @ httpError 500 ''internal server error'', False) else h)"

fun sent_status :: "act list \<Rightarrow> nat" where
  "sent_status [] = 200"
| "sent_status (WriteHeader code # _) = code"
| "sent_status (WriteBody _ # _) = 200"

definition recorded_status :: "act list \<Rightarrow> nat" where
  "recorded_status acts = foldl (\<lambda>status a. case a of WriteHeader code \<Rightarrow> code | WriteBody _ \<Rightarrow> status) 200 acts"

text \<open>The log line: method, path and status; the body is not an argument of it.\<close>

definition logRequests :: "string \<Rightarrow> string \<Rightarrow> handling \<Rightarrow> (string \<times> string \<times> nat) option" where
  "logRequests meth path h = (if snd h then None else Some (meth, path, recorded_status (fst h)))"

section \<open>Routes\<close>

datatype endpoint =
    Healthz | EnrollAt string | PRM | ASMetadata | JWKS | AuthorizeForm | AuthorizeSubmit | TokenAt | RegisterAt | McpAt | WsAt
  | NotFound | MethodNotAllowed | MovedTo string

text \<open>The path as the mux compares it: cleaned, with a trailing slash kept.\<close>

definition clean_path :: "string \<Rightarrow> string" where
  "clean_path p =
     (let q = (if p = [] \<or> hd p \<noteq> CHR ''/'' then ''/'' @ p else p); np = Clean q
      in if last q = CHR ''/'' \<and> np \<noteq> ''/'' then np @ ''/'' else np)"

definition path_value :: "string \<Rightarrow> string" where
  "path_value seg = (case Url.unescape ModePath seg of Some v \<Rightarrow> v | None \<Rightarrow> seg)"

text \<open>
  The mux cuts the escaped path at the slashes and unescapes each segment before it compares; a final
  slash is a segment of its own.
\<close>

function segments :: "string \<Rightarrow> string list" where
  "segments p =
     (if p = [] then [] else if p = ''/'' then [''/'']
      else path_value (takeWhile (\<lambda>c. c \<noteq> CHR ''/'') (tl p)) # segments (dropWhile (\<lambda>c. c \<noteq> CHR ''/'') (tl p)))"
  by pat_completeness auto
termination
proof (relation "measure length", simp)
  fix p :: string
  assume "p \<noteq> []"
  then show "(dropWhile (\<lambda>c. c \<noteq> CHR ''/'') (tl p), p) \<in> measure length"
    using length_dropWhile_le [of "\<lambda>c. c \<noteq> CHR ''/''" "tl p"] by (cases p) auto
qed

declare segments.simps [simp del]

datatype segment_pattern = Lit string | Wild

text \<open>A wildcard takes one segment, not the final slash; its value is what \<open>PathValue\<close> returns.\<close>

fun match_segments :: "segment_pattern list \<Rightarrow> string list \<Rightarrow> string option" where
  "match_segments [] [] = Some []"
| "match_segments (Lit l # ps) (s # ss) = (if s = l then match_segments ps ss else None)"
| "match_segments (Wild # ps) (s # ss) = (if s = ''/'' then None else map_option (\<lambda>_. s) (match_segments ps ss))"
| "match_segments _ _ = None"

definition literal :: "string \<Rightarrow> segment_pattern list" where
  "literal p = map Lit (segments p)"

text \<open>The routes of \<open>NewServer\<close>, in its order. No two patterns of one method match the same path.\<close>

definition routes :: "(string \<times> segment_pattern list \<times> (string \<Rightarrow> endpoint)) list" where
  "routes =
     [(''GET'', literal ''/healthz'', \<lambda>_. Healthz),
      (''POST'', [Lit ''enroll'', Wild], EnrollAt),
      (''GET'', literal PRMPath, \<lambda>_. PRM),
      (''GET'', literal AuthServerMetaPath, \<lambda>_. ASMetadata),
      (''GET'', literal JWKSPath, \<lambda>_. JWKS),
      (''GET'', literal AuthorizePath, \<lambda>_. AuthorizeForm),
      (''POST'', literal AuthorizePath, \<lambda>_. AuthorizeSubmit),
      (''POST'', literal TokenPath, \<lambda>_. TokenAt),
      (''POST'', literal RegisterPath, \<lambda>_. RegisterAt),
      (''POST'', literal ''/mcp'', \<lambda>_. McpAt),
      (''GET'', literal ''/ws'', \<lambda>_. WsAt)]"

definition endpoints :: "string \<Rightarrow> (string \<times> endpoint) list" where
  "endpoints path = concat (map (\<lambda>(meth, pat, e).
     case match_segments pat (segments path) of None \<Rightarrow> [] | Some v \<Rightarrow> [(meth, e v)]) routes)"

text \<open>
  The answer of the mux to a method and an escaped path: a path that is not clean is redirected, except
  for \<open>CONNECT\<close>; \<open>GET\<close> also serves \<open>HEAD\<close>; a path served for other methods only is 405.
\<close>

definition NewServer :: "string \<Rightarrow> string \<Rightarrow> endpoint" where
  "NewServer meth path =
     (if meth \<noteq> ''CONNECT'' \<and> clean_path path \<noteq> path then MovedTo (clean_path path)
      else let es = endpoints path
           in case map_of es (if meth = ''HEAD'' then ''GET'' else meth) of
                Some e \<Rightarrow> e
              | None \<Rightarrow> if es = [] then NotFound else MethodNotAllowed)"

section \<open>Published documents and the login page\<close>

definition handleASMetadata :: "as_server \<Rightarrow> as_meta" where
  "handleASMetadata sv = AuthServerMetadata (as_base sv)"

definition handleJWKS :: "as_server \<Rightarrow> jwk list" where
  "handleJWKS sv = [PublicJWK (as_issuer sv)]"

record resource_meta =
  rm_Resource :: string
  rm_AuthorizationServers :: "string list"
  rm_BearerMethods :: "string list"

definition ProtectedResourceMetadata :: "string \<Rightarrow> resource_meta" where
  "ProtectedResourceMetadata baseURL =
     \<lparr>rm_Resource = baseURL, rm_AuthorizationServers = [baseURL], rm_BearerMethods = [''header'']\<rparr>"

definition handleHealthz :: "string \<Rightarrow> nat \<times> (string \<times> string) list" where
  "handleHealthz version = (200, [(''status'', ''ok''), (''version'', version)])"

text \<open>The headers and the data the template of the login page is executed with; escaping is the template's.\<close>

record login_data =
  ld_AppHost :: string
  ld_ErrMsg :: string
  ld_P :: authz_params
  ld_AuthorizePath :: string

definition login_headers :: "(string \<times> string) list" where
  "login_headers =
     [(''Content-Security-Policy'', ''default-src '' @ [CHR 0x27] @ ''none'' @ [CHR 0x27] @ ''; style-src '' @ [CHR 0x27] @ ''unsafe-inline'' @ [CHR 0x27] @
         ''; form-action '' @ [CHR 0x27] @ ''self'' @ [CHR 0x27] @ ''; base-uri '' @ [CHR 0x27] @ ''none'' @ [CHR 0x27]),
      (''X-Content-Type-Options'', ''nosniff''), (''Cache-Control'', ''no-store''), (''Content-Type'', ''text/html; charset=utf-8'')]"

definition renderLogin :: "(string \<Rightarrow> bool) \<Rightarrow> authz_params \<Rightarrow> string \<Rightarrow> (string \<times> string) list \<times> login_data" where
  "renderLogin ip6 p errMsg =
     (login_headers,
      \<lparr>ld_AppHost = (case Parse ip6 (ap_RedirectURI p) of Some u \<Rightarrow> u_Host u | None \<Rightarrow> ap_RedirectURI p),
       ld_ErrMsg = errMsg, ld_P = p, ld_AuthorizePath = AuthorizePath\<rparr>)"

section \<open>The MCP endpoint\<close>

definition maxMCPBody :: nat where "maxMCPBody = 128 * 1024"

text \<open>The reader of the wrapped body fails past the limit.\<close>

definition maxBytes :: "nat \<Rightarrow> string \<Rightarrow> string option" where
  "maxBytes n body = (if length body \<le> n then Some body else None)"

text \<open>
  \<open>RequireBearerToken\<close> of the SDK: given the verifier, the header and the time, the token info it
  puts into the context, if it lets the request through. What the code relies on: the info comes
  from the verifier.
\<close>

type_synonym bearer = "(string \<Rightarrow> instant \<Rightarrow> token_error + token_info) \<Rightarrow> string \<Rightarrow> instant \<Rightarrow> token_info option"

definition bearer_documented :: "bearer \<Rightarrow> bool" where
  "bearer_documented rb \<longleftrightarrow> (\<forall>vf header now info. rb vf header now = Some info \<longrightarrow> (\<exists>tok. vf tok now = Inr info))"

text \<open>
  The token is the one of the header: two fields, the first one \<open>bearer\<close> in any case.
  \<open>strings.Fields\<close> splits at the runes with Unicode's white-space property.
\<close>

definition space_rune :: "nat \<Rightarrow> bool" where
  "space_rune r \<longleftrightarrow> 9 \<le> r \<and> r \<le> 13 \<or> 8192 \<le> r \<and> r \<le> 8202 \<or> r \<in> {32, 133, 160, 5760, 8232, 8233, 8239, 8287, 12288}"

function chunk_fields :: "chunk list \<Rightarrow> string list" where
  "chunk_fields [] = []"
| "chunk_fields (c # cs) =
     (if space_rune (snd c) then chunk_fields cs
      else bytes_of (takeWhile (\<lambda>c. \<not> space_rune (snd c)) (c # cs)) # chunk_fields (dropWhile (\<lambda>c. \<not> space_rune (snd c)) cs))"
  by pat_completeness auto
termination by (relation "measure length") (auto simp: le_imp_less_Suc length_dropWhile_le)

definition Fields :: "string \<Rightarrow> string list" where
  "Fields s = chunk_fields (chunks s)"

definition carries :: "string \<Rightarrow> string \<Rightarrow> bool" where
  "carries header tok \<longleftrightarrow>
     (case Fields header of [sch, t] \<Rightarrow> t = tok \<and> map lower_byte sch = ''bearer'' | _ \<Rightarrow> False)"

definition bearer_from_header :: "bearer \<Rightarrow> bool" where
  "bearer_from_header rb \<longleftrightarrow>
     (\<forall>vf header now info. rb vf header now = Some info \<longrightarrow> (\<exists>tok. carries header tok \<and> vf tok now = Inr info))"

datatype mcp_answer = McpUnauthorized | McpBadRequest | McpNoServer | McpResult "tool_error + tool_output"

definition serveMCP :: "bearer \<Rightarrow> (string \<Rightarrow> tool_call option) \<Rightarrow> as_server \<Rightarrow> (string \<Rightarrow> bool) \<Rightarrow> (nat \<Rightarrow> bool) \<Rightarrow> (nat \<Rightarrow> string) \<Rightarrow>
    string \<Rightarrow> string \<Rightarrow> instant \<Rightarrow> handler \<Rightarrow> mcp_answer \<times> handler" where
  "serveMCP rb decode_call sv uuid_ok pr rnd header body now h =
     (case rb (verifier (as_jwt sv) (as_issuer sv)) header now of
        None \<Rightarrow> (McpUnauthorized, h)
      | Some info \<Rightarrow>
        (case Option.bind (maxBytes maxMCPBody body) decode_call of
           None \<Rightarrow> (McpBadRequest, h)
         | Some call \<Rightarrow>
             (case getServer uuid_ok pr rnd (PersonFromContext (Some info)) call now h of
                (None, h') \<Rightarrow> (McpNoServer, h')
              | (Some r, h') \<Rightarrow> (McpResult r, h'))))"

section \<open>The command line\<close>

record invite_opts =
  io_db :: string
  io_base :: string
  io_ttl :: duration

datatype invite_error = InviteFlag flag_error | InviteUsage | NoBaseURL | OpenFailed | InviteStore store_error

definition invite_flags :: "invite_opts flags" where
  "invite_flags = map_of
     [(''db'', \<lambda>v c. Some (c\<lparr>io_db := v\<rparr>)), (''base-url'', \<lambda>v c. Some (c\<lparr>io_base := v\<rparr>)),
      (''ttl'', \<lambda>v c. map_option (\<lambda>d. c\<lparr>io_ttl := d\<rparr>) (ParseDuration v))]"

text \<open>The leading address, if the first argument is not a flag.\<close>

definition peel_email :: "string list \<Rightarrow> string \<times> string list" where
  "peel_email args =
     (case args of a # rest \<Rightarrow> if has_prefix ''-'' a then ([], args) else (a, rest) | [] \<Rightarrow> ([], []))"

definition invite_link :: "string \<Rightarrow> string \<Rightarrow> string" where
  "invite_link base token = TrimRight (CHR ''/'') base @ ''/enroll/'' @ token"

definition cmdInvite :: "(string \<Rightarrow> string) \<Rightarrow> (string \<Rightarrow> bool) \<Rightarrow> string list \<Rightarrow> string \<Rightarrow> instant \<Rightarrow> store \<Rightarrow> (invite_error + string) \<times> store" where
  "cmdInvite getenv opens args raw now s =
     (let (lead, rest) = peel_email args
      in case parse_flags invite_flags rest
                \<lparr>io_db = envOr getenv ''ASKRELAY_DB'' ''askrelay.db'', io_base = getenv ''ASKRELAY_BASE_URL'',
                 io_ttl = envDur getenv ''ASKRELAY_INVITE_TTL'' (24 * hour)\<rparr> of
           Inl e \<Rightarrow> (Inl (InviteFlag e), s)
         | Inr (opts, pos) \<Rightarrow>
             if (if lead = [] then length pos \<noteq> 1 else pos \<noteq> []) then (Inl InviteUsage, s)
             else let email = (if lead = [] then hd pos else lead)
                  in if io_base opts = [] then (Inl NoBaseURL, s)
                     else if \<not> opens (io_db opts) then (Inl OpenFailed, s)
                     else (case CreateInvite raw email (io_ttl opts) now s of
                             (Inl e, s') \<Rightarrow> (Inl (InviteStore e), s')
                           | (Inr token, s') \<Rightarrow> (Inr (invite_link (io_base opts) token @ [CHR 0x0A]), s')))"

text \<open>
  The dispatch of \<open>main\<close>: the exit code, given whether each command fails. Usage goes to
  standard error.
\<close>

definition main_exit :: "(string list \<Rightarrow> bool) \<Rightarrow> (string list \<Rightarrow> bool) \<Rightarrow> string list \<Rightarrow> nat" where
  "main_exit serve_fails invite_fails argv =
     (case argv of
        _ # verb # args \<Rightarrow>
          if verb = ''serve'' then (if serve_fails args then 1 else 0)
          else if verb = ''invite'' then (if invite_fails args then 1 else 0)
          else if verb \<in> {''version'', ''help'', ''-h'', ''--help''} then 0
          else 2
      | _ \<Rightarrow> 2)"

text \<open>\<open>cmdServe\<close> up to the run: configuration, database, signing key.\<close>

datatype serve_error = ServeConfig config_error | ServeOpen | ServeKey key_error

definition cmdServe :: "(string \<Rightarrow> bool) \<Rightarrow> (string \<Rightarrow> string) \<Rightarrow> (string \<Rightarrow> bool) \<Rightarrow> (string \<Rightarrow> string) \<Rightarrow> (string \<Rightarrow> string) \<Rightarrow> key_env \<Rightarrow>
    string list \<Rightarrow> (string \<Rightarrow> string option) \<Rightarrow> (serve_error + config \<times> issuer) \<times> (string \<Rightarrow> string option)" where
  "cmdServe ip6 getenv opens NewKeyFromSeed public env args files =
     (case LoadConfig ip6 getenv args of
        Inl e \<Rightarrow> (Inl (ServeConfig e), files)
      | Inr cfg \<Rightarrow>
          if \<not> opens (c_DBPath cfg) then (Inl ServeOpen, files)
          else (case NewIssuer NewKeyFromSeed public env (c_BaseURL cfg) hour (files (c_SigningKeyPath cfg)) of
                  (Inl e, f) \<Rightarrow> (Inl (ServeKey e), files(c_SigningKeyPath cfg := f))
                | (Inr iss, f) \<Rightarrow> (Inr (cfg, iss), files(c_SigningKeyPath cfg := f))))"

end
