(* ===== verification/OAuthFacts.thy ===== *)
theory OAuthFacts
  imports OAuthFlow
begin

text \<open>
  What the authorization server guarantees: a redirect goes only to a URI bound to the client that
  asked, a code is bound to the request and to a live device, a code is exchanged only by who holds
  the verifier and a failed attempt does not use it up, no token is issued for a device that is not
  active, and the whole flow from the login page to a verifying access token works.
\<close>

section \<open>Redirects\<close>

definition trusted_redirect :: "as_server \<Rightarrow> store \<Rightarrow> string \<Rightarrow> string \<Rightarrow> bool" where
  "trusted_redirect sv s clientID uri \<longleftrightarrow> (\<exists>ru. Parse (as_ip6 sv) uri = Some ru \<and> u_Scheme ru \<noteq> [] \<and>
     ((\<exists>cu. Parse (as_ip6 sv) clientID = Some cu \<and> u_Host cu \<noteq> [] \<and> u_Scheme cu = ''https'' \<and>
         u_Scheme ru = ''https'' \<and> u_Host ru = u_Host cu) \<or>
      (\<exists>c. ClientByID clientID (st_db s) = Inr c \<and> uri \<in> set (cl_RedirectURIs c))))"

lemma resolveClient_trusted:
  assumes "resolveClient (as_ip6 sv) clientID uri s = Inr (Some ct)"
  shows "trusted_redirect sv s clientID uri"
proof -
  obtain ru where ru: "Parse (as_ip6 sv) uri = Some ru" "IsAbs ru"
    using assms by (auto simp: resolveClient_def split: option.splits if_splits)
  let ?cimd = "case Parse (as_ip6 sv) clientID of
      Some cu \<Rightarrow> if u_Scheme cu = ''https'' \<and> u_Host cu \<noteq> [] then Some cu else None | None \<Rightarrow> None"
  show ?thesis
  proof (cases ?cimd)
    case None
    then obtain c where "reads (ClientByID clientID) s = Inr c" "uri \<in> set (cl_RedirectURIs c)"
      using assms ru unfolding resolveClient_def Let_def by (auto split: sum.splits if_splits)
    then show ?thesis using ru by (auto simp: trusted_redirect_def IsAbs_def reads_def split: if_splits)
  next
    case (Some cu)
    then have "Parse (as_ip6 sv) clientID = Some cu" "u_Scheme cu = ''https''" "u_Host cu \<noteq> []"
      by (auto split: option.splits if_splits)
    moreover have "u_Scheme ru = u_Scheme cu \<and> u_Host ru = u_Host cu"
      using assms ru Some unfolding resolveClient_def Let_def by (auto split: if_splits)
    ultimately show ?thesis using ru by (auto simp: trusted_redirect_def)
  qed
qed

text \<open>The parse result: an inline refusal, a refusal to a trusted URI, or validated parameters.\<close>

lemma parseAuthz_cases:
  obtains (inline) st msg where "parseAuthz sv v s = Inl (inline_reject st msg)"
  | (bounce) err desc where "parseAuthz sv v s = Inl (redirect_reject (v ''redirect_uri'') err desc)" "v ''redirect_uri'' \<noteq> []"
      "trusted_redirect sv s (v ''client_id'') (v ''redirect_uri'')"
  | (ok) p where "parseAuthz sv v s = Inr p" "trusted_redirect sv s (v ''client_id'') (v ''redirect_uri'')"
      "ap_RedirectURI p = v ''redirect_uri''" "ap_ClientID p = v ''client_id''" "ap_CodeChallenge p = v ''code_challenge''"
      "ap_Resource p = v ''resource''" "ap_State p = v ''state''" "v ''response_type'' = ''code''"
      "v ''code_challenge'' \<noteq> []" "v ''code_challenge_method'' = ''S256''" "v ''resource'' = [] \<or> v ''resource'' = as_base sv"
      "v ''client_id'' \<noteq> []" "v ''redirect_uri'' \<noteq> []"
      "resolveClient (as_ip6 sv) (v ''client_id'') (v ''redirect_uri'') s = Inr (Some (ap_ClientType p))"
proof (cases "v ''client_id'' = [] \<or> v ''redirect_uri'' = []")
  case True
  then show ?thesis using inline by (simp add: parseAuthz_def)
next
  case False
  show ?thesis
  proof (cases "resolveClient (as_ip6 sv) (v ''client_id'') (v ''redirect_uri'') s")
    case (Inl e)
    then show ?thesis using inline False by (simp add: parseAuthz_def Let_def)
  next
    case (Inr r)
    show ?thesis
    proof (cases r)
      case None
      then show ?thesis using inline False Inr by (simp add: parseAuthz_def Let_def)
    next
      case (Some ct)
      then have t: "trusted_redirect sv s (v ''client_id'') (v ''redirect_uri'')" using Inr resolveClient_trusted by blast
      consider "v ''response_type'' \<noteq> ''code''" | "v ''response_type'' = ''code''" "v ''code_challenge'' = [] \<or> v ''code_challenge_method'' \<noteq> ''S256''"
        | "v ''response_type'' = ''code''" "v ''code_challenge'' \<noteq> []" "v ''code_challenge_method'' = ''S256''"
          "v ''resource'' \<noteq> [] \<and> v ''resource'' \<noteq> as_base sv"
        | "v ''response_type'' = ''code''" "v ''code_challenge'' \<noteq> []" "v ''code_challenge_method'' = ''S256''"
          "v ''resource'' = [] \<or> v ''resource'' = as_base sv" by blast
      then show ?thesis
      proof cases
        case 1
        then show ?thesis using bounce False Inr Some t by (simp add: parseAuthz_def Let_def)
      next
        case 2
        then show ?thesis using bounce False Inr Some t by (simp add: parseAuthz_def Let_def)
      next
        case 3
        then show ?thesis using bounce False Inr Some t by (simp add: parseAuthz_def Let_def)
      next
        case 4
        then show ?thesis using ok [OF _ t] False Inr Some by (auto simp: parseAuthz_def Let_def)
      qed
    qed
  qed
qed

lemma rejectAuthz_cases:
  "rejectAuthz sv (inline_reject st msg) state = HttpError st msg"
  "uri \<noteq> [] \<Longrightarrow> rejectAuthz sv (redirect_reject uri err desc) state = RedirectTo uri' kvs \<Longrightarrow>
     uri' = uri \<and> map_of kvs ''code'' = None"
  by (auto simp: rejectAuthz_def inline_reject_def redirect_reject_def split: option.splits)

lemma CreateAuthCode_fails: "CreateAuthCode code b exp now s = (Inl e, s') \<Longrightarrow> s' = s"
  by (auto simp: CreateAuthCode_def writeTx_def split: if_splits sum.splits)

text \<open>
  C15: safety of the authorization endpoint. Whatever is asked, a reply that redirects goes to the
  redirect URI of the request, and only if that URI is trusted: listed by the registered client, or
  of the same https origin as a client id that is a URL. Otherwise the error is shown in place. The
  page never carries a code, and a submission changes the store only when it redirects with one.
\<close>

theorem authorize_redirects:
  "(case handleAuthorize sv v s of
      RedirectTo uri kvs \<Rightarrow> uri = v ''redirect_uri'' \<and> trusted_redirect sv s (v ''client_id'') uri \<and> map_of kvs ''code'' = None
    | _ \<Rightarrow> True) \<and>
   (case handleAuthorizeSubmit sv (Some v) now random s of
      (RedirectTo uri kvs, s') \<Rightarrow> uri = v ''redirect_uri'' \<and> trusted_redirect sv s (v ''client_id'') uri \<and>
        (s' = s \<or> (\<exists>code. map_of kvs ''code'' = Some code))
    | (_, s') \<Rightarrow> s' = s)"
proof (cases rule: parseAuthz_cases [of sv v s])
  case (inline st msg)
  then show ?thesis by (simp add: handleAuthorize_def handleAuthorizeSubmit_def rejectAuthz_cases)
next
  case (bounce err desc)
  then show ?thesis
    using rejectAuthz_cases(2) [OF bounce(2), of sv err desc]
    by (auto simp: handleAuthorize_def handleAuthorizeSubmit_def split: reply.splits)
next
  case (ok p)
  then show ?thesis
    by (auto simp: handleAuthorize_def handleAuthorizeSubmit_def dest: CreateAuthCode_fails split: sum.splits option.splits prod.splits)
qed

lemma granted:
  assumes "handleAuthorizeSubmit sv (Some v) now random s = (RedirectTo uri kvs, s')" "map_of kvs ''code'' = Some code"
  shows "\<exists>person device dev ct.
    VerifyDeviceCredential (as_jwt sv) (as_issuer sv) (v ''credential'') now = Inr (person, device) \<and>
    ActiveDeviceByID device (st_db s) = Inr dev \<and> uri = v ''redirect_uri'' \<and>
    v ''response_type'' = ''code'' \<and> v ''code_challenge'' \<noteq> [] \<and> v ''code_challenge_method'' = ''S256'' \<and>
    (v ''resource'' = [] \<or> v ''resource'' = as_base sv) \<and> Some code = newOpaqueToken random \<and>
    v ''client_id'' \<noteq> [] \<and> v ''redirect_uri'' \<noteq> [] \<and>
    resolveClient (as_ip6 sv) (v ''client_id'') (v ''redirect_uri'') s = Inr (Some ct) \<and>
    CreateAuthCode code \<lparr>ac_ClientID = v ''client_id'', ac_RedirectURI = uri, ac_CodeChallenge = v ''code_challenge'',
        ac_Resource = v ''resource'', ac_PersonID = person, ac_DeviceID = device, ac_ClientType = ct\<rparr>
      (now + codeTTL) now s = (Inr (), s')"
proof (cases rule: parseAuthz_cases [of sv v s])
  case (inline st msg)
  then show ?thesis using assms by (simp add: handleAuthorizeSubmit_def rejectAuthz_cases)
next
  case (bounce err desc)
  then show ?thesis using assms rejectAuthz_cases(2) [OF bounce(2), of sv err desc]
    by (auto simp: handleAuthorizeSubmit_def)
next
  case (ok p)
  then show ?thesis
    using assms by (auto simp: handleAuthorizeSubmit_def reads_def split: sum.splits option.splits prod.splits if_splits)
qed

text \<open>
  Safety of a granted code. A redirect that carries a code means: the credential in the form
  verified for a person and a device, the device is active, the request demanded a code with an
  S256 challenge for this relay, and the code was stored with exactly this binding, for sixty
  seconds.
\<close>

theorem authorize_grant:
  assumes "handleAuthorizeSubmit sv (Some v) now random s = (RedirectTo uri kvs, s')" "map_of kvs ''code'' = Some code"
  shows "\<exists>person device dev ct.
    VerifyDeviceCredential (as_jwt sv) (as_issuer sv) (v ''credential'') now = Inr (person, device) \<and>
    ActiveDeviceByID device (st_db s) = Inr dev \<and> uri = v ''redirect_uri'' \<and>
    v ''response_type'' = ''code'' \<and> v ''code_challenge'' \<noteq> [] \<and> v ''code_challenge_method'' = ''S256'' \<and>
    (v ''resource'' = [] \<or> v ''resource'' = as_base sv) \<and> Some code = newOpaqueToken random \<and>
    v ''client_id'' \<noteq> [] \<and> v ''redirect_uri'' \<noteq> [] \<and>
    resolveClient (as_ip6 sv) (v ''client_id'') (v ''redirect_uri'') s = Inr (Some ct) \<and>
    CreateAuthCode code \<lparr>ac_ClientID = v ''client_id'', ac_RedirectURI = uri, ac_CodeChallenge = v ''code_challenge'',
        ac_Resource = v ''resource'', ac_PersonID = person, ac_DeviceID = device, ac_ClientType = ct\<rparr>
      (now + codeTTL) now s = (Inr (), s')"
  by (rule granted [OF assms])

section \<open>Issuing tokens\<close>

definition fresh_refresh :: "string \<Rightarrow> refresh_grant \<Rightarrow> instant \<Rightarrow> instant \<Rightarrow> refresh_row" where
  "fresh_refresh token g expiresAt now =
     \<lparr>r_hash = hashToken token, r_client = rg_ClientID g, r_person = rg_PersonID g, r_device = rg_DeviceID g,
      r_client_type = rg_ClientType g, r_resource = rg_Resource g, r_created = unix_sec now,
      r_expires = unix_sec expiresAt, r_consumed = None\<rparr>"

lemma createRefreshTx_iff:
  assumes "schema_ok d"
  shows "createRefreshTx token g expiresAt now d = Inr (u, d') \<longleftrightarrow>
    hashToken token \<notin> r_hash ` set (oauth_refresh d) \<and> has_person d (rg_PersonID g) \<and> has_device d (rg_DeviceID g) \<and>
    d' = d\<lparr>oauth_refresh := oauth_refresh d @ [fresh_refresh token g expiresAt now]\<rparr>"
proof -
  let ?d = "d\<lparr>oauth_refresh := oauth_refresh d @ [fresh_refresh token g expiresAt now]\<rparr>"
  have "schema_ok ?d \<longleftrightarrow> refresh_ok ?d"
    using schema_ok_step [OF assms, of ?d] by (auto simp: schema_ok_def keys_grow_def)
  also have "\<dots> \<longleftrightarrow> hashToken token \<notin> r_hash ` set (oauth_refresh d) \<and> has_person d (rg_PersonID g) \<and> has_device d (rg_DeviceID g)"
    using schema_okD(12) [OF assms] by (auto simp: refresh_ok_def fresh_refresh_def)
  finally show ?thesis unfolding fresh_refresh_def createRefreshTx_def by (auto simp: rbind_Inr_iff exec_Inr)
qed

text \<open>The shared tail of both grants, on every branch.\<close>

lemma issueTokens_cases:
  assumes "issueTokens sv g now random s = (r, s')"
  obtains (refused) e msg where "r = TokenError e msg" "s' = s"
  | (issued) dev access refresh where "ActiveDeviceByID (rg_DeviceID g) (st_db s) = Inr dev"
      "Mint (as_jwt sv) (as_issuer sv) (rg_PersonID g) (rg_ClientType g) now = Inr access"
      "newOpaqueToken random = Some refresh" "CreateRefreshToken refresh g (now + refreshTTL) now s = (Inr (), s')"
      "r = TokenOK \<lparr>tr_AccessToken = access, tr_TokenType = ''Bearer'',
         tr_ExpiresIn = AccessTTL (as_issuer sv) div 1000000000, tr_RefreshToken = refresh\<rparr>"
proof -
  have "CreateRefreshToken refresh g e now s = (Inl err, s'') \<Longrightarrow> s'' = s" for refresh e err s''
    by (auto simp: CreateRefreshToken_def writeTx_def split: if_splits sum.splits)
  then show ?thesis
    using assms refused issued
    by (auto simp: issueTokens_def reads_def split: sum.splits option.splits prod.splits if_splits)
qed

lemma issueTokens_keeps:
  assumes "issueTokens sv g now random s = (r, s')" "relay_inv (st_db s)"
  shows "relay_inv (st_db s') \<and> oauth_codes (st_db s') = oauth_codes (st_db s)"
  using assms(1)
proof (cases rule: issueTokens_cases)
  case refused
  then show ?thesis using assms(2) by simp
next
  case (issued dev access refresh)
  then have run: "writeTx (createRefreshTx refresh g (now + refreshTTL) now) s = (Inr (), s')" by (simp add: CreateRefreshToken_def)
  then have "\<exists>d'. createRefreshTx refresh g (now + refreshTTL) now (st_db s) = Inr ((), d') \<and> st_db s' = d'" by (auto simp: writeTx_Inr)
  then have "oauth_codes (st_db s') = oauth_codes (st_db s)"
    using createRefreshTx_iff [OF relay_inv_schema [OF assms(2)]] by auto
  then show ?thesis using create_refresh_tx.op_keeps [OF assms(2) run] by simp
qed

lemma code_consumed:
  assumes "healthy s" "schema_ok (st_db s)" "AuthCodeByCode code now (st_db s) = Inr b"
  shows "ConsumeAuthCode code now s = (Inr (), s\<lparr>st_db := used_code code now (st_db s)\<rparr>)"
    "r \<in> set (oauth_codes (used_code code now (st_db s))) \<Longrightarrow> \<not> live_code code t r"
proof -
  have live: "list_ex (live_code code now) (oauth_codes (st_db s))"
    using assms(3) by (auto simp: AuthCodeByCode_def list_ex_iff select_first_def find_Some_iff split: option.splits)
  show "ConsumeAuthCode code now s = (Inr (), s\<lparr>st_db := used_code code now (st_db s)\<rparr>)"
    using ConsumeAuthCode_eq [OF assms(1,2), of code now] live by simp
  show "r \<in> set (oauth_codes (used_code code now (st_db s))) \<Longrightarrow> \<not> live_code code t r"
    by (rule used_code_dead [OF assms(2) live])
qed

text \<open>
  C16: safety of the code exchange. With a code that is live at the time, an exchange by someone
  else (another client, another redirect URI, or a verifier whose SHA-256 is not the challenge)
  is refused and leaves the store as it was: the code can still be redeemed. Otherwise the code is
  used up, at every later time, whatever happens next; tokens are issued only if the device of the
  code is active, and the access token is minted for the person and client of the code.
\<close>

theorem code_exchange:
  assumes "healthy s" "relay_inv (st_db s)" "AuthCodeByCode (v ''code'') now (st_db s) = Inr b" "v ''code'' \<noteq> []"
  shows "case tokenFromCode sv v now random s of (r, s') \<Rightarrow>
    if v ''client_id'' = [] \<or> v ''redirect_uri'' = [] \<or> v ''code_verifier'' = [] \<or>
       v ''client_id'' \<noteq> ac_ClientID b \<or> v ''redirect_uri'' \<noteq> ac_RedirectURI b \<or>
       RawURLEncoding_Encode (Sum256 (v ''code_verifier'')) \<noteq> ac_CodeChallenge b
    then (\<exists>e. r = TokenError 400 e) \<and> s' = s
    else AuthCodeByCode (v ''code'') t (st_db s') = Inl ErrCodeInvalid \<and> relay_inv (st_db s') \<and>
      (case r of
         TokenOK tr \<Rightarrow> (\<exists>dev. ActiveDeviceByID (ac_DeviceID b) (st_db s) = Inr dev) \<and>
           Mint (as_jwt sv) (as_issuer sv) (ac_PersonID b) (ac_ClientType b) now = Inr (tr_AccessToken tr)
       | TokenError e msg \<Rightarrow> True
       | _ \<Rightarrow> False)"
proof -
  let ?bad = "v ''client_id'' = [] \<or> v ''redirect_uri'' = [] \<or> v ''code_verifier'' = [] \<or>
       v ''client_id'' \<noteq> ac_ClientID b \<or> v ''redirect_uri'' \<noteq> ac_RedirectURI b \<or>
       RawURLEncoding_Encode (Sum256 (v ''code_verifier'')) \<noteq> ac_CodeChallenge b"
  have b: "reads (AuthCodeByCode (v ''code'') now) s = Inr b" using assms(1,3) by (simp add: reads_def healthy_def)
  show ?thesis
  proof (cases ?bad)
    case True
    then have "\<exists>e. tokenFromCode sv v now random s = (TokenError 400 e, s)"
      using b by (auto simp: tokenFromCode_def Let_def VerifyPKCE_def)
    then show ?thesis using True by auto
  next
    case False
    let ?d1 = "used_code (v ''code'') now (st_db s)"
    let ?s1 = "s\<lparr>st_db := ?d1\<rparr>"
    note consumed = code_consumed [OF assms(1) relay_inv_schema [OF assms(2)] assms(3)]
    obtain r s' where run: "issueTokens sv (grant_of_code b) now random ?s1 = (r, s')" by fastforce
    have eq: "tokenFromCode sv v now random s = (r, s')"
      using False b consumed(1) run assms(4) by (simp add: tokenFromCode_def VerifyPKCE_def)
    have inv1: "relay_inv (st_db ?s1)"
      using consume_code_tx.op_keeps [OF assms(2)] consumed(1) unfolding ConsumeAuthCode_def by blast
    note keeps = issueTokens_keeps [OF run inv1]
    have dead: "AuthCodeByCode (v ''code'') t (st_db s') = Inl ErrCodeInvalid"
      by (rule AuthCodeByCode_None) (use keeps consumed(2) in simp)
    have dev: "ActiveDeviceByID x ?d1 = ActiveDeviceByID x (st_db s)" for x
      by (simp add: ActiveDeviceByID_def used_code_def)
    from run have "case r of
         TokenOK tr \<Rightarrow> (\<exists>dev. ActiveDeviceByID (ac_DeviceID b) (st_db s) = Inr dev) \<and>
           Mint (as_jwt sv) (as_issuer sv) (ac_PersonID b) (ac_ClientType b) now = Inr (tr_AccessToken tr)
       | TokenError e msg \<Rightarrow> True | _ \<Rightarrow> False"
    proof (cases rule: issueTokens_cases)
      case (issued d access refresh)
      then show ?thesis by (simp add: dev) (simp add: grant_of_code_def)
    qed simp
    then show ?thesis unfolding eq prod.case if_not_P [OF False] using dead keeps by blast
  qed
qed

lemma refresh_updates_keep_hashes:
  "map r_hash (oauth_refresh (used_refresh token now d)) = map r_hash (oauth_refresh d)"
  "map r_hash (oauth_refresh (revoked_family person client now d)) = map r_hash (oauth_refresh d)"
  by (simp_all add: used_refresh_def revoked_family_def map_update_where_key)

lemma ConsumeRefreshToken_inv:
  assumes "relay_inv (st_db s)" "ConsumeRefreshToken token now s = (r, s')"
  shows "relay_inv (st_db s')"
proof -
  obtain x where run: "writeTx (consumeRefreshTx token now) s = (x, s')"
    using assms(2) by (auto simp: ConsumeRefreshToken_def split: prod.splits sum.splits refresh_outcome.splits)
  show ?thesis
  proof (cases x)
    case (Inl e)
    then show ?thesis using run assms(1) by (auto simp: writeTx_def split: if_splits sum.splits)
  next
    case (Inr y)
    then show ?thesis using consume_refresh_tx.op_keeps [OF assms(1)] run by blast
  qed
qed

lemma consumed_keeps_hashes:
  assumes "healthy s" "schema_ok (st_db s)" "ConsumeRefreshToken token now s = (r, s')"
  shows "map r_hash (oauth_refresh (st_db s')) = map r_hash (oauth_refresh (st_db s))"
proof (cases "\<exists>x \<in> set (oauth_refresh (st_db s)). live_refresh token now x")
  case True
  then obtain x where "x \<in> set (oauth_refresh (st_db s))" "live_refresh token now x" by blast
  from ConsumeRefreshToken_live [OF assms(1,2) this] show ?thesis using assms(3) by (auto simp: refresh_updates_keep_hashes)
next
  case False
  then have "\<not> live_refresh token now x" if "x \<in> set (oauth_refresh (st_db s))" for x using that by blast
  from ConsumeRefreshToken_dead [OF assms(1,2) this] show ?thesis
    using assms(3) by (auto simp: refresh_updates_keep_hashes split: option.splits)
qed

lemma refresh_granted:
  assumes "healthy s" "relay_inv (st_db s)" "tokenFromRefresh sv v now random s = (TokenOK tr, s')"
  shows "\<exists>r \<in> set (oauth_refresh (st_db s)).
    live_refresh (v ''refresh_token'') now r \<and> (v ''client_id'' = [] \<or> v ''client_id'' = r_client r) \<and>
    (\<exists>dev. ActiveDeviceByID (r_device r) (st_db s) = Inr dev) \<and>
    Mint (as_jwt sv) (as_issuer sv) (r_person r) (r_client_type r) now = Inr (tr_AccessToken tr) \<and>
    oauth_refresh (st_db s') = oauth_refresh (used_refresh (v ''refresh_token'') now (st_db s)) @
      [fresh_refresh (tr_RefreshToken tr) (grant_of r) (now + refreshTTL) now]"
proof -
  let ?rt = "v ''refresh_token''" and ?d = "st_db s"
  note ok = relay_inv_schema [OF assms(2)]
  obtain g s1 where g: "ConsumeRefreshToken ?rt now s = (Inr g, s1)" "v ''client_id'' = [] \<or> v ''client_id'' = rg_ClientID g"
    "issueTokens sv g now random s1 = (TokenOK tr, s')"
    using assms(3) by (auto simp: tokenFromRefresh_def Let_def split: if_splits sum.splits prod.splits)
  have "\<exists>r \<in> set (oauth_refresh ?d). live_refresh ?rt now r"
  proof (rule ccontr)
    assume "\<not> (\<exists>r \<in> set (oauth_refresh ?d). live_refresh ?rt now r)"
    then show False using ConsumeRefreshToken_dead [OF assms(1) ok, of ?rt now] g(1) by (auto split: option.splits)
  qed
  then obtain r where r: "r \<in> set (oauth_refresh ?d)" "live_refresh ?rt now r" by blast
  have eq: "g = grant_of r" "s1 = s\<lparr>st_db := used_refresh ?rt now ?d\<rparr>"
    using ConsumeRefreshToken_live [OF assms(1) ok r] g(1) by auto
  have "consumeRefreshTx ?rt now ?d = Inr (Rotated g, used_refresh ?rt now ?d)"
    using consumeRefreshTx_live [OF ok r] eq(1) by simp
  then have inv1: "relay_inv (used_refresh ?rt now ?d)" by (rule consume_refresh_tx.keeps [OF assms(2)])
  have dev: "ActiveDeviceByID x (used_refresh ?rt now ?d) = ActiveDeviceByID x ?d" for x
    by (simp add: ActiveDeviceByID_def used_refresh_def)
  from g(3) show ?thesis
  proof (cases rule: issueTokens_cases)
    case (issued dv access refresh)
    have "st_db s' = (st_db s1)\<lparr>oauth_refresh := oauth_refresh (st_db s1) @ [fresh_refresh refresh g (now + refreshTTL) now]\<rparr>"
      using issued(4) createRefreshTx_iff [of "st_db s1"] relay_inv_schema [OF inv1] eq(2)
      by (auto simp: CreateRefreshToken_def writeTx_Inr)
    then show ?thesis
      using r g(2) issued dev eq issueTokens_keeps [OF g(3)] inv1
      by (intro bexI [OF _ r(1)]) (auto simp: grant_of_def)
  qed simp
qed

lemma tokenFromRefresh_cases:
  assumes "tokenFromRefresh sv v now random s = (r, s')"
  obtains (nothing) e where "r = TokenError 400 e" "s' = s"
  | (refused) e s1 x where "r = TokenError 400 e" "ConsumeRefreshToken (v ''refresh_token'') now s = (x, s')"
  | (tail) g s1 where "ConsumeRefreshToken (v ''refresh_token'') now s = (Inr g, s1)" "issueTokens sv g now random s1 = (r, s')"
  using assms by (auto simp: tokenFromRefresh_def Let_def split: if_splits sum.splits prod.splits)

text \<open>
  C17: safety of the refresh grant, on every outcome. Tokens come out only if the presented token was
  live, the client id (when sent) is the one of the grant, and the device is active now; the access
  token is minted for the person of the grant, the presented token is used up, and exactly one new
  refresh token is stored, with the same binding, for thirty days. A refusal stores no token.
\<close>

theorem refresh_exchange:
  assumes "healthy s" "relay_inv (st_db s)"
  shows "case tokenFromRefresh sv v now random s of (r, s') \<Rightarrow> relay_inv (st_db s') \<and>
    (case r of
       TokenOK tr \<Rightarrow> (\<exists>row \<in> set (oauth_refresh (st_db s)).
         live_refresh (v ''refresh_token'') now row \<and> (v ''client_id'' = [] \<or> v ''client_id'' = r_client row) \<and>
         (\<exists>dev. ActiveDeviceByID (r_device row) (st_db s) = Inr dev) \<and>
         Mint (as_jwt sv) (as_issuer sv) (r_person row) (r_client_type row) now = Inr (tr_AccessToken tr) \<and>
         oauth_refresh (st_db s') = oauth_refresh (used_refresh (v ''refresh_token'') now (st_db s)) @
           [fresh_refresh (tr_RefreshToken tr) (grant_of row) (now + refreshTTL) now])
     | TokenError e msg \<Rightarrow> map r_hash (oauth_refresh (st_db s')) = map r_hash (oauth_refresh (st_db s))
     | _ \<Rightarrow> False)"
proof -
  obtain r s' where run: "tokenFromRefresh sv v now random s = (r, s')" by fastforce
  note consumed = consumed_keeps_hashes [OF assms(1) relay_inv_schema [OF assms(2)]] and kept = ConsumeRefreshToken_inv [OF assms(2)]
  from run have "relay_inv (st_db s') \<and> (case r of TokenOK tr \<Rightarrow> True
     | TokenError e msg \<Rightarrow> map r_hash (oauth_refresh (st_db s')) = map r_hash (oauth_refresh (st_db s)) | _ \<Rightarrow> False)"
  proof (cases rule: tokenFromRefresh_cases)
    case (tail g s1)
    with issueTokens_keeps [OF tail(2) kept [OF tail(1)]] consumed [OF tail(1)] show ?thesis
      by (cases rule: issueTokens_cases [OF tail(2)]) auto
  qed (use assms consumed kept in auto)
  then show ?thesis using run refresh_granted [OF assms, of sv v now random] by (cases r) auto
qed

section \<open>The whole flow\<close>

text \<open>
  C14: the authorization flow, end to end. A code granted by the login page for a challenge is
  exchanged, within its minute, by the client that presents the verifier: the reply carries an
  access token that the relay then accepts for the person of the pasted credential, until it
  expires. The device must still be active, and the random refresh token must be new.
\<close>

theorem authorization_flow:
  assumes "healthy s" "relay_inv (st_db s)" "jwt_documented (as_jwt sv) (as_issuer sv)"
    and grant: "handleAuthorizeSubmit sv (Some v) now random s = (RedirectTo uri kvs, s1)" "map_of kvs ''code'' = Some code" "code \<noteq> []"
    and challenge: "v ''code_challenge'' = RawURLEncoding_Encode (Sum256 w)" "w \<noteq> []"
    and form: "v' ''grant_type'' = ''authorization_code''" "v' ''code'' = code" "v' ''code_verifier'' = w"
      "v' ''client_id'' = v ''client_id''" "v' ''redirect_uri'' = v ''redirect_uri''"
    and time: "unix_sec t < unix_sec (now + codeTTL)"
    and client: "resolveClient (as_ip6 sv) (v ''client_id'') (v ''redirect_uri'') s = Inr (Some ct)"
    and mint: "Mint (as_jwt sv) (as_issuer sv) person ct t = Inr access"
    and person: "VerifyDeviceCredential (as_jwt sv) (as_issuer sv) (v ''credential'') now = Inr (person, device)"
    and fresh: "newOpaqueToken random' = Some refresh" "hashToken refresh \<notin> r_hash ` set (oauth_refresh (st_db s))"
  shows "\<exists>tr s2. handleToken sv (Some v') t random' s1 = (TokenOK tr, s2) \<and>
    tr_AccessToken tr = access \<and> tr_RefreshToken tr = refresh \<and>
    VerifyAccess (as_jwt sv) (as_issuer sv) (tr_AccessToken tr) t' =
      (if t' < unix_sec (t + is_ttl (as_issuer sv)) * 1000000000 then Inr (person, ct) else Inl ErrInvalidToken)"
proof -
  note ok = relay_inv_schema [OF assms(2)]
  obtain dev where g: "ActiveDeviceByID device (st_db s) = Inr dev" "uri = v ''redirect_uri''"
    "CreateAuthCode code \<lparr>ac_ClientID = v ''client_id'', ac_RedirectURI = uri, ac_CodeChallenge = v ''code_challenge'',
        ac_Resource = v ''resource'', ac_PersonID = person, ac_DeviceID = device, ac_ClientType = ct\<rparr>
      (now + codeTTL) now s = (Inr (), s1)" (is "CreateAuthCode code ?b _ _ _ = _")
    and set: "v ''client_id'' \<noteq> []" "v ''redirect_uri'' \<noteq> []"
    using granted [OF grant(1,2)] person client by auto
  have new: "hashToken code \<notin> k_hash ` set (oauth_codes (st_db s))" "has_person (st_db s) person" "has_device (st_db s) device"
    and s1: "s1 = s\<lparr>st_db := (st_db s)\<lparr>oauth_codes := oauth_codes (st_db s) @ [fresh_code code ?b (now + codeTTL) now]\<rparr>\<rparr>"
    using g(3) by (auto simp: CreateAuthCode_def writeTx_Inr createAuthCodeTx_iff [OF ok])
  have h1: "healthy s1" using assms(1) s1 by (simp add: healthy_def)
  have i1: "relay_inv (st_db s1)" using create_code_tx.op_keeps [OF assms(2)] g(3) unfolding CreateAuthCode_def by blast
  have "\<not> live_code code t r" if "r \<in> set (oauth_codes (st_db s))" for r
    using new(1) that by (auto simp: live_code_def image_iff)
  then have "select_first (live_code code t) (oauth_codes (st_db s)) = None" by (simp add: select_first_None)
  then have b: "AuthCodeByCode code t (st_db s1) = Inr ?b"
    using time by (simp add: AuthCodeByCode_def s1 select_first_append sql_simps live_code_def fresh_code_def)
  note consumed = code_consumed(1) [OF h1 relay_inv_schema [OF i1] b]
  let ?s2 = "s1\<lparr>st_db := used_code code t (st_db s1)\<rparr>"
  have h2: "healthy ?s2" using h1 by (simp add: healthy_def)
  have d2: "ActiveDeviceByID device (st_db ?s2) = Inr dev"
    using g(1) by (simp add: ActiveDeviceByID_def used_code_def s1)
  have ok2: "schema_ok (st_db ?s2)" using schema_used_code [OF relay_inv_schema [OF i1]] by simp
  have "createRefreshTx refresh (grant_of_code ?b) (t + refreshTTL) t (st_db ?s2) = Inr ((), (st_db ?s2)\<lparr>oauth_refresh :=
      oauth_refresh (st_db ?s2) @ [fresh_refresh refresh (grant_of_code ?b) (t + refreshTTL) t]\<rparr>)"
    unfolding createRefreshTx_iff [OF ok2] using fresh(2) new(2,3)
    by (simp add: s1 used_code_def grant_of_code_def has_person_def has_device_def)
  then have "\<exists>s3. CreateRefreshToken refresh (grant_of_code ?b) (t + refreshTTL) t ?s2 = (Inr (), s3)"
    using h2 by (simp add: CreateRefreshToken_def writeTx_healthy)
  then obtain s3 where s3: "CreateRefreshToken refresh (grant_of_code ?b) (t + refreshTTL) t ?s2 = (Inr (), s3)" by blast
  let ?tr = "\<lparr>tr_AccessToken = access, tr_TokenType = ''Bearer'',
      tr_ExpiresIn = AccessTTL (as_issuer sv) div 1000000000, tr_RefreshToken = refresh\<rparr>"
  have gd: "rg_DeviceID (grant_of_code ?b) = device" "rg_PersonID (grant_of_code ?b) = person" "rg_ClientType (grant_of_code ?b) = ct"
    by (simp_all add: grant_of_code_def)
  have "issueTokens sv (grant_of_code ?b) t random' ?s2 = (TokenOK ?tr, s3)"
    using h2 d2 mint fresh(1) s3 by (simp add: issueTokens_def reads_def healthy_def gd)
  then have "handleToken sv (Some v') t random' s1 = (TokenOK ?tr, s3)"
    using form b h1 consumed challenge grant(3) g(2) set
    by (simp add: handleToken_def tokenFromCode_def reads_def healthy_def VerifyPKCE_def)
  moreover have "token_parse (as_jwt sv) (as_issuer sv) access t' =
      (if in_time (access_claims (as_issuer sv) person ct t) t' then Inr (access_claims (as_issuer sv) person ct t) else Inl ErrInvalidToken)"
    by (rule minted_parses [OF assms(3)]) (use mint in \<open>simp_all add: Mint_def\<close>)
  then have "VerifyAccess (as_jwt sv) (as_issuer sv) access t' =
      (if t' < unix_sec (t + is_ttl (as_issuer sv)) * 1000000000 then Inr (person, ct) else Inl ErrInvalidToken)"
    by (simp add: VerifyAccess_def) (simp add: access_claims_def)
  ultimately show ?thesis by (intro exI [of _ ?tr] exI [of _ s3]) simp
qed

section \<open>A mistaken client id uses up a refresh token\<close>

text \<open>
  Unlike the code exchange, the refresh grant consumes before it checks the client id: a request
  with a wrong client id is refused and the token is gone, so the right client's next attempt counts
  as reuse and its whole family is revoked.
\<close>

lemma refresh_mismatch_burns:
  assumes "healthy s" "relay_inv (st_db s)" "r \<in> set (oauth_refresh (st_db s))" "live_refresh (v ''refresh_token'') now r"
    "v ''refresh_token'' \<noteq> []" "v ''client_id'' \<noteq> []" "v ''client_id'' \<noteq> r_client r"
  shows "\<exists>s1. tokenFromRefresh sv v now random s = (TokenError 400 ''invalid_grant'', s1) \<and>
    (\<forall>later. \<exists>e. fst (ConsumeRefreshToken (v ''refresh_token'') later s1) = Inl e)"
proof -
  let ?rt = "v ''refresh_token''"
  let ?s1 = "s\<lparr>st_db := used_refresh ?rt now (st_db s)\<rparr>"
  note ok = relay_inv_schema [OF assms(2)]
  have c: "ConsumeRefreshToken ?rt now s = (Inr (grant_of r), ?s1)"
    by (rule ConsumeRefreshToken_live [OF assms(1) ok assms(3,4)])
  then have t: "tokenFromRefresh sv v now random s = (TokenError 400 ''invalid_grant'', ?s1)"
    using assms(5-7) by (simp add: tokenFromRefresh_def grant_of_def)
  have h1: "healthy ?s1" "schema_ok (st_db ?s1)"
    using assms(1) schema_refresh_updates(1) [OF ok] by (simp_all add: healthy_def)
  have dead: "\<not> live_refresh ?rt later x" if x: "x \<in> set (oauth_refresh (st_db ?s1))" for later x
  proof
    assume live: "live_refresh ?rt later x"
    obtain x0 where x0: "x0 \<in> set (oauth_refresh (st_db s))"
      "x = (if live_refresh ?rt now x0 then x0\<lparr>r_consumed := Some (unix_sec now)\<rparr> else x0)"
      using x unfolding used_refresh_def by (auto elim: in_update_whereE)
    then have "r_hash x0 = r_hash r" using live assms(4) by (auto simp: live_refresh_def split: if_splits)
    then have "x0 = r" using refresh_unique [OF ok x0(1) assms(3)] by simp
    then show False using x0(2) live assms(4) by (simp add: live_refresh_def)
  qed
  have "\<exists>e. fst (ConsumeRefreshToken ?rt later ?s1) = Inl e" for later
    using ConsumeRefreshToken_dead [OF h1 dead, of later] by (auto split: option.splits)
  then show ?thesis using t by blast
qed

section \<open>A concrete flow\<close>

text \<open>
  ChatGPT asks with a client id that is a URL, Bob pastes the credential of his device \<open>db\<close>, and
  the code is exchanged with the verifier \<open>w\<close>. The hash of the verifier stays abstract.
\<close>

lemma Sum256_nonempty: "Sum256 w \<noteq> []"
proof -
  have "round256 st kw \<noteq> []" if "st \<noteq> []" for st kw
    using that by (cases "(st, kw)" rule: round256.cases) (simp_all add: Let_def)
  then have rounds: "foldl round256 st kws \<noteq> []" if "st \<noteq> []" for st kws
    using that by (induction kws arbitrary: st) simp_all
  have step: "compress h b \<noteq> []" if "h \<noteq> []" for h b
    using that rounds [OF that, of "zip K256 (schedule b)"] by (auto simp: compress_def zip_eq_Nil_iff)
  have "foldl compress h bs \<noteq> []" if "h \<noteq> []" for h bs
    using that by (induction bs arbitrary: h) (simp_all add: step)
  then have folded: "foldl compress H256 bs \<noteq> []" for bs by (simp add: H256_def)
  have "(4::nat) = Suc 3" by simp
  then have digits: "be_bytes 4 n \<noteq> []" for n by (simp only: be_bytes.simps append_is_Nil_conv) simp
  have joined: "concat (map f hs) \<noteq> []" if "hs \<noteq> []" "\<And>h. f h \<noteq> []" for f :: "u32 \<Rightarrow> string" and hs
    using that by (cases hs) auto
  show ?thesis
    unfolding Sum256_def Let_def by (rule joined [OF folded]) (simp only: map_is_Nil_conv digits not_False_eq_True)
qed

lemma RawURL_nonempty: "bs \<noteq> [] \<Longrightarrow> RawURLEncoding_Encode bs \<noteq> []"
  by (cases "(b64_url, [] :: string, map byte_of bs)" rule: b64_encode.cases) (auto simp: RawURLEncoding_Encode_def)

definition form_of :: "(string \<times> string) list \<Rightarrow> form_values" where
  "form_of kvs k = (case map_of kvs k of None \<Rightarrow> [] | Some x \<Rightarrow> x)"

definition sample_sv :: as_server where
  "sample_sv = \<lparr>as_base = ''https://r'', as_jwt = sample_jwt, as_issuer = sample_issuer, as_ip6 = (\<lambda>_. False)\<rparr>"

definition sample_challenge :: "string" where
  "sample_challenge = RawURLEncoding_Encode (Sum256 ''w'')"

definition sample_authz :: form_values where
  "sample_authz = form_of
     [(''response_type'', ''code''), (''client_id'', ''https://chatgpt.com/x''), (''redirect_uri'', ''https://chatgpt.com/cb''),
      (''code_challenge'', sample_challenge), (''code_challenge_method'', ''S256''), (''credential'', ''device'')]"

definition sample_exchange :: "string \<Rightarrow> form_values" where
  "sample_exchange client = form_of
     [(''grant_type'', ''authorization_code''), (''code'', ''YWJj''), (''client_id'', client),
      (''redirect_uri'', ''https://chatgpt.com/cb''), (''code_verifier'', ''w'')]"

definition sample_bound :: auth_code where
  "sample_bound = \<lparr>ac_ClientID = ''https://chatgpt.com/x'', ac_RedirectURI = ''https://chatgpt.com/cb'',
     ac_CodeChallenge = sample_challenge, ac_Resource = [], ac_PersonID = ''bob'', ac_DeviceID = ''db'', ac_ClientType = ''chatgpt''\<rparr>"

definition granted_db :: database where
  "granted_db = sample_db\<lparr>oauth_codes := [fresh_code ''YWJj'' sample_bound codeTTL 0]\<rparr>"

lemma sample_forms [simp]:
  "sample_authz ''response_type'' = ''code''" "sample_authz ''client_id'' = ''https://chatgpt.com/x''"
  "sample_authz ''redirect_uri'' = ''https://chatgpt.com/cb''" "sample_authz ''credential'' = ''device''"
  "sample_authz ''code_challenge'' = sample_challenge" "sample_authz ''code_challenge_method'' = ''S256''"
  "sample_authz ''resource'' = []" "sample_authz ''state'' = []" "sample_authz ''scope'' = []"
  "sample_exchange c ''code'' = ''YWJj''" "sample_exchange c ''client_id'' = c" "sample_exchange c ''code_verifier'' = ''w''"
  "sample_exchange c ''redirect_uri'' = ''https://chatgpt.com/cb''" "sample_exchange c ''grant_type'' = ''authorization_code''"
  by (simp_all add: sample_authz_def sample_exchange_def form_of_def)

lemma sample_sv_fields [simp]:
  "as_base sample_sv = ''https://r''" "as_jwt sample_sv = sample_jwt" "as_issuer sample_sv = sample_issuer" "as_ip6 sample_sv = (\<lambda>_. False)"
  by (simp_all add: sample_sv_def)

lemma sample_challenge_nonempty: "sample_challenge \<noteq> []"
  unfolding sample_challenge_def by (rule RawURL_nonempty [OF Sum256_nonempty])

lemma sample_parses:
  "Parse (\<lambda>_. False) ''https://chatgpt.com/x'' = Some \<lparr>u_Scheme = ''https'', u_Opaque = [], u_Host = ''chatgpt.com'', u_Fragment = []\<rparr>"
  "Parse (\<lambda>_. False) ''https://chatgpt.com/cb'' = Some \<lparr>u_Scheme = ''https'', u_Opaque = [], u_Host = ''chatgpt.com'', u_Fragment = []\<rparr>"
  "clientTypeFor ''chatgpt.com'' = ''chatgpt''" "newOpaqueToken (Some ''abc'') = Some ''YWJj''" "newOpaqueToken (Some ''xyz'') = Some ''eHl6''"
  by code_simp+

lemma sample_resolves: "resolveClient (\<lambda>_. False) ''https://chatgpt.com/x'' ''https://chatgpt.com/cb'' s = Inr (Some ''chatgpt'')"
  by (simp add: resolveClient_def sample_parses IsAbs_def)

lemma sample_credential:
  "VerifyDeviceCredential sample_jwt sample_issuer ''device'' 0 = Inr (''bob'', ''db'')"
  "Mint sample_jwt sample_issuer ''bob'' ''chatgpt'' 0 = Inr ''access''"
  by code_simp+

lemma sample_device_active: "ActiveDeviceByID ''db'' sample_db = Inr
    \<lparr>de_ID = ''db'', de_PersonID = ''bob'', de_PubKey = replicate 32 CHR ''b'', de_Label = [], de_CreatedAt = 0\<rparr>"
  by code_simp

lemma sample_code_stored: "CreateAuthCode ''YWJj'' sample_bound (0 + codeTTL) 0 sample_store = (Inr (), sample_store\<lparr>st_db := granted_db\<rparr>)"
proof -
  have "createAuthCodeTx ''YWJj'' sample_bound codeTTL 0 sample_db = Inr ((), granted_db)"
    by (subst createAuthCodeTx_iff [OF sample_db_ok])
      (simp add: sample_simps has_person_def has_device_def sample_bound_def granted_db_def)
  then show ?thesis by (simp add: CreateAuthCode_def writeTx_healthy)
qed

lemma sample_reads: "reads f sample_store = f sample_db"
  by (simp add: reads_def sample_store_def)

lemma sample_grant: "handleAuthorizeSubmit sample_sv (Some sample_authz) 0 (Some ''abc'') sample_store =
  (RedirectTo ''https://chatgpt.com/cb'' [(''code'', ''YWJj'')], sample_store\<lparr>st_db := granted_db\<rparr>)"
proof -
  have "parseAuthz sample_sv sample_authz sample_store = Inr \<lparr>ap_ResponseType = ''code'', ap_ClientID = ''https://chatgpt.com/x'',
      ap_RedirectURI = ''https://chatgpt.com/cb'', ap_CodeChallenge = sample_challenge, ap_CodeChallengeMethod = ''S256'',
      ap_State = [], ap_Resource = [], ap_Scope = [], ap_ClientType = ''chatgpt''\<rparr>"
    by (simp add: parseAuthz_def sample_resolves sample_challenge_nonempty)
  then show ?thesis
    using sample_code_stored
    by (simp add: handleAuthorizeSubmit_def sample_credential sample_reads sample_device_active sample_parses(4) sample_bound_def)
qed

lemma granted_store: "healthy (sample_store\<lparr>st_db := granted_db\<rparr>)" "relay_inv granted_db"
proof -
  show "healthy (sample_store\<lparr>st_db := granted_db\<rparr>)" by (simp add: healthy_def sample_store_def)
  show "relay_inv granted_db"
    using create_code_tx.op_keeps [OF sample_store_inv sample_code_stored [unfolded CreateAuthCode_def]] by simp
qed

lemma granted_code: "AuthCodeByCode ''YWJj'' 5 granted_db = Inr sample_bound"
  by (simp add: AuthCodeByCode_def granted_db_def live_code_def fresh_code_def codeTTL_def unix_sec_def sample_bound_def select_first_def)

theorem authorize_grant_witness:
  "\<exists>person device dev. VerifyDeviceCredential sample_jwt sample_issuer ''device'' 0 = Inr (person, device) \<and>
     ActiveDeviceByID device sample_db = Inr dev"
  using authorize_grant [OF sample_grant, of "''YWJj''"]
  by auto

theorem code_exchange_witness:
  "snd (tokenFromCode sample_sv (sample_exchange ''other'') 5 (Some ''xyz'') (sample_store\<lparr>st_db := granted_db\<rparr>)) =
     sample_store\<lparr>st_db := granted_db\<rparr> \<and>
   AuthCodeByCode ''YWJj'' 6 (st_db (snd (tokenFromCode sample_sv (sample_exchange ''https://chatgpt.com/x'') 5 (Some ''xyz'')
     (sample_store\<lparr>st_db := granted_db\<rparr>)))) = Inl ErrCodeInvalid"
proof -
  let ?s = "sample_store\<lparr>st_db := granted_db\<rparr>"
  have b: "AuthCodeByCode (sample_exchange c ''code'') 5 (st_db ?s) = Inr sample_bound" for c
    using granted_code by simp
  have inv: "relay_inv (st_db ?s)" using granted_store(2) by simp
  have n: "sample_exchange c ''code'' \<noteq> []" for c by simp
  show ?thesis
    using code_exchange [where v = "sample_exchange ''other''" and sv = sample_sv and random = "Some ''xyz''" and t = 6, OF granted_store(1) inv b n]
      code_exchange [where v = "sample_exchange ''https://chatgpt.com/x''" and sv = sample_sv and random = "Some ''xyz''" and t = 6, OF granted_store(1) inv b n]
    by (auto simp: sample_bound_def sample_challenge_def split: prod.splits)
qed

theorem refresh_exchange_witness:
  "case tokenFromRefresh sample_sv (form_of [(''refresh_token'', ''rt''), (''client_id'', ''other'')]) 5 (Some ''xyz'') refresh_store of
     (r, s') \<Rightarrow> (\<exists>e msg. r = TokenError e msg) \<and> map r_hash (oauth_refresh (st_db s')) = [hashToken ''rt'']"
proof -
  let ?v = "form_of [(''refresh_token'', ''rt''), (''client_id'', ''other'')]"
  obtain r s' where run: "tokenFromRefresh sample_sv ?v 5 (Some ''xyz'') refresh_store = (r, s')" by fastforce
  have "?v ''client_id'' = ''other''" by (simp add: form_of_def)
  then show ?thesis
    using refresh_exchange [OF refresh_store_ok, where sv = sample_sv and v = ?v and now = 5 and random = "Some ''xyz''"] run
    by (cases r) (simp_all add: refresh_store_def sample_refresh_def)
qed

theorem authorization_flow_witness:
  "\<exists>tr s2. handleToken sample_sv (Some (sample_exchange ''https://chatgpt.com/x'')) 0 (Some ''xyz'') (sample_store\<lparr>st_db := granted_db\<rparr>) =
     (TokenOK tr, s2) \<and> tr_AccessToken tr = ''access'' \<and>
     VerifyAccess sample_jwt sample_issuer (tr_AccessToken tr) 5 = Inr (''bob'', ''chatgpt'')"
proof -
  have jwt: "jwt_documented (as_jwt sample_sv) (as_issuer sample_sv)" by (simp add: sample_jwt_documented)
  let ?v = "sample_exchange ''https://chatgpt.com/x''"
  have "\<exists>tr s2. handleToken sample_sv (Some ?v) 0 (Some ''xyz'') (sample_store\<lparr>st_db := granted_db\<rparr>) = (TokenOK tr, s2) \<and>
    tr_AccessToken tr = ''access'' \<and> tr_RefreshToken tr = ''eHl6'' \<and>
    VerifyAccess (as_jwt sample_sv) (as_issuer sample_sv) (tr_AccessToken tr) 5 =
      (if 5 < unix_sec (0 + is_ttl (as_issuer sample_sv)) * 1000000000 then Inr (''bob'', ''chatgpt'') else Inl ErrInvalidToken)"
  proof (rule authorization_flow [OF sample_healthy(1) sample_store_inv jwt sample_grant, where w = "''w''"])
    show "VerifyDeviceCredential (as_jwt sample_sv) (as_issuer sample_sv) (sample_authz ''credential'') 0 = Inr (''bob'', ''db'')"
      by (simp add: sample_credential)
    show "sample_authz ''code_challenge'' = RawURLEncoding_Encode (Sum256 ''w'')" by (simp add: sample_challenge_def)
  qed (simp_all add: sample_resolves sample_credential sample_parses codeTTL_def unix_sec_def, simp add: sample_simps)
  then show ?thesis by (auto simp: sample_issuer_def unix_sec_def)
qed

end
