(* ===== verification/ConfigFacts.thy ===== *)
theory ConfigFacts
  imports Config
begin

text \<open>
  What \<open>LoadConfig\<close> guarantees: every configuration it returns is safe to run with, and each
  setting is the last flag given for it, else the environment variable, else the default. The second
  is proved once for any flag that owns one field of the options, in the locale \<open>flag_field\<close>.
\<close>

section \<open>Flags that own a field\<close>

fun set_all :: "'c flags \<Rightarrow> (string \<times> string) list \<Rightarrow> 'c \<Rightarrow> flag_error + 'c" where
  "set_all fl [] c = Inr c"
| "set_all fl ((name, v) # settings) c = (case set_flag fl name v c of Inl e \<Rightarrow> Inl e | Inr c' \<Rightarrow> set_all fl settings c')"

definition flag_args :: "(string \<times> string) list \<Rightarrow> string list" where
  "flag_args settings = concat (map (\<lambda>(name, v). [''-'' @ name, v]) settings)"

definition plain_name :: "string \<Rightarrow> bool" where
  "plain_name name \<longleftrightarrow> name \<noteq> [] \<and> hd name \<noteq> CHR ''-'' \<and> CHR ''='' \<notin> set name"

lemma parse_flag_args:
  assumes "\<And>name v. (name, v) \<in> set settings \<Longrightarrow> plain_name name"
  shows "parse_flags fl (flag_args settings) c = (case set_all fl settings c of Inl e \<Rightarrow> Inl e | Inr c' \<Rightarrow> Inr (c', []))"
  using assms
proof (induction settings arbitrary: c)
  case (Cons nv settings)
  obtain name v where nv: "nv = (name, v)" by fastforce
  have "plain_name name" using Cons.prems nv by auto
  then have plain: "name \<noteq> []" "hd name \<noteq> CHR ''-''" "hd name \<noteq> CHR ''=''" "flag_name name = (name, None)"
    by (cases name; auto simp: plain_name_def flag_name_def)+
  moreover have "(''-'' @ name) ! 1 = hd name" "''-'' @ name \<noteq> ''--''" using plain by (cases name; auto)+
  moreover have "parse_flags fl (flag_args settings) c' = (case set_all fl settings c' of Inl e \<Rightarrow> Inl e | Inr c' \<Rightarrow> Inr (c', []))" for c'
    using Cons.IH Cons.prems by auto
  ultimately show ?case
    by (cases name) (auto simp: flag_args_def nv Let_def split: sum.splits)
qed (simp add: flag_args_def)

locale flag_field =
  fixes fl :: "'c flags" and name :: string and get :: "'c \<Rightarrow> 'a" and conv :: "string \<Rightarrow> 'a option"
  assumes own: "fl name = Some f \<Longrightarrow> f v c = Some c' \<Longrightarrow> conv v = Some (get c')"
    and others: "n \<noteq> name \<Longrightarrow> fl n = Some f \<Longrightarrow> f v c = Some c' \<Longrightarrow> get c' = get c"
begin

lemma last_wins:
  "set_all fl settings c = Inr c' \<Longrightarrow>
     get c' = (case map_of (rev settings) name of Some v \<Rightarrow> the (conv v) | None \<Rightarrow> get c)"
proof (induction settings arbitrary: c)
  case (Cons nv settings)
  obtain n v where nv: "nv = (n, v)" by fastforce
  then obtain f c1 where f: "fl n = Some f" "f v c = Some c1" "set_all fl settings c1 = Inr c'"
    using Cons.prems by (auto simp: set_flag_def split: sum.splits option.splits if_splits)
  then have "get c1 = (if n = name then the (conv v) else get c)" using own others by (metis option.sel)
  then show ?case using Cons.IH [OF f(3)] nv by (auto simp: map_add_def split: option.splits)
qed simp

end

lemma serve_flags_Some:
  "serve_flags n = Some f \<Longrightarrow> n \<in> {''listen'', ''db'', ''base-url'', ''signing-key'', ''invite-ttl'', ''ack-grace'', ''hard-ttl'', ''fresh-max-age'', ''fresh-max-skew''}"
  by (auto simp: serve_flags_def split: if_splits)

lemma serve_names_plain: "serve_flags n \<noteq> None \<Longrightarrow> plain_name n"
  using serve_flags_Some by (fastforce simp: plain_name_def)

interpretation listen_flag: flag_field serve_flags "''listen''" c_ListenAddr Some
  by unfold_locales (auto simp: serve_flags_def split: if_splits)

interpretation db_flag: flag_field serve_flags "''db''" c_DBPath Some
  by unfold_locales (auto simp: serve_flags_def split: if_splits)

interpretation base_flag: flag_field serve_flags "''base-url''" c_BaseURL Some
  by unfold_locales (auto simp: serve_flags_def split: if_splits)

interpretation key_flag: flag_field serve_flags "''signing-key''" c_SigningKeyPath Some
  by unfold_locales (auto simp: serve_flags_def split: if_splits)

interpretation invite_flag: flag_field serve_flags "''invite-ttl''" c_InviteTTL ParseDuration
  by unfold_locales (auto simp: serve_flags_def split: if_splits)

interpretation grace_flag: flag_field serve_flags "''ack-grace''" c_AckGrace ParseDuration
  by unfold_locales (auto simp: serve_flags_def split: if_splits)

interpretation ttl_flag: flag_field serve_flags "''hard-ttl''" c_HardTTL ParseDuration
  by unfold_locales (auto simp: serve_flags_def split: if_splits)

interpretation age_flag: flag_field serve_flags "''fresh-max-age''" c_MaxAge ParseDuration
  by unfold_locales (auto simp: serve_flags_def split: if_splits)

interpretation skew_flag: flag_field serve_flags "''fresh-max-skew''" c_MaxSkew ParseDuration
  by unfold_locales (auto simp: serve_flags_def split: if_splits)

section \<open>Precedence\<close>

definition chosen :: "(string \<times> string) list \<Rightarrow> (string \<Rightarrow> string) \<Rightarrow> string \<Rightarrow> string \<Rightarrow> string \<Rightarrow> string" where
  "chosen settings getenv name key def =
     (case map_of (rev settings) name of Some v \<Rightarrow> v | None \<Rightarrow> if getenv key \<noteq> [] then getenv key else def)"

definition chosen_duration :: "(string \<times> string) list \<Rightarrow> (string \<Rightarrow> string) \<Rightarrow> string \<Rightarrow> string \<Rightarrow> duration \<Rightarrow> duration" where
  "chosen_duration settings getenv name key def =
     (case map_of (rev settings) name of
        Some v \<Rightarrow> the (ParseDuration v)
      | None \<Rightarrow> (case ParseDuration (getenv key) of Some d \<Rightarrow> d | None \<Rightarrow> def))"

lemma ParseDuration_empty: "ParseDuration [] = None"
  by (simp add: ParseDuration_def)

text \<open>
  C26: flag, then environment, then default. In a configuration loaded from flags written as
  \<open>-name value\<close>, every setting is the last value given for its flag; without one it is the
  environment variable, if set (for a duration: if set to something that parses); otherwise the
  default. The base URL loses its trailing slashes, and the key lies beside the database unless a
  path was given.
\<close>

theorem config_precedence:
  assumes "LoadConfig ip6 getenv (flag_args settings) = Inr c" "\<forall>(name, v) \<in> set settings. serve_flags name \<noteq> None"
  shows "c_ListenAddr c = chosen settings getenv ''listen'' ''ASKRELAY_LISTEN'' ''127.0.0.1:8080'' \<and>
    c_DBPath c = chosen settings getenv ''db'' ''ASKRELAY_DB'' ''askrelay.db'' \<and>
    c_BaseURL c = TrimRight (CHR ''/'') (chosen settings getenv ''base-url'' ''ASKRELAY_BASE_URL'' []) \<and>
    c_SigningKeyPath c = (let p = chosen settings getenv ''signing-key'' ''ASKRELAY_SIGNING_KEY'' []
      in if p = [] then Join2 (Dir (c_DBPath c)) ''signing.key'' else p) \<and>
    c_InviteTTL c = chosen_duration settings getenv ''invite-ttl'' ''ASKRELAY_INVITE_TTL'' (24 * hour) \<and>
    c_AckGrace c = chosen_duration settings getenv ''ack-grace'' ''ASKRELAY_ACK_GRACE'' (72 * hour) \<and>
    c_HardTTL c = chosen_duration settings getenv ''hard-ttl'' ''ASKRELAY_HARD_TTL'' (720 * hour) \<and>
    c_MaxAge c = chosen_duration settings getenv ''fresh-max-age'' ''ASKRELAY_FRESH_MAX_AGE'' (24 * hour) \<and>
    c_MaxSkew c = chosen_duration settings getenv ''fresh-max-skew'' ''ASKRELAY_FRESH_MAX_SKEW'' (5 * 60 * 1000000000)"
proof -
  have "plain_name name" if "(name, v) \<in> set settings" for name v
    using assms(2) that by (intro serve_names_plain) auto
  note parsed = parse_flag_args [of settings serve_flags "default_config getenv", OF this]
  obtain c0 where s: "set_all serve_flags settings (default_config getenv) = Inr c0"
    using assms(1) parsed by (auto simp: LoadConfig_def split: sum.splits)
  let ?c1 = "c0\<lparr>c_BaseURL := TrimRight (CHR ''/'') (c_BaseURL c0)\<rparr>"
  have c: "c = (if c_SigningKeyPath ?c1 = [] then ?c1\<lparr>c_SigningKeyPath := Join2 (Dir (c_DBPath ?c1)) ''signing.key''\<rparr> else ?c1)"
    using assms(1) parsed s by (auto simp: LoadConfig_def Let_def split: sum.splits)
  have d: "envDur getenv key def = (case ParseDuration (getenv key) of Some d \<Rightarrow> d | None \<Rightarrow> def)" for key def
    by (simp add: envDur_def ParseDuration_empty split: option.splits)
  note last = listen_flag.last_wins [OF s] db_flag.last_wins [OF s] base_flag.last_wins [OF s] key_flag.last_wins [OF s]
    invite_flag.last_wins [OF s] grace_flag.last_wins [OF s] ttl_flag.last_wins [OF s] age_flag.last_wins [OF s] skew_flag.last_wins [OF s]
  have fields: "c_ListenAddr c = c_ListenAddr c0" "c_DBPath c = c_DBPath c0" "c_BaseURL c = TrimRight (CHR ''/'') (c_BaseURL c0)"
    "c_InviteTTL c = c_InviteTTL c0" "c_AckGrace c = c_AckGrace c0" "c_HardTTL c = c_HardTTL c0" "c_MaxAge c = c_MaxAge c0" "c_MaxSkew c = c_MaxSkew c0"
    "c_SigningKeyPath c = (if c_SigningKeyPath c0 = [] then Join2 (Dir (c_DBPath c0)) ''signing.key'' else c_SigningKeyPath c0)"
    by (simp_all add: c)
  show ?thesis
    unfolding fields last by (simp add: default_config_def chosen_def chosen_duration_def envOr_def d Let_def cong: option.case_cong)
qed

definition sample_settings :: "(string \<times> string) list" where
  "sample_settings = [(''ack-grace'', ''2h''), (''base-url'', ''https://r.example/''), (''ack-grace'', ''3h30m'')]"

definition sample_env :: "string \<Rightarrow> string" where
  "sample_env key = (if key = ''ASKRELAY_DB'' then ''/d/r.db'' else if key = ''ASKRELAY_HARD_TTL'' then ''soon'' else [])"

definition sample_config :: config where
  "sample_config = \<lparr>c_ListenAddr = ''127.0.0.1:8080'', c_DBPath = ''/d/r.db'', c_BaseURL = ''https://r.example'',
     c_SigningKeyPath = ''/d/signing.key'', c_InviteTTL = 86400000000000, c_AckGrace = 12600000000000,
     c_HardTTL = 2592000000000000, c_MaxAge = 86400000000000, c_MaxSkew = 300000000000\<rparr>"

lemma sample_load: "LoadConfig (\<lambda>_. False) sample_env (flag_args sample_settings) = Inr sample_config"
  by code_simp

theorem config_precedence_witness:
  "c_AckGrace sample_config = the (ParseDuration ''3h30m'') \<and> c_HardTTL sample_config = 720 * hour \<and> c_DBPath sample_config = ''/d/r.db''"
proof -
  have "\<forall>(name, v) \<in> set sample_settings. serve_flags name \<noteq> None" by (simp add: sample_settings_def serve_flags_def)
  from config_precedence [OF sample_load this] have
    "c_AckGrace sample_config = chosen_duration sample_settings sample_env ''ack-grace'' ''ASKRELAY_ACK_GRACE'' (72 * hour)"
    "c_HardTTL sample_config = chosen_duration sample_settings sample_env ''hard-ttl'' ''ASKRELAY_HARD_TTL'' (720 * hour)"
    "c_DBPath sample_config = chosen sample_settings sample_env ''db'' ''ASKRELAY_DB'' ''askrelay.db''" by blast+
  moreover have "ParseDuration ''soon'' = None" by code_simp
  ultimately show ?thesis by (simp add: chosen_def chosen_duration_def sample_settings_def sample_env_def)
qed

section \<open>Safety of a loaded configuration\<close>

lemma Clean_nonempty: "Clean p \<noteq> []"
  by (simp add: Clean_def Let_def)

lemma Join2_nonempty: "b \<noteq> [] \<Longrightarrow> Join2 a b \<noteq> []"
  by (simp add: Join2_def Clean_nonempty)

lemma TrimRight_last: "TrimRight c s = [] \<or> last (TrimRight c s) \<noteq> c"
proof (cases "dropWhile (\<lambda>x. x = c) (rev s)")
  case (Cons x xs)
  then have "x \<noteq> c" using hd_dropWhile [of "\<lambda>x. x = c" "rev s"] by simp
  then show ?thesis using Cons by (simp add: TrimRight_def)
qed (simp add: TrimRight_def)

text \<open>
  C25: a configuration that loads is safe. Whatever the arguments and the environment, it names a
  listen address, a database and a key file; its base URL is http or https, has a host and does not
  end in a slash; the four retention and freshness durations are at least an hour and the clock skew
  is positive and at most an hour. A help request is an error, not a configuration.
\<close>

theorem config_safe:
  assumes "LoadConfig ip6 getenv args = Inr c"
  shows "c_ListenAddr c \<noteq> [] \<and> c_DBPath c \<noteq> [] \<and> c_SigningKeyPath c \<noteq> [] \<and>
    (\<exists>u. Parse ip6 (c_BaseURL c) = Some u \<and> u_Scheme u \<in> {''http'', ''https''} \<and> u_Host u \<noteq> []) \<and>
    (c_BaseURL c = [] \<or> last (c_BaseURL c) \<noteq> CHR ''/'') \<and>
    hour \<le> c_InviteTTL c \<and> hour \<le> c_AckGrace c \<and> hour \<le> c_HardTTL c \<and> hour \<le> c_MaxAge c \<and>
    0 < c_MaxSkew c \<and> c_MaxSkew c \<le> hour"
proof -
  obtain c0 rest where p: "parse_flags serve_flags args (default_config getenv) = Inr (c0, rest)"
    using assms by (auto simp: LoadConfig_def split: sum.splits)
  let ?c1 = "c0\<lparr>c_BaseURL := TrimRight (CHR ''/'') (c_BaseURL c0)\<rparr>"
  have c: "c = (if c_SigningKeyPath ?c1 = [] then ?c1\<lparr>c_SigningKeyPath := Join2 (Dir (c_DBPath ?c1)) ''signing.key''\<rparr> else ?c1)"
    and v: "Validate_config ip6 c = Inr ()"
    using assms p by (auto simp: LoadConfig_def Let_def split: sum.splits)
  have "c_SigningKeyPath c \<noteq> []" "c_BaseURL c = [] \<or> last (c_BaseURL c) \<noteq> CHR ''/''"
    using TrimRight_last Join2_nonempty by (auto simp: c)
  then show ?thesis using v by (auto simp: Validate_config_def split: if_splits option.splits)
qed

theorem config_safe_witness: "hour \<le> c_AckGrace sample_config \<and> c_MaxSkew sample_config \<le> hour"
  using config_safe [OF sample_load] by simp

end
