(* ===== verification/ServerFacts.thy ===== *)
theory ServerFacts
  imports Server Confinement OAuthFacts ConfigFacts
begin

text \<open>
  The server as a whole: what enrollment answers on every path, the way from a printed invite to a
  connected device, the retention pass, who gets through to the tools, and panics.
\<close>

section \<open>Enrollment answers\<close>

lemma Enroll_error_atomic: "Enroll person_id device_id token pub label now s = (Inl e, s') \<Longrightarrow> s' = s"
  using enroll_tx.op_atomic [of person_id device_id token pub label now s "Inl e" s'] by (auto simp: Enroll_def split: if_splits)

lemma Enroll_keeps: "relay_inv (st_db s) \<Longrightarrow> Enroll person_id device_id token pub label now s = (r, s') \<Longrightarrow> relay_inv (st_db s')"
  using enroll_tx.op_keeps [of s person_id device_id token pub label now r s'] by (auto simp: Enroll_def split: if_splits)

lemma enrollTx_no_invite:
  assumes "schema_ok d" "\<And>r. r \<in> set (invites d) \<Longrightarrow> \<not> live_invite token now r"
  shows "enrollTx person_id device_id token pubkey label now d = Inl ErrInviteInvalid"
proof -
  have "d\<lparr>invites := update_where (live_invite token now) (\<lambda>r. r\<lparr>i_used := Some (unix_sec now)\<rparr>) (invites d)\<rparr> = d"
    using assms(2) by (simp add: update_where_idle)
  moreover have "rows_affected (live_invite token now) (invites d) = 0" using assms(2) by (simp add: rows_affected_0)
  ultimately show ?thesis using assms(1) by (simp add: enrollTx_def)
qed

text \<open>
  C22: enrollment on every branch. A refusal leaves the store, and so the invite, as it was, with one
  exception: when the credential cannot be signed the device stays enrolled. A device is reported
  enrolled exactly when the store enrolled it, with a credential signed for it. Without a live
  invite every request with a well-formed key gets the one answer 403, whether the token was never
  issued, is used or has expired.
\<close>

theorem enroll_outcomes:
  assumes "healthy s" "relay_inv (st_db s)"
  shows "(case handleEnroll sv person_id device_id token body now minted s of (r, s') \<Rightarrow> relay_inv (st_db s') \<and>
      (case r of
         EnrollRefused status msg \<Rightarrow> status \<in> {400, 403, 409, 500} \<and>
           (s' = s \<or> status = 500 \<and> (\<exists>p dev pub label e. Enroll person_id device_id token pub label now s = (Inr (p, dev), s') \<and>
              MintDeviceCredential (as_jwt sv) (as_issuer sv) (pe_ID p) (de_ID dev) minted = Inl e))
       | Enrolled resp \<Rightarrow> \<exists>p dev pub label. Enroll person_id device_id token pub label now s = (Inr (p, dev), s') \<and>
           er_PersonID resp = pe_ID p \<and> er_DeviceID resp = de_ID dev \<and> er_BaseURL resp = as_base sv \<and>
           MintDeviceCredential (as_jwt sv) (as_issuer sv) (pe_ID p) (de_ID dev) minted = Inr (er_DeviceCredential resp))) \<and>
    ((\<exists>req pub. decode_enroll body = Some req \<and> StdEncoding_Decode (eq_PubKey req) = Some pub \<and> length pub = 32) \<and>
       (\<forall>r \<in> set (invites (st_db s)). \<not> live_invite token now r) \<longrightarrow>
     handleEnroll sv person_id device_id token body now minted s = (EnrollRefused 403 ''invalid or expired invite'', s))"
proof (intro conjI impI)
  show "case handleEnroll sv person_id device_id token body now minted s of (r, s') \<Rightarrow> relay_inv (st_db s') \<and>
      (case r of
         EnrollRefused status msg \<Rightarrow> status \<in> {400, 403, 409, 500} \<and>
           (s' = s \<or> status = 500 \<and> (\<exists>p dev pub label e. Enroll person_id device_id token pub label now s = (Inr (p, dev), s') \<and>
              MintDeviceCredential (as_jwt sv) (as_issuer sv) (pe_ID p) (de_ID dev) minted = Inl e))
       | Enrolled resp \<Rightarrow> \<exists>p dev pub label. Enroll person_id device_id token pub label now s = (Inr (p, dev), s') \<and>
           er_PersonID resp = pe_ID p \<and> er_DeviceID resp = de_ID dev \<and> er_BaseURL resp = as_base sv \<and>
           MintDeviceCredential (as_jwt sv) (as_issuer sv) (pe_ID p) (de_ID dev) minted = Inr (er_DeviceCredential resp))"
  proof (cases "Option.bind (decode_enroll body) (\<lambda>req. Option.bind (StdEncoding_Decode (eq_PubKey req)) (\<lambda>pub.
      if length pub = PublicKeySize then Some (req, pub) else None))")
    case None
    then show ?thesis using assms(2) by (auto simp: handleEnroll_def split: option.splits if_splits)
  next
    case (Some rp)
    then obtain req pub where rp: "decode_enroll body = Some req" "StdEncoding_Decode (eq_PubKey req) = Some pub" "length pub = PublicKeySize"
      by (auto simp: Option.bind_eq_Some_conv split: if_splits)
    obtain x s1 where e: "Enroll person_id device_id token pub (eq_Label req) now s = (x, s1)" by fastforce
    note kept = Enroll_keeps [OF assms(2) e]
    show ?thesis
    proof (cases x)
      case (Inl err)
      then have "s1 = s" using Enroll_error_atomic e by blast
      then show ?thesis using rp e Inl assms(2) by (simp add: handleEnroll_def)
    next
      case (Inr pd)
      obtain p dev where pd: "pd = (p, dev)" by (cases pd)
      show ?thesis
      proof (cases "MintDeviceCredential (as_jwt sv) (as_issuer sv) (pe_ID p) (de_ID dev) minted")
        case (Inl err)
        then show ?thesis using rp e Inr pd kept by (auto simp: handleEnroll_def)
      next
        case (Inr cred)
        then show ?thesis using rp e \<open>x = Inr pd\<close> pd kept by (auto simp: handleEnroll_def)
      qed
    qed
  qed
next
  assume h: "(\<exists>req pub. decode_enroll body = Some req \<and> StdEncoding_Decode (eq_PubKey req) = Some pub \<and> length pub = 32) \<and>
       (\<forall>r \<in> set (invites (st_db s)). \<not> live_invite token now r)"
  then obtain req pub where rp: "decode_enroll body = Some req" "StdEncoding_Decode (eq_PubKey req) = Some pub" "length pub = 32" by blast
  have "enrollTx person_id device_id token pub (eq_Label req) now (st_db s) = Inl ErrInviteInvalid"
    using h by (intro enrollTx_no_invite relay_inv_schema assms(2)) auto
  then have "Enroll person_id device_id token pub (eq_Label req) now s = (Inl ErrInviteInvalid, s)"
    using assms(1) rp(3) by (simp add: Enroll_def PublicKeySize_def writeTx_def healthy_def)
  then show "handleEnroll sv person_id device_id token body now minted s = (EnrollRefused 403 ''invalid or expired invite'', s)"
    using rp by (simp add: handleEnroll_def PublicKeySize_def)
qed

text \<open>A request as a client sends it, with the key of 32 bytes \<open>c\<close>.\<close>

definition sample_key :: string where "sample_key = replicate 32 (CHR ''c'')"

definition sample_body :: string where
  "sample_body = ''{'' @ [CHR 0x22] @ ''pubkey'' @ [CHR 0x22] @ '':'' @ [CHR 0x22] @ StdEncoding_Encode sample_key @ [CHR 0x22] @ ''}''"

lemma sample_request: "decode_enroll sample_body = Some \<lparr>eq_PubKey = StdEncoding_Encode sample_key, eq_Label = []\<rparr>"
  "StdEncoding_Decode (StdEncoding_Encode sample_key) = Some sample_key" "length sample_key = 32"
  by code_simp+

theorem enroll_outcomes_witness:
  "handleEnroll sample_sv ''carol'' ''dc'' ''tok'' sample_body 10000000000 0 invited_store =
     (EnrollRefused 403 ''invalid or expired invite'', invited_store)"
proof -
  have "\<forall>r \<in> set (invites (st_db invited_store)). \<not> live_invite ''tok'' 10000000000 r"
    by (simp add: invited_store_def live_invite_def unix_sec_def)
  moreover have "\<exists>req pub. decode_enroll sample_body = Some req \<and> StdEncoding_Decode (eq_PubKey req) = Some pub \<and> length pub = 32"
    by (intro exI [of _ "\<lparr>eq_PubKey = StdEncoding_Encode sample_key, eq_Label = []\<rparr>"] exI [of _ sample_key])
      (simp only: sample_request enroll_request.simps simp_thms)
  ultimately show ?thesis
    using enroll_outcomes [OF invited_ok, where sv = sample_sv and person_id = "''carol''" and device_id = "''dc''" and
      token = "''tok''" and body = sample_body and now = 10000000000 and minted = 0] by blast
qed

section \<open>From an invite to a socket\<close>

text \<open>The verification a socket is opened with.\<close>

definition verify_socket :: "as_server \<Rightarrow> string \<Rightarrow> instant \<Rightarrow> unit + string \<times> string" where
  "verify_socket sv token now =
     (case VerifyDeviceCredential (as_jwt sv) (as_issuer sv) token now of Inl _ \<Rightarrow> Inl () | Inr x \<Rightarrow> Inr x)"

lemma b64_url_facts: "length b64_url = 64" "CHR ''/'' \<notin> set b64_url" "CHR ''%'' \<notin> set b64_url" "CHR ''.'' \<notin> set b64_url"
  "CHR ''?'' \<notin> set b64_url" "CHR ''#'' \<notin> set b64_url"
  by code_simp+

lemma b64_url_chars: "set (b64_encode b64_url [] bs) \<subseteq> set b64_url"
proof -
  have "b64_char b64_url i \<in> set b64_url" for i by (simp add: b64_char_def b64_url_facts(1))
  then show ?thesis by (induction b64_url "[] :: string" bs rule: b64_encode.induct) auto
qed

definition url_safe :: "string \<Rightarrow> bool" where
  "url_safe token \<longleftrightarrow> token \<noteq> [] \<and> CHR ''/'' \<notin> set token \<and> CHR ''%'' \<notin> set token \<and> CHR ''.'' \<notin> set token"

lemma RawURL_url_safe:
  "raw \<noteq> [] \<Longrightarrow> url_safe (RawURLEncoding_Encode raw)"
  "CHR ''?'' \<notin> set (RawURLEncoding_Encode raw)" "CHR ''#'' \<notin> set (RawURLEncoding_Encode raw)"
  using b64_url_chars [of "map byte_of raw"] b64_url_facts RawURL_nonempty [of raw]
  by (auto simp: url_safe_def RawURLEncoding_Encode_def)

lemma split_slash_plain: "CHR ''/'' \<notin> set w \<Longrightarrow> split_slash w = [w]"
  by (induction w) auto

lemma unescape_plain: "CHR ''%'' \<notin> set w \<Longrightarrow> Url.unescape ModePath w = Some w"
  by (induction w) auto

text \<open>The path of an invite link reaches the enrollment endpoint with the token.\<close>

lemma invite_path_routes:
  assumes "url_safe token"
  shows "NewServer ''POST'' (''/enroll/'' @ token) = EnrollAt token"
proof -
  have t: "token \<noteq> []" "CHR ''/'' \<notin> set token" "token \<noteq> ''.''" "token \<noteq> ''..''" using assms by (auto simp: url_safe_def)
  have "split_slash (''/enroll/'' @ token) = [[], ''enroll'', token]" using split_slash_plain [OF t(2)] by simp
  then have "Clean (''/enroll/'' @ token) = ''/enroll/'' @ token" using t by (simp add: Clean_def clean_step_def)
  moreover have "last token \<noteq> CHR ''/''" using t(1,2) last_in_set by metis
  then have "last (''/enroll/'' @ token) \<noteq> CHR ''/''" using t(1) by (simp add: last_append)
  ultimately have c: "clean_path (''/enroll/'' @ token) = ''/enroll/'' @ token" by (simp add: clean_path_def)
  have v: "path_value token = token" using assms by (simp add: path_value_def url_safe_def unescape_plain)
  have whole: "takeWhile (\<lambda>c. c \<noteq> CHR ''/'') token = token" "dropWhile (\<lambda>c. c \<noteq> CHR ''/'') token = []"
    using t(2) by (auto simp: takeWhile_eq_all_conv)
  have "segments (CHR ''/'' # token) = [token]"
    using t(1) v by (subst segments.simps, simp add: whole) (subst segments.simps, simp)
  moreover have "path_value ''enroll'' = ''enroll''" by code_simp
  ultimately have segs: "segments (''/enroll/'' @ token) = [''enroll'', token]" by (subst segments.simps) simp
  have slash: "token \<noteq> ''/''" using t(2) by auto
  have pats: "literal ''/healthz'' = [Lit ''healthz'']" "literal PRMPath = [Lit ''.well-known'', Lit ''oauth-protected-resource'']"
    "literal AuthServerMetaPath = [Lit ''.well-known'', Lit ''oauth-authorization-server'']" "literal JWKSPath = [Lit ''oauth'', Lit ''jwks'']"
    "literal AuthorizePath = [Lit ''oauth'', Lit ''authorize'']" "literal TokenPath = [Lit ''oauth'', Lit ''token'']"
    "literal RegisterPath = [Lit ''oauth'', Lit ''register'']" "literal ''/mcp'' = [Lit ''mcp'']" "literal ''/ws'' = [Lit ''ws'']"
    by code_simp+
  have "endpoints (''/enroll/'' @ token) = [(''POST'', EnrollAt token)]"
    unfolding endpoints_def segs routes_def pats using slash by simp
  then show ?thesis using c by (simp add: NewServer_def)
qed

text \<open>The path a client asks for when it follows a link: what stands after the authority, up to a query or fragment.\<close>

definition request_path :: "string \<Rightarrow> string" where
  "request_path link = takeWhile (\<lambda>c. c \<noteq> CHR ''?'' \<and> c \<noteq> CHR ''#'')
     (dropWhile (\<lambda>c. c \<noteq> CHR ''/'') (drop (length ''://'') (dropWhile (\<lambda>c. c \<noteq> CHR '':'') link)))"

text \<open>An origin: scheme and authority, and any number of slashes after them.\<close>

definition origin :: "string \<Rightarrow> string \<Rightarrow> bool" where
  "origin sch auth \<longleftrightarrow> CHR '':'' \<notin> set sch \<and> auth \<noteq> [] \<and> CHR ''/'' \<notin> set auth"

lemma TrimRight_slashes: "w \<noteq> [] \<Longrightarrow> last w \<noteq> c \<Longrightarrow> TrimRight c (w @ replicate k c) = w"
  by (cases w rule: rev_cases) (simp_all add: TrimRight_def dropWhile_append)

lemma invite_link_path:
  assumes "origin sch auth" "url_safe token" "CHR ''?'' \<notin> set token" "CHR ''#'' \<notin> set token"
  shows "invite_link (sch @ ''://'' @ auth @ replicate k (CHR ''/'')) token = sch @ ''://'' @ auth @ ''/enroll/'' @ token"
    "request_path (sch @ ''://'' @ auth @ ''/enroll/'' @ token) = ''/enroll/'' @ token"
proof -
  have a: "auth \<noteq> []" "last auth \<noteq> CHR ''/''" using assms(1) last_in_set [of auth] by (auto simp: origin_def simp del: last_in_set)
  then show "invite_link (sch @ ''://'' @ auth @ replicate k (CHR ''/'')) token = sch @ ''://'' @ auth @ ''/enroll/'' @ token"
    using TrimRight_slashes [of "sch @ ''://'' @ auth" "CHR ''/''" k] by (simp add: invite_link_def)
  have "dropWhile (\<lambda>c. c \<noteq> CHR '':'') (sch @ ''://'' @ auth @ ''/enroll/'' @ token) = ''://'' @ auth @ ''/enroll/'' @ token"
    using assms(1) by (subst dropWhile_append2) (auto simp: origin_def)
  moreover have "dropWhile (\<lambda>c. c \<noteq> CHR ''/'') (auth @ ''/enroll/'' @ token) = ''/enroll/'' @ token"
    using assms(1) by (subst dropWhile_append2) (auto simp: origin_def)
  moreover have "takeWhile (\<lambda>c. c \<noteq> CHR ''?'' \<and> c \<noteq> CHR ''#'') token = token"
    using assms(3,4) by (auto simp: takeWhile_eq_all_conv)
  ultimately show "request_path (sch @ ''://'' @ auth @ ''/enroll/'' @ token) = ''/enroll/'' @ token"
    by (simp add: request_path_def)
qed

text \<open>A base URL with a path of its own is printed into the link, and the mux does not serve that path.\<close>

lemma invite_base_with_path: "NewServer ''POST'' (request_path (invite_link ''https://r/relay'' ''tok'')) = NotFound"
  by code_simp

lemma plain_invite_args:
  assumes "email \<noteq> []" "hd email \<noteq> CHR ''-''"
  shows "peel_email (email # rest) = (email, rest)"
  using assms by (cases email) (auto simp: peel_email_def has_prefix_def)

lemma invite_args_parse:
  assumes "ParseDuration d = Some ttl"
  shows "parse_flags invite_flags [''-base-url'', base, ''-ttl'', d] opts = Inr (opts\<lparr>io_base := base, io_ttl := ttl\<rparr>, [])"
  using assms by (simp add: flag_name_def set_flag_def invite_flags_def)

definition invited :: "string \<Rightarrow> string \<Rightarrow> duration \<Rightarrow> instant \<Rightarrow> database \<Rightarrow> database" where
  "invited token email ttl now d = d\<lparr>invites := invites d @ [\<lparr>i_hash = hashToken token, i_email = email,
     i_created = unix_sec now, i_expires = unix_sec (now + ttl), i_used = None\<rparr>]\<rparr>"

lemma CreateInvite_ok:
  assumes "healthy s" "relay_inv (st_db s)" "hashToken (RawURLEncoding_Encode raw) \<notin> i_hash ` set (invites (st_db s))"
  shows "CreateInvite raw email ttl now s =
      (Inr (RawURLEncoding_Encode raw), s\<lparr>st_db := invited (RawURLEncoding_Encode raw) email ttl now (st_db s)\<rparr>)"
    "relay_inv (invited (RawURLEncoding_Encode raw) email ttl now (st_db s))"
proof -
  let ?t = "RawURLEncoding_Encode raw"
  have tx: "createInviteTx ?t email ttl now (st_db s) = Inr ((), invited ?t email ttl now (st_db s))"
    using assms(3) createInviteTx_iff [OF relay_inv_schema [OF assms(2)], of ?t email ttl now "()"] by (simp add: invited_def)
  show "CreateInvite raw email ttl now s = (Inr ?t, s\<lparr>st_db := invited ?t email ttl now (st_db s)\<rparr>)"
    using assms(1) tx by (simp add: CreateInvite_def writeTx_healthy Let_def)
  show "relay_inv (invited ?t email ttl now (st_db s))" by (rule create_invite_tx.keeps [OF assms(2) tx])
qed

lemma device_credential_verifies:
  assumes "jwt_documented lib iss" "MintDeviceCredential lib iss owner dev since = Inr cred" "t < unix_sec (since + deviceCredTTL) * 1000000000"
  shows "VerifyDeviceCredential lib iss cred t = Inr (owner, dev)"
proof -
  have "token_parse lib iss cred t =
      (if in_time (device_claims iss owner dev since) t then Inr (device_claims iss owner dev since) else Inl ErrInvalidToken)"
    by (rule minted_parses [OF assms(1)]) (use assms(2) in \<open>simp_all add: MintDeviceCredential_def\<close>)
  then show ?thesis using assms(3) by (simp add: VerifyDeviceCredential_def) (simp add: device_claims_def)
qed

lemma bearer_header:
  assumes "cred \<noteq> []" shows "bearerToken (''Bearer '' @ cred) = Some cred"
proof -
  have cut: "take (length ''Bearer '') (''Bearer '' @ cred) = ''Bearer ''" "drop (length ''Bearer '') (''Bearer '' @ cred) = cred"
    "\<not> length (''Bearer '' @ cred) \<le> length ''Bearer ''" using assms by simp_all
  have "map lower_byte ''Bearer '' = ''bearer ''" by code_simp
  then show ?thesis by (simp only: bearerToken_def cut if_False simp_thms)
qed

text \<open>A device that was just enrolled connects with its credential.\<close>

lemma new_device_active:
  assumes "device_id \<notin> d_id ` set (devices d)" "devices d' = devices d @ [new_device device_id p pub label now]"
  shows "\<exists>dev. ActiveDeviceByID device_id d' = Inr dev \<and> de_PersonID dev = p"
proof -
  have "select_first (\<lambda>r. d_id r = device_id \<and> d_revoked r = None) (devices d) = None"
    using assms(1) by (auto simp: select_first_None)
  then show ?thesis
    by (simp add: ActiveDeviceByID_def assms(2) select_first_append sql_simps new_device_def device_of_row_def)
qed

lemma credential_connects:
  assumes "verify cred now = Inr (p, device_id)" "cred \<noteq> []" "st_begin_ok (ws_store w)"
    and "ActiveDeviceByID device_id (st_db (ws_store w)) = Inr dev" "de_PersonID dev = p"
  shows "fst (handleWS verify True (''Bearer '' @ cred) now w) = WsConnected p device_id (ws_next w)"
proof -
  have "active device_id w = Inr dev" using assms(3,4) by (simp add: active_iff)
  then show ?thesis using assms(1,5) bearer_header [OF assms(2)] by (auto simp: handleWS_def Let_def split: prod.splits)
qed

text \<open>
  C19: a printed invite works, end to end. The operator mints an invite for a base URL that is an
  origin (scheme and authority, with or without slashes after it). What is printed is one line, a link on
  that origin; following it reaches the enrollment endpoint of the mux with the token that was
  minted; before the invite expires a request there with a new key enrolls the device for the invited
  address; and the credential in the reply opens a socket for that person and device on the relay, until
  the credential expires.
\<close>

theorem invite_to_socket:
  assumes "healthy s" "relay_inv (st_db s)" "jwt_documented (as_jwt sv) (as_issuer sv)"
    and args: "email \<noteq> []" "hd email \<noteq> CHR ''-''" "ParseDuration d = Some ttl" "opens (envOr getenv ''ASKRELAY_DB'' ''askrelay.db'')"
    and base: "base = sch @ ''://'' @ auth @ replicate k (CHR ''/'')" "origin sch auth"
    and random: "raw \<noteq> []" "hashToken (RawURLEncoding_Encode raw) \<notin> i_hash ` set (invites (st_db s))"
    and request: "decode_enroll body = Some req" "StdEncoding_Decode (eq_PubKey req) = Some pub" "length pub = 32"
      "pub \<notin> d_pubkey ` set (devices (st_db s))"
    and ids: "person_id_free person_id email (st_db s)" "device_id \<notin> d_id ` set (devices (st_db s))"
    and time: "unix_sec t < unix_sec (now + ttl)" "t' < unix_sec (minted + deviceCredTTL) * 1000000000"
    and sign: "\<forall>p. \<exists>tok. MintDeviceCredential (as_jwt sv) (as_issuer sv) p device_id minted = Inr tok \<and> tok \<noteq> []"
  shows "\<exists>s1 link token resp s2.
    cmdInvite getenv opens [email, ''-base-url'', base, ''-ttl'', d] raw now s = (Inr (link @ [CHR 0x0A]), s1) \<and>
    prefix (sch @ ''://'' @ auth @ ''/'') link \<and> NewServer ''POST'' (request_path link) = EnrollAt token \<and>
    handleEnroll sv person_id device_id token body t minted s1 = (Enrolled resp, s2) \<and>
    (\<exists>p \<in> set (persons (st_db s2)). p_id p = er_PersonID resp \<and> p_email p = email) \<and>
    (\<forall>w. ws_store w = s2 \<longrightarrow> fst (handleWS (verify_socket sv) True (''Bearer '' @ er_DeviceCredential resp) t' w) =
       WsConnected (er_PersonID resp) device_id (ws_next w))"
proof -
  define token where "token = RawURLEncoding_Encode raw"
  let ?d1 = "invited token email ttl now (st_db s)"
  let ?s1 = "s\<lparr>st_db := ?d1\<rparr>"
  note made = CreateInvite_ok [OF assms(1,2) random(2), folded token_def]
  have safe: "url_safe token" "CHR ''?'' \<notin> set token" "CHR ''#'' \<notin> set token"
    using RawURL_url_safe [of raw] random(1) by (simp_all add: token_def)
  let ?link = "sch @ ''://'' @ auth @ ''/enroll/'' @ token"
  note path = invite_link_path [OF base(2) safe]
  have "cmdInvite getenv opens [email, ''-base-url'', base, ''-ttl'', d] raw now s = (Inr (invite_link base token @ [CHR 0x0A]), ?s1)"
    unfolding cmdInvite_def plain_invite_args [OF args(1,2)] Let_def prod.case invite_args_parse [OF args(3)] sum.case
    using args made(1) base(1) by simp
  then have cmd: "cmdInvite getenv opens [email, ''-base-url'', base, ''-ttl'', d] raw now s = (Inr (?link @ [CHR 0x0A]), ?s1)"
    by (simp only: base(1) path(1))
  have route: "prefix (sch @ ''://'' @ auth @ ''/'') ?link" "NewServer ''POST'' (request_path ?link) = EnrollAt token"
    unfolding path(2) using invite_path_routes [OF safe(1)] by simp_all
  let ?ir = "\<lparr>i_hash = hashToken token, i_email = email, i_created = unix_sec now, i_expires = unix_sec (now + ttl), i_used = None\<rparr>"
  let ?p = "fst (joined person_id email t ?d1)"
  let ?dev = "\<lparr>de_ID = device_id, de_PersonID = pe_ID ?p, de_PubKey = pub, de_Label = eq_Label req, de_CreatedAt = t\<rparr>"
  let ?d2 = "(used_invite token t ?d1)\<lparr>persons := snd (joined person_id email t ?d1),
      devices := devices ?d1 @ [new_device device_id (pe_ID ?p) pub (eq_Label req) t]\<rparr>"
  let ?s2 = "?s1\<lparr>st_db := ?d2\<rparr>"
  have h1: "healthy ?s1" using assms(1) by (simp add: healthy_def)
  have i1: "relay_inv (st_db ?s1)" using made(2) by simp
  have ir: "?ir \<in> set (invites (st_db ?s1))" "live_invite token t ?ir"
    using time(1) by (simp_all add: invited_def live_invite_def)
  have "Enroll person_id device_id token pub (eq_Label req) t ?s1 = (Inr (?p, ?dev), ?s2)"
    unfolding Enroll_Inr [OF h1 i1]
    using request ids by (intro bexI [OF _ ir(1)] conjI ir(2)) (simp_all add: invited_def person_id_free_def)
  moreover obtain cred where cred: "MintDeviceCredential (as_jwt sv) (as_issuer sv) (pe_ID ?p) device_id minted = Inr cred" "cred \<noteq> []"
    using sign by blast
  ultimately have enrolled: "handleEnroll sv person_id device_id token body t minted ?s1 =
      (Enrolled \<lparr>er_PersonID = pe_ID ?p, er_DeviceID = device_id, er_BaseURL = as_base sv, er_DeviceCredential = cred\<rparr>, ?s2)"
    using request by (simp add: handleEnroll_def PublicKeySize_def)
  have member: "\<exists>p \<in> set (persons (st_db ?s2)). p_id p = pe_ID ?p \<and> p_email p = email"
    by (auto simp: joined_def split: option.splits dest!: select_first_Some)
  obtain dev where dev: "ActiveDeviceByID device_id ?d2 = Inr dev" "de_PersonID dev = pe_ID ?p"
    using new_device_active [OF ids(2), of ?d2 "pe_ID ?p" pub "eq_Label req" t] by (auto simp: invited_def)
  have "verify_socket sv cred t' = Inr (pe_ID ?p, device_id)"
    using device_credential_verifies [OF assms(3) cred(1)] time(2) by (simp add: verify_socket_def)
  then have "fst (handleWS (verify_socket sv) True (''Bearer '' @ cred) t' w) = WsConnected (pe_ID ?p) device_id (ws_next w)"
    if "ws_store w = ?s2" for w
    using credential_connects [OF _ cred(2), of "verify_socket sv" t' "pe_ID ?p" device_id w dev] dev that h1 by (simp add: healthy_def)
  then show ?thesis using cmd route enrolled member
    by (intro exI [of _ ?s1] exI [of _ ?link] exI [of _ token] exI [of _ ?s2]
      exI [of _ "\<lparr>er_PersonID = pe_ID ?p, er_DeviceID = device_id, er_BaseURL = as_base sv, er_DeviceCredential = cred\<rparr>"]) auto
qed

text \<open>Carol is invited at second 0 and enrolls the key of the sample request five seconds later.\<close>

definition carol_jwt :: jwt_lib where
  "carol_jwt = \<lparr>jwt_sign = (\<lambda>_ c. if c = device_claims sample_issuer (jc_Subject c) ''dc'' 0 then Some (''d'' @ jc_Subject c) else None),
     jwt_parse = (\<lambda>_ _ now tok. case tok of
         [] \<Rightarrow> None
       | x # p \<Rightarrow> let c = device_claims sample_issuer p ''dc'' 0 in if x = CHR ''d'' \<and> in_time c now then Some c else None)\<rparr>"

lemma carol_jwt_documented: "jwt_documented carol_jwt sample_issuer"
  unfolding jwt_documented_def
proof (intro allI impI)
  fix c tok now
  assume "jwt_sign carol_jwt (is_priv sample_issuer) c = Some tok"
  then have c: "device_claims sample_issuer (jc_Subject c) ''dc'' 0 = c" "tok = ''d'' @ jc_Subject c"
    by (simp_all add: carol_jwt_def split: if_splits)
  moreover have "jc_Issuer c = is_audience sample_issuer" "is_audience sample_issuer \<in> set (jc_Audience c)"
    using minted_claims(3,4) [of sample_issuer "jc_Subject c" "''dc''" 0] unfolding c(1) by simp_all
  ultimately show "jwt_parse carol_jwt (is_pub sample_issuer) (is_audience sample_issuer) now tok =
      (if jc_Issuer c = is_audience sample_issuer \<and> is_audience sample_issuer \<in> set (jc_Audience c) \<and> in_time c now then Some c else None)"
    by (simp add: carol_jwt_def Let_def del: minted_claims)
qed

theorem invite_to_socket_witness:
  "\<exists>s1 link token resp s2.
    cmdInvite (\<lambda>_. []) (\<lambda>_. True) [''c@x'', ''-base-url'', ''https://r/'', ''-ttl'', ''24h''] ''abc'' 0 sample_store =
      (Inr (link @ [CHR 0x0A]), s1) \<and> NewServer ''POST'' (request_path link) = EnrollAt token \<and>
    handleEnroll (sample_sv\<lparr>as_jwt := carol_jwt\<rparr>) ''carol'' ''dc'' token sample_body 5000000000 0 s1 = (Enrolled resp, s2) \<and>
    fst (handleWS (verify_socket (sample_sv\<lparr>as_jwt := carol_jwt\<rparr>)) True (''Bearer '' @ er_DeviceCredential resp) 6000000000 (sample_server s2)) =
      WsConnected (er_PersonID resp) ''dc'' 1"
proof -
  let ?sv = "sample_sv\<lparr>as_jwt := carol_jwt\<rparr>"
  have ttl: "ParseDuration ''24h'' = Some (24 * hour)" by code_simp
  have doc: "jwt_documented (as_jwt ?sv) (as_issuer ?sv)" by (simp add: carol_jwt_documented)
  have sign: "\<forall>p. \<exists>tok. MintDeviceCredential (as_jwt ?sv) (as_issuer ?sv) p ''dc'' 0 = Inr tok \<and> tok \<noteq> []"
  proof
    fix p
    have "jc_Subject (device_claims sample_issuer p ''dc'' 0) = p" by (simp add: device_claims_def)
    then show "\<exists>tok. MintDeviceCredential (as_jwt ?sv) (as_issuer ?sv) p ''dc'' 0 = Inr tok \<and> tok \<noteq> []"
      by (simp add: MintDeviceCredential_def token_sign_def carol_jwt_def)
  qed
  have new: "sample_key \<notin> d_pubkey ` set (devices (st_db sample_store))" "person_id_free ''carol'' ''c@x'' (st_db sample_store)"
    "''dc'' \<notin> d_id ` set (devices (st_db sample_store))" "hashToken (RawURLEncoding_Encode ''abc'') \<notin> i_hash ` set (invites (st_db sample_store))"
    by (simp_all add: sample_simps person_id_free_def sample_key_def numeral_eq_Suc)
  have base: "''https://r/'' = ''https'' @ ''://'' @ ''r'' @ replicate 1 (CHR ''/'')" by simp
  have origin: "origin ''https'' ''r''" by (simp add: origin_def)
  have run: "\<exists>s1 link token resp s2.
    cmdInvite (\<lambda>_. []) (\<lambda>_. True) [''c@x'', ''-base-url'', ''https://r/'', ''-ttl'', ''24h''] ''abc'' 0 sample_store =
      (Inr (link @ [CHR 0x0A]), s1) \<and>
    prefix (''https'' @ ''://'' @ ''r'' @ ''/'') link \<and> NewServer ''POST'' (request_path link) = EnrollAt token \<and>
    handleEnroll ?sv ''carol'' ''dc'' token sample_body 5000000000 0 s1 = (Enrolled resp, s2) \<and>
    (\<exists>p \<in> set (persons (st_db s2)). p_id p = er_PersonID resp \<and> p_email p = ''c@x'') \<and>
    (\<forall>w. ws_store w = s2 \<longrightarrow> fst (handleWS (verify_socket ?sv) True (''Bearer '' @ er_DeviceCredential resp) 6000000000 w) =
       WsConnected (er_PersonID resp) ''dc'' (ws_next w))"
  proof (rule invite_to_socket [OF sample_healthy(1) sample_store_inv doc _ _ ttl _ base origin _ new(4) sample_request(1) _ sample_request(3) new(1) new(2) new(3) _ _ sign])
    show "StdEncoding_Decode (eq_PubKey \<lparr>eq_PubKey = StdEncoding_Encode sample_key, eq_Label = []\<rparr>) = Some sample_key"
      by (simp only: sample_request enroll_request.simps)
  qed (simp_all add: unix_sec_def deviceCredTTL_def)
  then obtain s1 link token resp s2 where r:
    "cmdInvite (\<lambda>_. []) (\<lambda>_. True) [''c@x'', ''-base-url'', ''https://r/'', ''-ttl'', ''24h''] ''abc'' 0 sample_store =
      (Inr (link @ [CHR 0x0A]), s1)" "NewServer ''POST'' (request_path link) = EnrollAt token"
    "handleEnroll ?sv ''carol'' ''dc'' token sample_body 5000000000 0 s1 = (Enrolled resp, s2)"
    "\<forall>w. ws_store w = s2 \<longrightarrow> fst (handleWS (verify_socket ?sv) True (''Bearer '' @ er_DeviceCredential resp) 6000000000 w) =
       WsConnected (er_PersonID resp) ''dc'' (ws_next w)" by blast
  have "ws_store (sample_server s2) = s2" "ws_next (sample_server s2) = 1" by (simp_all add: sample_server_def)
  then show ?thesis using r by (intro exI [of _ s1] exI [of _ link] exI [of _ token] exI [of _ resp] exI [of _ s2]) simp
qed

section \<open>The retention pass\<close>

definition swept :: "config \<Rightarrow> instant \<Rightarrow> database \<Rightarrow> database" where
  "swept cfg now d =
     (let pol = \<lparr>AckGrace = c_AckGrace cfg, HardTTL = c_HardTTL cfg\<rparr>;
          d1 = swept_messages pol now d;
          d2 = d1\<lparr>drafts := delete_where (decided_by (unix_sec (now - c_HardTTL cfg))) (drafts d1)\<rparr>;
          d3 = d2\<lparr>tombstones := delete_where (stale_tombstone \<lparr>MaxAge = c_MaxAge cfg, MaxSkew = c_MaxSkew cfg\<rparr> now) (tombstones d2)\<rparr>
      in swept_oauth now d3)"

lemma sweepOnce_eq:
  assumes "healthy s" "relay_inv (st_db s)"
  shows "\<exists>counts. sweepOnce cfg now s = (counts, s\<lparr>st_db := swept cfg now (st_db s)\<rparr>)" "relay_inv (swept cfg now (st_db s))"
proof -
  let ?pol = "\<lparr>AckGrace = c_AckGrace cfg, HardTTL = c_HardTTL cfg\<rparr>" and ?fresh = "\<lparr>MaxAge = c_MaxAge cfg, MaxSkew = c_MaxSkew cfg\<rparr>"
  let ?d1 = "swept_messages ?pol now (st_db s)"
  let ?d2 = "?d1\<lparr>drafts := delete_where (decided_by (unix_sec (now - c_HardTTL cfg))) (drafts ?d1)\<rparr>"
  let ?d3 = "?d2\<lparr>tombstones := delete_where (stale_tombstone ?fresh now) (tombstones ?d2)\<rparr>"
  have i1: "relay_inv ?d1" by (rule swept_messages_inv [OF assms(2)])
  have i2: "relay_inv ?d2" by (rule delete_drafts_inv [OF i1])
  have p3: "pruneTx ?fresh now ?d2 = Inr (rows_affected (stale_tombstone ?fresh now) (tombstones ?d2), ?d3)"
    by (rule pruneTx_eq [OF relay_inv_schema [OF i2]])
  have i3: "relay_inv ?d3" by (rule prune_tx.keeps [OF i2 p3])
  have h: "healthy (s\<lparr>st_db := d\<rparr>)" for d using assms(1) by (simp add: healthy_def)
  have m: "SweepMessages ?pol now s = (Inr (rows_affected (sweepable ?pol now (st_db s)) (messages (st_db s))), s\<lparr>st_db := ?d1\<rparr>)"
    using assms(1) by (simp add: SweepMessages_def writeTx_healthy sweepMessagesTx_eq [OF relay_inv_schema [OF assms(2)]])
  have d: "SweepDrafts ?pol now (s\<lparr>st_db := ?d1\<rparr>) =
      (Inr (rows_affected (decided_by (unix_sec (now - c_HardTTL cfg))) (drafts ?d1)), s\<lparr>st_db := ?d2\<rparr>)"
    using h by (simp add: SweepDrafts_def writeTx_healthy sweepDraftsTx_eq [OF relay_inv_schema [OF i1]])
  have p: "PruneTombstones ?fresh now (s\<lparr>st_db := ?d2\<rparr>) =
      (Inr (rows_affected (stale_tombstone ?fresh now) (tombstones ?d2)), s\<lparr>st_db := ?d3\<rparr>)"
    using h p3 by (simp add: PruneTombstones_def writeTx_healthy)
  obtain n where n: "sweepOAuthTx now ?d3 = Inr (n, swept_oauth now ?d3)"
    using sweepOAuthTx_eq [OF relay_inv_schema [OF i3], of now] by blast
  then have o': "SweepOAuth now (s\<lparr>st_db := ?d3\<rparr>) = (Inr n, s\<lparr>st_db := swept_oauth now ?d3\<rparr>)"
    using h by (simp add: SweepOAuth_def writeTx_healthy)
  have sw: "swept cfg now (st_db s) = swept_oauth now ?d3" by (simp add: swept_def Let_def)
  show "\<exists>counts. sweepOnce cfg now s = (counts, s\<lparr>st_db := swept cfg now (st_db s)\<rparr>)"
    unfolding sweepOnce_def Let_def m prod.case d p o' sw by blast
  show "relay_inv (swept cfg now (st_db s))" unfolding sw by (rule sweep_oauth_tx.keeps [OF i3 n])
qed

text \<open>What the pass leaves of the tables of the authorization server, and that what is live there works as before.\<close>

lemma swept_oauth_tables:
  "oauth_refresh (swept cfg now d) = filter (\<lambda>r. unix_sec now < r_expires r) (oauth_refresh d)"
  "oauth_codes (swept cfg now d) = filter (\<lambda>r. unix_sec now < k_expires r) (oauth_codes d)"
  "oauth_clients (swept cfg now d) = filter (\<lambda>c. \<not> abandoned now d c) (oauth_clients d)"
  by (simp_all add: swept_def swept_oauth_def swept_messages_def abandoned_def [abs_def] Let_def)

lemma not_abandoned:
  "\<not> abandoned now d c \<longleftrightarrow> unix_sec (now - 30 * 24 * hour) < c_created c \<or>
     (\<exists>r \<in> set (oauth_refresh d). r_client r = c_id c \<and> unix_sec now < r_expires r)"
  by (auto simp: abandoned_def oauthClientTTL_def not_le)

lemma swept_client:
  assumes "\<And>c. c \<in> set (oauth_clients d) \<Longrightarrow> c_id c = i \<Longrightarrow> \<not> abandoned now d c"
  shows "ClientByID i (swept cfg now d) = ClientByID i d"
proof -
  have "select_first (\<lambda>c. c_id c = i) (oauth_clients (swept cfg now d)) = select_first (\<lambda>c. c_id c = i) (oauth_clients d)"
    unfolding swept_oauth_tables using assms by (intro select_first_filter) auto
  then show ?thesis by (simp add: ClientByID_def)
qed

lemma kept_client:
  assumes "schema_ok d" "c \<in> set (oauth_clients d)" "\<not> abandoned now d c"
  shows "c \<in> set (oauth_clients (swept cfg now d)) \<and> ClientByID (c_id c) (swept cfg now d) = ClientByID (c_id c) d"
proof -
  have "c' = c" if "c' \<in> set (oauth_clients d)" "c_id c' = c_id c" for c'
    using that assms(2) distinct_key_unique [of c_id "oauth_clients d" c' c] schema_okD(10) [OF assms(1)] by (simp add: clients_ok_def)
  then show ?thesis using assms(2,3) by (auto simp: swept_oauth_tables intro: swept_client)
qed

lemma swept_refresh:
  assumes "healthy s" "schema_ok (st_db s)" "schema_ok (swept cfg now (st_db s))" "now \<le> t"
    and "r \<in> set (oauth_refresh (st_db s))" "live_refresh token t r"
  shows "fst (ConsumeRefreshToken token t (s\<lparr>st_db := swept cfg now (st_db s)\<rparr>)) = fst (ConsumeRefreshToken token t s)"
proof -
  let ?s' = "s\<lparr>st_db := swept cfg now (st_db s)\<rparr>"
  have "r \<in> set (oauth_refresh (st_db ?s'))"
    using assms(5,6) unix_sec_mono [OF assms(4)] by (auto simp: swept_oauth_tables live_refresh_def)
  moreover have "healthy ?s'" using assms(1) by (simp add: healthy_def)
  ultimately show ?thesis
    using ConsumeRefreshToken_live [of ?s' r token t] ConsumeRefreshToken_live [OF assms(1,2,5,6)] assms(3,6) by simp
qed

text \<open>
  C20: a retention pass is safe. It runs all four sweeps, keeps the relay's invariant, and deletes no more than
  it may. Accounts, devices, invites, threads, grants and drafts pending review stay. Of the messages
  exactly those stay that are younger than the hard limit and not acknowledged by all their devices before the grace
  period; an unacknowledged message stays in every inbox until the hard limit. A replay that could still be
  fresh is still recognised. Every authorization code reads as before, at any later time. Exactly the
  refresh tokens that have not expired stay, used ones too, and a live one is exchanged as before. A
  client younger than 30 days, or with a refresh token that has not expired, stays registered and reads as
  before.
\<close>

theorem sweepOnce_safe:
  assumes "healthy s" "relay_inv (st_db s)" "now \<le> t"
  shows "case sweepOnce cfg now s of (counts, s') \<Rightarrow> healthy s' \<and> relay_inv (st_db s') \<and>
    persons (st_db s') = persons (st_db s) \<and> devices (st_db s') = devices (st_db s) \<and> invites (st_db s') = invites (st_db s) \<and>
    threads (st_db s') = threads (st_db s) \<and> grants (st_db s') = grants (st_db s) \<and>
    filter (\<lambda>r. dr_state r = PendingReview) (drafts (st_db s')) = filter (\<lambda>r. dr_state r = PendingReview) (drafts (st_db s)) \<and>
    messages (st_db s') = filter (\<lambda>m. unix_sec (now - c_HardTTL cfg) < m_received m \<and>
      ((\<forall>dl \<in> set (deliveries (st_db s)). dl_message dl \<noteq> m_id m) \<or>
       (\<exists>dl \<in> set (deliveries (st_db s)). dl_message dl = m_id m \<and>
          (case dl_acked dl of None \<Rightarrow> True | Some a \<Rightarrow> unix_sec (now - c_AckGrace cfg) < a)))) (messages (st_db s)) \<and>
    {i \<in> set (Inbox dev (st_db s)). unix_sec (now - c_HardTTL cfg) < unix_sec (ii_ReceivedAt i)} \<subseteq> set (Inbox dev (st_db s')) \<and>
    (\<forall>sent i. fresh_at \<lparr>MaxAge = c_MaxAge cfg, MaxSkew = c_MaxSkew cfg\<rparr> t sent \<and> \<lparr>ts_id = i, ts_sent = unix_sec sent\<rparr> \<in> set (tombstones (st_db s)) \<longrightarrow>
       tombstoneSeen (st_db s') i) \<and>
    AuthCodeByCode code t (st_db s') = AuthCodeByCode code t (st_db s) \<and>
    oauth_refresh (st_db s') = filter (\<lambda>r. unix_sec now < r_expires r) (oauth_refresh (st_db s)) \<and>
    (\<forall>r \<in> set (oauth_refresh (st_db s)). live_refresh token t r \<longrightarrow>
       fst (ConsumeRefreshToken token t s') = fst (ConsumeRefreshToken token t s)) \<and>
    (\<forall>c \<in> set (oauth_clients (st_db s)). unix_sec (now - 30 * 24 * hour) < c_created c \<or>
         (\<exists>r \<in> set (oauth_refresh (st_db s)). r_client r = c_id c \<and> unix_sec now < r_expires r) \<longrightarrow>
       c \<in> set (oauth_clients (st_db s')) \<and> ClientByID (c_id c) (st_db s') = ClientByID (c_id c) (st_db s))"
proof -
  let ?pol = "\<lparr>AckGrace = c_AckGrace cfg, HardTTL = c_HardTTL cfg\<rparr>" and ?fresh = "\<lparr>MaxAge = c_MaxAge cfg, MaxSkew = c_MaxSkew cfg\<rparr>"
  let ?d = "st_db s" and ?d' = "swept cfg now (st_db s)"
  obtain counts where run: "sweepOnce cfg now s = (counts, s\<lparr>st_db := ?d'\<rparr>)" using sweepOnce_eq(1) [OF assms(1,2)] by blast
  note inv' = sweepOnce_eq(2) [OF assms(1,2), of cfg now]
  note parts = swept_def swept_oauth_def swept_messages_def Let_def
  have same: "persons ?d' = persons ?d" "devices ?d' = devices ?d" "invites ?d' = invites ?d" "threads ?d' = threads ?d" "grants ?d' = grants ?d"
    by (simp_all add: parts)
  have pending: "filter (\<lambda>r. dr_state r = PendingReview) (drafts ?d') = filter (\<lambda>r. dr_state r = PendingReview) (drafts ?d)"
    by (auto simp: parts delete_where_def decided_by_def draft_state_defs intro!: filter_cong)
  have "Inbox dev ?d' = Inbox dev (swept_messages ?pol now ?d)" "messages ?d' = messages (swept_messages ?pol now ?d)"
    by (simp_all add: parts Inbox_def)
  moreover have "SweepMessages ?pol now s = (Inr (rows_affected (sweepable ?pol now ?d) (messages ?d)), s\<lparr>st_db := swept_messages ?pol now ?d\<rparr>)"
    using assms(1) by (simp add: SweepMessages_def writeTx_healthy sweepMessagesTx_eq [OF relay_inv_schema [OF assms(2)]])
  ultimately have inbox: "{i \<in> set (Inbox dev ?d). unix_sec (now - c_HardTTL cfg) < unix_sec (ii_ReceivedAt i)} \<subseteq> set (Inbox dev ?d')"
    and kept: "messages ?d' = filter (\<lambda>m. unix_sec (now - c_HardTTL cfg) < m_received m \<and>
      ((\<forall>dl \<in> set (deliveries ?d). dl_message dl \<noteq> m_id m) \<or>
       (\<exists>dl \<in> set (deliveries ?d). dl_message dl = m_id m \<and>
          (case dl_acked dl of None \<Rightarrow> True | Some a \<Rightarrow> unix_sec (now - c_AckGrace cfg) < a)))) (messages ?d)"
    using SweepMessages_spec [OF assms(1,2), of ?pol now dev, unfolded retention_policy.select_convs] by auto
  have seen: "tombstoneSeen ?d' i" if "fresh_at ?fresh t sent" "\<lparr>ts_id = i, ts_sent = unix_sec sent\<rparr> \<in> set (tombstones ?d)" for sent i
  proof -
    have "\<not> stale_tombstone ?fresh now \<lparr>ts_id = i, ts_sent = unix_sec sent\<rparr>"
      using fresh_not_stale [OF assms(3) that(1)] by (simp add: stale_tombstone_def)
    then have "\<lparr>ts_id = i, ts_sent = unix_sec sent\<rparr> \<in> set (tombstones ?d')" using that(2) by (simp add: parts)
    then show ?thesis by (force simp: tombstoneSeen_iff)
  qed
  have "select_first (live_code code t) (oauth_codes ?d') = select_first (live_code code t) (oauth_codes ?d)"
    unfolding swept_oauth_tables using unix_sec_mono [OF assms(3)] by (intro select_first_filter) (auto simp: live_code_def)
  then have codes: "AuthCodeByCode code t ?d' = AuthCodeByCode code t ?d" by (simp add: AuthCodeByCode_def)
  have st: "st_db (s\<lparr>st_db := ?d'\<rparr>) = ?d'" by simp
  have "healthy (s\<lparr>st_db := ?d'\<rparr>)" using assms(1) by (simp add: healthy_def)
  then show ?thesis
    unfolding run prod.case st
    using inv' same pending kept inbox seen codes swept_oauth_tables(1)
      swept_refresh [OF assms(1) relay_inv_schema [OF assms(2)] relay_inv_schema [OF inv'] assms(3)]
      kept_client [OF relay_inv_schema [OF assms(2)]] not_abandoned [of now ?d]
    by (intro conjI) (assumption | blast)+
qed

theorem sweepOnce_safe_witness:
  "(case sweepOnce sample_config 5000000000 sample_store of (counts, s') \<Rightarrow> relay_inv (st_db s') \<and> set (Inbox ''db'' sample_db) \<subseteq> set (Inbox ''db'' (st_db s'))) \<and>
   (case sweepOnce sample_config 5 refresh_store of (counts, s') \<Rightarrow> oauth_refresh (st_db s') = [sample_refresh])"
proof
  have "unix_sec (5000000000 - c_HardTTL sample_config) < unix_sec (ii_ReceivedAt i)" if "i \<in> set (Inbox ''db'' sample_db)" for i
    using that by (auto simp: Inbox_def sample_simps sample_config_def unix_sec_def from_unix_def)
  then have "{i \<in> set (Inbox ''db'' sample_db). unix_sec (5000000000 - c_HardTTL sample_config) < unix_sec (ii_ReceivedAt i)} = set (Inbox ''db'' sample_db)"
    by blast
  then show "case sweepOnce sample_config 5000000000 sample_store of (counts, s') \<Rightarrow> relay_inv (st_db s') \<and> set (Inbox ''db'' sample_db) \<subseteq> set (Inbox ''db'' (st_db s'))"
    using sweepOnce_safe [OF sample_healthy(1) sample_store_inv order_refl, where cfg = sample_config and now = 5000000000 and dev = "''db''" and code = "[]" and token = "[]"]
    by (simp split: prod.splits)
  have "filter (\<lambda>r. unix_sec 5 < r_expires r) (oauth_refresh (st_db refresh_store)) = [sample_refresh]"
    by (simp add: refresh_store_def sample_refresh_def unix_sec_def)
  then show "case sweepOnce sample_config 5 refresh_store of (counts, s') \<Rightarrow> oauth_refresh (st_db s') = [sample_refresh]"
    using sweepOnce_safe [OF refresh_store_ok order_refl, where cfg = sample_config and now = 5 and dev = "''db''" and code = "[]" and token = "[]"]
    by (simp split: prod.splits)
qed

section \<open>Who reaches the tools\<close>

lemma verifier_access: "verifier lib iss tok now = Inr info \<Longrightarrow> VerifyAccess lib iss tok now = Inr (ti_UserID info, ti_client_type info)"
  by (auto simp: verifier_def VerifyAccess_def split: sum.splits if_splits)

lemma bearer_verified:
  assumes "bearer_documented rb" "rb (verifier lib iss) header now = Some info"
  shows "\<exists>tok. VerifyAccess lib iss tok now = Inr (ti_UserID info, ti_client_type info)"
  using assms verifier_access unfolding bearer_documented_def by blast

lemma bearer_from_header_documented: "bearer_from_header rb \<Longrightarrow> bearer_documented rb"
  unfolding bearer_from_header_def bearer_documented_def by blast



section \<open>Panics\<close>

text \<open>
  A panicking handler never leaves the server without an answer and its request is logged. Before
  anything was written the client gets the 500 the log reports; a handler that had written a status
  keeps that status for the client while the log line says 500.
\<close>

lemma recoverPanic_answers:
  "\<not> snd (recoverPanic h) \<and> logRequests meth path (recoverPanic h) \<noteq> None \<and>
   (h = ([], True) \<longrightarrow> sent_status (fst (recoverPanic h)) = 500 \<and> logRequests meth path (recoverPanic h) = Some (meth, path, 500))"
  by (cases h) (auto simp: recoverPanic_def logRequests_def httpError_def writeJSON_def recorded_status_def)

lemma recoverPanic_log_differs:
  "sent_status (fst (recoverPanic (writeJSON 200 b, True))) = 200 \<and>
   logRequests meth path (recoverPanic (writeJSON 200 b, True)) = Some (meth, path, 500)"
  by (simp add: recoverPanic_def logRequests_def httpError_def writeJSON_def recorded_status_def)

section \<open>Registration and discovery\<close>

text \<open>
  C23: registration. A client is registered only with at least one redirect URI, all of them absolute
  https URLs with a host or http URLs of the loopback; it then reads back under its id with exactly
  these URIs (as valid UTF-8), other clients are untouched, and a refusal changes nothing.
\<close>

theorem register_safe:
  assumes "relay_inv (st_db s)"
  shows "case handleRegister sv body now new_id s of (r, s') \<Rightarrow> relay_inv (st_db s') \<and>
    (case r of
       Registered meta i \<Rightarrow> body = Some meta \<and> i = new_id \<and> cm_RedirectURIs meta \<noteq> [] \<and>
         (\<forall>uri \<in> set (cm_RedirectURIs meta). \<exists>u. Parse (as_ip6 sv) uri = Some u \<and> u_Fragment u = [] \<and>
            (u_Scheme u = ''https'' \<and> u_Host u \<noteq> [] \<or> u_Scheme u = ''http'' \<and> Hostname u \<in> {''localhost'', ''127.0.0.1'', ''::1''})) \<and>
         ClientByID i (st_db s') = Inr \<lparr>cl_ID = i, cl_RedirectURIs = map to_valid (cm_RedirectURIs meta), cl_Name = cm_ClientName meta,
            cl_CreatedAt = from_unix (unix_sec now)\<rparr> \<and>
         (\<forall>j. j \<noteq> i \<longrightarrow> ClientByID j (st_db s') = ClientByID j (st_db s))
     | RegisterError code desc \<Rightarrow> s' = s
     | _ \<Rightarrow> False)"
proof -
  have atomic: "RegisterClient new_id uris name now s = (Inl e, s') \<Longrightarrow> s' = s" for uris name e s'
    by (auto simp: RegisterClient_def writeTx_def split: if_splits sum.splits prod.splits)
  consider "body = None" | meta where "body = Some meta" "cm_RedirectURIs meta = []"
    | meta where "body = Some meta" "cm_RedirectURIs meta \<noteq> []" "\<not> list_all (validRedirectURI (as_ip6 sv)) (cm_RedirectURIs meta)"
    | meta where "body = Some meta" "cm_RedirectURIs meta \<noteq> []" "list_all (validRedirectURI (as_ip6 sv)) (cm_RedirectURIs meta)"
    by (cases body) auto
  then show ?thesis
  proof cases
    case 4
    have ok: "\<exists>u. Parse (as_ip6 sv) uri = Some u \<and> u_Fragment u = [] \<and>
        (u_Scheme u = ''https'' \<and> u_Host u \<noteq> [] \<or> u_Scheme u = ''http'' \<and> Hostname u \<in> {''localhost'', ''127.0.0.1'', ''::1''})"
      if "uri \<in> set (cm_RedirectURIs meta)" for uri
    proof -
      have "validRedirectURI (as_ip6 sv) uri" using 4(3) that by (simp add: list_all_iff)
      then show ?thesis by (auto simp: validRedirectURI_def Let_def split: option.splits if_splits)
    qed
    obtain x s1 where reg: "RegisterClient new_id (cm_RedirectURIs meta) (cm_ClientName meta) now s = (x, s1)" by fastforce
    show ?thesis
    proof (cases x)
      case (Inl e)
      then show ?thesis using 4 reg atomic assms by (auto simp: handleRegister_def)
    next
      case (Inr i)
      show ?thesis using 4(1-2) 4(3) reg Inr RegisterClient_roundtrip [OF assms reg [unfolded Inr]] ok by (auto simp: handleRegister_def)
    qed
  qed (use assms in \<open>simp_all add: handleRegister_def\<close>)
qed

theorem register_safe_witness:
  "\<exists>e desc. handleRegister sample_sv (Some \<lparr>cm_RedirectURIs = [''http://evil.example/cb''], cm_ClientName = ''n''\<rparr>) 0 ''c1'' sample_store =
     (RegisterError e desc, sample_store)"
proof -
  let ?m = "\<lparr>cm_RedirectURIs = [''http://evil.example/cb''], cm_ClientName = ''n''\<rparr>"
  obtain r s' where run: "handleRegister sample_sv (Some ?m) 0 ''c1'' sample_store = (r, s')" by fastforce
  have "Parse (\<lambda>_. False) ''http://evil.example/cb'' = Some \<lparr>u_Scheme = ''http'', u_Opaque = [], u_Host = ''evil.example'', u_Fragment = []\<rparr>"
    "Hostname \<lparr>u_Scheme = ''http'', u_Opaque = [], u_Host = ''evil.example'', u_Fragment = []\<rparr> = ''evil.example''" by code_simp+
  then show ?thesis
    using register_safe [OF sample_store_inv, where sv = sample_sv and body = "Some ?m" and now = 0 and new_id = "''c1''"] run
    by (cases r) auto
qed

text \<open>Every endpoint the metadata publishes is one the mux serves, with the method the flow uses.\<close>

lemma metadata_served:
  "am_AuthorizationEndpoint (AuthServerMetadata base) = base @ AuthorizePath \<and> NewServer ''GET'' AuthorizePath = AuthorizeForm \<and>
   NewServer ''POST'' AuthorizePath = AuthorizeSubmit \<and>
   am_TokenEndpoint (AuthServerMetadata base) = base @ TokenPath \<and> NewServer ''POST'' TokenPath = TokenAt \<and>
   am_RegistrationEndpoint (AuthServerMetadata base) = base @ RegisterPath \<and> NewServer ''POST'' RegisterPath = RegisterAt \<and>
   am_JWKSURI (AuthServerMetadata base) = base @ JWKSPath \<and> NewServer ''GET'' JWKSPath = JWKS"
proof (intro conjI)
  show "NewServer ''GET'' AuthorizePath = AuthorizeForm" by code_simp
  show "NewServer ''POST'' AuthorizePath = AuthorizeSubmit" by code_simp
  show "NewServer ''POST'' TokenPath = TokenAt" by code_simp
  show "NewServer ''POST'' RegisterPath = RegisterAt" by code_simp
  show "NewServer ''GET'' JWKSPath = JWKS" by code_simp
qed (simp_all add: AuthServerMetadata_def)

text \<open>A fragment that is empty is not seen: the check looks at the parsed fragment only.\<close>

lemma trailing_hash_accepted: "validRedirectURI (\<lambda>_. False) ''https://a/#''"
  by code_simp

end
