(* ===== verification/Relay.thy ===== *)
theory Relay
  imports ServerFacts
begin

text \<open>
  The running relay as one machine: what \<open>Run\<close> of \<open>server.go\<close> starts and stops. Requests,
  the goroutines of the sockets, the retention ticker, the revocation ticker and the operator's
  commands run concurrently; what is atomic is one store operation (a transaction or a query), one
  operation on the hub, one write to a socket. A step of the machine is one of these, so a run is
  any interleaving of them. \<open>RelayRuns\<close> shows that the handlers, taken as a whole, are runs of
  such steps.
\<close>

section \<open>Tickers\<close>

text \<open>
  The loops of the two background goroutines: \<open>ticks\<close> are the times of the ticks received before
  the context ends.
\<close>

definition runSweeper :: "config \<Rightarrow> instant list \<Rightarrow> store \<Rightarrow> store" where
  "runSweeper cfg ticks s = fold (\<lambda>now s. snd (sweepOnce cfg now s)) ticks s"

definition reconcileRevocations :: "nat \<Rightarrow> ws_server \<Rightarrow> ws_server" where
  "reconcileRevocations ticks w = (severRevoked ^^ ticks) w"

section \<open>Who runs which operation\<close>

record relay_env =
  re_server :: as_server
  re_bearer :: bearer
  re_config :: config
  re_uuid :: "string \<Rightarrow> bool"

definition relay_fresh :: "relay_env \<Rightarrow> freshness" where
  "relay_fresh env = \<lparr>MaxAge = c_MaxAge (re_config env), MaxSkew = c_MaxSkew (re_config env)\<rparr>"

definition relay_policy :: "relay_env \<Rightarrow> retention_policy" where
  "relay_policy env = \<lparr>AckGrace = c_AckGrace (re_config env), HardTTL = c_HardTTL (re_config env)\<rparr>"

text \<open>The middleware let a request with this header through at this time, for this person.\<close>

definition authenticated :: "relay_env \<Rightarrow> string \<Rightarrow> instant \<Rightarrow> string \<Rightarrow> bool" where
  "authenticated env header now person \<longleftrightarrow>
     (\<exists>ct. PersonFromContext (re_bearer env (verifier (as_jwt (re_server env)) (as_issuer (re_server env))) header now) = Some (person, ct))"

text \<open>
  A tool call acts for a person, with the header and the time of the request; a socket for its
  device. \<open>Reconciler\<close> is the loop of the revocation ticker, \<open>Main\<close> the shutdown at the end of \<open>Run\<close>,
  \<open>Environment\<close> what happens to the database connection.
\<close>

datatype actor =
    Tool string string instant
  | Enrollment
  | AuthServer
  | Socket string
  | Sweeper
  | Operator
  | Reconciler
  | Main
  | Environment

fun may_run :: "relay_env \<Rightarrow> actor \<Rightarrow> store_op \<Rightarrow> bool" where
  "may_run env (Tool p header t) op = (authenticated env header t p \<and>
     (case op of
        OpApproveMessage q _ \<Rightarrow> q = p | OpDeclineMessage q _ \<Rightarrow> q = p
      | OpSetGrant _ _ q _ \<Rightarrow> q = p | OpRevokeGrant _ q _ \<Rightarrow> q = p
      | OpStartThread _ q _ \<Rightarrow> q = p | OpCreateDraft _ q _ \<Rightarrow> q = p
      | OpRelease q _ _ \<Rightarrow> q = p | OpReleaseViaGrant _ q \<Rightarrow> q = p | OpDiscard q _ \<Rightarrow> q = p
      | _ \<Rightarrow> False))"
| "may_run env Enrollment op = (case op of OpEnroll _ _ _ _ _ \<Rightarrow> True | _ \<Rightarrow> False)"
| "may_run env AuthServer op = (case op of
        OpCreateCode _ _ _ \<Rightarrow> True | OpConsumeCode _ \<Rightarrow> True | OpCreateRefresh _ _ _ \<Rightarrow> True
      | OpConsumeRefresh _ \<Rightarrow> True | OpRegisterClient _ _ _ \<Rightarrow> True | _ \<Rightarrow> False)"
| "may_run env (Socket dev) op = (case op of
        OpAck _ dev' \<Rightarrow> dev' = dev | OpMarkDelivered _ dev' \<Rightarrow> dev' = dev | _ \<Rightarrow> False)"
| "may_run env Sweeper op = (op \<in> {OpSweepMessages (relay_policy env), OpSweepDrafts (relay_policy env), OpPrune, OpSweepOAuth})"
| "may_run env Operator op = (case op of OpCreateInvite _ _ _ \<Rightarrow> True | OpRevokeDevice _ \<Rightarrow> True | _ \<Rightarrow> False)"
| "may_run env Reconciler op = False"
| "may_run env Main op = False"
| "may_run env Environment op = False"

section \<open>The state\<close>

text \<open>
  Beside the server: every socket ever registered with its person and device, the handshakes that
  have passed their checks but are not registered yet, and where the writer of each socket stands
  (in \<open>drainInbox\<close>: the device was found active; these frames are left; this one was written and is to
  be marked).
\<close>

datatype phase =
    Idle
  | Looked
  | Writing "inbox_item list"
  | Marking inbox_item "inbox_item list"

fun left :: "phase \<Rightarrow> inbox_item list" where
  "left Idle = []"
| "left Looked = []"
| "left (Writing its) = its"
| "left (Marking it its) = it # its"

record relay =
  r_ws :: ws_server
  r_conns :: "(conn \<times> string \<times> string) list"
  r_admitted :: "(string \<times> string) list"
  r_phase :: "conn \<Rightarrow> phase"

text \<open>A relay that has just been started on a store.\<close>

definition boot :: "store \<Rightarrow> relay" where
  "boot s = \<lparr>r_ws = \<lparr>ws_store = s, ws_hub = newHub, ws_closed = [], ws_woken = [], ws_sent = [], ws_next = 0\<rparr>,
     r_conns = [], r_admitted = [], r_phase = (\<lambda>_. Idle)\<rparr>"

abbreviation relay_db :: "relay \<Rightarrow> database" where
  "relay_db x \<equiv> st_db (ws_store (r_ws x))"

definition with_store :: "store \<Rightarrow> relay \<Rightarrow> relay" where
  "with_store s x = x\<lparr>r_ws := (r_ws x)\<lparr>ws_store := s\<rparr>\<rparr>"

definition with_ws :: "ws_server \<Rightarrow> relay \<Rightarrow> relay" where
  "with_ws w x = x\<lparr>r_ws := w\<rparr>"

definition in_phase :: "conn \<Rightarrow> phase \<Rightarrow> relay \<Rightarrow> relay" where
  "in_phase c ph x = x\<lparr>r_phase := (r_phase x)(c := ph)\<rparr>"

definition unwake :: "conn \<Rightarrow> ws_server \<Rightarrow> ws_server" where
  "unwake c w = w\<lparr>ws_woken := filter (\<lambda>x. x \<noteq> c) (ws_woken w)\<rparr>"

text \<open>The two halves of \<open>handleWS\<close>: the checks, and the registration of the accepted socket.\<close>

definition ws_check :: "(string \<Rightarrow> instant \<Rightarrow> unit + string \<times> string) \<Rightarrow> string \<Rightarrow> instant \<Rightarrow> ws_server \<Rightarrow> (string \<times> string) option" where
  "ws_check verify header now w =
     (case bearerToken header of
        None \<Rightarrow> None
      | Some tok \<Rightarrow>
        (case verify tok now of
           Inl _ \<Rightarrow> None
         | Inr (person, device) \<Rightarrow>
           (case active device w of
              Inl _ \<Rightarrow> None
            | Inr dev \<Rightarrow> if de_PersonID dev \<noteq> person then None else Some (person, device))))"

definition ws_register :: "string \<Rightarrow> string \<Rightarrow> ws_server \<Rightarrow> ws_server" where
  "ws_register person device w =
     (let c = ws_next w;
          (h, old) = hub_add person device c (ws_hub w);
          w1 = w\<lparr>ws_hub := h, ws_next := c + 1\<rparr>;
          w2 = (case old of None \<Rightarrow> w1 | Some o' \<Rightarrow> close_conn o' w1)
      in wake c w2)"

section \<open>Steps and runs\<close>

text \<open>
  An event says who acts: a store operation with its actor and time, a socket registered for a person and
  device, a frame written to a socket of a device, or a step inside the server.
\<close>

datatype relay_event =
    Ran actor store_op instant
  | Opened conn string string
  | Wrote string conn ws_frame
  | Internal actor

fun agent :: "relay_event \<Rightarrow> actor" where
  "agent (Ran a op now) = a"
| "agent (Opened c p d) = Socket d"
| "agent (Wrote d c f) = Socket d"
| "agent (Internal a) = a"

text \<open>
  A tool call signals whom it delivered something to; the handshake, the read loop and the writer of a
  socket act for its device; the reconciler closes sockets of devices that are not active.
\<close>

inductive relay_step :: "relay_env \<Rightarrow> relay \<Rightarrow> relay_event \<Rightarrow> relay \<Rightarrow> bool" for env :: relay_env where
  operation: "may_run env a op \<Longrightarrow> run_op (re_uuid env) (relay_fresh env) op now (ws_store (r_ws x)) = (r, s') \<Longrightarrow>
    relay_step env x (Ran a op now) (with_store s' x)"
| signal: "authenticated env header t q \<Longrightarrow> relay_step env x (Internal (Tool q header t)) (with_ws (Notify p (r_ws x)) x)"
| admit: "ws_check (verify_socket (re_server env)) header now (r_ws x) = Some (p, d) \<Longrightarrow>
    relay_step env x (Internal (Socket d)) (x\<lparr>r_admitted := (p, d) # r_admitted x\<rparr>)"
| enlist: "(p, d) \<in> set (r_admitted x) \<Longrightarrow> c = ws_next (r_ws x) \<Longrightarrow>
    relay_step env x (Opened c p d) (with_ws (ws_register p d (r_ws x)) x\<lparr>r_conns := (c, p, d) # r_conns x\<rparr>)"
| looked: "(c, p, d) \<in> set (r_conns x) \<Longrightarrow> r_phase x c = Idle \<Longrightarrow> c \<in> set (ws_woken (r_ws x)) \<Longrightarrow> active d (r_ws x) = Inr dev \<Longrightarrow>
    relay_step env x (Internal (Socket d)) (in_phase c Looked (with_ws (unwake c (r_ws x)) x))"
| look_fails: "(c, p, d) \<in> set (r_conns x) \<Longrightarrow> r_phase x c = Idle \<Longrightarrow> c \<in> set (ws_woken (r_ws x)) \<Longrightarrow> active d (r_ws x) = Inl e \<Longrightarrow>
    relay_step env x (Internal (Socket d)) (with_ws (close_conn c (unwake c (r_ws x))) x)"
| fetched: "(c, p, d) \<in> set (r_conns x) \<Longrightarrow> r_phase x c = Looked \<Longrightarrow>
    reads (\<lambda>db. Inr (Inbox d db)) (ws_store (r_ws x)) = Inr items \<Longrightarrow>
    relay_step env x (Internal (Socket d)) (in_phase c (Writing items) x)"
| fetch_fails: "(c, p, d) \<in> set (r_conns x) \<Longrightarrow> r_phase x c = Looked \<Longrightarrow> relay_step env x (Internal (Socket d)) (in_phase c Idle x)"
| wrote: "(c, p, d) \<in> set (r_conns x) \<Longrightarrow> r_phase x c = Writing (it # its) \<Longrightarrow> frame_marshals (message_frame it) \<Longrightarrow>
    relay_step env x (Wrote d c (message_frame it))
      (in_phase c (Marking it its) (with_ws ((r_ws x)\<lparr>ws_sent := ws_sent (r_ws x) @ [(c, message_frame it)]\<rparr>) x))"
| write_fails: "(c, p, d) \<in> set (r_conns x) \<Longrightarrow> r_phase x c = Writing (it # its) \<Longrightarrow>
    relay_step env x (Internal (Socket d)) (in_phase c Idle (with_ws (close_conn c (r_ws x)) x))"
| marked: "(c, p, d) \<in> set (r_conns x) \<Longrightarrow> r_phase x c = Marking it its \<Longrightarrow> MarkDelivered (ii_ID it) d now (ws_store (r_ws x)) = (r, s') \<Longrightarrow>
    relay_step env x (Ran (Socket d) (OpMarkDelivered (ii_ID it) d) now) (in_phase c (Writing its) (with_store s' x))"
| drained: "(c, p, d) \<in> set (r_conns x) \<Longrightarrow> r_phase x c = Writing [] \<Longrightarrow> relay_step env x (Internal (Socket d)) (in_phase c Idle x)"
| left_off: "(c, p, d) \<in> set (r_conns x) \<Longrightarrow> relay_step env x (Internal (Socket d)) (with_ws (teardown p d c (r_ws x)) x)"
| sever: "(c, p, d) \<in> set (r_conns x) \<Longrightarrow> active d (r_ws x) = Inl e \<Longrightarrow>
    relay_step env x (Internal Reconciler) (with_ws (close_conn c (r_ws x)) x)"
| shutdown: "relay_step env x (Internal Main) (with_ws (close_hub (r_ws x)) x)"
| faulted: "relay_step env x (Internal Environment) (with_store ((ws_store (r_ws x))\<lparr>st_begin_ok := b, st_commit_ok := b'\<rparr>) x)"

inductive relay_runs :: "relay_env \<Rightarrow> relay \<Rightarrow> relay_event list \<Rightarrow> relay \<Rightarrow> bool" for env :: relay_env where
  stay: "relay_runs env x [] x"
| then_step: "relay_runs env x evs y \<Longrightarrow> relay_step env y e z \<Longrightarrow> relay_runs env x (evs @ [e]) z"

inductive_cases relay_stepE: "relay_step env x e y"
inductive_simps relay_runs_Nil: "relay_runs env x [] y"

lemma relay_runs_trans:
  assumes "relay_runs env y evs' z" "relay_runs env x evs y"
  shows "relay_runs env x (evs @ evs') z"
  using assms
proof (induction rule: relay_runs.induct)
  case (then_step y evs' z e w)
  then have "relay_runs env x ((evs @ evs') @ [e]) w" by (blast intro: relay_runs.then_step)
  then show ?case by simp
qed simp

lemma relay_runs_one: "relay_step env x e y \<Longrightarrow> relay_runs env x [e] y"
  using relay_runs.then_step [OF stay, of env x e y] by simp

text \<open>The actor alone leads from one state to the other: every event on the way is its own.\<close>

definition runs_by :: "relay_env \<Rightarrow> actor \<Rightarrow> relay \<Rightarrow> relay \<Rightarrow> bool" where
  "runs_by env a x y \<longleftrightarrow> (\<exists>evs. relay_runs env x evs y \<and> (\<forall>e \<in> set evs. agent e = a))"

lemma runs_by_refl: "runs_by env a x x"
  unfolding runs_by_def by (metis empty_iff list.set(1) stay)

lemma runs_by_step: "relay_step env x e y \<Longrightarrow> agent e = a \<Longrightarrow> runs_by env a x y"
  unfolding runs_by_def by (metis relay_runs_one empty_iff list.set(1) set_ConsD)

lemma runs_by_trans:
  assumes "runs_by env a x y" "runs_by env a y z" shows "runs_by env a x z"
proof -
  obtain evs evs' where "relay_runs env x evs y" "relay_runs env y evs' z" "\<forall>e \<in> set (evs @ evs'). agent e = a"
    using assms unfolding runs_by_def by auto
  then show ?thesis unfolding runs_by_def using relay_runs_trans by blast
qed

lemma with_store_simps [simp]:
  "ws_store (r_ws (with_store s x)) = s"
  "with_store s (with_store s' x) = with_store s x"
  "with_store (ws_store (r_ws x)) x = x"
  "r_conns (with_store s x) = r_conns x" "r_admitted (with_store s x) = r_admitted x" "r_phase (with_store s x) = r_phase x"
  "ws_sent (r_ws (with_store s x)) = ws_sent (r_ws x)" "ws_next (r_ws (with_store s x)) = ws_next (r_ws x)"
  "ws_hub (r_ws (with_store s x)) = ws_hub (r_ws x)" "ws_woken (r_ws (with_store s x)) = ws_woken (r_ws x)"
  "ws_closed (r_ws (with_store s x)) = ws_closed (r_ws x)"
  by (simp_all add: with_store_def)

lemma with_ws_simps [simp]:
  "r_ws (with_ws w x) = w" "with_ws w (with_ws w' x) = with_ws w x" "with_ws (r_ws x) x = x"
  "r_conns (with_ws w x) = r_conns x" "r_admitted (with_ws w x) = r_admitted x" "r_phase (with_ws w x) = r_phase x"
  by (simp_all add: with_ws_def)

lemma in_phase_simps [simp]:
  "r_ws (in_phase c ph x) = r_ws x" "r_conns (in_phase c ph x) = r_conns x" "r_admitted (in_phase c ph x) = r_admitted x"
  "r_phase (in_phase c ph x) = (r_phase x)(c := ph)" "in_phase c ph (in_phase c ph' x) = in_phase c ph x"
  "with_ws w (in_phase c ph x) = in_phase c ph (with_ws w x)" "with_store s (in_phase c ph x) = in_phase c ph (with_store s x)"
  by (simp_all add: in_phase_def with_ws_def with_store_def)

end
