(* ===== verification/RelayFacts.thy ===== *)
theory RelayFacts
  imports Relay
begin

text \<open>
  What holds along every run of the relay, whatever the interleaving: who may see a message at a
  socket, how a message gets into the database, and that a revoked device is cut off.
\<close>

section \<open>Transactions that add no message\<close>

locale tx_silent = tx_keeps fn relay_inv for fn :: "'a tx" +
  assumes silent: "relay_inv d \<Longrightarrow> fn d = Inr (x, d') \<Longrightarrow> set (messages d') \<subseteq> set (messages d)"
begin

lemma op_silent: "relay_inv (st_db s) \<Longrightarrow> writeTx fn s = (r, s') \<Longrightarrow> set (messages (st_db s')) \<subseteq> set (messages (st_db s))"
  using silent [of "st_db s"] by (cases r) (auto simp: writeTx_Inr dest: writeTx_Inl)

end

interpretation ack_silent: tx_silent "unit_tx (ackTx mid dev now)" for mid dev now
  by unfold_locales (auto simp: ackTx_def rbind_Inr_iff exec_Inr)

interpretation mark_silent: tx_silent "unit_tx (markDeliveredTx mid dev now)" for mid dev now
  by unfold_locales (auto simp: markDeliveredTx_def rbind_Inr_iff exec_Inr)

interpretation verdict_silent: tx_silent "inboundVerdictTx p mid v now" for p mid v now
proof unfold_locales
  fix d x d'
  assume "relay_inv d" "inboundVerdictTx p mid v now d = Inr (x, d')"
  then show "set (messages d') \<subseteq> set (messages d)"
    by (auto simp: inboundVerdictTx_def applyInboundTx_eq split: list.splits if_splits sum.splits)
qed

interpretation set_grant_silent: tx_silent "unit_tx (setGrantTx gid th p dir now)" for gid th p dir now
  by unfold_locales (auto simp: setGrantTx_def rbind_Inr_iff exec_Inr split: option.splits)

interpretation revoke_grant_silent: tx_silent "unit_tx (revokeGrantTx th p dir now)" for th p dir now
  by unfold_locales (auto simp: revokeGrantTx_def rbind_Inr_iff exec_Inr split: if_splits)

interpretation create_draft_silent: tx_silent "unit_tx (createDraftTx th p e blob now)" for th p e blob now
  by unfold_locales (auto simp: createDraftTx_def exec_Inr Let_def split: option.splits if_splits)

interpretation discard_silent: tx_silent "unit_tx (discardDraftTx p i now)" for p i now
  by unfold_locales (auto simp: discardDraftTx_Inr with_decision_def)

interpretation start_thread_silent: tx_silent "unit_tx (startThreadTx i a b now)" for i a b now
  by unfold_locales (auto simp: startThreadTx_def exec_Inr)

interpretation create_invite_silent: tx_silent "createInviteTx token email ttl now" for token email ttl now
  by unfold_locales (auto simp: createInviteTx_def rbind_Inr_iff exec_Inr)

interpretation enroll_silent: tx_silent "enrollTx pid did token pubkey label now" for pid did token pubkey label now
proof unfold_locales
  fix d x d'
  assume d: "relay_inv d" and r: "enrollTx pid did token pubkey label now d = Inr (x, d')"
  have "messages d' = messages d"
    using r by (cases x) (auto simp: enrollTx_iff [OF relay_inv_schema [OF d]] used_invite_def)
  then show "set (messages d') \<subseteq> set (messages d)" by simp
qed

interpretation revoke_device_silent: tx_silent "revokeDeviceTx i now" for i now
  by unfold_locales (auto simp: revokeDeviceTx_eq [OF relay_inv_schema] with_revoked_def split: if_splits)

interpretation sweep_messages_silent: tx_silent "sweepMessagesTx p now" for p now
  by unfold_locales (auto simp: sweepMessagesTx_def rbind_Inr_iff exec_Inr delete_where_def)

interpretation sweep_drafts_silent: tx_silent "sweepDraftsTx p now" for p now
  by unfold_locales (auto simp: sweepDraftsTx_def rbind_Inr_iff exec_Inr)

interpretation prune_silent: tx_silent "pruneTx fresh now" for fresh now
  by unfold_locales (auto simp: pruneTx_def rbind_Inr_iff exec_Inr Let_def)

interpretation register_client_silent: tx_silent "registerClientTx new_id uris name now" for new_id uris name now
  by unfold_locales (auto simp: registerClientTx_def rbind_Inr_iff exec_Inr)

interpretation create_code_silent: tx_silent "createAuthCodeTx code b expiresAt now" for code b expiresAt now
  by unfold_locales (auto simp: createAuthCodeTx_def rbind_Inr_iff exec_Inr)

interpretation consume_code_silent: tx_silent "consumeAuthCodeTx code now" for code now
  by unfold_locales (auto simp: consumeAuthCodeTx_def rbind_Inr_iff exec_Inr split: if_splits)

interpretation create_refresh_silent: tx_silent "createRefreshTx token g expiresAt now" for token g expiresAt now
  by unfold_locales (auto simp: createRefreshTx_def rbind_Inr_iff exec_Inr)

interpretation consume_refresh_silent: tx_silent "consumeRefreshTx token now" for token now
  by unfold_locales (auto simp: consumeRefreshTx_def rbind_Inr_iff exec_Inr split: if_splits option.splits)

interpretation sweep_oauth_silent: tx_silent "sweepOAuthTx now" for now
  by unfold_locales (auto simp: sweepOAuthTx_def rbind_Inr_iff exec_Inr Let_def)

section \<open>Where messages come from\<close>

text \<open>
  The row that \<open>op\<close>, run at \<open>now\<close>, makes out of a draft that is pending review: the author approved
  it, with the edit given in that call, or the author's standing grant for the draft's thread is active.
\<close>

definition reviewed :: "database \<Rightarrow> store_op \<Rightarrow> instant \<Rightarrow> message_row \<Rightarrow> bool" where
  "reviewed d op now m \<longleftrightarrow> (\<exists>r \<in> set (drafts d). \<exists>payload content. dr_author r = m_sender m \<and> dr_state r = PendingReview \<and>
     Decode (dr_envelope r) = Inr payload \<and>
     Marshal (content\<lparr>env_SentAt := UTC now\<rparr>) = Some (m_envelope m) \<and>
     m = ingested (content\<lparr>env_SentAt := UTC now\<rparr>) (m_sender m) now (m_envelope m) \<and>
     ((\<exists>edit. op = OpRelease (m_sender m) (dr_id r) edit \<and>
         content = (case edit of None \<Rightarrow> payload | Some body \<Rightarrow> edited_body payload body)) \<or>
      op = OpReleaseViaGrant (dr_id r) (m_sender m) \<and> has_active_grant d (dr_thread r) (m_sender m) Outbound \<and> content = payload))"

lemma ingest_adds_one:
  "ingestTx e p now d = Inr d' \<Longrightarrow> m \<in> set (messages d') \<Longrightarrow> m \<notin> set (messages d) \<Longrightarrow>
     m_sender m = p \<and> Marshal e = Some (m_envelope m) \<and> m = ingested e p now (m_envelope m)"
  by (elim ingestTx_Inr) (auto simp: ingested_def)

lemma m_sender_ingested [simp]: "m_sender (ingested e p now blob) = p"
  by (simp add: ingested_def)

lemma release_reviewed:
  assumes "relay_inv d" "releaseDraftTx p i edit now d = Inr (x, d')" "m \<in> set (messages d')" "m \<notin> set (messages d)"
  shows "reviewed d (OpRelease p i edit) now m \<and> m_sender m = p"
proof -
  obtain rid rel where x: "x = (rid, rel)" by (cases x)
  obtain th payload0 payload d1 where l: "loadDraft i d = Inr (th, p, PendingReview, payload0)"
    and e: "applyEdit i payload0 edit d = Inr (payload, d1)"
    and v: "deliverInTx payload p now (with_decision i Sent False now d1) = Inr (rid, d')"
    using assms(2) unfolding x releaseDraftTx_Inr [OF assms(1)] by blast
  have "m \<notin> set (messages (with_decision i Sent False now d1))"
    using assms(4) applyEdit_frame(1) [OF assms(1) e] by (simp add: with_decision_def)
  then have m: "m_sender m = p" "Marshal (payload\<lparr>env_SentAt := UTC now\<rparr>) = Some (m_envelope m)"
      "m = ingested (payload\<lparr>env_SentAt := UTC now\<rparr>) p now (m_envelope m)"
    using v assms(3) ingest_adds_one unfolding deliverInTx_Inr by blast+
  have edited: "payload = (case edit of None \<Rightarrow> payload0 | Some body \<Rightarrow> edited_body payload0 body)"
    using e unfolding applyEdit_Inr [OF assms(1)] by (auto split: option.splits)
  obtain r where r: "r \<in> set (drafts d)" "dr_id r = i" "dr_author r = p" "dr_state r = PendingReview" "Decode (dr_envelope r) = Inr payload0"
    using l unfolding loadDraft_Inr [OF assms(1)] by blast
  have "reviewed d (OpRelease p i edit) now m" unfolding reviewed_def m(1)
    by (intro bexI [OF _ r(1)] exI [of _ payload0] exI [of _ payload] conjI disjI1 exI [of _ edit]) (fact | simp only: r(2))+
  with m(1) show ?thesis by (intro conjI)
qed

lemma grant_release_reviewed:
  assumes "relay_inv d" "releaseViaGrantTx i p now d = Inr (x, d')" "m \<in> set (messages d')" "m \<notin> set (messages d)"
  shows "reviewed d (OpReleaseViaGrant i p) now m \<and> m_sender m = p"
proof -
  obtain rid rel where x: "x = (rid, rel)" by (cases x)
  obtain th cur payload where l: "loadDraft i d = Inr (th, p, cur, payload)" and g: "has_active_grant d th p Outbound" "cur = PendingReview"
    and v: "deliverInTx payload p now (with_decision i Sent True now d) = Inr (rid, d')"
    using assms(2-4) unfolding x releaseViaGrantTx_cases [OF assms(1)] by (auto split: if_splits)
  have "m \<notin> set (messages (with_decision i Sent True now d))" using assms(4) by (simp add: with_decision_def)
  then have m: "m_sender m = p" "Marshal (payload\<lparr>env_SentAt := UTC now\<rparr>) = Some (m_envelope m)"
      "m = ingested (payload\<lparr>env_SentAt := UTC now\<rparr>) p now (m_envelope m)"
    using v assms(3) ingest_adds_one unfolding deliverInTx_Inr by blast+
  obtain r where r: "r \<in> set (drafts d)" "dr_id r = i" "dr_thread r = th" "dr_author r = p" "dr_state r = PendingReview" "Decode (dr_envelope r) = Inr payload"
    using l g(2) unfolding loadDraft_Inr [OF assms(1)] by blast
  have "reviewed d (OpReleaseViaGrant i p) now m" unfolding reviewed_def m(1)
    by (intro bexI [OF _ r(1)] exI [of _ payload] exI [of _ payload] conjI disjI2) (fact | simp only: r(2,3) g(1))+
  with m(1) show ?thesis by (intro conjI)
qed

lemma write_origin:
  assumes "writeTx fn s = (r, s')" "m \<in> set (messages (st_db s'))" "m \<notin> set (messages (st_db s))"
  obtains x where "fn (st_db s) = Inr (x, st_db s')"
  using assms by (cases r) (auto simp: writeTx_Inr dest: writeTx_Inl)

lemmas silent_ops = ack_silent.op_silent mark_silent.op_silent verdict_silent.op_silent set_grant_silent.op_silent
  revoke_grant_silent.op_silent create_draft_silent.op_silent discard_silent.op_silent start_thread_silent.op_silent
  create_invite_silent.op_silent enroll_silent.op_silent revoke_device_silent.op_silent sweep_messages_silent.op_silent
  sweep_drafts_silent.op_silent prune_silent.op_silent register_client_silent.op_silent create_code_silent.op_silent
  consume_code_silent.op_silent create_refresh_silent.op_silent consume_refresh_silent.op_silent sweep_oauth_silent.op_silent

lemma silent_run:
  assumes "relay_inv (st_db s)" "may_run env a op" "run_op uuid_ok f op now s = (r, s')"
    and "\<And>p i edit. op \<noteq> OpRelease p i edit" "\<And>p i. op \<noteq> OpReleaseViaGrant i p"
  shows "set (messages (st_db s')) \<subseteq> set (messages (st_db s))"
proof -
  note silent = silent_ops [OF assms(1)]
  have "(\<nexists>e p. op = OpIngest e p) \<and> (\<nexists>th. op = OpApproveInbound th) \<and> (\<nexists>th. op = OpDeclineInbound th) \<and> (\<nexists>th p m. op = OpApproveViaGrant th p m)"
    using assms(2) by (cases a) auto
  then show ?thesis
    using assms(3-5)
    by (cases op)
      (auto dest!: outcome_snd dest: silent simp: MarkDelivered_def Ack_def ApproveInboundMessage_def DeclineInboundMessage_def
        inboundMessageVerdict_def SetThreadGrant_def RevokeThreadGrant_def CreateDraft_def DiscardDraft_def CreateInvite_def Let_def
        Enroll_def RevokeDevice_def StartThread_def SweepMessages_def SweepDrafts_def PruneTombstones_def RegisterClient_def
        CreateAuthCode_def ConsumeAuthCode_def CreateRefreshToken_def ConsumeRefreshToken_def SweepOAuth_def
        split: if_splits sum.splits option.splits prod.splits refresh_outcome.splits)
qed

lemma new_message_reviewed:
  assumes "relay_inv (st_db s)" "may_run env a op" "run_op uuid_ok f op now s = (r, s')"
    and "m \<in> set (messages (st_db s'))" "m \<notin> set (messages (st_db s))"
  shows "\<exists>header t. a = Tool (m_sender m) header t \<and> authenticated env header t (m_sender m) \<and> reviewed (st_db s) op now m"
proof -
  have "(\<exists>p i edit. op = OpRelease p i edit) \<or> (\<exists>p i. op = OpReleaseViaGrant i p)"
    using silent_run [OF assms(1-3)] assms(4,5) by blast
  then show ?thesis
  proof (elim disjE exE)
    fix p i edit assume op: "op = OpRelease p i edit"
    then obtain header t where a: "a = Tool p header t" "authenticated env header t p" using assms(2) by (cases a) auto
    obtain q where "ReleaseDraft p i edit now s = (q, s')" using assms(3) op by (auto dest!: outcome_snd)
    then obtain x where "releaseDraftTx p i edit now (st_db s) = Inr (x, st_db s')"
      unfolding ReleaseDraft_def using assms(4,5) by (rule write_origin)
    then show ?thesis using release_reviewed [OF assms(1) _ assms(4,5)] a op by blast
  next
    fix p i assume op: "op = OpReleaseViaGrant i p"
    then obtain header t where a: "a = Tool p header t" "authenticated env header t p" using assms(2) by (cases a) auto
    obtain q where "ReleaseReplyViaGrant i p now s = (q, s')" using assms(3) op by (auto dest!: outcome_snd)
    then obtain x where "releaseViaGrantTx i p now (st_db s) = Inr (x, st_db s')"
      unfolding ReleaseReplyViaGrant_def using assms(4,5) by (rule write_origin)
    then show ?thesis using grant_release_reviewed [OF assms(1) _ assms(4,5)] a op by blast
  qed
qed

section \<open>The invariant of the machine\<close>

definition owns :: "database \<Rightarrow> string \<Rightarrow> string \<Rightarrow> bool" where
  "owns d dev p \<longleftrightarrow> exists_row (\<lambda>r. d_id r = dev \<and> d_person r = p) (devices d)"

text \<open>A message of that thread from that sender is addressed to the person.\<close>

definition addressed :: "database \<Rightarrow> string \<Rightarrow> string \<Rightarrow> string \<Rightarrow> bool" where
  "addressed d p th sender \<longleftrightarrow> sender \<noteq> p \<and> is_party d th p \<and> is_party d th sender"

lemma is_party_evolves: "evolves Q d d' \<Longrightarrow> is_party d th p \<Longrightarrow> is_party d' th p"
  unfolding evolves_def is_party_def exists_row_iff by metis

lemma owns_evolves: "evolves Q d d' \<Longrightarrow> owns d dev p \<Longrightarrow> owns d' dev p"
  unfolding evolves_def owns_def exists_row_iff by metis

lemma addressed_evolves: "evolves Q d d' \<Longrightarrow> addressed d p th sender \<Longrightarrow> addressed d' p th sender"
  unfolding addressed_def using is_party_evolves by blast

definition relay_ok :: "relay \<Rightarrow> bool" where
  "relay_ok x \<longleftrightarrow> relay_inv (relay_db x) \<and> distinct (map fst (r_conns x)) \<and>
     (\<forall>c p d. (c, p, d) \<in> set (r_conns x) \<longrightarrow> c < ws_next (r_ws x) \<and> owns (relay_db x) d p \<and>
        (\<forall>it \<in> set (left (r_phase x c)). addressed (relay_db x) p (ii_ThreadID it) (ii_SenderID it))) \<and>
     (\<forall>p d. (p, d) \<in> set (r_admitted x) \<longrightarrow> owns (relay_db x) d p) \<and>
     (\<forall>c. r_phase x c \<noteq> Idle \<longrightarrow> c \<in> fst ` set (r_conns x)) \<and>
     (\<forall>c f. (c, f) \<in> set (ws_sent (r_ws x)) \<longrightarrow>
        (\<exists>p d. (c, p, d) \<in> set (r_conns x) \<and> addressed (relay_db x) p (wf_ThreadID f) (wf_SenderID f)))"

lemma relay_okD:
  assumes "relay_ok x"
  shows "relay_inv (relay_db x)" "distinct (map fst (r_conns x))"
    "(c, p, d) \<in> set (r_conns x) \<Longrightarrow> c < ws_next (r_ws x)" "(c, p, d) \<in> set (r_conns x) \<Longrightarrow> owns (relay_db x) d p"
    "(c, p, d) \<in> set (r_conns x) \<Longrightarrow> it \<in> set (left (r_phase x c)) \<Longrightarrow> addressed (relay_db x) p (ii_ThreadID it) (ii_SenderID it)"
    "(p, d) \<in> set (r_admitted x) \<Longrightarrow> owns (relay_db x) d p"
    "r_phase x c \<noteq> Idle \<Longrightarrow> c \<in> fst ` set (r_conns x)"
    "(c, f) \<in> set (ws_sent (r_ws x)) \<Longrightarrow> \<exists>p d. (c, p, d) \<in> set (r_conns x) \<and> addressed (relay_db x) p (wf_ThreadID f) (wf_SenderID f)"
  using assms unfolding relay_ok_def by fast+

lemma boot_ok: "relay_inv (st_db s) \<Longrightarrow> relay_ok (boot s)"
  by (simp add: relay_ok_def boot_def)

lemma one_conn: "relay_ok x \<Longrightarrow> (c, p, d) \<in> set (r_conns x) \<Longrightarrow> (c, p', d') \<in> set (r_conns x) \<Longrightarrow> p' = p \<and> d' = d"
  using relay_okD(2) eq_key_imp_eq_value [of "r_conns x" c "(p, d)" "(p', d')"] by auto

text \<open>The steps change the invariant's parts in three ways: the store, the sockets' bookkeeping, one phase.\<close>

lemma ok_store:
  assumes "relay_ok x" "relay_inv (st_db s)" "evolves Q (relay_db x) (st_db s)"
  shows "relay_ok (with_store s x)"
  using assms(1,2) owns_evolves [OF assms(3)] addressed_evolves [OF assms(3)]
  unfolding relay_ok_def with_store_simps by blast

lemma ok_ws:
  assumes "relay_ok x" "ws_store w = ws_store (r_ws x)" "ws_sent w = ws_sent (r_ws x)" "ws_next w = ws_next (r_ws x)"
  shows "relay_ok (with_ws w x)"
  using assms by (simp add: relay_ok_def)

lemma ok_phase:
  assumes "relay_ok x" "ph \<noteq> Idle \<Longrightarrow> c \<in> fst ` set (r_conns x)"
    and "\<And>p d it. (c, p, d) \<in> set (r_conns x) \<Longrightarrow> it \<in> set (left ph) \<Longrightarrow> addressed (relay_db x) p (ii_ThreadID it) (ii_SenderID it)"
  shows "relay_ok (in_phase c ph x)"
  using assms unfolding relay_ok_def by auto

lemma ok_sent:
  assumes "relay_ok x" "(c, p, d) \<in> set (r_conns x)" "addressed (relay_db x) p (wf_ThreadID f) (wf_SenderID f)"
  shows "relay_ok (with_ws ((r_ws x)\<lparr>ws_sent := ws_sent (r_ws x) @ [(c, f)]\<rparr>) x)"
  using assms unfolding relay_ok_def by auto

lemma ws_register_frame [simp]:
  "ws_store (ws_register p d w) = ws_store w" "ws_sent (ws_register p d w) = ws_sent w"
  "ws_next (ws_register p d w) = ws_next w + 1"
  by (simp_all add: ws_register_def Let_def wake_def close_conn_def split: prod.split option.split)

lemma Notify_frame [simp]:
  "ws_store (Notify p w) = ws_store w" "ws_sent (Notify p w) = ws_sent w" "ws_next (Notify p w) = ws_next w"
proof -
  have "ws_store (fold (\<lambda>(_, c). wake c) cs w) = ws_store w \<and> ws_sent (fold (\<lambda>(_, c). wake c) cs w) = ws_sent w \<and>
      ws_next (fold (\<lambda>(_, c). wake c) cs w) = ws_next w" for cs :: "(string \<times> conn) list"
    by (induction cs arbitrary: w) (auto simp: wake_def)
  then show "ws_store (Notify p w) = ws_store w" "ws_sent (Notify p w) = ws_sent w" "ws_next (Notify p w) = ws_next w"
    by (simp_all add: Notify_def)
qed

lemma small_frames [simp]:
  "ws_store (close_conn c w) = ws_store w" "ws_sent (close_conn c w) = ws_sent w" "ws_next (close_conn c w) = ws_next w"
  "ws_store (unwake c w) = ws_store w" "ws_sent (unwake c w) = ws_sent w" "ws_next (unwake c w) = ws_next w"
  "ws_store (teardown p d c w) = ws_store w" "ws_sent (teardown p d c w) = ws_sent w" "ws_next (teardown p d c w) = ws_next w"
  "ws_store (close_hub w) = ws_store w" "ws_sent (close_hub w) = ws_sent w" "ws_next (close_hub w) = ws_next w"
  by (simp_all add: close_conn_def unwake_def teardown_def close_hub_def split: prod.split)

lemma ok_open:
  assumes "relay_ok x" "(p, d) \<in> set (r_admitted x)"
  shows "relay_ok (with_ws (ws_register p d (r_ws x)) x\<lparr>r_conns := (ws_next (r_ws x), p, d) # r_conns x\<rparr>)"
proof -
  let ?c = "ws_next (r_ws x)"
  have new: "?c \<notin> fst ` set (r_conns x)" using relay_okD(3) [OF assms(1)] by fastforce
  then have "r_phase x ?c = Idle" using relay_okD(7) [OF assms(1)] by blast
  then show ?thesis
    using assms(1) new relay_okD(6) [OF assms]
    by (auto simp: relay_ok_def less_Suc_eq) blast+
qed

lemma device_row_unique:
  "relay_inv d \<Longrightarrow> r \<in> set (devices d) \<Longrightarrow> r' \<in> set (devices d) \<Longrightarrow> d_id r' = d_id r \<Longrightarrow> r' = r"
  using distinct_key_unique [of d_id "devices d" r' r] schema_okD(2) [OF relay_inv_schema] by (simp add: devices_ok_def)

lemma Inbox_addressed:
  assumes "relay_inv d" "owns d dev p" "i \<in> set (Inbox dev d)"
  shows "addressed d p (ii_ThreadID i) (ii_SenderID i)"
proof -
  obtain r where r: "r \<in> set (devices d)" "d_id r = dev" "d_person r \<noteq> ii_SenderID i"
      "is_party d (ii_ThreadID i) (d_person r)" "is_party d (ii_ThreadID i) (ii_SenderID i)"
    using Inbox_parties [OF assms(1,3)] by blast
  obtain r' where "r' \<in> set (devices d)" "d_id r' = dev" "d_person r' = p" using assms(2) by (auto simp: owns_def)
  with r device_row_unique [OF assms(1) r(1)] have "d_person r = p" by metis
  with r show ?thesis by (auto simp: addressed_def)
qed

lemma ws_check_owns:
  "ws_check verify header now w = Some (p, d) \<Longrightarrow> owns (st_db (ws_store w)) d p"
  by (auto simp: ws_check_def active_iff ActiveDeviceByID_def device_of_row_def owns_def
      dest!: select_first_Some split: option.splits sum.splits prod.splits if_splits)

lemma step_ok:
  assumes "relay_ok x" "relay_step env x e y"
  shows "relay_ok y \<and> evolves (\<lambda>_. True) (relay_db x) (relay_db y)"
  using assms(2)
proof (cases rule: relay_step.cases)
  case (operation a op now r s')
  note h = run_op_history [OF relay_okD(1) [OF assms(1)] operation(4)]
  show ?thesis using ok_store [OF assms(1)] h by (auto simp: operation elim: evolves_mono)
next
  case (signal header t q p)
  then show ?thesis using ok_ws [OF assms(1)] evolves_refl by simp
next
  case (admit header now p d)
  then show ?thesis using assms(1) ws_check_owns [OF admit(3)] evolves_refl by (auto simp: relay_ok_def)
next
  case (enlist p d c)
  then show ?thesis using ok_open [OF assms(1)] evolves_refl by simp
next
  case (looked c p d dev)
  then have "relay_ok (in_phase c Looked (with_ws (unwake c (r_ws x)) x))"
    using ok_ws [OF assms(1)] by (intro ok_phase) (auto intro: rev_image_eqI)
  then show ?thesis using looked evolves_refl by simp
next
  case (look_fails c p d e')
  then show ?thesis using ok_ws [OF assms(1)] evolves_refl by simp
next
  case (fetched c p d items)
  then have items: "items = Inbox d (relay_db x)" by (simp add: reads_def split: if_splits)
  have "relay_ok (in_phase c (Writing items) x)"
  proof (rule ok_phase [OF assms(1)])
    show "c \<in> fst ` set (r_conns x)" using fetched(3) by (auto intro: rev_image_eqI)
    fix p' d' it assume "(c, p', d') \<in> set (r_conns x)" "it \<in> set (left (Writing items))"
    then have "p' = p" "it \<in> set (Inbox d (relay_db x))" using one_conn [OF assms(1) fetched(3)] by (auto simp: items)
    then show "addressed (relay_db x) p' (ii_ThreadID it) (ii_SenderID it)"
      using Inbox_addressed [OF relay_okD(1) [OF assms(1)] relay_okD(4) [OF assms(1) fetched(3)]] by simp
  qed
  then show ?thesis using fetched evolves_refl by simp
next
  case (fetch_fails c p d)
  then show ?thesis using ok_phase [OF assms(1), of Idle c] evolves_refl by simp
next
  case (wrote c p d it its)
  note c = wrote(3)
  have a: "addressed (relay_db x) p' (ii_ThreadID it') (ii_SenderID it')"
    if "(c, p', d') \<in> set (r_conns x)" "it' \<in> set (it # its)" for p' d' it'
    using relay_okD(5) [OF assms(1) that(1)] that(2) wrote(4) by simp
  have "relay_ok (with_ws ((r_ws x)\<lparr>ws_sent := ws_sent (r_ws x) @ [(c, message_frame it)]\<rparr>) x)"
    using a [OF c] by (intro ok_sent [OF assms(1) c]) (simp add: message_frame_def)
  then have "relay_ok (in_phase c (Marking it its) (with_ws ((r_ws x)\<lparr>ws_sent := ws_sent (r_ws x) @ [(c, message_frame it)]\<rparr>) x))"
    using c a by (intro ok_phase) (auto intro: rev_image_eqI)
  then show ?thesis using wrote evolves_refl by simp
next
  case (write_fails c p d it its)
  have "relay_ok (in_phase c Idle (with_ws (close_conn c (r_ws x)) x))"
    using ok_ws [OF assms(1)] by (intro ok_phase) simp_all
  then show ?thesis using write_fails evolves_refl by simp
next
  case (marked c p d it its now r s')
  have "run_op (re_uuid env) (relay_fresh env) (OpMarkDelivered (ii_ID it) d) now (ws_store (r_ws x)) = (r, s')"
    using marked(5) by simp
  note h = run_op_history [OF relay_okD(1) [OF assms(1)] this]
  have ev: "evolves (\<lambda>_. True) (relay_db x) (st_db s')" using h by (auto elim: evolves_mono)
  have ok: "relay_ok (with_store s' x)" using ok_store [OF assms(1) _ ev] h by blast
  have "relay_ok (in_phase c (Writing its) (with_store s' x))"
    using relay_okD(5) [OF ok, of c] marked(3,4) by (intro ok_phase [OF ok]) (auto intro: rev_image_eqI)
  then show ?thesis using marked ev by simp
next
  case (drained c p d)
  then show ?thesis using ok_phase [OF assms(1), of Idle c] evolves_refl by simp
next
  case (left_off c p d)
  then show ?thesis using ok_ws [OF assms(1)] evolves_refl by simp
next
  case (sever c p d e')
  then show ?thesis using ok_ws [OF assms(1)] evolves_refl by simp
next
  case shutdown
  then show ?thesis using ok_ws [OF assms(1)] evolves_refl by simp
next
  case (faulted b' b)
  then show ?thesis
    using ok_store [OF assms(1), of "(ws_store (r_ws x))\<lparr>st_begin_ok := b, st_commit_ok := b'\<rparr>"] relay_okD(1) [OF assms(1)] evolves_refl
    by simp
qed

lemma runs_ok:
  assumes "relay_runs env x evs y" "relay_ok x"
  shows "relay_ok y \<and> evolves (\<lambda>_. True) (relay_db x) (relay_db y)"
  using assms
proof (induction rule: relay_runs.induct)
  case (then_step x evs y e z)
  then have y: "relay_ok y" "evolves (\<lambda>_. True) (relay_db x) (relay_db y)" by blast+
  show ?case using step_ok [OF y(1) then_step(2)] evolves_trans [OF y(2)] by blast
qed (simp add: evolves_refl)

section \<open>Properties\<close>

lemma authenticated_token:
  assumes "bearer_from_header (re_bearer env)" "authenticated env header now p"
  shows "\<exists>tok ct. carries header tok \<and> VerifyAccess (as_jwt (re_server env)) (as_issuer (re_server env)) tok now = Inr (p, ct) \<and> p \<noteq> []"
proof -
  let ?v = "verifier (as_jwt (re_server env)) (as_issuer (re_server env))"
  obtain ct info where i: "re_bearer env ?v header now = Some info" "PersonFromContext (Some info) = Some (p, ct)"
    using assms(2) unfolding authenticated_def by (cases "re_bearer env ?v header now") (auto simp: PersonFromContext_def)
  then obtain tok where "carries header tok" "?v tok now = Inr info"
    using assms(1) unfolding bearer_from_header_def by blast
  then have "carries header tok" "VerifyAccess (as_jwt (re_server env)) (as_issuer (re_server env)) tok now = Inr (ti_UserID info, ti_client_type info)"
    using verifier_access by blast+
  with i(2) show ?thesis by (auto simp: PersonFromContext_def split: if_splits)
qed

lemma message_origin:
  assumes "relay_runs env x evs y" "relay_ok x" "m \<in> set (messages (relay_db y))" "m \<notin> set (messages (relay_db x))"
  shows "\<exists>evs1 z header t op now evs2. evs = evs1 @ Ran (Tool (m_sender m) header t) op now # evs2 \<and> relay_runs env x evs1 z \<and>
    authenticated env header t (m_sender m) \<and> reviewed (relay_db z) op now m"
  using assms
proof (induction rule: relay_runs.induct)
  case (then_step x evs y e z)
  show ?case
  proof (cases "m \<in> set (messages (relay_db y))")
    case True
    then obtain evs1 z' header t op now evs2 where "evs = evs1 @ Ran (Tool (m_sender m) header t) op now # evs2"
        "relay_runs env x evs1 z'" "authenticated env header t (m_sender m)" "reviewed (relay_db z') op now m"
      using then_step.IH [OF then_step.prems(1) _ then_step.prems(3)] by blast
    then show ?thesis by (intro exI [of _ evs1] exI [of _ z'] exI [of _ header] exI [of _ t] exI [of _ op] exI [of _ now] exI [of _ "evs2 @ [e]"]) simp
  next
    case new: False
    have inv: "relay_inv (relay_db y)" using runs_ok [OF then_step(1) then_step.prems(1)] relay_okD(1) by blast
    from then_step(2) show ?thesis
    proof (cases rule: relay_step.cases)
      case (operation a op now r s')
      have "m \<in> set (messages (st_db s'))" using then_step.prems(2) operation by simp
      from new_message_reviewed [OF inv operation(3,4) this new] operation(1) then_step(1)
      show ?thesis by (metis append.right_neutral)
    next
      case (marked c p d it its now r s')
      have "m \<in> set (messages (st_db s'))" using then_step.prems(2) marked by simp
      then show ?thesis using mark_silent.op_silent [OF inv] marked(5) new unfolding MarkDelivered_def by blast
    qed (use new then_step.prems(2) in simp_all)
  qed
qed simp

text \<open>
  C1: no message without its author's review. Start the relay on any database that satisfies the
  invariant and let requests, sockets, sweeps, restarts of the connection and the operator's commands
  interleave in any way. Every message that was not there before was put there by one tool call, whose
  Authorization header carries an access token of its sender that verified at that time; and at that moment a draft by
  that sender was pending review, and the stored bytes of the message are this draft word for word, with
  only the time of sending set: either the call approved it, with the edit of the text given in the call, or the
  sender had an active outbound grant for the draft's thread.
\<close>

theorem no_unreviewed_message:
  assumes "bearer_from_header (re_bearer env)" "relay_inv (st_db s)" "relay_runs env (boot s) evs x"
    and "m \<in> set (messages (relay_db x))" "m \<notin> set (messages (st_db s))"
  shows "\<exists>evs1 z header t op now evs2 tok ct. evs = evs1 @ Ran (Tool (m_sender m) header t) op now # evs2 \<and>
    relay_runs env (boot s) evs1 z \<and> carries header tok \<and>
    VerifyAccess (as_jwt (re_server env)) (as_issuer (re_server env)) tok t = Inr (m_sender m, ct) \<and>
    (\<exists>r \<in> set (drafts (relay_db z)). \<exists>payload content. dr_author r = m_sender m \<and> dr_state r = PendingReview \<and>
       Decode (dr_envelope r) = Inr payload \<and>
       Marshal (content\<lparr>env_SentAt := UTC now\<rparr>) = Some (m_envelope m) \<and>
       m = ingested (content\<lparr>env_SentAt := UTC now\<rparr>) (m_sender m) now (m_envelope m) \<and>
       ((\<exists>edit. op = OpRelease (m_sender m) (dr_id r) edit \<and>
           content = (case edit of None \<Rightarrow> payload | Some body \<Rightarrow> edited_body payload body)) \<or>
        op = OpReleaseViaGrant (dr_id r) (m_sender m) \<and> has_active_grant (relay_db z) (dr_thread r) (m_sender m) Outbound \<and>
           content = payload))"
proof -
  have "m \<notin> set (messages (relay_db (boot s)))" using assms(5) by (simp add: boot_def)
  from message_origin [OF assms(3) boot_ok [OF assms(2)] assms(4) this]
  obtain evs1 z header t op now evs2 where run: "evs = evs1 @ Ran (Tool (m_sender m) header t) op now # evs2" "relay_runs env (boot s) evs1 z"
    and a: "authenticated env header t (m_sender m)" and rev: "reviewed (relay_db z) op now m" by blast
  obtain tok ct where "carries header tok" "VerifyAccess (as_jwt (re_server env)) (as_issuer (re_server env)) tok t = Inr (m_sender m, ct)"
    using authenticated_token [OF assms(1) a] by blast
  with run rev show ?thesis unfolding reviewed_def by blast
qed

text \<open>The environment of the examples: the sample issuer and a middleware that verifies the token of the header.\<close>

definition sample_bearer :: bearer where
  "sample_bearer vf header now = (case Fields header of
     [sch, tok] \<Rightarrow> if map lower_byte sch = ''bearer'' then (case vf tok now of Inr info \<Rightarrow> Some info | Inl _ \<Rightarrow> None) else None
   | _ \<Rightarrow> None)"

definition bob_env :: relay_env where
  "bob_env = \<lparr>re_server = sample_sv, re_bearer = sample_bearer, re_config = sample_config, re_uuid = (\<lambda>_. True)\<rparr>"

lemma bob_env_bearer: "bearer_from_header (re_bearer bob_env)"
  by (auto simp: bearer_from_header_def bob_env_def sample_bearer_def carries_def split: sum.splits list.splits if_splits)

lemma bob_header: "Fields ''Bearer access'' = [''Bearer'', ''access'']" "map lower_byte ''Bearer'' = ''bearer''"
  by code_simp+

lemma bob_env_bob: "authenticated bob_env ''Bearer access'' 5 ''bob''"
proof -
  have "re_bearer bob_env (verifier (as_jwt (re_server bob_env)) (as_issuer (re_server bob_env))) ''Bearer access'' 5 =
      (case verifier sample_jwt sample_issuer ''access'' 5 of Inr info \<Rightarrow> Some info | Inl _ \<Rightarrow> None)"
    unfolding bob_env_def relay_env.select_convs sample_bearer_def bob_header list.case if_True sample_sv_def as_server.select_convs
    by (simp only: bob_header(2) if_True simp_thms)
  then show ?thesis
    by (simp add: authenticated_def verifier_def VerifyAccess_def token_parse_def sample_jwt_def
      sample_issuer_def PersonFromContext_def access_claims_def in_time_def useAccess_def unix_sec_def Let_def)
qed

lemma sample_new_message:
  assumes "ReleaseDraft ''bob'' ''m2'' None now sample_draft_store = (Inr y, s')"
  shows "\<exists>m \<in> set (messages (st_db s')). m_sender m = ''bob''"
proof -
  obtain rid rel where y: "y = (rid, rel)" by (cases y)
  have "releaseDraftTx ''bob'' ''m2'' None now (st_db sample_draft_store) = Inr ((rid, rel), st_db s')"
    using assms y by (auto simp: ReleaseDraft_Inr)
  then obtain payload d1 where "deliverInTx payload ''bob'' now d1 = Inr (rid, st_db s')"
    unfolding releaseDraftTx_Inr [OF sample_draft_store_ok(2)] by blast
  then show ?thesis unfolding deliverInTx_Inr by (elim conjE ingestTx_Inr) simp
qed

theorem no_unreviewed_message_witness:
  "\<exists>x m tok ct. relay_runs bob_env (boot sample_draft_store) [Ran (Tool ''bob'' ''Bearer access'' 5) (OpRelease ''bob'' ''m2'' None) 200000000000] x \<and>
     m \<in> set (messages (relay_db x)) \<and> m_sender m = ''bob'' \<and> carries ''Bearer access'' tok \<and> VerifyAccess sample_jwt sample_issuer tok 5 = Inr (''bob'', ct)"
proof -
  obtain y s' where run: "ReleaseDraft ''bob'' ''m2'' None 200000000000 sample_draft_store = (Inr y, s')"
    using sample_release by blast
  obtain m where m: "m \<in> set (messages (st_db s'))" "m_sender m = ''bob''" using sample_new_message [OF run] by blast
  have op: "run_op (re_uuid bob_env) (relay_fresh bob_env) (OpRelease ''bob'' ''m2'' None) 200000000000 (ws_store (r_ws (boot sample_draft_store)))
      = (Inr (), s')" using run by (simp add: boot_def outcome_def)
  have "may_run bob_env (Tool ''bob'' ''Bearer access'' 5) (OpRelease ''bob'' ''m2'' None)" using bob_env_bob by simp
  from relay_runs_one [OF operation [OF this op]]
  have go: "relay_runs bob_env (boot sample_draft_store) [Ran (Tool ''bob'' ''Bearer access'' 5) (OpRelease ''bob'' ''m2'' None) 200000000000]
      (with_store s' (boot sample_draft_store))" (is "relay_runs _ _ [?e] ?x") .
  have new: "m \<notin> set (messages (st_db sample_draft_store))" using m(2) by (auto simp: sample_draft_store_def sample_simps)
  have "m \<in> set (messages (relay_db ?x))" using m(1) by simp
  from no_unreviewed_message [OF bob_env_bearer sample_draft_store_ok(2) go this new]
  obtain tok ct where "carries ''Bearer access'' tok" "VerifyAccess sample_jwt sample_issuer tok 5 = Inr (''bob'', ct)"
    by (auto simp: Cons_eq_append_conv m(2) bob_env_def sample_sv_def)
  with go m show ?thesis by (intro exI [of _ ?x]) auto
qed

text \<open>Registered sockets passed the checks of \<open>handleWS\<close> before.\<close>

lemma admitted_checked:
  assumes "relay_runs env (boot s) evs x"
  shows "((p, d) \<in> set (r_admitted x) \<longrightarrow> (\<exists>evs1 evs2 z header now. evs = evs1 @ evs2 \<and> relay_runs env (boot s) evs1 z \<and>
      ws_check (verify_socket (re_server env)) header now (r_ws z) = Some (p, d))) \<and>
    ((c, p, d) \<in> set (r_conns x) \<longrightarrow> (p, d) \<in> set (r_admitted x))"
  using assms
proof (induction "boot s" evs x rule: relay_runs.induct)
  case stay
  then show ?case by (simp add: boot_def)
next
  case (then_step evs y e z)
  have ext: "\<exists>evs1 evs2 z header now. evs @ [e] = evs1 @ evs2 \<and> relay_runs env (boot s) evs1 z \<and>
      ws_check (verify_socket (re_server env)) header now (r_ws z) = Some (p, d)" if "(p, d) \<in> set (r_admitted y)"
    using then_step.hyps(2) that by (metis append.assoc)
  from then_step.hyps(3) show ?case
  proof (cases rule: relay_step.cases)
    case (admit header now p' d')
    then show ?thesis using ext then_step.hyps(1,2) by (cases "(p', d') = (p, d)") (force, auto)
  next
    case (enlist p' d' c')
    then show ?thesis using ext then_step.hyps(2) by auto
  qed (use ext then_step.hyps(2) in simp_all)
qed

text \<open>
  C2: the privacy of sockets. In every state a run of the relay reaches, each frame ever written to a
  socket went to a socket of exactly one person and device; that device is registered for that
  person and the socket was opened after its credential verified while the device was active; and
  the frame is a message of a thread the person takes part in, from the other party of that thread.
\<close>

theorem socket_privacy:
  assumes "relay_inv (st_db s)" "relay_runs env (boot s) evs x" "(c, f) \<in> set (ws_sent (r_ws x))"
  shows "\<exists>p d. (c, p, d) \<in> set (r_conns x) \<and> (\<forall>p' d'. (c, p', d') \<in> set (r_conns x) \<longrightarrow> p' = p \<and> d' = d) \<and>
    (\<exists>r \<in> set (devices (relay_db x)). d_id r = d \<and> d_person r = p) \<and>
    wf_SenderID f \<noteq> p \<and> is_party (relay_db x) (wf_ThreadID f) p \<and> is_party (relay_db x) (wf_ThreadID f) (wf_SenderID f) \<and>
    (\<exists>evs1 evs2 z header now. evs = evs1 @ evs2 \<and> relay_runs env (boot s) evs1 z \<and>
       ws_check (verify_socket (re_server env)) header now (r_ws z) = Some (p, d))"
proof -
  have ok: "relay_ok x" using runs_ok [OF assms(2) boot_ok [OF assms(1)]] by blast
  obtain p d where c: "(c, p, d) \<in> set (r_conns x)" "addressed (relay_db x) p (wf_ThreadID f) (wf_SenderID f)"
    using relay_okD(8) [OF ok assms(3)] by blast
  have "\<exists>r \<in> set (devices (relay_db x)). d_id r = d \<and> d_person r = p" using relay_okD(4) [OF ok c(1)] by (simp add: owns_def)
  moreover have "\<exists>evs1 evs2 z header now. evs = evs1 @ evs2 \<and> relay_runs env (boot s) evs1 z \<and>
       ws_check (verify_socket (re_server env)) header now (r_ws z) = Some (p, d)"
    using admitted_checked [OF assms(2), of p d c] c(1) by blast
  ultimately show ?thesis using c one_conn [OF ok c(1)] unfolding addressed_def by blast
qed

text \<open>The example: Bob's device connects and its writer pushes the waiting message.\<close>

lemma sample_check: "ws_check (verify_socket (re_server bob_env)) ''Bearer device'' 5 (r_ws (boot sample_store)) = Some (''bob'', ''db'')"
proof -
  have "bearerToken ''Bearer device'' = Some ''device''" by code_simp
  moreover have "verify_socket (re_server bob_env) ''device'' 5 = Inr (''bob'', ''db'')"
    by (simp add: verify_socket_def bob_env_def sample_sv_def VerifyDeviceCredential_def token_parse_def sample_jwt_def
        sample_issuer_def device_claims_def in_time_def deviceCredTTL_def useDevice_def unix_sec_def Let_def)
  moreover have "\<exists>dev. active ''db'' (r_ws (boot sample_store)) = Inr dev \<and> de_PersonID dev = ''bob''"
    by (simp add: active_iff boot_def ActiveDeviceByID_def) (simp add: sample_store_def sample_simps sql_simps device_of_row_def)
  ultimately show ?thesis by (auto simp: ws_check_def)
qed

definition sample_open :: relay where
  "sample_open = \<lparr>r_ws = \<lparr>ws_store = sample_store, ws_hub = [(''bob'', [(''db'', 0)])], ws_closed = [], ws_woken = [0], ws_sent = [], ws_next = 1\<rparr>,
     r_conns = [(0, ''bob'', ''db'')], r_admitted = [(''bob'', ''db'')], r_phase = (\<lambda>_. Idle)\<rparr>"

lemma sample_opened: "relay_runs bob_env (boot sample_store) [Internal (Socket ''db''), Opened 0 ''bob'' ''db''] sample_open"
proof -
  let ?x = "(boot sample_store)\<lparr>r_admitted := [(''bob'', ''db'')]\<rparr>"
  have "relay_step bob_env (boot sample_store) (Internal (Socket ''db'')) ((boot sample_store)\<lparr>r_admitted := (''bob'', ''db'') # r_admitted (boot sample_store)\<rparr>)"
    by (rule admit [OF sample_check])
  then have 1: "relay_runs bob_env (boot sample_store) [Internal (Socket ''db'')] ?x" using relay_runs_one by (simp add: boot_def)
  have "relay_step bob_env ?x (Opened 0 ''bob'' ''db'')
      (with_ws (ws_register ''bob'' ''db'' (r_ws ?x)) ?x\<lparr>r_conns := (0, ''bob'', ''db'') # r_conns ?x\<rparr>)"
    by (rule enlist) (simp_all add: boot_def)
  moreover have "with_ws (ws_register ''bob'' ''db'' (r_ws ?x)) ?x\<lparr>r_conns := (0, ''bob'', ''db'') # r_conns ?x\<rparr> = sample_open"
    by (simp add: sample_open_def boot_def with_ws_def ws_register_def hub_add_def by_device_def newHub_def wake_def Let_def)
  ultimately show ?thesis using then_step [OF 1] by simp
qed

definition sample_item :: inbox_item where
  "sample_item = \<lparr>ii_ID = ''m1'', ii_ThreadID = ''th'', ii_SenderID = ''alice'', ii_Envelope = ''{}'', ii_ReceivedAt = from_unix 100\<rparr>"

theorem socket_privacy_witness:
  "\<exists>evs x. relay_runs bob_env (boot sample_store) evs x \<and> map (wf_ID \<circ> snd) (ws_sent (r_ws x)) = [''m1''] \<and>
     is_party (relay_db x) ''th'' ''bob''"
proof -
  let ?e = bob_env
  let ?x1 = "in_phase 0 Looked (with_ws (unwake 0 (r_ws sample_open)) sample_open)"
  let ?x2 = "in_phase 0 (Writing [sample_item]) ?x1"
  let ?x3 = "in_phase 0 (Marking sample_item []) (with_ws ((r_ws ?x2)\<lparr>ws_sent := ws_sent (r_ws ?x2) @ [(0, message_frame sample_item)]\<rparr>) ?x2)"
  have "\<exists>dev. active ''db'' (r_ws sample_open) = Inr dev"
    by (simp add: active_iff sample_open_def ActiveDeviceByID_def) (simp add: sample_store_def sample_simps sql_simps)
  then obtain dev where "active ''db'' (r_ws sample_open) = Inr dev" ..
  then have 1: "relay_step ?e sample_open (Internal (Socket ''db'')) ?x1"
    by (intro looked [of 0 "''bob''" "''db''"]) (simp_all add: sample_open_def)
  have "Inbox ''db'' sample_db = [sample_item]" by (simp add: Inbox_def sample_simps sample_item_def)
  then have 2: "relay_step ?e ?x1 (Internal (Socket ''db'')) ?x2"
    by (intro fetched [of 0 "''bob''" "''db''"]) (simp_all add: sample_open_def reads_def unwake_def sample_store_def)
  have "parse_document ''{}'' \<noteq> None" by code_simp
  then have 3: "relay_step ?e ?x2 (Wrote ''db'' 0 (message_frame sample_item)) ?x3"
    by (intro wrote [of 0 "''bob''" "''db''"]) (simp_all add: frame_marshals_def message_frame_def sample_item_def sample_open_def)
  have run: "relay_runs ?e (boot sample_store) ((([Internal (Socket ''db''), Opened 0 ''bob'' ''db''] @ [Internal (Socket ''db'')]) @ [Internal (Socket ''db'')]) @ [Wrote ''db'' 0 (message_frame sample_item)]) ?x3"
    by (rule then_step [OF then_step [OF then_step [OF sample_opened 1] 2] 3])
  have sent: "ws_sent (r_ws ?x3) = [(0, message_frame sample_item)]" by (simp add: sample_open_def unwake_def)
  from socket_privacy [OF sample_store_inv run, of 0 "message_frame sample_item"]
  have "is_party (relay_db ?x3) ''th'' ''bob''" unfolding sent by (auto simp: message_frame_def sample_item_def sample_open_def)
  moreover have "map (wf_ID \<circ> snd) (ws_sent (r_ws ?x3)) = [''m1'']" unfolding sent by (simp add: message_frame_def sample_item_def)
  ultimately show ?thesis using run by - (intro exI conjI)
qed

lemma revoked_evolves:
  assumes "relay_inv d'" "evolves Q d d'" "r \<in> set (devices d)" "d_revoked r \<noteq> None"
  shows "\<forall>r' \<in> set (devices d'). d_id r' = d_id r \<longrightarrow> d_revoked r' \<noteq> None"
proof -
  obtain r' where "r' \<in> set (devices d')" "d_id r' = d_id r" "d_revoked r' \<noteq> None"
    using assms(2-4) unfolding evolves_def by metis
  then show ?thesis using device_row_unique [OF assms(1)] by metis
qed

text \<open>A socket of a device that is not active, with no drain under way, is not written to by any step.\<close>

lemma step_quiet:
  assumes "relay_step env x e y" "active dev (r_ws x) = Inl err" "r_phase x c = Idle"
    and "\<forall>p d. (c, p, d) \<in> set (r_conns x) \<longrightarrow> d = dev"
  shows "r_phase y c = Idle \<and> filter (\<lambda>(c', _). c' = c) (ws_sent (r_ws y)) = filter (\<lambda>(c', _). c' = c) (ws_sent (r_ws x))"
  using assms(1)
  by (cases rule: relay_step.cases) (use assms(2-4) in \<open>auto split: if_splits\<close>)

lemma conns_grow: "relay_step env x e y \<Longrightarrow> set (r_conns x) \<subseteq> set (r_conns y)"
  by (cases rule: relay_step.cases) auto

lemma runs_quiet:
  assumes "relay_runs env x evs y" "relay_ok x" "r \<in> set (devices (relay_db x))" "d_revoked r \<noteq> None"
    and "r_phase x c = Idle" "\<forall>p d. (c, p, d) \<in> set (r_conns y) \<longrightarrow> d = d_id r"
  shows "r_phase y c = Idle \<and> filter (\<lambda>(c', _). c' = c) (ws_sent (r_ws y)) = filter (\<lambda>(c', _). c' = c) (ws_sent (r_ws x))"
  using assms
proof (induction rule: relay_runs.induct)
  case (then_step x evs y e z)
  have "\<forall>p d. (c, p, d) \<in> set (r_conns y) \<longrightarrow> d = d_id r" using then_step.prems(5) conns_grow [OF then_step(2)] by blast
  moreover from this have "r_phase y c = Idle \<and> filter (\<lambda>(c', _). c' = c) (ws_sent (r_ws y)) = filter (\<lambda>(c', _). c' = c) (ws_sent (r_ws x))"
    using then_step.IH then_step.prems by blast
  moreover obtain err where "active (d_id r) (r_ws y) = Inl err"
    using revoked_evolves [OF _ _ then_step.prems(2,3)] runs_ok [OF then_step(1) then_step.prems(1)] relay_okD(1) revoked_not_active by metis
  ultimately show ?case using step_quiet [OF then_step(2)] by metis
qed simp

text \<open>
  C3: the kill switch, along runs. Once a device is revoked, whatever happens later: no handshake with its
  credential passes, an inbound frame of its sockets ends their read loops without an effect, and a socket
  of the device, opened before or after, on which no drain is under way at that moment is never written to again.
\<close>

theorem revoked_receives_nothing:
  assumes "relay_inv (st_db s)" "relay_runs env (boot s) evs x" "r \<in> set (devices (relay_db x))" "d_revoked r \<noteq> None"
    and "relay_runs env x evs' y"
  shows "ws_check verify header now (r_ws y) \<noteq> Some (p, d_id r) \<and>
    read_frame (d_id r) data now (r_ws y) = (False, r_ws y) \<and>
    ((c, p, d_id r) \<in> set (r_conns y) \<longrightarrow> r_phase x c = Idle \<longrightarrow>
       filter (\<lambda>(c', _). c' = c) (ws_sent (r_ws y)) = filter (\<lambda>(c', _). c' = c) (ws_sent (r_ws x)))"
proof -
  have x: "relay_ok x" using runs_ok [OF assms(2) boot_ok [OF assms(1)]] by blast
  have y: "relay_ok y" "evolves (\<lambda>_. True) (relay_db x) (relay_db y)" using runs_ok [OF assms(5) x] by blast+
  obtain err where dead: "active (d_id r) (r_ws y) = Inl err"
    using revoked_evolves [OF relay_okD(1) [OF y(1)] y(2) assms(3,4)] revoked_not_active by blast
  have "ws_check verify header now (r_ws y) \<noteq> Some (p, d_id r)"
    using dead by (auto simp: ws_check_def split: option.splits sum.splits prod.splits if_splits)
  moreover have "read_frame (d_id r) data now (r_ws y) = (False, r_ws y)" using dead by (simp add: read_frame_def)
  ultimately show ?thesis using runs_quiet [OF assms(5) x assms(3,4)] one_conn [OF y(1)] by blast
qed

theorem revoked_receives_nothing_witness:
  "\<exists>s1. RevokeDevice ''db'' 7 sample_store = (Inr (), s1) \<and>
     relay_runs bob_env (boot sample_store) [Internal (Socket ''db''), Opened 0 ''bob'' ''db'', Ran Operator (OpRevokeDevice ''db'') 7] (with_store s1 sample_open) \<and>
     relay_runs bob_env (with_store s1 sample_open) [Internal (Tool ''bob'' ''Bearer access'' 5)] (with_ws (Notify ''bob'' (r_ws (with_store s1 sample_open))) (with_store s1 sample_open)) \<and>
     read_frame ''db'' [] 8 (r_ws (with_store s1 sample_open)) = (False, r_ws (with_store s1 sample_open))"
proof -
  let ?s1 = "sample_store\<lparr>st_db := with_revoked ''db'' 7 sample_db\<rparr>"
  let ?x = "with_store ?s1 sample_open"
  have rev: "RevokeDevice ''db'' 7 sample_store = (Inr (), ?s1)"
    by (simp add: RevokeDevice_def writeTx_healthy revokeDeviceTx_eq [OF sample_db_ok]) (simp add: has_device_def sample_simps)
  have "relay_step bob_env sample_open (Ran Operator (OpRevokeDevice ''db'') 7) ?x"
    by (rule operation [of _ _ _ _ _ "Inr ()"]) (simp_all add: rev sample_open_def)
  from then_step [OF sample_opened this]
  have run: "relay_runs bob_env (boot sample_store) [Internal (Socket ''db''), Opened 0 ''bob'' ''db'', Ran Operator (OpRevokeDevice ''db'') 7] ?x" by simp
  have more: "relay_runs bob_env ?x [Internal (Tool ''bob'' ''Bearer access'' 5)] (with_ws (Notify ''bob'' (r_ws ?x)) ?x)" by (rule relay_runs_one [OF signal [OF bob_env_bob]])
  have "\<exists>r \<in> set (devices (relay_db ?x)). d_id r = ''db'' \<and> d_revoked r \<noteq> None" by (simp add: with_revoked_def sample_simps sql_simps)
  then obtain r where r: "r \<in> set (devices (relay_db ?x))" "d_id r = ''db''" "d_revoked r \<noteq> None" by blast
  have "read_frame ''db'' [] 8 (r_ws ?x) = (False, r_ws ?x)"
    using revoked_receives_nothing [OF sample_store_inv run r(1,3) stay, where now = 8 and data = "[]"] r(2) by auto
  with rev run more show ?thesis by blast
qed

end
