(* ===== verification/RelayRuns.thy ===== *)
theory RelayRuns
  imports RelayFacts
begin

text \<open>
  The handlers are runs of the machine: every request, read loop, drain, ticker and command, as a
  whole, is a sequence of the machine's steps in which every event is by the actor it is made for. So what holds along
  every run holds for any interleaving of the handlers' parts.
\<close>

section \<open>Sequences of operations\<close>

text \<open>The actor leads from one store to the other by operations it may run, whatever else the relay holds.\<close>

definition leads :: "relay_env \<Rightarrow> actor \<Rightarrow> store \<Rightarrow> store \<Rightarrow> bool" where
  "leads env a s s' \<longleftrightarrow> (\<forall>x. \<exists>evs. relay_runs env (with_store s x) evs (with_store s' x) \<and> (\<forall>e \<in> set evs. \<exists>op t. e = Ran a op t))"

lemma leads_refl: "leads env a s s"
  unfolding leads_def by (metis empty_iff list.set(1) stay)

lemma leads_trans:
  assumes "leads env a s1 s2" "leads env a s2 s3" shows "leads env a s1 s3"
  unfolding leads_def
proof
  fix x
  obtain evs evs' where "relay_runs env (with_store s1 x) evs (with_store s2 x)" "\<forall>e \<in> set evs. \<exists>op t. e = Ran a op t"
      "relay_runs env (with_store s2 x) evs' (with_store s3 x)" "\<forall>e \<in> set evs'. \<exists>op t. e = Ran a op t"
    using assms unfolding leads_def by blast
  then show "\<exists>evs. relay_runs env (with_store s1 x) evs (with_store s3 x) \<and> (\<forall>e \<in> set evs. \<exists>op t. e = Ran a op t)"
    by (intro exI [of _ "evs @ evs'"]) (auto intro: relay_runs_trans)
qed

lemma snd_outcome [simp]: "snd (outcome x) = snd x"
  by (simp add: outcome_def)

lemma leads_op:
  assumes "may_run env a op" "snd (run_op (re_uuid env) (relay_fresh env) op now s) = s'"
  shows "leads env a s s'"
  unfolding leads_def
proof
  fix x
  obtain r where "run_op (re_uuid env) (relay_fresh env) op now s = (r, s')" using assms(2) by (metis surjective_pairing)
  then have "relay_step env (with_store s x) (Ran a op now) (with_store s' (with_store s x))"
    using assms(1) by (intro operation) simp_all
  then show "\<exists>evs. relay_runs env (with_store s x) evs (with_store s' x) \<and> (\<forall>e \<in> set evs. \<exists>op t. e = Ran a op t)"
    by (intro exI [of _ "[Ran a op now]"]) (simp add: relay_runs_one)
qed

lemma leads_runs: "leads env a s s' \<Longrightarrow> runs_by env a (with_store s x) (with_store s' x)"
  unfolding leads_def runs_by_def by (metis agent.simps(1))

text \<open>Each operation, by its actor.\<close>

lemma leads_Enroll: "Enroll pid did tok pk label now s = (r, s') \<Longrightarrow> leads env Enrollment s s'"
  by (rule leads_op [of env Enrollment "OpEnroll pid did tok pk label" now]) simp_all

lemma leads_CreateInvite: "CreateInvite raw email ttl now s = (r, s') \<Longrightarrow> leads env Operator s s'"
  by (rule leads_op [of env Operator "OpCreateInvite raw email ttl" now]) simp_all

lemma leads_CreateAuthCode: "CreateAuthCode code b expiresAt now s = (r, s') \<Longrightarrow> leads env AuthServer s s'"
  by (rule leads_op [of env AuthServer "OpCreateCode code b expiresAt" now]) simp_all

lemma leads_ConsumeAuthCode: "ConsumeAuthCode code now s = (r, s') \<Longrightarrow> leads env AuthServer s s'"
  by (rule leads_op [of env AuthServer "OpConsumeCode code" now]) simp_all

lemma leads_CreateRefreshToken: "CreateRefreshToken tok g expiresAt now s = (r, s') \<Longrightarrow> leads env AuthServer s s'"
  by (rule leads_op [of env AuthServer "OpCreateRefresh tok g expiresAt" now]) simp_all

lemma leads_ConsumeRefreshToken: "ConsumeRefreshToken tok now s = (r, s') \<Longrightarrow> leads env AuthServer s s'"
  by (rule leads_op [of env AuthServer "OpConsumeRefresh tok" now]) simp_all

lemma leads_RegisterClient: "RegisterClient i uris name now s = (r, s') \<Longrightarrow> leads env AuthServer s s'"
  by (rule leads_op [of env AuthServer "OpRegisterClient i uris name" now]) simp_all

lemma leads_sweeps:
  "SweepMessages (relay_policy env) now s = (r, s') \<Longrightarrow> leads env Sweeper s s'"
  "SweepDrafts (relay_policy env) now s = (r, s') \<Longrightarrow> leads env Sweeper s s'"
  "PruneTombstones (relay_fresh env) now s = (r, s') \<Longrightarrow> leads env Sweeper s s'"
  "SweepOAuth now s = (r, s') \<Longrightarrow> leads env Sweeper s s'"
  using leads_op [of env Sweeper "OpSweepMessages (relay_policy env)" now s s'] leads_op [of env Sweeper "OpSweepDrafts (relay_policy env)" now s s']
    leads_op [of env Sweeper OpPrune now s s'] leads_op [of env Sweeper OpSweepOAuth now s s']
  by simp_all

section \<open>Requests and commands\<close>

text \<open>The tools: the laws of \<open>tool_relation\<close>, with the sequences of operations of one request as the relation.\<close>

definition tool_leads :: "relay_env \<Rightarrow> string \<Rightarrow> string \<Rightarrow> instant \<Rightarrow> store \<Rightarrow> store \<Rightarrow> bool" where
  "tool_leads env p header t s s' \<longleftrightarrow> (authenticated env header t p \<longrightarrow> leads env (Tool p header t) s s')"

lemma tool_leads_op:
  assumes "authenticated env header t p \<Longrightarrow> may_run env (Tool p header t) op" "snd (run_op (re_uuid env) (relay_fresh env) op now s) = s'"
  shows "tool_leads env p header t s s'"
  using leads_op [OF _ assms(2)] assms(1) by (simp add: tool_leads_def)

interpretation tools_run: tool_relation p "re_uuid env" "\<lambda>_. tool_leads env p header t" for p env header t
proof unfold_locales
  note op = tool_leads_op [of env header t p]
  fix now s s1 s2 s3 mid gid th dir i b e edit and r1 :: "store_error + thread_state" and r2 :: "store_error + unit"
    and r3 :: "store_error + string" and r4 :: "store_error + string \<times> envelope release option"
  show "tool_leads env p header t s s" by (simp add: tool_leads_def leads_refl)
  show "tool_leads env p header t s1 s2 \<Longrightarrow> tool_leads env p header t s2 s3 \<Longrightarrow> tool_leads env p header t s1 s3"
    unfolding tool_leads_def using leads_trans by blast
  show "ApproveInboundMessage p mid now s = (r1, s1) \<Longrightarrow> tool_leads env p header t s s1"
    by (rule op [of "OpApproveMessage p mid" now]) simp_all
  show "DeclineInboundMessage p mid now s = (r1, s1) \<Longrightarrow> tool_leads env p header t s s1"
    by (rule op [of "OpDeclineMessage p mid" now]) simp_all
  show "SetThreadGrant gid th p dir now s = (r2, s1) \<Longrightarrow> tool_leads env p header t s s1"
    by (rule op [of "OpSetGrant gid th p dir" now]) simp_all
  show "RevokeThreadGrant th p dir now s = (r2, s1) \<Longrightarrow> tool_leads env p header t s s1"
    by (rule op [of "OpRevokeGrant th p dir" now]) simp_all
  show "StartThread i p b now s = (r3, s1) \<Longrightarrow> tool_leads env p header t s s1"
    by (rule op [of "OpStartThread i p b" now]) simp_all
  show "CreateDraft (re_uuid env) th p e now s = (r3, s1) \<Longrightarrow> tool_leads env p header t s s1"
    by (rule op [of "OpCreateDraft th p e" now]) simp_all
  show "ReleaseDraft p i edit now s = (r4, s1) \<Longrightarrow> tool_leads env p header t s s1"
    by (rule op [of "OpRelease p i edit" now]) simp_all
  show "DiscardDraft p i now s = (r2, s1) \<Longrightarrow> tool_leads env p header t s s1"
    by (rule op [of "OpDiscard p i" now]) simp_all
  show "ReleaseReplyViaGrant i p now s = (r4, s1) \<Longrightarrow> tool_leads env p header t s s1"
    by (rule op [of "OpReleaseViaGrant i p" now]) simp_all
qed

text \<open>A call appends to the notifier's log whom it signalled.\<close>

lemma notify_appends: "\<exists>ps. h_notifier (notify q h) = map_option (\<lambda>l. l @ ps) (h_notifier h)"
  by (cases "h_notifier h") (auto simp: notify_def)

definition appends :: "handler \<Rightarrow> handler \<Rightarrow> bool" where
  "appends h h' \<longleftrightarrow> (\<exists>ps. h_notifier h' = map_option (\<lambda>l. l @ ps) (h_notifier h))"

lemma appends_same: "h_notifier h' = h_notifier h \<Longrightarrow> appends h h'"
  unfolding appends_def by (intro exI [of _ "[]"]) (simp add: option.map_ident)

lemma appends_notify: "h_notifier h1 = h_notifier h \<Longrightarrow> appends h (notify q h1)"
  unfolding appends_def using notify_appends [of q h1] by simp

lemma wait_notifier: "h_notifier (snd (wait_for_activity p ct secs now env h)) = h_notifier h"
  by (auto simp: wait_for_activity_def waitAcquire_def waitRelease_def Let_def split: if_splits)

lemma serverFor_appends: "appends h (snd (serverFor uuid_ok pr rnd p ct call now h))"
proof (cases call)
  case (WaitForActivity secs polls)
  then show ?thesis by (simp add: appends_same wait_notifier)
qed (auto simp: answer_def check_inbox_def get_thread_def approve_message_def decline_message_def verdict_tool_def set_thread_grant_def
    send_message_def approve_reply_def discard_reply_def Let_def
    intro: appends_same appends_notify split: prod.split sum.split option.split store_error.split)

text \<open>The signals of a request, one after the other.\<close>

definition signals :: "string list \<Rightarrow> relay \<Rightarrow> relay" where
  "signals ps x = fold (\<lambda>p x. with_ws (Notify p (r_ws x)) x) ps x"

lemma signals_run: "authenticated env header t q \<Longrightarrow> runs_by env (Tool q header t) x (signals ps x)"
proof (induction ps arbitrary: x)
  case Nil
  then show ?case by (simp add: signals_def runs_by_refl)
next
  case (Cons p ps)
  let ?y = "with_ws (Notify p (r_ws x)) x"
  have "runs_by env (Tool q header t) x ?y" by (rule runs_by_step [OF signal [OF Cons.prems]]) simp
  moreover have "signals (p # ps) x = signals ps ?y" by (simp add: signals_def)
  ultimately show ?case using runs_by_trans Cons.IH [OF Cons.prems] by metis
qed

lemma serveMCP_runs:
  assumes "serveMCP (re_bearer env) decode_call (re_server env) (re_uuid env) pr rnd header body now h = (r, h')"
  shows "h' = h \<or> (\<exists>q ps. authenticated env header now q \<and> leads env (Tool q header now) (h_store h) (h_store h') \<and>
    h_notifier h' = map_option (\<lambda>l. l @ ps) (h_notifier h) \<and>
    runs_by env (Tool q header now) (with_store (h_store h) x) (signals ps (with_store (h_store h') x)))"
proof (cases "h' = h")
  case False
  let ?v = "verifier (as_jwt (re_server env)) (as_issuer (re_server env))"
  obtain info where i: "re_bearer env ?v header now = Some info"
    using assms False by (cases "re_bearer env ?v header now") (auto simp: serveMCP_def)
  obtain call where "Option.bind (maxBytes maxMCPBody body) decode_call = Some call"
    using assms False i by (cases "Option.bind (maxBytes maxMCPBody body) decode_call") (auto simp: serveMCP_def)
  then have g: "snd (getServer (re_uuid env) pr rnd (PersonFromContext (Some info)) call now h) = h'"
    using assms i by (auto simp: serveMCP_def split: option.splits prod.splits)
  obtain q ct where q: "PersonFromContext (Some info) = Some (q, ct)"
    using g False by (cases "PersonFromContext (Some info)") (auto simp: getServer_def)
  have a: "authenticated env header now q" unfolding authenticated_def i using q by blast
  obtain out where run: "serverFor (re_uuid env) pr rnd q ct call now h = (out, h')"
    using g q by (cases "serverFor (re_uuid env) pr rnd q ct call now h") (simp add: getServer_def)
  then have "tool_leads env q header now (h_store h) (h_store h')" by (rule tools_run.serverFor_related)
  with a have l: "leads env (Tool q header now) (h_store h) (h_store h')" unfolding tool_leads_def by blast
  obtain ps where "h_notifier h' = map_option (\<lambda>l. l @ ps) (h_notifier h)"
    using serverFor_appends [of h "re_uuid env" pr rnd q ct call now] run by (auto simp: appends_def)
  with a l show ?thesis using runs_by_trans [OF leads_runs [OF l] signals_run [OF a]] by blast
qed simp

lemma handleEnroll_leads: "leads env Enrollment s (snd (handleEnroll sv pid did token body now minted s))"
  by (auto simp: handleEnroll_def leads_refl intro: leads_Enroll split: option.split sum.split prod.split)

lemma handleAuthorizeSubmit_leads: "leads env AuthServer s (snd (handleAuthorizeSubmit sv form now random s))"
  by (auto simp: handleAuthorizeSubmit_def leads_refl intro: leads_CreateAuthCode split: option.split sum.split prod.split)

lemma issueTokens_leads: "leads env AuthServer s (snd (issueTokens sv g now random s))"
  by (auto simp: issueTokens_def leads_refl intro: leads_CreateRefreshToken split: option.split sum.split prod.split)

lemma handleToken_leads: "leads env AuthServer s (snd (handleToken sv form now random s))"
  by (auto simp: handleToken_def tokenFromCode_def tokenFromRefresh_def Let_def leads_refl
      intro: leads_ConsumeAuthCode leads_ConsumeRefreshToken leads_trans [OF leads_ConsumeAuthCode issueTokens_leads]
        leads_trans [OF leads_ConsumeRefreshToken issueTokens_leads]
      split: option.split sum.split prod.split)

lemma handleRegister_leads: "leads env AuthServer s (snd (handleRegister sv body now new_id s))"
  by (auto simp: handleRegister_def leads_refl intro: leads_RegisterClient split: option.split sum.split prod.split)

lemma cmdInvite_leads: "leads env Operator s (snd (cmdInvite getenv opens args raw now s))"
  by (auto simp: cmdInvite_def Let_def leads_refl intro: leads_CreateInvite split: option.split sum.split prod.split)

lemma sweepOnce_leads: "leads env Sweeper s (snd (sweepOnce (re_config env) now s))"
proof -
  obtain a s1 b s2 c s3 d s4 where o: "SweepMessages (relay_policy env) now s = (a, s1)" "SweepDrafts (relay_policy env) now s1 = (b, s2)"
      "PruneTombstones (relay_fresh env) now s2 = (c, s3)" "SweepOAuth now s3 = (d, s4)" by (meson surj_pair)
  have "leads env Sweeper s s4"
    by (rule leads_trans [OF leads_trans [OF leads_trans [OF leads_sweeps(1) leads_sweeps(2)] leads_sweeps(3)] leads_sweeps(4)]) (fact o)+
  with o show ?thesis by (simp add: sweepOnce_def Let_def relay_policy_def [symmetric] relay_fresh_def [symmetric])
qed

lemma runSweeper_leads: "leads env Sweeper s (runSweeper (re_config env) ticks s)"
  unfolding runSweeper_def by (induction ticks arbitrary: s) (auto intro: leads_refl leads_trans sweepOnce_leads)

section \<open>Sockets\<close>

lemma handleWS_parts:
  "handleWS verify accepts header now w = (case ws_check verify header now w of
     None \<Rightarrow> (WsUnauthorized, w)
   | Some (p, d) \<Rightarrow> if accepts then (WsConnected p d (ws_next w), ws_register p d w) else (WsAcceptFailed, w))"
  by (auto simp: handleWS_def ws_check_def ws_register_def Let_def split: option.split sum.split prod.split)

lemma handleWS_runs:
  assumes "handleWS (verify_socket (re_server env)) accepts header now (r_ws x) = (WsConnected p d c, w)"
  shows "runs_by env (Socket d) x (x\<lparr>r_admitted := (p, d) # r_admitted x, r_ws := w, r_conns := (c, p, d) # r_conns x\<rparr>)"
proof -
  have k: "ws_check (verify_socket (re_server env)) header now (r_ws x) = Some (p, d)" "c = ws_next (r_ws x)" "w = ws_register p d (r_ws x)"
    using assms by (auto simp: handleWS_parts split: option.splits if_splits)
  let ?y = "x\<lparr>r_admitted := (p, d) # r_admitted x\<rparr>"
  have 1: "runs_by env (Socket d) x ?y" by (rule runs_by_step [OF admit [OF k(1)]]) simp
  have "relay_step env ?y (Opened c p d) (with_ws (ws_register p d (r_ws ?y)) ?y\<lparr>r_conns := (c, p, d) # r_conns ?y\<rparr>)"
    by (rule enlist) (simp_all add: k(2))
  from runs_by_trans [OF 1 runs_by_step [OF this]] show ?thesis by (simp add: k(3) with_ws_def)
qed

lemma read_frame_runs: "runs_by env (Socket d) x (with_ws (snd (read_frame d data now (r_ws x))) x)"
proof -
  have ack: "runs_by env (Socket d) x (with_ws ((r_ws x)\<lparr>ws_store := snd (Ack i d now (ws_store (r_ws x)))\<rparr>) x)" for i
  proof -
    have "leads env (Socket d) (ws_store (r_ws x)) (snd (Ack i d now (ws_store (r_ws x))))"
      by (rule leads_op [of env "Socket d" "OpAck i d" now]) simp_all
    from leads_runs [OF this, of x] show ?thesis by (simp add: with_store_def with_ws_def)
  qed
  have "runs_by env (Socket d) x (with_ws (r_ws x) x)" by (simp add: runs_by_refl)
  with ack show ?thesis by (auto simp: read_frame_def split: sum.split option.split)
qed

section \<open>The hub holds registered sockets only\<close>

lemma set_update: "set (AList.update k v xs) \<subseteq> insert (k, v) (set xs)"
  by (induction xs) auto

lemma hub_devices_iff: "x \<in> set (hub_devices h) \<longleftrightarrow> (\<exists>p m. (p, m) \<in> set h \<and> x \<in> set m)"
  by (force simp: hub_devices_def)

lemma set_by_device: "set (by_device h p) \<subseteq> set (hub_devices h)"
proof (cases "map_of h p")
  case (Some m)
  then have "(p, m) \<in> set h" by (rule map_of_SomeD)
  then have "set m \<subseteq> set (hub_devices h)" using hub_devices_iff [of _ h] by blast
  then show ?thesis using Some by (simp add: by_device_def)
qed (simp add: by_device_def)

lemma devices_update:
  assumes "set m \<subseteq> A" "set (hub_devices h) \<subseteq> A"
  shows "set (hub_devices (AList.update p m h)) \<subseteq> A"
proof
  fix x assume "x \<in> set (hub_devices (AList.update p m h))"
  then obtain q m' where "(q, m') \<in> set (AList.update p m h)" "x \<in> set m'" by (auto simp: hub_devices_iff)
  then have "(q, m') = (p, m) \<or> x \<in> set (hub_devices h)" using set_update [of p m h] hub_devices_iff by blast
  then show "x \<in> A" using assms \<open>x \<in> set m'\<close> by auto
qed

lemma devices_add: "set (hub_devices (fst (hub_add p d c h))) \<subseteq> insert (d, c) (set (hub_devices h))"
  unfolding hub_add_def fst_conv
  using set_update [of d c "by_device h p"] set_by_device [of h p] by (intro devices_update) auto

lemma devices_remove: "set (hub_devices (hub_remove p d c h)) \<subseteq> set (hub_devices h)"
proof -
  have del: "set (AList.delete k xs) \<subseteq> set xs" for k and xs :: "(string \<times> 'v) list" by (auto simp: AList.delete_eq)
  have "set (hub_devices (AList.delete p h)) \<subseteq> set (hub_devices h)" 
    using del [of p h] hub_devices_iff [of _ h] hub_devices_iff [of _ "AList.delete p h"] by blast
  moreover have "set (hub_devices (AList.update p (AList.delete d m) h)) \<subseteq> set (hub_devices h)" if "map_of h p = Some m" for m
    using del [of d m] set_by_device [of h p] that by (intro devices_update) (auto simp: by_device_def)
  ultimately show ?thesis by (auto simp: hub_remove_def Let_def split: option.split)
qed

definition hub_registered :: "relay \<Rightarrow> bool" where
  "hub_registered x \<longleftrightarrow> (\<forall>(d, c) \<in> set (hub_devices (ws_hub (r_ws x))). \<exists>p. (c, p, d) \<in> set (r_conns x))"

lemma wake_hub: "ws_hub (fold (\<lambda>(_, c). wake c) cs w) = ws_hub w" for cs :: "(string \<times> conn) list"
  by (induction cs arbitrary: w) (auto simp: wake_def)

lemma hub_frames [simp]:
  "ws_hub (Notify p w) = ws_hub w" "ws_hub (close_conn c w) = ws_hub w" "ws_hub (unwake c w) = ws_hub w"
  "ws_hub (ws_register p d w) = fst (hub_add p d (ws_next w) (ws_hub w))"
  "ws_hub (teardown p d c w) = hub_remove p d c (ws_hub w)" "ws_hub (close_hub w) = []"
  by (simp_all add: Notify_def wake_hub close_conn_def unwake_def ws_register_def wake_def teardown_def close_hub_def hub_closeAll_def Let_def
      split: prod.split option.split)

lemma step_registered:
  assumes "relay_step env x e y" "hub_registered x"
  shows "hub_registered y"
  using assms(1)
proof (cases rule: relay_step.cases)
  case (enlist p d c)
  then show ?thesis using assms(2) devices_add [of p d c "ws_hub (r_ws x)"] by (fastforce simp: hub_registered_def)
next
  case (left_off c p d)
  then show ?thesis using assms(2) devices_remove [of p d c "ws_hub (r_ws x)"] by (fastforce simp: hub_registered_def)
qed (use assms(2) in \<open>simp_all add: hub_registered_def hub_devices_def\<close>)

lemma runs_registered: "relay_runs env x evs y \<Longrightarrow> hub_registered x \<Longrightarrow> hub_registered y"
  by (induction rule: relay_runs.induct) (auto intro: step_registered)

lemma boot_registered: "hub_registered (boot s)"
  by (simp add: hub_registered_def boot_def newHub_def hub_devices_def)

text \<open>The revocation loop closes registered sockets of devices that are not active.\<close>

lemma severRevoked_runs:
  assumes "hub_registered x" shows "runs_by env Reconciler x (with_ws (severRevoked (r_ws x)) x)"
proof -
  let ?f = "\<lambda>(device, c) w. case active device w of Inl _ \<Rightarrow> close_conn c w | Inr _ \<Rightarrow> w"
  have "runs_by env Reconciler x (with_ws (fold ?f ds (r_ws x)) x)" if "\<forall>(d, c) \<in> set ds. \<exists>p. (c, p, d) \<in> set (r_conns x)" for ds and x :: relay
    using that
  proof (induction ds arbitrary: x)
    case Nil
    then show ?case by (simp add: runs_by_refl)
  next
    case (Cons dc ds)
    obtain d c where dc: "dc = (d, c)" by (cases dc)
    then obtain p where p: "(c, p, d) \<in> set (r_conns x)" using Cons.prems by auto
    show ?case
    proof (cases "active d (r_ws x)")
      case (Inl e)
      let ?y = "with_ws (close_conn c (r_ws x)) x"
      have "runs_by env Reconciler x ?y" by (rule runs_by_step [OF sever [OF p Inl]]) simp
      moreover have "runs_by env Reconciler ?y (with_ws (fold ?f ds (r_ws ?y)) ?y)" by (rule Cons.IH) (use Cons.prems in simp)
      ultimately show ?thesis using runs_by_trans by (fastforce simp: dc Inl)
    next
      case (Inr dev)
      then show ?thesis using Cons by (simp add: dc)
    qed
  qed
  then show ?thesis using assms unfolding severRevoked_def hub_registered_def by blast
qed

lemma severRevoked_hub: "ws_hub (severRevoked w) = ws_hub w"
proof -
  have "ws_hub (fold (\<lambda>(device, c) w. case active device w of Inl _ \<Rightarrow> close_conn c w | Inr _ \<Rightarrow> w) ds w) = ws_hub w"
    for ds :: "(string \<times> conn) list" by (induction ds arbitrary: w) (auto split: sum.split)
  then show ?thesis by (simp add: severRevoked_def)
qed

lemma reconcile_runs: "hub_registered x \<Longrightarrow> runs_by env Reconciler x (with_ws (reconcileRevocations n (r_ws x)) x)"
proof (induction n arbitrary: x)
  case 0
  then show ?case by (simp add: reconcileRevocations_def runs_by_refl)
next
  case (Suc n)
  let ?y = "with_ws (severRevoked (r_ws x)) x"
  have "hub_registered ?y" using Suc.prems by (simp add: hub_registered_def severRevoked_hub)
  from Suc.IH [OF this] have "runs_by env Reconciler ?y (with_ws (reconcileRevocations n (severRevoked (r_ws x))) x)" by simp
  moreover have "reconcileRevocations (Suc n) (r_ws x) = reconcileRevocations n (severRevoked (r_ws x))"
    unfolding reconcileRevocations_def by (simp only: funpow_Suc_right comp_apply)
  ultimately show ?case using runs_by_trans [OF severRevoked_runs [OF Suc.prems]] by simp
qed

section \<open>The writer of a socket\<close>

lemma with_store_ws: "with_store s (with_ws w x) = with_ws (w\<lparr>ws_store := s\<rparr>) x"
  by (simp add: with_store_def with_ws_def)

lemma in_phase_same: "r_phase x c = ph \<Longrightarrow> in_phase c ph x = x"
  by (simp add: in_phase_def fun_upd_idem)

lemma push_all_runs:
  assumes "(c, p, d) \<in> set (r_conns x)" "r_phase x c = Writing its"
  shows "runs_by env (Socket d) x (in_phase c Idle (with_ws (push_all d c write_ok now n its (r_ws x)) x))"
  using assms
proof (induction its arbitrary: n x)
  case Nil
  then show ?case using runs_by_step [OF drained [OF Nil]] by simp
next
  case (Cons it its)
  show ?case
  proof (cases "frame_marshals (message_frame it) \<and> write_ok n")
    case False
    then have "push_all d c write_ok now n (it # its) (r_ws x) = close_conn c (r_ws x)" by auto
    then show ?thesis using runs_by_step [OF write_fails [OF Cons.prems]] by simp
  next
    case True
    let ?w = "(r_ws x)\<lparr>ws_sent := ws_sent (r_ws x) @ [(c, message_frame it)]\<rparr>"
    let ?x1 = "in_phase c (Marking it its) (with_ws ?w x)"
    obtain r s' where m: "MarkDelivered (ii_ID it) d now (ws_store (r_ws x)) = (r, s')" by fastforce
    let ?x2 = "in_phase c (Writing its) (with_store s' ?x1)"
    have "relay_step env x (Wrote d c (message_frame it)) ?x1" using True Cons.prems by (intro wrote) auto
    then have 1: "runs_by env (Socket d) x ?x1" by (rule runs_by_step) simp
    have "relay_step env ?x1 (Ran (Socket d) (OpMarkDelivered (ii_ID it) d) now) ?x2"
      using Cons.prems m by (intro marked [of c p]) simp_all
    then have 2: "runs_by env (Socket d) ?x1 ?x2" by (rule runs_by_step) simp
    have w2: "r_ws ?x2 = ?w\<lparr>ws_store := s'\<rparr>" by (simp add: with_store_ws)
    have 3: "runs_by env (Socket d) ?x2 (in_phase c Idle (with_ws (push_all d c write_ok now (Suc n) its (r_ws ?x2)) ?x2))"
      using Cons.IH [of ?x2 "Suc n"] Cons.prems(1) by auto
    have "push_all d c write_ok now n (it # its) (r_ws x) = push_all d c write_ok now (Suc n) its (r_ws ?x2)"
      unfolding w2 using True m by simp
    moreover have "in_phase c Idle (with_ws w ?x2) = in_phase c Idle (with_ws w x)" for w by (simp add: with_store_ws)
    ultimately show ?thesis using runs_by_trans [OF runs_by_trans [OF 1 2] 3] by metis
  qed
qed

lemma writer_round_runs:
  assumes "(c, p, d) \<in> set (r_conns x)" "r_phase x c = Idle"
  shows "runs_by env (Socket d) x (with_ws (writer_round d c write_ok now (r_ws x)) x)"
proof (cases "c \<in> set (ws_woken (r_ws x))")
  case False
  then show ?thesis by (simp add: writer_round_def runs_by_refl)
next
  case woken: True
  let ?w = "unwake c (r_ws x)"
  have act: "active d ?w = active d (r_ws x)" by (simp add: active_def)
  have round: "writer_round d c write_ok now (r_ws x) = drainInbox d c write_ok now ?w" using woken by (simp add: writer_round_def unwake_def)
  show ?thesis
  proof (cases "active d (r_ws x)")
    case (Inl e)
    have "runs_by env (Socket d) x (with_ws (close_conn c ?w) x)" by (rule runs_by_step [OF look_fails [OF assms woken Inl]]) simp
    then show ?thesis unfolding round drainInbox_def by (simp add: act Inl)
  next
    case (Inr dev)
    let ?x1 = "in_phase c Looked (with_ws ?w x)"
    let ?items = "Inbox d (st_db (ws_store ?w))"
    let ?x2 = "in_phase c (Writing ?items) ?x1"
    have ok: "st_begin_ok (ws_store ?w)" using Inr by (simp add: active_iff)
    have 1: "runs_by env (Socket d) x ?x1" by (rule runs_by_step [OF looked [OF assms woken Inr]]) simp
    have "relay_step env ?x1 (Internal (Socket d)) ?x2" using assms(1) ok by (intro fetched [of c p d]) (simp_all add: reads_def)
    then have 2: "runs_by env (Socket d) ?x1 ?x2" by (rule runs_by_step) simp
    have 3: "runs_by env (Socket d) ?x2 (in_phase c Idle (with_ws (push_all d c write_ok now 0 ?items (r_ws ?x2)) ?x2))"
      using push_all_runs [of c p d ?x2, where its = ?items and n = 0 and env = env and write_ok = write_ok and now = now] assms(1) by auto
    have "drainInbox d c write_ok now ?w = push_all d c write_ok now 0 ?items ?w" using ok by (simp add: drainInbox_def act Inr reads_def)
    moreover have "in_phase c Idle (with_ws w ?x2) = with_ws w x" for w using assms(2) by (simp add: in_phase_same)
    ultimately show ?thesis unfolding round using runs_by_trans [OF runs_by_trans [OF 1 2] 3] by auto
  qed
qed

section \<open>Properties\<close>

text \<open>
  C4: refinement. Every handler of the relay, taken as a whole, is a run of the machine in which every event is
  its own. A request to the MCP endpoint does nothing, or it is a run by a tool call of the person it is
  authenticated for: operations that person may run, and then the signals it sent. Enrollment, the endpoints of the
  authorization server, the retention loop and the invite command are sequences of their own operations.
  A handshake, a round of the read loop, a round of a writer (its whole drain) and the end of a connection
  are runs by the socket of their device; the revocation loop is a run by the reconciler, closing the hub one by
  the main program.
\<close>

theorem handlers_are_runs:
  assumes "relay_runs env (boot s0) evs0 x" "(c, p, d) \<in> set (r_conns x)" "r_phase x c = Idle"
  shows "(case serveMCP (re_bearer env) decode_call (re_server env) (re_uuid env) pr rnd header body now h of (r, h') \<Rightarrow>
       h' = h \<or> (\<exists>q ps. authenticated env header now q \<and> leads env (Tool q header now) (h_store h) (h_store h') \<and>
         h_notifier h' = map_option (\<lambda>l. l @ ps) (h_notifier h) \<and>
         runs_by env (Tool q header now) (with_store (h_store h) x) (signals ps (with_store (h_store h') x)))) \<and>
    leads env Enrollment s (snd (handleEnroll (re_server env) pid did token body now minted s)) \<and>
    leads env AuthServer s (snd (handleAuthorizeSubmit (re_server env) form now random s)) \<and>
    leads env AuthServer s (snd (handleToken (re_server env) form now random s)) \<and>
    leads env AuthServer s (snd (handleRegister (re_server env) meta now new_id s)) \<and>
    leads env Sweeper s (runSweeper (re_config env) ticks s) \<and>
    leads env Operator s (snd (cmdInvite getenv opens args raw now s)) \<and>
    (case handleWS (verify_socket (re_server env)) accepts header now (r_ws x) of
       (WsConnected p' d' c', w) \<Rightarrow> runs_by env (Socket d') x
          (x\<lparr>r_admitted := (p', d') # r_admitted x, r_ws := w, r_conns := (c', p', d') # r_conns x\<rparr>)
     | (_, w) \<Rightarrow> w = r_ws x) \<and>
    runs_by env (Socket d) x (with_ws (snd (read_frame d data now (r_ws x))) x) \<and>
    runs_by env (Socket d) x (with_ws (writer_round d c write_ok now (r_ws x)) x) \<and>
    runs_by env (Socket d) x (with_ws (teardown p d c (r_ws x)) x) \<and>
    runs_by env Reconciler x (with_ws (reconcileRevocations n (r_ws x)) x) \<and>
    runs_by env Main x (with_ws (close_hub (r_ws x)) x)"
proof -
  have mcp: "case serveMCP (re_bearer env) decode_call (re_server env) (re_uuid env) pr rnd header body now h of (r, h') \<Rightarrow>
       h' = h \<or> (\<exists>q ps. authenticated env header now q \<and> leads env (Tool q header now) (h_store h) (h_store h') \<and>
         h_notifier h' = map_option (\<lambda>l. l @ ps) (h_notifier h) \<and>
         runs_by env (Tool q header now) (with_store (h_store h) x) (signals ps (with_store (h_store h') x)))"
    using serveMCP_runs by (auto split: prod.split)
  have ws: "case handleWS (verify_socket (re_server env)) accepts header now (r_ws x) of
       (WsConnected p' d' c', w) \<Rightarrow> runs_by env (Socket d') x
          (x\<lparr>r_admitted := (p', d') # r_admitted x, r_ws := w, r_conns := (c', p', d') # r_conns x\<rparr>)
     | (_, w) \<Rightarrow> w = r_ws x"
    using handleWS_runs by (auto simp: handleWS_parts split: prod.split ws_answer.split option.split if_splits)
  have gone: "runs_by env (Socket d) x (with_ws (teardown p d c (r_ws x)) x)" by (rule runs_by_step [OF left_off [OF assms(2)]]) simp
  have stop: "runs_by env Main x (with_ws (close_hub (r_ws x)) x)" by (rule runs_by_step [OF shutdown]) simp
  have "hub_registered x" using runs_registered [OF assms(1) boot_registered] .
  then show ?thesis
    using mcp ws gone stop by (intro conjI handleEnroll_leads handleAuthorizeSubmit_leads handleToken_leads handleRegister_leads runSweeper_leads
      cmdInvite_leads read_frame_runs writer_round_runs [OF assms(2,3)] reconcile_runs)
qed

theorem handlers_are_runs_witness:
  "\<exists>evs. relay_runs bob_env sample_open evs (with_ws (writer_round ''db'' 0 (\<lambda>_. True) 7 (r_ws sample_open)) sample_open) \<and>
     (\<forall>e \<in> set evs. agent e = Socket ''db'')"
proof -
  have "(0, ''bob'', ''db'') \<in> set (r_conns sample_open)" "r_phase sample_open 0 = Idle" by (simp_all add: sample_open_def)
  note runs = handlers_are_runs [OF sample_opened this, where write_ok = "\<lambda>_. True" and now = 7]
  show ?thesis
    unfolding runs_by_def [symmetric]
    using runs [THEN conjunct2, THEN conjunct2, THEN conjunct2, THEN conjunct2, THEN conjunct2, THEN conjunct2, THEN conjunct2,
        THEN conjunct2, THEN conjunct2, THEN conjunct1] .
qed

end
