(* ===== verification/Spec2Isabelle.thy ===== *)
theory Spec2Isabelle
  imports Signature McpFacts RedactFacts RelayRuns
begin

text \<open>
  askrelay is a relay for messages between people's coding agents. People enroll devices with
  invites, agents reach the relay through MCP tools behind an OAuth authorization server, devices
  hold WebSocket connections, and every message passes an approval gate in both directions. All
  durable state is one SQLite database. This library models the whole Go program under
  \<open>src/internal/\<close> and \<open>src/cmd/askrelay/\<close>, function by function, and proves what
  the relay promises its users. Names are the source's; a name that clashes gets a suffix.

  \<^bold>\<open>How the parts fit together.\<close> The command line (\<open>main.go\<close>) loads a configuration, opens
  and migrates the database, loads the signing key and runs the HTTP server. The server routes to
  enrollment, the authorization server, the MCP endpoint and the WebSocket hub; an hourly retention
  pass runs beside them. Each of them is a client of the store, whose operations are single
  transactions under one mutex. The store asks the pure approval gate for every decision and
  stores envelopes as JSON bytes. The hub pushes what the store's inbox query returns; the store
  operations that deliver something wake the hub. Redaction is a library for the client side.

  \<^bold>\<open>Conventions.\<close> A Go string or byte slice is a list of 8-bit characters, a \<open>time.Time\<close> is
  a number of nanoseconds (\<open>instant\<close>, with an offset where the zone is printed), columns hold unix
  seconds. \<open>time.Duration\<close> is \<open>int\<close>, and a 64-bit word in \<open>McpWait\<close>, where a client chooses the
  factor that can wrap. A function returning \<open>(x, err)\<close> returns a sum. Time and fresh ids are
  arguments, one for each reading or draw of the code.

  \<^bold>\<open>The theories.\<close>

  Foundations. \<open>Prelude\<close>: results, and what SQL statements do to a list of rows. \<open>Codec\<close>:
  bytes, UTF-8 and UTF-16, decimal, hexadecimal, base64. \<open>Json\<close>: scanner, parser with Go's
  nesting limit, printer of \<open>encoding/json\<close>; \<open>JsonFacts\<close>: the parser inverts the printer.
  \<open>GoTime\<close>: the calendar and RFC 3339; \<open>TimeFacts\<close>: times and base64 read back. \<open>Float64\<close>:
  \<open>strconv\<close>'s parsing and shortest printing of doubles. \<open>Sha256\<close>: FIPS 180-4 on 32-bit
  words. \<open>Url\<close>: \<open>net/url.Parse\<close>. \<open>Runes\<close>: texts cut into runes, for the regular
  expressions.

  Messages. \<open>Gate\<close> is \<open>a2a.go\<close>, \<open>gate/states.go\<close> and \<open>gate/gate.go\<close>: the transition
  functions and the release they mint, with their complete tables; the locale \<open>one_way_gate\<close> holds
  what both directions share. \<open>Canon\<close> is \<open>envelope/canon.go\<close>, \<open>Envelope\<close> is
  \<open>envelope.go\<close> and \<open>sign.go\<close>. \<open>EnvelopeFacts\<close>, \<open>CanonFacts\<close> and \<open>Signature\<close> prove
  that an envelope survives its JSON form, that the canonical form determines every signed field,
  which caps \<open>Validate\<close> enforces in which order, and that a signed envelope still verifies after it
  was marshalled and decoded.

  The store (\<open>relay/store/\<close>). \<open>StoreSchema\<close>: the tables, the constraints of the migrations as
  \<open>schema_ok\<close>, transactions (\<open>writeTx\<close>) and the invariant \<open>relay_inv\<close>. One theory per file:
  \<open>StoreIdentity\<close>, \<open>StoreMessage\<close>, \<open>StoreApproval\<close>, \<open>StoreDraft\<close>, \<open>StoreRead\<close>,
  \<open>StoreRetention\<close>, \<open>StoreOAuth\<close>. Each has the transaction functions (\<open>...Tx\<close>), the exported
  methods, their effect on every branch, and the interpretation of the locale \<open>tx_keeps\<close> (a
  transaction keeps the invariant, an error rolls back). \<open>History\<close> extends that locale to
  \<open>tx_history\<close>: what no operation takes back (tombstones, revocations, used invites, parties).
  \<open>StoreMachine\<close> is the machine of all operations with the clock: along every run an inbox
  belongs to one person, messages are not replayed, revocations are permanent, errors change
  nothing. \<open>Migrate\<close> is \<open>migrate.go\<close> with \<open>Open\<close>: migrations are staged and never run twice.

  Agents (\<open>relay/mcp/\<close>). \<open>McpWait\<close> is \<open>handler.go\<close> and \<open>wait.go\<close>: the clamp on the
  requested wait, the slots per person and the long poll. \<open>Spotlight\<close> is \<open>spotlight.go\<close>: the
  locale \<open>scheme_pattern\<close> proves a defanging expression complete, \<open>nested_patterns\<close> that two of
  them compose; a block is one fence its content cannot close. \<open>Mcp\<close> holds the tools.
  \<open>Confinement\<close> (locales \<open>confined_tx\<close> and \<open>tool_relation\<close>) shows that a call changes only what
  its person may change; \<open>McpFacts\<close> what the tools deliver and refuse.

  The network side (\<open>relay/\<close>). \<open>Hub\<close> is \<open>ws.go\<close>: handshake, frames, draining, pushing,
  severing; the locale \<open>registry\<close> is the contract of the connection table, interpreted by the
  nested maps, and the hub refines one flat map. \<open>Tokens\<close> is \<open>oauth/token.go\<close>, \<open>device.go\<close>,
  \<open>as.go\<close> and \<open>prm.go\<close>. \<open>OAuthFlow\<close> is \<open>oauth_authorize.go\<close>, \<open>oauth_token.go\<close> and
  \<open>oauth_dcr.go\<close>; \<open>OAuthFacts\<close> shows to whom it redirects, what each exchange yields and
  consumes, and that the whole flow works. \<open>Config\<close> is \<open>config.go\<close>; in \<open>ConfigFacts\<close> the
  locale \<open>flag_field\<close> gives every setting its precedence. \<open>Server\<close> is \<open>server.go\<close>,
  \<open>enroll.go\<close> and \<open>cmd/askrelay/main.go\<close>; \<open>ServerFacts\<close> follows a printed invite to a
  connected socket and a bearer token to a tool, and covers retention and registration
  (\<open>invite_base_with_path\<close>: a base URL with a path prints a link the mux does not serve).

  The whole relay. \<open>Relay\<close> is \<open>Run\<close> of \<open>server.go\<close> as one machine: requests, sockets, the retention
  and revocation loops, the operator and shutdown interleave at the grain of one store operation, one hub
  operation, one socket write. Every event names its actor (a call, a socket, the reconciler, the main
  goroutine, the environment), and \<open>runs_by\<close> is a run whose events are one actor's.
  \<open>RelayFacts\<close> proves, along every run, that a new message is the reviewed draft of its authenticated
  sender, word for word or with the call's edit, that a socket shows only its owner's messages, and that a revoked
  device is cut off (locale \<open>tx_silent\<close>: the transactions that add no message). \<open>RelayRuns\<close> shows that
  the handlers, taken whole, are runs of this machine by their own actor, so the results hold for them.

  The client side. \<open>Redact\<close> is \<open>redact/redact.go\<close> and \<open>hook.go\<close>: the rules as regular
  expressions with a leftmost-first matcher. \<open>RedactFacts\<close> (locales \<open>secret_words\<close> and
  \<open>covering\<close>): no key id and no key header is left, nothing but matches is rewritten, the hook
  fails closed.

  \<^bold>\<open>State and steps.\<close> The state of the store is \<open>store\<close>: the committed database and whether the
  connection can begin and commit. The handler of the tools adds the occupied slots, the server the
  hub, the closed sockets, the pending wakes and what each socket has been sent. \<open>store_step\<close>,
  \<open>slot_step\<close>, \<open>hub_step\<close> and, for the whole, \<open>relay_step\<close> are the steps; concurrent callers are
  sequences of them, because every writer holds the mutex for its whole transaction and the hub for each
  operation. What runs between two polls of a waiting call is arbitrary: the environment of
  \<open>wait_for_activity\<close>.

  \<^bold>\<open>Bounds and fuel.\<close> The JSON parser has \<open>2 * length s + 2\<close> units of fuel for a text of
  \<open>length s\<close> code points: every call consumes a code point or returns, so it never runs out
  before the text does; the nesting limit is Go's 10000. Shortest printing of a double tries 17
  digits, which identify every double; trimming removes at most 800 zeros, more than 17. The long
  poll is a \<open>partial_function\<close>: that it returns is a theorem, under a clock that advances. All
  other recursions are structural or have a termination proof.

  \<^bold>\<open>Parameters.\<close> Third-party code and the operating system are arguments. Ed25519
  (\<open>ed_sign\<close>, \<open>ed_verify\<close>, key derivation) is one; each property names what it needs of it. The
  JWT library is \<open>jwt_lib\<close>, with \<open>jwt_documented\<close>: a token it signed parses back to its claims
  when issuer, audience and times are right, and is refused otherwise. The bearer middleware is constrained by
  \<open>bearer_documented\<close>: the token information it passes on comes from the verifier; and
  \<open>bearer_from_header\<close> adds that the token it verified is the one the request's header carries. Plain arguments
  are the UUID and IPv6 syntax checks, whether a non-ASCII rune is printable, the execution of a
  migration's text, the decoding of an MCP request into a call, the WebSocket library's acceptance and
  write outcomes, random bytes, the file system and the run of the redaction hook's program.
  Every property with such a hypothesis has an instance in which it holds.

  \<^bold>\<open>Not modelled.\<close> The listener with its timeouts and the graceful shutdown of \<open>Run\<close> beyond closing the
  hub; when the tickers fire (the times of the ticks are arguments). Log lines except the status
  of the access log, and its timing. The execution and escaping of the login page's HTML template; its
  data and headers are modelled. Other response headers and the form decoder. Usage texts and signals.
  Sessions and tool registration of the MCP SDK. SQLite beyond its effect on rows and its constraint
  checks. \<open>internal/daemon\<close> is a package comment only.

  \<^bold>\<open>What modelling showed.\<close> Where the code and its comments differ, a lemma says so:
  \<open>HasActivity_spurious\<close> (activity without anything to decide), \<open>send_message_leaves_thread\<close>,
  \<open>refresh_mismatch_burns\<close>, \<open>effectiveTimeout_overflow\<close>, \<open>defang_gap\<close>,
  \<open>part_type_not_defanged\<close>, \<open>Redact_not_idempotent\<close>, \<open>key_race\<close>,
  \<open>key_write_failure_stays\<close>, \<open>trailing_hash_accepted\<close>, \<open>recoverPanic_log_differs\<close>.
\<close>

end
